(* ===== verification/Prelude.thy ===== *)
theory Prelude
  imports Main
    "HOL-Library.List_Lexorder"
    "HOL-Library.Char_ord"
    "HOL-Library.Product_Lexorder"
    "HOL-Library.AList"
    "HOL-Library.Multiset"
begin

text \<open>
  What every theory of the development shares.

  A Python \<open>str\<close> is a \<^typ>\<open>string\<close>: one \<^typ>\<open>char\<close> is one code point, so
  the model covers the strings whose code points are below 256, and \<open>length\<close> is Python's
  \<open>len\<close>; \<open>bytes\<close> are lists of \<^typ>\<open>char\<close> too. The order of
  \<open>HOL-Library.List_Lexorder\<close> on them is Python's. A Python \<open>dict\<close> is an association
  list in insertion order with distinct keys: \<open>map_of\<close> is \<open>get\<close> and
  \<open>AList.update\<close> is item assignment (an existing key keeps its place, a new key goes
  last). A call that may raise returns a value of \<open>'a res\<close>: \<open>Inl\<close> the exception
  or \<open>Inr\<close> the result.
\<close>

section \<open>Exceptions\<close>

text \<open>
  The exception classes of \<open>errors.py\<close>, the built-in ones the code raises or catches,
  and \<open>Foreign\<close> for an exception of the caller's code, by the name of its class (the flag
  says whether its class refuses new attributes). \<open>Marked e\<close> is the exception \<open>e\<close>
  with the attribute \<open>_pollard_post_dispatch_outcome_unknown\<close> set.
\<close>

datatype exc =
    KeyError string
  | TypeError string
  | ValueError string
  | RuntimeErr string
  | AssertionError
  | IntegrityError string
  | UnsupportedSchema string
  | BudgetExceeded string string
  | PolicyViolation string string
  | ConfirmationRequired string string
  | MissingRecording string string string
  | DuplicateRecording string string string int
  | PostDispatchOutcomeUnknown exc
  | CallCleanupError "exc list"
  | ReservationLeaseLost string string string "string option"
  | ReservationUncertain string string
  | SettlementUncertain string string
  | Foreign string bool
  | Marked exc

type_synonym 'a res = "exc + 'a"

definition bindR :: "'a res \<Rightarrow> ('a \<Rightarrow> 'b res) \<Rightarrow> 'b res" where
  "bindR m f = (case m of Inl e \<Rightarrow> Inl e | Inr x \<Rightarrow> f x)"

lemma bindR_simps [simp]: "bindR (Inl e) f = Inl e" "bindR (Inr x) f = f x"
  by (simp_all add: bindR_def)

lemma bindR_Inr_iff: "bindR m f = Inr y \<longleftrightarrow> (\<exists>x. m = Inr x \<and> f x = Inr y)"
  by (cases m) auto

lemma bindR_Inl_iff:
  "bindR m f = Inl e \<longleftrightarrow> m = Inl e \<or> (\<exists>x. m = Inr x \<and> f x = Inl e)"
  by (cases m) auto

lemma bindR_Inr_cong: "m = m' \<Longrightarrow> (\<And>x. m' = Inr x \<Longrightarrow> f x = g x) \<Longrightarrow> bindR m f = bindR m' g"
  by (cases m') auto

text \<open>\<open>if not b: raise e\<close>.\<close>

definition ensure :: "bool \<Rightarrow> exc \<Rightarrow> unit res" where
  "ensure b e = (if b then Inr () else Inl e)"

lemma ensure_simps [simp]:
  "ensure True e = Inr ()"
  "ensure False e = Inl e"
  "ensure b e = Inr u \<longleftrightarrow> b"
  "ensure b e = Inl e' \<longleftrightarrow> \<not> b \<and> e = e'"
  by (auto simp: ensure_def)

text \<open>A loop that collects results and stops at the first exception.\<close>

fun mapR :: "('a \<Rightarrow> 'b res) \<Rightarrow> 'a list \<Rightarrow> 'b list res" where
  "mapR f [] = Inr []"
| "mapR f (x # xs) = bindR (f x) (\<lambda>y. bindR (mapR f xs) (\<lambda>ys. Inr (y # ys)))"

lemma mapR_Inr: "(\<And>x. x \<in> set xs \<Longrightarrow> f x = Inr (g x)) \<Longrightarrow> mapR f xs = Inr (map g xs)"
  by (induction xs) auto

lemma mapR_Inr_length: "mapR f xs = Inr ys \<Longrightarrow> length ys = length xs"
  by (induction xs arbitrary: ys) (auto simp: bindR_Inr_iff)

lemma mapR_Inr_nth: "mapR f xs = Inr ys \<Longrightarrow> i < length xs \<Longrightarrow> f (xs ! i) = Inr (ys ! i)"
  by (induction xs arbitrary: ys i) (auto simp: bindR_Inr_iff nth_Cons split: nat.splits)

lemma mapR_Inr_elem: "mapR f xs = Inr ys \<Longrightarrow> x \<in> set xs \<Longrightarrow> \<exists>y \<in> set ys. f x = Inr y"
  by (induction xs arbitrary: ys) (fastforce simp: bindR_Inr_iff)+

text \<open>A loop that only checks, stopping at the first exception.\<close>

fun forR :: "('a \<Rightarrow> unit res) \<Rightarrow> 'a list \<Rightarrow> unit res" where
  "forR f [] = Inr ()"
| "forR f (x # xs) = bindR (f x) (\<lambda>_. forR f xs)"

lemma forR_Inr_iff: "forR f xs = Inr u \<longleftrightarrow> (\<forall>x \<in> set xs. f x = Inr ())"
  by (induction xs) (auto simp: bindR_Inr_iff)

text \<open>A loop that updates a state and stops at the first exception.\<close>

fun foldR :: "('s \<Rightarrow> 'a \<Rightarrow> 's res) \<Rightarrow> 's \<Rightarrow> 'a list \<Rightarrow> 's res" where
  "foldR f s [] = Inr s"
| "foldR f s (x # xs) = bindR (f s x) (\<lambda>s'. foldR f s' xs)"

lemma foldR_append: "foldR f s (xs @ ys) = bindR (foldR f s xs) (\<lambda>s'. foldR f s' ys)"
  by (induction xs arbitrary: s) (auto simp: bindR_def split: sum.splits)

text \<open>
  A call that may also run for ever: \<open>None\<close> is not returning. \<open>bindO\<close> sequences such calls.
\<close>

definition bindO :: "'a res option \<Rightarrow> ('a \<Rightarrow> 'b res option) \<Rightarrow> 'b res option" where
  "bindO m f = (case m of None \<Rightarrow> None | Some (Inl e) \<Rightarrow> Some (Inl e) | Some (Inr x) \<Rightarrow> f x)"

lemma bindO_simps [simp]:
  "bindO None f = None" "bindO (Some (Inl e)) f = Some (Inl e)" "bindO (Some (Inr x)) f = f x"
  by (simp_all add: bindO_def)

lemma bindO_Inr_iff: "bindO m f = Some (Inr y) \<longleftrightarrow> (\<exists>x. m = Some (Inr x) \<and> f x = Some (Inr y))"
  by (auto simp: bindO_def split: option.splits sum.splits)

fun foldO :: "('s \<Rightarrow> 'a \<Rightarrow> 's res option) \<Rightarrow> 's \<Rightarrow> 'a list \<Rightarrow> 's res option" where
  "foldO f s [] = Some (Inr s)"
| "foldO f s (x # xs) = bindO (f s x) (\<lambda>s'. foldO f s' xs)"

section \<open>Strings and dictionaries\<close>

definition concat_sep :: "string \<Rightarrow> string list \<Rightarrow> string" where
  "concat_sep sep xs = (case xs of [] \<Rightarrow> [] | y # ys \<Rightarrow> y @ concat (map (\<lambda>z. sep @ z) ys))"

lemma concat_sep_simps [simp]:
  "concat_sep sep [] = []"
  "concat_sep sep [x] = x"
  "concat_sep sep (x # y # ys) = x @ sep @ concat_sep sep (y # ys)"
  by (simp_all add: concat_sep_def)

definition digit_char :: "nat \<Rightarrow> char" where
  "digit_char d = char_of (48 + d)"

fun nat_digits :: "nat \<Rightarrow> string" where
  "nat_digits n = (if n < 10 then [digit_char n] else nat_digits (n div 10) @ [digit_char (n mod 10)])"

declare nat_digits.simps [simp del]

text \<open>Python's \<open>str\<close> of an \<open>int\<close>.\<close>

definition int_str :: "int \<Rightarrow> string" where
  "int_str i = (if i < 0 then ''-'' @ nat_digits (nat (- i)) else nat_digits (nat i))"

text \<open>A name that \<open>str.strip\<close> leaves alone; the characters \<open>str.isspace\<close> accepts below 256.\<close>

definition is_space :: "char \<Rightarrow> bool" where
  "is_space c \<longleftrightarrow> (let n = of_char c in (9 \<le> n \<and> n \<le> 13) \<or> (28 \<le> n \<and> n \<le> 32) \<or> n = (133::nat) \<or> n = 160)"

definition str_strip :: "string \<Rightarrow> string" where
  "str_strip s = rev (dropWhile is_space (rev (dropWhile is_space s)))"

abbreviation dget :: "(string \<times> 'v) list \<Rightarrow> string \<Rightarrow> 'v option" where
  "dget d k \<equiv> map_of d k"

abbreviation dset :: "string \<Rightarrow> 'v \<Rightarrow> (string \<times> 'v) list \<Rightarrow> (string \<times> 'v) list" where
  "dset k v d \<equiv> AList.update k v d"

definition dget_or :: "(string \<times> 'v) list \<Rightarrow> string \<Rightarrow> 'v \<Rightarrow> 'v" where
  "dget_or d k v = (case dget d k of None \<Rightarrow> v | Some x \<Rightarrow> x)"

text \<open>\<open>{**d, **patch}\<close> and \<open>d.update(patch)\<close>.\<close>

definition dmerge :: "(string \<times> 'v) list \<Rightarrow> (string \<times> 'v) list \<Rightarrow> (string \<times> 'v) list" where
  "dmerge d patch = fold (\<lambda>(k, v). dset k v) patch d"

abbreviation distinct_keys :: "(string \<times> 'v) list \<Rightarrow> bool" where
  "distinct_keys d \<equiv> distinct (map fst d)"

lemma distinct_keys_dset [simp]: "distinct_keys d \<Longrightarrow> distinct_keys (dset k v d)"
  by (rule distinct_update)

lemma distinct_keys_dmerge: "distinct_keys d \<Longrightarrow> distinct_keys (dmerge d p)"
  by (induction p arbitrary: d) (auto simp: dmerge_def)

lemma map_of_dset [simp]: "map_of (dset k v d) = (map_of d)(k \<mapsto> v)"
  by (rule update_conv')

lemma dset_new: "k \<notin> fst ` set d \<Longrightarrow> dset k v d = d @ [(k, v)]"
  by (induction d) auto

lemma map_fst_dset_old: "k \<in> fst ` set d \<Longrightarrow> map fst (dset k v d) = map fst d"
  by (induction d) auto

lemma set_dset_subset: "set (dset k v d) \<subseteq> insert (k, v) (set d)"
  by (induction d) auto

lemma dget_or_dset: "dget_or (dset k v d) j w = (if j = k then v else dget_or d j w)"
  by (simp add: dget_or_def)

lemma set_dmerge_subset: "set (dmerge d p) \<subseteq> set d \<union> set p"
proof (induction p arbitrary: d)
  case (Cons kv p)
  obtain k v where kv: "kv = (k, v)" by (cases kv)
  have "dmerge d (kv # p) = dmerge (dset k v d) p" by (simp add: dmerge_def kv)
  then show ?case using Cons.IH [of "dset k v d"] set_dset_subset [of k v d] kv by auto
qed (simp add: dmerge_def)

lemma map_of_dmerge: "distinct_keys p \<Longrightarrow> map_of (dmerge d p) = map_of d ++ map_of p"
proof (induction p arbitrary: d)
  case Nil
  then show ?case by (simp add: dmerge_def)
next
  case (Cons kv p)
  obtain k v where kv: "kv = (k, v)" by (cases kv)
  from Cons.prems kv have k: "map_of p k = None"
    by (auto simp: map_of_eq_None_iff)
  have "map_of (dmerge d (kv # p)) = map_of (dmerge (dset k v d) p)"
    by (simp add: dmerge_def kv)
  also have "\<dots> = (map_of d)(k \<mapsto> v) ++ map_of p"
    using Cons kv by simp
  finally show ?case using k
    by (auto simp: kv fun_eq_iff map_add_def split: option.splits)
qed

text \<open>Adding to a Python \<open>set\<close> of strings, held as a list without duplicates.\<close>

definition set_add :: "'a \<Rightarrow> 'a list \<Rightarrow> 'a list" where
  "set_add x xs = (if x \<in> set xs then xs else xs @ [x])"

lemma set_add_simps [simp]:
  "set (set_add x xs) = insert x (set xs)"
  "distinct (set_add x xs) \<longleftrightarrow> distinct xs"
  by (auto simp: set_add_def)

section \<open>Numbers in text\<close>

lemma of_char_digit_char: "d < 10 \<Longrightarrow> (of_char (digit_char d) :: nat) = 48 + d"
  by (simp add: digit_char_def)

lemma nat_digits_nonempty [simp]: "nat_digits n \<noteq> []"
  by (subst nat_digits.simps) simp

definition is_digit :: "char \<Rightarrow> bool" where
  "is_digit c \<longleftrightarrow> 48 \<le> (of_char c :: nat) \<and> (of_char c :: nat) \<le> 57"

definition digit_val :: "char \<Rightarrow> nat" where
  "digit_val c = of_char c - 48"

definition digits_val :: "string \<Rightarrow> nat" where
  "digits_val s = fold (\<lambda>c n. 10 * n + digit_val c) s 0"

lemma is_digit_digit_char: "d < 10 \<Longrightarrow> is_digit (digit_char d)"
  by (simp add: is_digit_def of_char_digit_char)

lemma nat_digits_digits: "c \<in> set (nat_digits n) \<Longrightarrow> is_digit c"
proof (induction n rule: nat_digits.induct)
  case (1 n)
  then show ?case
    by (subst (asm) (2) nat_digits.simps) (auto simp: is_digit_digit_char split: if_splits)
qed

lemma digits_val_nat_digits [simp]: "digits_val (nat_digits n) = n"
proof (induction n rule: nat_digits.induct)
  case (1 n)
  show ?case
  proof (cases "n < 10")
    case True
    then show ?thesis
      by (subst nat_digits.simps) (simp add: digits_val_def digit_val_def of_char_digit_char)
  next
    case False
    with 1 have "digits_val (nat_digits (n div 10)) = n div 10" by simp
    with False show ?thesis
      by (subst nat_digits.simps) (simp add: digits_val_def digit_val_def of_char_digit_char)
  qed
qed

lemma nat_digits_inject [simp]: "nat_digits m = nat_digits n \<longleftrightarrow> m = n"
  by (metis digits_val_nat_digits)

lemma nat_digits_hd: "hd (nat_digits n) = digit_char 0 \<longleftrightarrow> n = 0"
proof (induction n rule: nat_digits.induct)
  case (1 n)
  show ?case
  proof (cases "n < 10")
    case True
    have "digit_char n = digit_char 0 \<longleftrightarrow> n = 0"
      using True of_char_digit_char [of n] of_char_digit_char [of 0] by force
    with True show ?thesis by (subst nat_digits.simps) simp
  next
    case False
    then have "hd (nat_digits n) = hd (nat_digits (n div 10))"
      by (subst nat_digits.simps) simp
    with False 1 show ?thesis by (simp add: div_eq_0_iff)
  qed
qed

lemma nat_digits_0: "nat_digits 0 = [digit_char 0]"
  by (subst nat_digits.simps) simp

end
