(* ===== verification/Sha256.thy ===== *)
theory Sha256
  imports Prelude
begin

unbundle bit_operations_syntax

text \<open>
  \<open>hashlib.sha256(data).hexdigest()\<close> of the standard library, which every identity of the
  program is built on: FIPS 180-4 on 32-bit words, each word an \<^typ>\<open>int\<close> in
  \<open>0 ..< 2\<^sup>3\<^sup>2\<close> with the reduction written out, so that the digests of concrete
  payloads evaluate in the kernel. The theory shows the shape of a digest (64 lowercase
  hexadecimal characters); the theory \<open>Vectors\<close> evaluates published digests.
\<close>

section \<open>The compression function\<close>

definition round_constants :: "int list" where
  "round_constants =
    [1116352408, 1899447441, 3049323471, 3921009573, 961987163, 1508970993, 2453635748,
     2870763221, 3624381080, 310598401, 607225278, 1426881987, 1925078388, 2162078206,
     2614888103, 3248222580, 3835390401, 4022224774, 264347078, 604807628, 770255983,
     1249150122, 1555081692, 1996064986, 2554220882, 2821834349, 2952996808, 3210313671,
     3336571891, 3584528711, 113926993, 338241895, 666307205, 773529912, 1294757372,
     1396182291, 1695183700, 1986661051, 2177026350, 2456956037, 2730485921, 2820302411,
     3259730800, 3345764771, 3516065817, 3600352804, 4094571909, 275423344, 430227734,
     506948616, 659060556, 883997877, 958139571, 1322822218, 1537002063, 1747873779,
     1955562222, 2024104815, 2227730452, 2361852424, 2428436474, 2756734187, 3204031479,
     3329325298]"

definition initial_hash :: "int list" where
  "initial_hash =
    [1779033703, 3144134277, 1013904242, 2773480762, 1359893119, 2600822924, 528734635,
     1541459225]"

definition word32 :: "int \<Rightarrow> int" where
  "word32 x = x mod 0x100000000"

definition rotr32 :: "nat \<Rightarrow> int \<Rightarrow> int" where
  "rotr32 n x = x div 2 ^ n + x mod 2 ^ n * 2 ^ (32 - n)"

definition small_sigma0 :: "int \<Rightarrow> int" where
  "small_sigma0 x = rotr32 7 x XOR rotr32 18 x XOR (x div 2 ^ 3)"

definition small_sigma1 :: "int \<Rightarrow> int" where
  "small_sigma1 x = rotr32 17 x XOR rotr32 19 x XOR (x div 2 ^ 10)"

definition big_sigma0 :: "int \<Rightarrow> int" where
  "big_sigma0 x = rotr32 2 x XOR rotr32 13 x XOR rotr32 22 x"

definition big_sigma1 :: "int \<Rightarrow> int" where
  "big_sigma1 x = rotr32 6 x XOR rotr32 11 x XOR rotr32 25 x"

definition choose32 :: "int \<Rightarrow> int \<Rightarrow> int \<Rightarrow> int" where
  "choose32 e f g = (e AND f) XOR ((0xFFFFFFFF - e) AND g)"

definition majority32 :: "int \<Rightarrow> int \<Rightarrow> int \<Rightarrow> int" where
  "majority32 a b c = (a AND b) XOR (a AND c) XOR (b AND c)"

fun compress_step :: "int \<times> int \<Rightarrow> int list \<Rightarrow> int list" where
  "compress_step (k, w) [a, b, c, d, e, f, g, h] =
    (let t1 = word32 (h + big_sigma1 e + choose32 e f g + k + w);
         t2 = word32 (big_sigma0 a + majority32 a b c)
     in [word32 (t1 + t2), a, b, c, word32 (d + t1), e, f, g])"
| "compress_step _ s = s"

text \<open>The message schedule from a window of the last 16 words, oldest first.\<close>

fun schedule :: "nat \<Rightarrow> int list \<Rightarrow> int list" where
  "schedule 0 ws = []"
| "schedule (Suc n) ws =
    (case ws of [] \<Rightarrow> []
     | w # rest \<Rightarrow>
         w # schedule n (rest @ [word32 (small_sigma1 (ws ! 14) + ws ! 9
                                          + small_sigma0 (ws ! 1) + w)]))"

definition compress_block :: "int list \<Rightarrow> int list \<Rightarrow> int list" where
  "compress_block h blk =
    map2 (\<lambda>x y. word32 (x + y)) h (fold compress_step (zip round_constants (schedule 64 blk)) h)"

section \<open>Padding and digest\<close>

definition byte_val :: "char \<Rightarrow> int" where
  "byte_val c = of_char c"

definition be_bytes :: "nat \<Rightarrow> nat \<Rightarrow> int list" where
  "be_bytes k n = map (\<lambda>i. int ((n div 256 ^ i) mod 256)) (rev [0..<k])"

definition padded :: "string \<Rightarrow> int list" where
  "padded s =
    (let n = length s in
     map byte_val s @ [0x80] @ replicate ((119 - n mod 64) mod 64) 0 @ be_bytes 8 (8 * n))"

fun be_words :: "int list \<Rightarrow> int list" where
  "be_words (a # b # c # d # rest) =
    (a * 0x1000000 + b * 0x10000 + c * 0x100 + d) # be_words rest"
| "be_words _ = []"

function blocks16 :: "int list \<Rightarrow> int list list" where
  "blocks16 ws = (if ws = [] then [] else take 16 ws # blocks16 (drop 16 ws))"
  by pat_completeness auto
termination
  by (relation "measure length") auto

declare blocks16.simps [simp del]

definition hex_char :: "int \<Rightarrow> char" where
  "hex_char d = ''0123456789abcdef'' ! nat d"

definition hex32 :: "int \<Rightarrow> string" where
  "hex32 w = map (\<lambda>i. hex_char ((w div 16 ^ i) mod 16)) [7, 6, 5, 4, 3, 2, 1, 0]"

definition sha256_words :: "string \<Rightarrow> int list" where
  "sha256_words s = fold (\<lambda>blk h. compress_block h blk) (blocks16 (be_words (padded s))) initial_hash"

definition sha256_hex :: "string \<Rightarrow> string" where
  "sha256_hex s = concat (map hex32 (sha256_words s))"

section \<open>The shape of a digest\<close>

definition is_hex :: "char \<Rightarrow> bool" where
  "is_hex c \<longleftrightarrow> c \<in> set ''0123456789abcdef''"

lemma is_hex_hex_char: "0 \<le> d \<Longrightarrow> d < 16 \<Longrightarrow> is_hex (hex_char d)"
  unfolding is_hex_def hex_char_def by (rule nth_mem) simp

lemma hex32_hex: "c \<in> set (hex32 w) \<Longrightarrow> is_hex c"
  by (auto simp: hex32_def intro!: is_hex_hex_char)

lemma length_hex32 [simp]: "length (hex32 w) = 8"
  by (simp add: hex32_def)

lemma length_compress_step [simp]: "length (compress_step kw s) = length s"
  by (cases "(kw, s)" rule: compress_step.cases) (auto simp: Let_def)

lemma length_fold_compress_step [simp]: "length (fold compress_step kws s) = length s"
  by (induction kws arbitrary: s) auto

lemma length_sha256_words [simp]: "length (sha256_words s) = 8"
proof -
  have "length (fold (\<lambda>blk h. compress_block h blk) blks h) = length h" for blks h
    by (induction blks arbitrary: h) (auto simp: compress_block_def)
  then show ?thesis by (simp add: sha256_words_def initial_hash_def)
qed

lemma length_sha256_hex [simp]: "length (sha256_hex s) = 64"
proof -
  have "length (concat (map hex32 ws)) = 8 * length ws" for ws
    by (induction ws) auto
  then show ?thesis by (simp add: sha256_hex_def)
qed

lemma sha256_hex_is_hex: "c \<in> set (sha256_hex s) \<Longrightarrow> is_hex c"
  by (auto simp: sha256_hex_def dest: hex32_hex)

section \<open>Evaluation\<close>

text \<open>
  \<open>compress_step\<close> with its intermediate results shared, the form in which the simplifier
  evaluates a digest.
\<close>

lemma compress_step_eval:
  "compress_step (k, w) [a, b, c, d, e, f, g, h] =
    (let t1 = word32 (h + big_sigma1 e + choose32 e f g + k + w) in
     let t2 = word32 (big_sigma0 a + majority32 a b c);
         x = word32 (t1 + t2); y = word32 (d + t1)
     in [x, a, b, c, y, e, f, g])"
  by (simp add: Let_def)

lemma schedule_numeral:
  "schedule (numeral n) (w # rest) =
    w # schedule (pred_numeral n) (rest @
      [word32 (small_sigma1 ((w # rest) ! 14) + (w # rest) ! 9
               + small_sigma0 ((w # rest) ! 1) + w)])"
  by (simp add: numeral_eq_Suc)

lemma replicate_numeral_eval:
  "replicate (numeral n) x = x # replicate (pred_numeral n) x"
  by (simp add: numeral_eq_Suc)

lemmas word_eval =
  compress_step_eval word32_def rotr32_def small_sigma0_def small_sigma1_def
  big_sigma0_def big_sigma1_def choose32_def majority32_def

lemmas padding_eval =
  padded_def byte_val_def be_bytes_def upt_conv_Cons replicate_numeral_eval Let_def

lemmas hex_eval = hex32_def hex_char_def

text \<open>One block, in the two stages in which it is evaluated.\<close>

lemma compress_block_eval:
  "schedule 64 blk = ws \<Longrightarrow> fold compress_step (zip round_constants ws) h = h' \<Longrightarrow>
   compress_block h blk = map2 (\<lambda>x y. word32 (x + y)) h h'"
  by (simp add: compress_block_def)

end
