(* ===== verification/Numbers.thy ===== *)
theory Numbers
  imports Prelude "HOL-Library.Log_Nat"
begin

text \<open>
  The numbers of the accounting code. A finite \<open>decimal.Decimal\<close> is a coefficient and an
  exponent, so that its text (which enters identity payloads) keeps trailing zeros; the model
  covers amounts within the 28 digits of the default context, where addition and subtraction
  are exact. A finite Python \<open>float\<close> is represented by the shortest decimal that reads
  back as it, which is what \<open>repr\<close> prints: a decimal without trailing zeros.
  \<open>py_float\<close> is \<open>float(d)\<close>: the nearest binary64 value, ties to even, and then
  that shortest decimal.
\<close>

section \<open>Decimal\<close>

datatype decimal = Dec (coef: int) (dexp: int)

fun dec_val :: "decimal \<Rightarrow> rat" where
  "dec_val (Dec c e) = of_int c * 10 powi e"

definition dec_of_int :: "int \<Rightarrow> decimal" where
  "dec_of_int n = Dec n 0"

instantiation decimal :: "{zero, plus, minus}"
begin

definition zero_decimal :: decimal where
  "0 = Dec 0 0"

fun plus_decimal :: "decimal \<Rightarrow> decimal \<Rightarrow> decimal" where
  "Dec c1 e1 + Dec c2 e2 =
    (let e = min e1 e2 in Dec (c1 * 10 ^ nat (e1 - e) + c2 * 10 ^ nat (e2 - e)) e)"

fun minus_decimal :: "decimal \<Rightarrow> decimal \<Rightarrow> decimal" where
  "Dec c1 e1 - Dec c2 e2 =
    (let e = min e1 e2 in Dec (c1 * 10 ^ nat (e1 - e) - c2 * 10 ^ nat (e2 - e)) e)"

instance ..

end

text \<open>Comparison is by value: the sign of the difference.\<close>

definition dec_less :: "decimal \<Rightarrow> decimal \<Rightarrow> bool" where
  "dec_less a b \<longleftrightarrow> coef (a - b) < 0"

definition dec_eq0 :: "decimal \<Rightarrow> bool" where
  "dec_eq0 d \<longleftrightarrow> coef d = 0"

lemma pow10_shift: "e \<le> e1 \<Longrightarrow> (10::rat) ^ nat (e1 - e) * 10 powi e = 10 powi e1"
proof -
  assume "e \<le> e1"
  then have "(10::rat) ^ nat (e1 - e) = 10 powi (e1 - e)"
    by (simp add: power_int_def)
  then show ?thesis
    by (simp flip: power_int_add)
qed

lemma dec_val_add [simp]: "dec_val (a + b) = dec_val a + dec_val b"
proof (cases a; cases b)
  fix c1 e1 c2 e2 assume ab: "a = Dec c1 e1" "b = Dec c2 e2"
  let ?e = "min e1 e2"
  have "dec_val (a + b) =
      of_int c1 * (10 ^ nat (e1 - ?e) * 10 powi ?e) + of_int c2 * (10 ^ nat (e2 - ?e) * 10 powi ?e)"
    by (simp add: ab Let_def algebra_simps)
  then show ?thesis by (simp add: ab pow10_shift)
qed

lemma dec_val_minus [simp]: "dec_val (a - b) = dec_val a - dec_val b"
proof (cases a; cases b)
  fix c1 e1 c2 e2 assume ab: "a = Dec c1 e1" "b = Dec c2 e2"
  let ?e = "min e1 e2"
  have "dec_val (a - b) =
      of_int c1 * (10 ^ nat (e1 - ?e) * 10 powi ?e) - of_int c2 * (10 ^ nat (e2 - ?e) * 10 powi ?e)"
    by (simp add: ab Let_def algebra_simps)
  then show ?thesis by (simp add: ab pow10_shift)
qed

lemma dec_val_zero [simp]: "dec_val 0 = 0"
  by (simp add: zero_decimal_def)

lemma dec_val_of_int [simp]: "dec_val (dec_of_int n) = of_int n"
  by (simp add: dec_of_int_def)

lemma coef_neg: "coef d < 0 \<longleftrightarrow> dec_val d < 0"
proof (cases d)
  case (Dec c e)
  have "(0::rat) < 10 powi e" by simp
  then show ?thesis
    by (simp add: Dec mult_less_0_iff less_imp_not_less del: zero_less_power_int)
qed

lemma coef_zero: "coef d = 0 \<longleftrightarrow> dec_val d = 0"
  by (cases d) simp

lemma dec_less_iff: "dec_less a b \<longleftrightarrow> dec_val a < dec_val b"
  by (simp add: dec_less_def coef_neg)

lemma dec_eq0_iff: "dec_eq0 a \<longleftrightarrow> dec_val a = 0"
  by (simp add: dec_eq0_def coef_zero)

text \<open>\<open>value == value.to_integral_value()\<close> and \<open>int(value)\<close> (towards zero).\<close>

fun dec_integral :: "decimal \<Rightarrow> bool" where
  "dec_integral (Dec c e) \<longleftrightarrow> 0 \<le> e \<or> c mod 10 ^ nat (- e) = 0"

fun dec_to_int :: "decimal \<Rightarrow> int" where
  "dec_to_int (Dec c e) =
    (if 0 \<le> e then c * 10 ^ nat e else sgn c * (\<bar>c\<bar> div 10 ^ nat (- e)))"

lemma dec_to_int_val:
  assumes "dec_integral d" shows "of_int (dec_to_int d) = dec_val d"
proof (cases d)
  case (Dec c e)
  show ?thesis
  proof (cases "0 \<le> e")
    case True
    then show ?thesis by (simp add: Dec power_int_def)
  next
    case False
    let ?p = "10 ^ nat (- e) :: int"
    from assms False Dec obtain k where k: "c = ?p * k"
      by (auto simp: mod_eq_0_iff_dvd elim: dvdE)
    have "sgn c * (\<bar>c\<bar> div ?p) = k"
      by (simp add: k sgn_mult abs_mult sgn_mult_abs [symmetric])
        (simp add: mult.commute abs_sgn)
    then show ?thesis using False
      by (simp add: Dec k power_int_def field_simps)
  qed
qed

section \<open>str of a Decimal\<close>

definition dec_digits :: "int \<Rightarrow> string" where
  "dec_digits c = nat_digits (nat \<bar>c\<bar>)"

definition sign_str :: "int \<Rightarrow> string" where
  "sign_str c = (if c < 0 then ''-'' else [])"

text \<open>Digits with the point \<open>k\<close> places from the right.\<close>

definition point_at :: "nat \<Rightarrow> string \<Rightarrow> string" where
  "point_at k ds =
    (if k < length ds then take (length ds - k) ds @ ''.'' @ drop (length ds - k) ds
     else ''0.'' @ replicate (k - length ds) (CHR ''0'') @ ds)"

definition mantissa :: "string \<Rightarrow> string" where
  "mantissa ds = (case ds of [] \<Rightarrow> [] | [d] \<Rightarrow> [d] | d # rest \<Rightarrow> d # CHR ''.'' # rest)"

fun dec_str :: "decimal \<Rightarrow> string" where
  "dec_str (Dec c e) =
    (let ds = dec_digits c; adj = e + int (length ds) - 1 in
     sign_str c @
     (if e = 0 then ds
      else if e < 0 \<and> - 6 \<le> adj then point_at (nat (- e)) ds
      else mantissa ds @ ''E'' @ (if adj < 0 then ''-'' else ''+'') @ nat_digits (nat \<bar>adj\<bar>)))"

section \<open>float\<close>

definition round_half_even :: "rat \<Rightarrow> int" where
  "round_half_even q =
    (let f = \<lfloor>q\<rfloor>; r = q - of_int f in
     if r < 1 / 2 then f else if 1 / 2 < r then f + 1 else if even f then f else f + 1)"

text \<open>The exponent \<open>e\<close> with \<open>b\<^sup>e \<le> q < b\<^sup>e\<^sup>+\<^sup>1\<close>, for positive \<open>q\<close>.\<close>

definition exponent_of :: "nat \<Rightarrow> rat \<Rightarrow> int" where
  "exponent_of b q =
    (let (n, d) = quotient_of q;
         e = int (floorlog b (nat n)) - int (floorlog b (nat d))
     in if of_nat b powi e \<le> q then e else e - 1)"

text \<open>The binary64 value nearest to a positive number: its significand and exponent, and the value.\<close>

definition double_parts :: "rat \<Rightarrow> int \<times> int" where
  "double_parts q =
    (let u = max (exponent_of 2 q - 52) (- 1074) in (round_half_even (q / 2 powi u), u))"

definition round_double :: "rat \<Rightarrow> rat" where
  "round_double q = (case double_parts q of (k, u) \<Rightarrow> of_int k * 2 powi u)"

definition exact_double :: "int \<times> int \<Rightarrow> decimal" where
  "exact_double p = (case p of (k, u) \<Rightarrow> if 0 \<le> u then Dec (k * 2 ^ nat u) 0 else Dec (k * 5 ^ nat (- u)) u)"

definition round_digits :: "nat \<Rightarrow> rat \<Rightarrow> decimal" where
  "round_digits k q =
    (let u = exponent_of 10 q - (int k - 1) in Dec (round_half_even (q / 10 powi u)) u)"

text \<open>The same value without trailing zeros.\<close>

function dec_strip :: "decimal \<Rightarrow> decimal" where
  "dec_strip (Dec c e) =
    (if c = 0 then Dec 0 0 else if c mod 10 = 0 then dec_strip (Dec (c div 10) (e + 1)) else Dec c e)"
  by pat_completeness auto
termination
  by (relation "measure (\<lambda>d. nat \<bar>coef d\<bar>)") auto

declare dec_strip.simps [simp del]

text \<open>
  The first of at most 17 digits that reads back as the value (17 are always enough; the exact value
  is what would be left otherwise).
\<close>

definition shortest :: "rat \<Rightarrow> decimal" where
  "shortest q =
    (let v = round_double q in
     case filter (\<lambda>k. round_double (dec_val (round_digits k v)) = v) [1..<18] of
       [] \<Rightarrow> dec_strip (exact_double (double_parts q))
     | k # _ \<Rightarrow> dec_strip (round_digits k v))"

definition float_of :: "rat \<Rightarrow> decimal" where
  "float_of q =
    (if q = 0 then Dec 0 0
     else if q < 0 then (case shortest (- q) of Dec c e \<Rightarrow> Dec (- c) e)
     else shortest q)"

definition py_float :: "decimal \<Rightarrow> decimal" where
  "py_float d = float_of (dec_val d)"

text \<open>The exact value of a float, and its sum with another: the exact sum, rounded once.\<close>

definition float_val :: "decimal \<Rightarrow> rat" where
  "float_val d = (let q = dec_val d in if q < 0 then - round_double (- q) else round_double q)"

definition float_add :: "decimal \<Rightarrow> decimal \<Rightarrow> decimal" where
  "float_add a b = float_of (float_val a + float_val b)"

definition float_sub :: "decimal \<Rightarrow> decimal \<Rightarrow> decimal" where
  "float_sub a b = float_of (float_val a - float_val b)"

text \<open>\<open>repr\<close> of the float with shortest decimal \<open>Dec c e\<close>, and \<open>Decimal(str(f))\<close>.\<close>

fun float_text :: "decimal \<Rightarrow> string" where
  "float_text (Dec c e) =
    (let ds = dec_digits c; adj = e + int (length ds) - 1 in
     sign_str c @
     (if - 4 \<le> adj \<and> adj < 16 then
        (if 0 \<le> e then ds @ replicate (nat e) (CHR ''0'') @ ''.0'' else point_at (nat (- e)) ds)
      else mantissa ds @ ''e'' @ (if adj < 0 then ''-'' else ''+'') @
           (if \<bar>adj\<bar> < 10 then ''0'' else []) @ nat_digits (nat \<bar>adj\<bar>)))"

fun decimal_of_float :: "decimal \<Rightarrow> decimal" where
  "decimal_of_float (Dec c e) =
    (let adj = e + int (length (dec_digits c)) - 1 in
     if 0 \<le> e \<and> adj < 16 then Dec (c * 10 ^ nat (e + 1)) (- 1) else Dec c e)"

lemma dec_val_decimal_of_float [simp]: "dec_val (decimal_of_float d) = dec_val d"
proof (cases d)
  case (Dec c e)
  have "0 \<le> e \<Longrightarrow> (10::rat) ^ nat (e + 1) * 10 powi (- 1) = 10 powi e"
    using pow10_shift [of "-1" e] by simp
  then show ?thesis by (auto simp: Dec Let_def)
qed

lemma dec_val_strip [simp]: "dec_val (dec_strip d) = dec_val d"
proof (induction d rule: dec_strip.induct)
  case (1 c e)
  show ?case
  proof (cases "c \<noteq> 0 \<and> c mod 10 = 0")
    case True
    have "dec_val (Dec (c div 10) (e + 1)) = dec_val (Dec c e)"
      using True by (auto simp: power_int_add mod_eq_0_iff_dvd elim!: dvdE)
    with True 1 show ?thesis by (simp add: dec_strip.simps [of c e])
  qed (auto simp: dec_strip.simps [of c e])
qed

section \<open>Integers survive the round trip through float\<close>

definition dec_normal :: "decimal \<Rightarrow> bool" where
  "dec_normal d \<longleftrightarrow> (if coef d = 0 then dexp d = 0 else coef d mod 10 \<noteq> 0)"

lemma dec_normal_strip: "dec_normal (dec_strip d)"
  by (induction d rule: dec_strip.induct)
    (subst dec_strip.simps, auto simp: dec_normal_def)

lemma dec_normal_unique_aux:
  assumes "of_int c1 * (10::rat) powi e1 = of_int c2 * 10 powi e2" "e1 < e2"
  shows "c1 mod 10 = 0"
proof -
  have "(10::rat) powi e2 = 10 ^ nat (e2 - e1) * 10 powi e1"
    using pow10_shift [of e1 e2] assms(2) by simp
  with assms(1) have "of_int c1 = (of_int (c2 * 10 ^ nat (e2 - e1)) :: rat)"
    by (simp add: power_int_not_zero)
  then have "c1 = c2 * 10 ^ nat (e2 - e1)" by (simp only: of_int_eq_iff)
  moreover have "nat (e2 - e1) = Suc (nat (e2 - e1 - 1))" using assms(2) by simp
  ultimately show ?thesis by simp
qed

lemma dec_normal_unique:
  assumes "dec_normal a" "dec_normal b" "dec_val a = dec_val b" shows "a = b"
proof (cases a; cases b)
  fix c1 e1 c2 e2 assume ab: "a = Dec c1 e1" "b = Dec c2 e2"
  have eq: "of_int c1 * (10::rat) powi e1 = of_int c2 * 10 powi e2"
    using assms(3) by (simp add: ab)
  consider "e1 < e2" | "e2 < e1" | "e1 = e2" by linarith
  then show ?thesis
  proof cases
    case 1
    from dec_normal_unique_aux [OF eq 1] assms eq show ?thesis
      by (auto simp: ab dec_normal_def split: if_splits)
  next
    case 2
    from dec_normal_unique_aux [OF eq [symmetric] 2] assms eq show ?thesis
      by (auto simp: ab dec_normal_def split: if_splits)
  next
    case 3
    with eq show ?thesis by (simp add: ab)
  qed
qed

lemma dec_strip_cong: "dec_val a = dec_val b \<Longrightarrow> dec_strip a = dec_strip b"
  by (intro dec_normal_unique) (simp_all add: dec_normal_strip)

lemma round_half_even_int [simp]: "round_half_even (of_int k) = k"
  by (simp add: round_half_even_def)

lemma exponent_of_int_le:
  assumes "0 \<le> n" "n < int b ^ k" "1 < b" shows "exponent_of b (of_int n) \<le> int k - 1"
proof -
  have "nat n < b ^ k" using assms by (simp add: nat_less_iff)
  then have "floorlog b (nat n) \<le> k" using assms(3) by (intro floorlog_leI) auto
  moreover have "floorlog b (nat 1) = 1"
    using assms(3) by (simp add: floorlog_def)
  ultimately show ?thesis
    by (auto simp: exponent_of_def quotient_of_int Let_def)
qed

lemma powi_nonpos: "u \<le> 0 \<Longrightarrow> (b::rat) powi u = inverse (b ^ nat (- u))"
  by (cases "u = 0") (simp_all add: power_int_def power_inverse)

lemma scale_int:
  assumes "u \<le> 0" "(b::rat) \<noteq> 0" shows "of_int n / b powi u = of_int n * b ^ nat (- u)"
  using assms by (simp add: powi_nonpos field_simps)

lemma round_double_int:
  assumes "0 \<le> n" "n < 2 ^ 53" shows "round_double (of_int n) = of_int n"
proof -
  define u where "u = max (exponent_of 2 (of_int n) - 52) (- 1074)"
  have u: "u \<le> 0"
    using exponent_of_int_le [of n 2 53] assms by (simp add: u_def)
  have "of_int n / 2 powi u = (of_int (n * 2 ^ nat (- u)) :: rat)"
    using scale_int [OF u, of 2 n] by simp
  then have "round_half_even (of_int n / 2 powi u) = n * 2 ^ nat (- u)"
    by (simp only: round_half_even_int)
  then show ?thesis
    using u by (simp add: round_double_def double_parts_def Let_def flip: u_def) (simp add: powi_nonpos)
qed

lemma round_half_even_bounds:
  "0 \<le> q \<Longrightarrow> 0 \<le> round_half_even q"
  "of_int (round_half_even q) \<le> q + 1 / 2"
  by (auto simp: round_half_even_def Let_def) linarith+

lemma round_digits_int:
  assumes "0 \<le> n" "n < 10 ^ 15" "0 < k"
  shows "\<exists>m. dec_val (round_digits k (of_int n)) = of_int m \<and> 0 \<le> m \<and> m < 2 ^ 53
    \<and> (15 \<le> k \<longrightarrow> m = n)"
proof -
  define u where "u = exponent_of 10 (of_int n) - (int k - 1)"
  have ex: "exponent_of 10 (of_int n) \<le> 14"
    using exponent_of_int_le [of n 10 15] assms by simp
  define r where "r = round_half_even (of_int n / 10 powi u)"
  have val: "dec_val (round_digits k (of_int n)) = of_int r * 10 powi u"
    by (simp add: round_digits_def u_def r_def Let_def)
  show ?thesis
  proof (cases "u \<le> 0")
    case True
    have "of_int n / 10 powi u = (of_int (n * 10 ^ nat (- u)) :: rat)"
      using scale_int [OF True, of 10 n] by simp
    then have "r = n * 10 ^ nat (- u)" unfolding r_def by (simp only: round_half_even_int)
    with True have "of_int r * (10::rat) powi u = of_int n" by (simp add: powi_nonpos)
    with val assms show ?thesis by (intro exI [of _ n]) auto
  next
    case False
    let ?p = "10 ^ nat u :: int"
    have pw: "(10::rat) powi u = of_int ?p" using False by (simp add: power_int_def)
    have p14: "?p \<le> 10 ^ 14"
      using ex assms(3) by (intro power_increasing) (auto simp: u_def)
    have r0: "0 \<le> r" unfolding r_def using assms(1) by (intro round_half_even_bounds) (simp add: pw)
    have "of_int r \<le> of_int n / of_int ?p + (1 / 2 :: rat)"
      unfolding r_def pw by (rule round_half_even_bounds)
    then have "of_int r * of_int ?p \<le> (of_int n / of_int ?p + 1 / 2) * (of_int ?p :: rat)"
      by (intro mult_right_mono) auto
    also have "\<dots> = of_int n + of_int ?p / 2" by (simp add: field_simps)
    finally have "of_int (2 * (r * ?p)) \<le> (of_int (2 * n + ?p) :: rat)" by simp
    then have "2 * (r * ?p) \<le> 2 * n + ?p" by (simp only: of_int_le_iff)
    with assms p14 have "r * ?p < 2 ^ 53" by simp
    moreover have "k < 15" using False ex by (simp add: u_def)
    ultimately show ?thesis using r0 val by (intro exI [of _ "r * ?p"]) (auto simp: pw)
  qed
qed

lemma shortest_int:
  assumes "0 \<le> n" "n < 10 ^ 15" shows "shortest (of_int n) = dec_strip (dec_of_int n)"
proof -
  have rd: "round_double (of_int n) = of_int n"
    using assms by (intro round_double_int) auto
  define P where "P k \<longleftrightarrow> round_double (dec_val (round_digits k (of_int n))) = of_int n" for k
  have P: "P k \<longleftrightarrow> dec_val (round_digits k (of_int n)) = of_int n" if k: "0 < k" for k
  proof -
    obtain m where m: "dec_val (round_digits k (of_int n)) = of_int m" "0 \<le> m" "m < 2 ^ 53"
      using round_digits_int [OF assms k] by blast
    then show ?thesis using round_double_int [OF m(2,3)] by (simp add: P_def)
  qed
  have "P 17" using round_digits_int [OF assms, of 17] by (auto simp: P)
  then have "filter P [1..<18] \<noteq> []" by (auto simp: filter_empty_conv)
  then obtain k ks where ks: "filter P [1..<18] = k # ks"
    by (meson neq_Nil_conv)
  then have "k \<in> set (filter P [1..<18])" by simp
  then have "dec_val (round_digits k (of_int n)) = of_int n" using P by auto
  then have "dec_strip (round_digits k (of_int n)) = dec_strip (dec_of_int n)"
    by (intro dec_strip_cong) simp
  with ks show ?thesis by (simp add: shortest_def rd P_def [abs_def] Let_def)
qed

lemma py_float_int:
  assumes "dec_val d = of_int n" "\<bar>n\<bar> < 10 ^ 15"
  shows "dec_val (py_float d) = of_int n"
proof -
  consider "n = 0" | "n < 0" | "0 < n" by linarith
  then show ?thesis
  proof cases
    case 2
    with shortest_int [of "- n"] assms(2) have "shortest (- of_int n) = dec_strip (dec_of_int (- n))"
      by simp
    moreover obtain c e where ce: "dec_strip (dec_of_int (- n)) = Dec c e"
      by (cases "dec_strip (dec_of_int (- n))")
    moreover have "dec_val (Dec c e) = - of_int n"
      using dec_val_strip [of "dec_of_int (- n)"] by (simp add: ce)
    ultimately show ?thesis using 2 assms(1) by (simp add: py_float_def float_of_def Let_def)
  qed (use assms shortest_int [of n] in \<open>simp_all add: py_float_def float_of_def Let_def\<close>)
qed

section \<open>Rounding is idempotent\<close>

lemma exponent_of_bounds:
  assumes q: "0 < q" and b: "1 < b"
  shows "of_nat b powi exponent_of b q \<le> q" "q < of_nat b powi (exponent_of b q + 1)"
proof -
  obtain n d where nd: "quotient_of q = (n, d)" by (cases "quotient_of q")
  have d: "0 < d" and qv: "q = of_int n / of_int d"
    using nd quotient_of_denom_pos quotient_of_div by blast+
  have n: "0 < n" using q d qv by (simp add: zero_less_divide_iff)
  define i where "i = floorlog b (nat n)"
  define j where "j = floorlog b (nat d)"
  let ?b = "of_nat b :: rat"
  have b0: "0 < ?b" "1 < ?b" "?b \<noteq> 0" using b by simp_all
  have fl: "b ^ (floorlog b m - 1) \<le> m \<and> m < b ^ floorlog b m \<and> 0 < floorlog b m" if "0 < m" for m
    using floorlog_bounds [OF that b] that b by (auto simp: floorlog_def)
  have "?b ^ (i - 1) \<le> of_int n" "of_int n < ?b ^ i" "?b ^ (j - 1) \<le> of_int d" "of_int d < ?b ^ j"
    "0 < i" "0 < j"
    using fl [of "nat n"] fl [of "nat d"] n d unfolding i_def j_def
    by (metis of_nat_le_iff of_nat_less_iff of_nat_power of_int_of_nat_eq nat_0_le less_imp_le zero_less_nat_eq)+
  then have pw: "?b powi (int i - 1) \<le> of_int n" "of_int n < ?b powi int i"
    "?b powi (int j - 1) \<le> of_int d" "of_int d < ?b powi int j"
    by (simp_all add: power_int_def nat_diff_distrib' flip: of_nat_diff) 
  let ?e = "int i - int j"
  have up: "q < ?b powi (?e + 1)"
  proof -
    have "of_int n < ?b powi (?e + 1) * ?b powi (int j - 1)"
      using pw(2) b0 by (simp flip: power_int_add)
    also have "\<dots> \<le> ?b powi (?e + 1) * of_int d"
      using pw(3) b0 by (intro mult_left_mono) simp_all
    finally show ?thesis using d by (simp add: qv pos_divide_less_eq)
  qed
  have lo: "?b powi (?e - 1) \<le> q"
  proof -
    have "?b powi (?e - 1) * of_int d \<le> ?b powi (?e - 1) * ?b powi int j"
      using pw(4) b0 by (intro mult_left_mono) simp_all
    also have "\<dots> = ?b powi (int i - 1)" using b0 power_int_add [of ?b "?e - 1" "int j"] by simp
    also have "\<dots> \<le> of_int n" by (rule pw(1))
    finally show ?thesis using d by (simp add: qv pos_le_divide_eq)
  qed
  have e: "exponent_of b q = (if ?b powi ?e \<le> q then ?e else ?e - 1)"
    by (simp add: exponent_of_def nd i_def j_def Let_def)
  show "?b powi exponent_of b q \<le> q" "q < ?b powi (exponent_of b q + 1)"
    using e up lo by auto
qed

lemma exponent_of_less:
  assumes "0 < q" "1 < b" "q < of_nat b powi m" shows "exponent_of b q < m"
proof (rule ccontr)
  assume "\<not> exponent_of b q < m"
  then have "of_nat b powi m \<le> (of_nat b :: rat) powi exponent_of b q"
    using assms(2) by (intro power_int_increasing) simp_all
  then show False using exponent_of_bounds(1) [OF assms(1,2)] assms(3) by linarith
qed

lemma round_double_fixed:
  assumes k: "1 \<le> k" "k \<le> 2 ^ 53" and u: "- 1074 \<le> u"
  shows "round_double (of_int k * 2 powi u) = of_int k * 2 powi u"
proof -
  have less: "round_double (of_int k * 2 powi u) = of_int k * 2 powi u"
    if k: "1 \<le> k" "k < 2 ^ 53" and u: "- 1074 \<le> u" for k u :: int
  proof -
    let ?v = "of_int k * 2 powi u :: rat"
    have v: "0 < ?v" using k by simp
    have "of_int k < (of_int (2 ^ 53) :: rat)" using k(2) by (simp only: of_int_less_iff)
    then have "?v < 2 powi 53 * 2 powi u" by (intro mult_strict_right_mono) simp_all
    then have "?v < 2 powi (53 + u)" using power_int_add [of "2 :: rat" 53 u] by simp
    then have "exponent_of 2 ?v < 53 + u" using exponent_of_less [OF v, of 2 "53 + u"] by simp
    define w where "w = max (exponent_of 2 ?v - 52) (- 1074)"
    have w: "w \<le> u" using \<open>exponent_of 2 ?v < 53 + u\<close> u by (simp add: w_def)
    have "2 powi u = 2 powi (u - w) * (2::rat) powi w" by (simp flip: power_int_add)
    then have "?v / 2 powi w = of_int k * 2 powi (u - w)" by simp
    also have "\<dots> = of_int (k * 2 ^ nat (u - w))" using w by (simp add: power_int_def)
    finally have "round_half_even (?v / 2 powi w) = k * 2 ^ nat (u - w)" by (simp only: round_half_even_int)
    then have "round_double ?v = of_int (k * 2 ^ nat (u - w)) * 2 powi w"
      by (simp add: round_double_def double_parts_def Let_def flip: w_def)
    also have "\<dots> = of_int k * (2 powi (u - w) * 2 powi w)" using w by (simp add: power_int_def)
    also have "\<dots> = ?v" by (simp flip: power_int_add)
    finally show ?thesis .
  qed
  show ?thesis
  proof (cases "k < 2 ^ 53")
    case True
    then show ?thesis using less k u by blast
  next
    case False
    then have "k = 2 ^ 52 * 2" using k by simp
    then have "of_int k * 2 powi u = of_int (2 ^ 52) * (2 * 2 powi u :: rat)" by simp
    also have "2 * 2 powi u = (2::rat) powi (u + 1)" by (simp add: power_int_add)
    finally show ?thesis using less [of "2 ^ 52" "u + 1"] u by simp
  qed
qed

lemma round_half_even_less: "q < of_int m \<Longrightarrow> round_half_even q \<le> m"
  by (auto simp: round_half_even_def Let_def) linarith+

lemma double_parts_bounds:
  assumes "0 < q" "double_parts q = (k, u)" shows "0 \<le> k" "k \<le> 2 ^ 53" "- 1074 \<le> u"
proof -
  have u: "u = max (exponent_of 2 q - 52) (- 1074)" and k: "k = round_half_even (q / 2 powi u)"
    using assms(2) by (auto simp: double_parts_def Let_def)
  show "- 1074 \<le> u" by (simp add: u)
  show "0 \<le> k" unfolding k using assms(1) by (intro round_half_even_bounds) simp
  have "q < 2 powi (exponent_of 2 q + 1)" using exponent_of_bounds(2) [OF assms(1), of 2] by simp
  also have "\<dots> \<le> 2 powi (53 + u)" by (intro power_int_increasing) (simp_all add: u)
  also have "\<dots> = 2 powi 53 * 2 powi u" using power_int_add [of "2 :: rat" 53 u] by simp
  finally have "q / 2 powi u < of_int (2 ^ 53)" by (simp add: pos_divide_less_eq)
  then show "k \<le> 2 ^ 53" unfolding k by (rule round_half_even_less)
qed

lemma round_double_0 [simp]: "round_double 0 = 0"
  by (simp add: round_double_def double_parts_def round_half_even_def Let_def)

lemma round_double_idem: "0 < q \<Longrightarrow> round_double (round_double q) = round_double q"
proof -
  assume q: "0 < q"
  obtain k u where ku: "double_parts q = (k, u)" by (cases "double_parts q")
  note b = double_parts_bounds [OF q ku]
  show ?thesis
  proof (cases "k = 0")
    case True
    then show ?thesis by (simp add: round_double_def [of q] ku)
  next
    case False
    then show ?thesis using round_double_fixed [of k u] b by (simp add: round_double_def [of q] ku)
  qed
qed

lemma exact_double_val: "dec_val (exact_double (k, u)) = of_int k * 2 powi u"
proof (cases "0 \<le> u")
  case False
  have "(10::rat) powi u = 2 powi u * 5 powi u" using power_int_mult_distrib [of "2::rat" 5 u] by simp
  moreover have "(5::rat) ^ nat (- u) * 5 powi u = 1" using False by (simp add: powi_nonpos)
  ultimately show ?thesis using False by (simp add: exact_double_def algebra_simps)
qed (simp add: exact_double_def power_int_def)

lemma exact_double_parts: "dec_val (exact_double (double_parts q)) = round_double q"
  by (cases "double_parts q") (simp add: exact_double_val round_double_def)

lemma shortest_cases:
  obtains (exact) "shortest q = dec_strip (exact_double (double_parts q))"
      "filter (\<lambda>k. round_double (dec_val (round_digits k (round_double q))) = round_double q) [1..<18] = []"
    | (digits) k ks where "shortest q = dec_strip (round_digits k (round_double q))"
      "filter (\<lambda>k. round_double (dec_val (round_digits k (round_double q))) = round_double q) [1..<18] = k # ks"
      "round_double (dec_val (round_digits k (round_double q))) = round_double q"
proof -
  define P where "P = (\<lambda>k. round_double (dec_val (round_digits k (round_double q))) = round_double q)"
  have s: "shortest q = (case filter P [1..<18] of [] \<Rightarrow> dec_strip (exact_double (double_parts q))
      | k # _ \<Rightarrow> dec_strip (round_digits k (round_double q)))"
    unfolding shortest_def Let_def P_def ..
  show thesis
  proof (cases "filter P [1..<18]")
    case Nil
    then show ?thesis using exact s unfolding P_def by simp
  next
    case (Cons k ks)
    then have "k \<in> set (filter P [1..<18])" by simp
    then have "P k" by simp
    then show ?thesis using digits [of k ks] s Cons unfolding P_def by simp
  qed
qed

lemma shortest_reads_back: "0 < q \<Longrightarrow> round_double (dec_val (shortest q)) = round_double q"
  by (cases q rule: shortest_cases) (simp_all add: exact_double_parts round_double_idem)

lemma shortest_cong:
  assumes "round_double p = round_double q" shows "shortest p = shortest q"
proof (cases p rule: shortest_cases)
  case exact
  then show ?thesis
    by (cases q rule: shortest_cases) (auto simp: assms exact_double_parts intro!: dec_strip_cong)
next
  case (digits k ks)
  then show ?thesis by (cases q rule: shortest_cases) (simp_all add: assms)
qed

lemma shortest_nonneg:
  assumes q: "0 < q" shows "0 \<le> dec_val (shortest q)"
proof -
  obtain k u where ku: "double_parts q = (k, u)" by (cases "double_parts q")
  have v: "0 \<le> round_double q"
    using double_parts_bounds(1) [OF q ku] by (simp add: round_double_def ku)
  have "0 \<le> dec_val (round_digits j (round_double q))" for j
    using v by (simp add: round_digits_def Let_def round_half_even_bounds)
  then show ?thesis by (cases q rule: shortest_cases) (simp_all add: exact_double_parts v)
qed

lemma shortest_zero: "dec_val (shortest q) = 0 \<Longrightarrow> shortest q = Dec 0 0"
proof -
  assume z: "dec_val (shortest q) = 0"
  have "dec_normal (shortest q)" by (cases q rule: shortest_cases) (simp_all add: dec_normal_strip)
  moreover have "dec_normal (Dec 0 0)" by (simp add: dec_normal_def)
  ultimately show ?thesis using z by (intro dec_normal_unique) simp_all
qed

text \<open>\<open>float\<close> of a float is that float.\<close>

lemma py_float_of [simp]: "py_float (float_of q) = float_of q"
proof -
  have pos: "float_of (dec_val (shortest q)) = shortest q" if q: "0 < q" for q
  proof (cases "dec_val (shortest q) = 0")
    case True
    then show ?thesis using shortest_zero by (simp add: float_of_def)
  next
    case False
    then have "0 < dec_val (shortest q)" using shortest_nonneg [OF q] by linarith
    then show ?thesis
      using shortest_cong [OF shortest_reads_back [OF q]] by (simp add: float_of_def)
  qed
  consider "q = 0" | "0 < q" | "q < 0" by linarith
  then show ?thesis
  proof cases
    case 3
    obtain c e where ce: "shortest (- q) = Dec c e" by (cases "shortest (- q)")
    have d: "float_of q = Dec (- c) e" using 3 ce by (simp add: float_of_def)
    have p: "float_of (dec_val (Dec c e)) = Dec c e" using pos [of "- q"] 3 ce by simp
    have "0 \<le> dec_val (Dec c e)" using shortest_nonneg [of "- q"] 3 ce by simp
    then show ?thesis using p unfolding d py_float_def
      by (cases "c = 0") (auto simp: float_of_def split: if_splits)
  qed (use pos in \<open>simp_all add: py_float_def float_of_def\<close>)
qed

lemma py_float_idem [simp]: "py_float (py_float d) = py_float d"
  using py_float_of [of "dec_val d"] by (simp add: py_float_def)

end
