(* ===== verification/Decimal_Text.thy ===== *)
theory Decimal_Text
  imports Numbers
begin

text \<open>
  \<open>Decimal(text)\<close> for finite numbers, and that it reads back what \<open>str\<close> prints. The stores
  keep every amount as such a text, so this is the round trip all accounting rests on.
\<close>

text \<open>\<open>str.strip\<close> and the underscores \<open>Decimal\<close> ignores.\<close>

definition number_text :: "string \<Rightarrow> string" where
  "number_text s = filter (\<lambda>c. c \<noteq> CHR ''_'') (str_strip s)"

definition split_sign :: "string \<Rightarrow> bool \<times> string" where
  "split_sign s = (case s of [] \<Rightarrow> (False, [])
    | c # cs \<Rightarrow> if c = CHR ''-'' then (True, cs) else if c = CHR ''+'' then (False, cs) else (False, s))"

text \<open>The exponent part: its value and nothing left over.\<close>

definition parse_exponent :: "string \<Rightarrow> int option" where
  "parse_exponent s = (case s of [] \<Rightarrow> Some 0
    | c # cs \<Rightarrow> if c = CHR ''E'' \<or> c = CHR ''e'' then
        (case split_sign cs of (neg, ds) \<Rightarrow>
          if ds \<noteq> [] \<and> list_all is_digit ds
          then Some (if neg then - int (digits_val ds) else int (digits_val ds)) else None)
      else None)"

definition parse_decimal :: "string \<Rightarrow> decimal option" where
  "parse_decimal s =
    (case split_sign (number_text s) of (neg, s1) \<Rightarrow>
      let ds = takeWhile is_digit s1; r1 = dropWhile is_digit s1;
          point = (r1 \<noteq> [] \<and> hd r1 = CHR ''.'');
          fs = (if point then takeWhile is_digit (tl r1) else []);
          r2 = (if point then dropWhile is_digit (tl r1) else r1);
          c = int (digits_val (ds @ fs))
      in if ds @ fs = [] then None
         else map_option (\<lambda>x. Dec (if neg then - c else c) (x - int (length fs))) (parse_exponent r2))"

section \<open>Reading back a printed decimal\<close>

lemma digits_val_append: "digits_val (xs @ ys) = digits_val xs * 10 ^ length ys + digits_val ys"
proof (induction ys rule: rev_induct)
  case (snoc y ys)
  have "digits_val (zs @ [y]) = 10 * digits_val zs + digit_val y" for zs by (simp add: digits_val_def)
  from this [of "xs @ ys"] this [of ys] snoc show ?case by (simp add: algebra_simps)
qed (simp add: digits_val_def)

lemma digits_val_zeros: "digits_val (replicate k (CHR ''0'') @ ds) = digits_val ds"
  by (induction k) (simp_all add: digits_val_def digit_val_def)

definition numeric :: "char \<Rightarrow> bool" where
  "numeric c \<longleftrightarrow> is_digit c \<or> c = CHR ''-'' \<or> c = CHR ''+'' \<or> c = CHR ''.'' \<or> c = CHR ''E''"

lemma numeric_plain: "numeric c \<Longrightarrow> \<not> is_space c \<and> c \<noteq> CHR ''_''"
  by (auto simp: numeric_def is_digit_def is_space_def)

lemma number_text_numeric: "\<forall>c \<in> set s. numeric c \<Longrightarrow> number_text s = s"
proof -
  assume s: "\<forall>c \<in> set s. numeric c"
  have "dropWhile is_space t = t" if "\<forall>c \<in> set t. numeric c" for t
    using that numeric_plain by (cases t) auto
  from this [of s] this [of "rev s"] s have "str_strip s = s" by (simp add: str_strip_def)
  then show ?thesis using s numeric_plain by (auto simp: number_text_def filter_id_conv)
qed

lemma is_digit_zero [simp]: "is_digit (CHR ''0'')"
  by (simp add: is_digit_def)

lemma not_digit [simp]: "\<not> is_digit (CHR ''.'')" "\<not> is_digit (CHR ''E'')" "\<not> is_digit (CHR ''-'')" "\<not> is_digit (CHR ''+'')"
  by (simp_all add: is_digit_def)

lemma parse_decimal_parts:
  assumes ds: "list_all is_digit ds" "ds \<noteq> []" and fs: "list_all is_digit fs"
    and x: "parse_exponent r = Some x" "r = [] \<or> hd r = CHR ''E''" "\<forall>c \<in> set r. numeric c"
    and s: "s = sign_str c @ ds @ (if fs = [] then [] else CHR ''.'' # fs) @ r"
  shows "parse_decimal s = Some (Dec ((if c < 0 then - 1 else 1) * int (digits_val (ds @ fs))) (x - int (length fs)))"
proof -
  have "\<forall>c \<in> set s. numeric c"
    using ds(1) fs x(3) by (auto simp: s sign_str_def numeric_def list_all_iff)
  then have nt: "number_text s = s" by (rule number_text_numeric)
  let ?t = "ds @ (if fs = [] then [] else CHR ''.'' # fs) @ r"
  have hd: "ds = d # ds' \<Longrightarrow> d \<noteq> CHR ''-'' \<and> d \<noteq> CHR ''+''" for d ds'
    using ds(1) by auto
  have sg: "split_sign s = (c < 0, ?t)"
    using ds(2) hd by (cases ds) (auto simp: s sign_str_def split_sign_def)
  have r: "takeWhile is_digit r = []" "dropWhile is_digit r = r" "r = [] \<or> hd r \<noteq> CHR ''.''"
    using x(2) by (cases r; auto)+
  have tw: "takeWhile is_digit (ds @ t) = ds @ takeWhile is_digit t"
    "dropWhile is_digit (ds @ t) = dropWhile is_digit t"
    "takeWhile is_digit (fs @ t) = fs @ takeWhile is_digit t"
    "dropWhile is_digit (fs @ t) = dropWhile is_digit t" for t
    using ds(1) fs by (simp_all add: list_all_iff)
  have alone: "takeWhile is_digit ds = ds" "dropWhile is_digit ds = []"
    "takeWhile is_digit fs = fs" "dropWhile is_digit fs = []"
    using tw [of "[]"] by simp_all
  show ?thesis
  proof (cases "r = []")
    case True
    then show ?thesis
      using ds(2) x(1) by (cases "fs = []") (simp_all add: parse_decimal_def nt sg tw alone Let_def)
  next
    case False
    with r(3) have "\<not> (r \<noteq> [] \<and> hd r = CHR ''.'')" by simp
    then show ?thesis
      using ds(2) r(1,2) x(1) by (cases "fs = []") (simp_all only: parse_decimal_def nt sg tw Let_def prod.case
          append_Nil append_Nil2 append_Cons list.sel if_True if_False list.simps simp_thms, simp_all add: tw)
  qed
qed

lemma dec_digits_digits: "list_all is_digit (dec_digits c)" "dec_digits c \<noteq> []"
  by (auto simp: dec_digits_def list_all_iff nat_digits_digits)

lemma digits_val_dec_digits: "(if c < 0 then - 1 else 1) * int (digits_val (dec_digits c)) = c"
  by (simp add: dec_digits_def)

lemma parse_exponent_text:
  "parse_exponent (CHR ''E'' # (if x < 0 then ''-'' else ''+'') @ nat_digits (nat \<bar>x\<bar>)) = Some x"
  by (simp add: parse_exponent_def split_sign_def list_all_iff nat_digits_digits)

lemma parse_decimal_dec_str [simp]: "parse_decimal (dec_str d) = Some d"
proof (cases d)
  case (Dec c e)
  define ds where "ds = dec_digits c"
  have ds: "list_all is_digit ds" "ds \<noteq> []" by (simp_all add: ds_def dec_digits_digits)
  have val: "(if c < 0 then - 1 else 1) * int (digits_val ds) = c"
    by (simp add: ds_def digits_val_dec_digits)
  let ?adj = "e + int (length ds) - 1"
  consider (int) "e = 0" | (point) "e < 0" "- 6 \<le> ?adj" | (exp) "e \<noteq> 0" "\<not> (e < 0 \<and> - 6 \<le> ?adj)" by blast
  then show ?thesis
  proof cases
    case int
    have "parse_decimal (dec_str d) = Some (Dec ((if c < 0 then - 1 else 1) * int (digits_val (ds @ []))) (0 - int (length [])))"
      using parse_decimal_parts [of ds "[]" "[]" 0 "dec_str d" c, OF ds]
      by (simp add: Dec int ds_def Let_def parse_exponent_def)
    then show ?thesis using val int Dec by simp
  next
    case point
    define k where "k = nat (- e)"
    have tx: "dec_str d = sign_str c @ point_at k ds" using point by (simp add: Dec ds_def k_def Let_def)
    show ?thesis
    proof (cases "k < length ds")
      case True
      let ?a = "take (length ds - k) ds" and ?b = "drop (length ds - k) ds"
      have "?b \<noteq> []" using True point(1) by (simp add: k_def)
      then have "parse_decimal (dec_str d) = Some (Dec ((if c < 0 then - 1 else 1) * int (digits_val (?a @ ?b))) (0 - int (length ?b)))"
        using True ds
        by (intro parse_decimal_parts [where r = "[]"])
          (auto simp: tx point_at_def parse_exponent_def list_all_iff dest: in_set_takeD in_set_dropD)
      then show ?thesis using val True point(1) Dec by (simp add: k_def)
    next
      case False
      let ?b = "replicate (k - length ds) (CHR ''0'') @ ds"
      have "parse_decimal (dec_str d) = Some (Dec ((if c < 0 then - 1 else 1) * int (digits_val (''0'' @ ?b))) (0 - int (length ?b)))"
        using False ds
        by (intro parse_decimal_parts [where r = "[]"])
          (auto simp: tx point_at_def parse_exponent_def list_all_iff)
      moreover have "digits_val (''0'' @ ?b) = digits_val ds"
        using digits_val_zeros [of "Suc (k - length ds)" ds] by simp
      ultimately show ?thesis using val False point(1) Dec by (simp add: k_def)
    qed
  next
    case exp
    obtain a b where ab: "ds = a # b" using ds(2) by (cases ds) auto
    let ?r = "CHR ''E'' # (if ?adj < 0 then ''-'' else ''+'') @ nat_digits (nat \<bar>?adj\<bar>)"
    have "mantissa ds = [a] @ (if b = [] then [] else CHR ''.'' # b)"
      by (cases b) (simp_all add: ab mantissa_def)
    then have tx: "dec_str d = sign_str c @ [a] @ (if b = [] then [] else CHR ''.'' # b) @ ?r"
      using exp by (auto simp: Dec Let_def simp flip: ds_def)
    have "parse_decimal (dec_str d) = Some (Dec ((if c < 0 then - 1 else 1) * int (digits_val ([a] @ b))) (?adj - int (length b)))"
    proof (rule parse_decimal_parts [OF _ _ _ parse_exponent_text [of ?adj] _ _ tx])
      show "\<forall>c \<in> set ?r. numeric c" by (auto simp: numeric_def nat_digits_digits)
    qed (use ds ab in auto)
    then show ?thesis using val ab Dec by simp
  qed
qed

lemma dec_str_inject [simp]: "dec_str a = dec_str b \<longleftrightarrow> a = b"
  by (metis parse_decimal_dec_str option.inject)

end
