(* ===== verification/Json_Literals.thy ===== *)
theory Json_Literals
  imports Json Decimal_Text
begin

text \<open>
  Strings and numbers in JSON texts: reading a string literal, an integer or a float that
  \<open>json.dumps\<close> wrote gives the value back.
\<close>

section \<open>String literals\<close>

lemma char_eqI: "(of_char c :: nat) = n \<Longrightarrow> c = char_of n"
  by auto

lemma hex_val_hex_char:
  assumes "0 \<le> d" "d < 16" shows "hex_val (hex_char d) = Some d"
proof -
  have "d \<in> set [0..15]" using assms by simp
  moreover have "list_all (\<lambda>d. hex_val (hex_char d) = Some d) [0..15]"
    by code_simp
  ultimately show ?thesis by (auto simp: list_all_iff)
qed

lemma parse_escape_simple:
  "parse_escape (CHR 34 # t) = Some (CHR 34, t)"
  "parse_escape (CHR 92 # t) = Some (CHR 92, t)"
  "parse_escape (CHR ''b'' # t) = Some (CHR 8, t)"
  "parse_escape (CHR ''t'' # t) = Some (CHR 9, t)"
  "parse_escape (CHR ''n'' # t) = Some (CHR 10, t)"
  "parse_escape (CHR ''f'' # t) = Some (CHR 12, t)"
  "parse_escape (CHR ''r'' # t) = Some (CHR 13, t)"
  by (simp_all add: parse_escape_def)

lemma parse_escape_hex:
  assumes "n < 32"
  shows "parse_escape (CHR ''u'' # CHR ''0'' # CHR ''0'' # hex_char (int (n div 16)) # hex_char (int (n mod 16)) # t)
    = Some (char_of n, t)"
proof -
  have v: "hex_val (hex_char (int (n div 16))) = Some (int (n div 16))"
    "hex_val (hex_char (int (n mod 16))) = Some (int (n mod 16))"
    using assms by (intro hex_val_hex_char; simp)+
  have n: "nat (int (n div 16) * 16 + int (n mod 16)) = n"
    by (simp add: zdiv_int zmod_int)
  have z: "hex_val (CHR ''0'') = Some 0" by (simp add: hex_val_def)
  show ?thesis by (simp add: parse_escape_def z v n del: of_nat_mod of_nat_div)
qed

lemma parse_str_escape:
  "parse_escape s = Some (d, r) \<Longrightarrow> parse_str (CHR 92 # s) = map_option (apfst ((#) d)) (parse_str r)"
  by (subst parse_str.simps) simp

lemma parse_str_char:
  "c \<noteq> CHR 34 \<Longrightarrow> c \<noteq> CHR 92 \<Longrightarrow> \<not> (of_char c :: nat) < 32
    \<Longrightarrow> parse_str (c # s) = map_option (apfst ((#) c)) (parse_str s)"
  by (subst parse_str.simps) simp

lemma char_codes:
  "char_of (34::nat) = CHR 34" "char_of (92::nat) = CHR 92" "char_of (8::nat) = CHR 8"
  "char_of (9::nat) = CHR 9" "char_of (10::nat) = CHR 10" "char_of (12::nat) = CHR 12"
  "char_of (13::nat) = CHR 13"
  by code_simp+

lemma parse_str_esc_char:
  "parse_str (esc_char c @ t) = map_option (apfst ((#) c)) (parse_str t)"
proof -
  let ?n = "of_char c :: nat"
  consider "?n \<in> {34, 92, 8, 9, 10, 12, 13}" | "?n \<notin> {34, 92, 8, 9, 10, 12, 13}" "?n < 32"
    | "?n \<noteq> 34" "?n \<noteq> 92" "\<not> ?n < 32" by auto
  then show ?thesis
  proof cases
    case 1
    then show ?thesis
      by (auto dest!: char_eqI simp: char_codes esc_char_def parse_str_escape parse_escape_simple)
  next
    case 2
    then have "esc_char c = CHR 92 # CHR ''u'' # CHR ''0'' # CHR ''0'' #
        hex_char (int (?n div 16)) # [hex_char (int (?n mod 16))]"
      by (simp add: esc_char_def Let_def del: of_nat_mod of_nat_div)
    then show ?thesis
      using parse_str_escape [OF parse_escape_hex [OF 2(2)]] by simp
  next
    case 3
    then have "esc_char c = [c]" by (simp add: esc_char_def Let_def)
    moreover have "c \<noteq> CHR 34" "c \<noteq> CHR 92" using 3 by auto
    ultimately show ?thesis using 3 by (simp add: parse_str_char)
  qed
qed

lemma parse_str_text: "parse_str (concat (map esc_char s) @ CHR 34 # t) = Some (s, t)"
proof (induction s)
  case Nil
  then show ?case by (subst parse_str.simps) simp
next
  case (Cons c s)
  then show ?case by (simp add: parse_str_esc_char)
qed

section \<open>Integers\<close>

text \<open>What follows a value inside a document: the end or a delimiter.\<close>

definition stops :: "string \<Rightarrow> bool" where
  "stops r \<longleftrightarrow> r = [] \<or> hd r \<in> {CHR '','', CHR '']'', CHR ''}''}"

lemma stops_not_digit:
  "stops r \<Longrightarrow> takeWhile is_digit r = [] \<and> dropWhile is_digit r = r"
  by (cases r) (auto simp: stops_def is_digit_def)

lemma digits_stop:
  assumes "stops r"
  shows "takeWhile is_digit (nat_digits n @ r) = nat_digits n"
    "dropWhile is_digit (nat_digits n @ r) = r"
  using stops_not_digit [OF assms]
  by (simp_all add: nat_digits_digits takeWhile_append dropWhile_append)

lemma nat_digits_alone [simp]:
  "takeWhile is_digit (nat_digits n) = nat_digits n" "dropWhile is_digit (nat_digits n) = []"
  by (simp_all add: nat_digits_digits)

lemma nat_digits_no_leading_zero: "\<not> (hd (nat_digits n) = digit_char 0 \<and> tl (nat_digits n) \<noteq> [])"
proof
  assume *: "hd (nat_digits n) = digit_char 0 \<and> tl (nat_digits n) \<noteq> []"
  then have "n = 0" using nat_digits_hd by blast
  with * show False by (simp add: nat_digits_0)
qed

lemma digit_char_minus: "d < 10 \<Longrightarrow> digit_char d \<noteq> CHR ''-''"
  using of_char_digit_char [of d] by force

lemma is_digit_not:
  "is_digit c \<Longrightarrow> c \<noteq> CHR ''-'' \<and> c \<noteq> CHR 34 \<and> c \<noteq> CHR ''['' \<and> c \<noteq> CHR ''{'' \<and> c \<noteq> CHR ''n''
    \<and> c \<noteq> CHR ''t'' \<and> c \<noteq> CHR ''f'' \<and> c \<noteq> CHR '']'' \<and> c \<noteq> CHR ''}'' \<and> \<not> is_ws c"
  by (auto simp: is_digit_def is_ws_def)

lemma is_digit_hd: "is_digit (hd (nat_digits n))"
  using nat_digits_digits [of "hd (nat_digits n)" n] by simp

lemma parse_number_digits:
  assumes "stops r"
  shows "parse_number (nat_digits n @ r) = Some (JInt (int n), r)"
    "parse_number (CHR ''-'' # nat_digits n @ r) = Some (JInt (- int n), r)"
proof -
  note ds = digits_stop [OF assms, of n] nat_digits_no_leading_zero [of n]
  have nd: "hd (nat_digits n) \<noteq> CHR ''-''" using is_digit_not [OF is_digit_hd] by blast
  from assms have r: "r = [] \<or> (\<exists>c cs. r = c # cs \<and> c \<noteq> CHR ''.'' \<and> c \<noteq> CHR ''e'' \<and> c \<noteq> CHR ''E'')"
    by (cases r) (auto simp: stops_def)
  show "parse_number (nat_digits n @ r) = Some (JInt (int n), r)"
    using nd r unfolding parse_number_def Let_def by (elim disjE exE conjE) (use ds in simp_all)
  show "parse_number (CHR ''-'' # nat_digits n @ r) = Some (JInt (- int n), r)"
    using r unfolding parse_number_def Let_def by (elim disjE exE conjE) (use ds in simp_all)
qed

lemma int_str_first: "int_str i = c # cs \<Longrightarrow> is_digit c \<or> c = CHR ''-''"
  using is_digit_hd by (auto simp: int_str_def split: if_splits) (metis list.sel(1))

lemma parse_number_int_str: "stops r \<Longrightarrow> parse_number (int_str i @ r) = Some (JInt i, r)"
  by (auto simp: int_str_def parse_number_digits)

section \<open>Floats\<close>

lemma py_float_cong: "dec_val a = dec_val b \<Longrightarrow> py_float a = py_float b"
  by (simp add: py_float_def)

lemma digits_tail:
  "list_all is_digit ds \<Longrightarrow> t = [] \<or> \<not> is_digit (hd t) \<Longrightarrow> takeWhile is_digit (ds @ t) = ds"
  "list_all is_digit ds \<Longrightarrow> t = [] \<or> \<not> is_digit (hd t) \<Longrightarrow> dropWhile is_digit (ds @ t) = t"
  by (cases t; simp add: list_all_iff takeWhile_append dropWhile_append)+

text \<open>The text of a number with a fraction or an exponent.\<close>

lemma parse_number_parts:
  assumes ds: "list_all is_digit ds" "ds \<noteq> []" "hd ds = digit_char 0 \<Longrightarrow> tl ds = []"
    and fs: "list_all is_digit fs" and r: "stops r" and xs: "list_all is_digit xs" "fs \<noteq> [] \<or> xs \<noteq> []"
  shows "parse_number (sign_str c @ ds @ (if fs = [] then [] else CHR ''.'' # fs) @
      (if xs = [] then [] else CHR ''e'' # (if neg then ''-'' else ''+'') @ xs) @ r) =
    Some (JFloat (py_float (Dec ((if c < 0 then - 1 else 1) * int (digits_val (ds @ fs)))
      ((if neg then - int (digits_val xs) else int (digits_val xs)) * (if xs = [] then 0 else 1) - int (length fs)))), r)"
proof -
  let ?e = "if xs = [] then [] else CHR ''e'' # (if neg then ''-'' else ''+'') @ xs"
  let ?p = "if fs = [] then [] else CHR ''.'' # fs"
  have r': "r = [] \<or> \<not> is_digit (hd r)" "r = [] \<or> hd r \<noteq> CHR ''.'' \<and> hd r \<noteq> CHR ''e'' \<and> hd r \<noteq> CHR ''E''"
    using r by (auto simp: stops_def is_digit_def)
  have e: "?e @ r = [] \<or> \<not> is_digit (hd (?e @ r))" "?e @ r = [] \<or> hd (?e @ r) \<noteq> CHR ''.''"
    using r' by (auto simp: is_digit_def)
  have p: "?p @ ?e @ r = [] \<or> \<not> is_digit (hd (?p @ ?e @ r))"
    using e by (auto simp: is_digit_def)
  have nd: "hd (ds @ t) \<noteq> CHR ''-''" for t using ds(1,2) by (cases ds) (auto simp: is_digit_def)
  define s1 where "s1 = ds @ ?p @ ?e @ r"
  have s1: "takeWhile is_digit s1 = ds" "dropWhile is_digit s1 = ?p @ ?e @ r"
    unfolding s1_def using digits_tail [OF ds(1) p] by simp_all
  have neg: "(sign_str c @ s1 \<noteq> [] \<and> hd (sign_str c @ s1) = CHR ''-'') = (c < 0)"
    "(if c < 0 then tl (sign_str c @ s1) else sign_str c @ s1) = s1"
    using nd ds(2) by (auto simp: sign_str_def s1_def)
  have f: "(if ?p @ ?e @ r \<noteq> [] \<and> hd (?p @ ?e @ r) = CHR ''.'' then takeWhile is_digit (tl (?p @ ?e @ r)) else []) = fs"
    "(if fs = [] then ?p @ ?e @ r else dropWhile is_digit (tl (?p @ ?e @ r))) = ?e @ r"
    using digits_tail [OF fs e(1)] e(2) by auto
  have x: "takeWhile is_digit (xs @ r) = xs" "dropWhile is_digit (xs @ r) = r"
    using digits_tail [OF xs(1) r'(1)] by simp_all
  have x0: "takeWhile is_digit xs = xs" "dropWhile is_digit xs = []"
    using digits_tail [OF xs(1), of "[]"] by simp_all
  show ?thesis
    unfolding s1_def [symmetric] parse_number_def
    apply (subst Let_def, subst Let_def, subst Let_def, subst Let_def)
    unfolding neg s1
    apply (subst Let_def, subst Let_def)
    unfolding f
    using ds(2,3) xs(2) x r'
    by (cases "r = []"; cases "xs = []"; cases neg) (simp_all add: Let_def x0 digits_val_def [of "[]"])
qed

lemma point_at_first: "is_digit a \<Longrightarrow> \<exists>c cs. point_at k (a # b) = c # cs \<and> is_digit c"
proof (cases "k < length (a # b)")
  case True
  then have "Suc (length b) - k = Suc (length b - k)" by auto
  moreover assume "is_digit a"
  ultimately show ?thesis using True by (auto simp: point_at_def)
qed (auto simp: point_at_def)

lemma float_text_first: "\<exists>c cs. float_text d = c # cs \<and> (is_digit c \<or> c = CHR ''-'')"
proof (cases d)
  case (Dec c e)
  obtain a b where ab: "dec_digits c = a # b" "is_digit a"
    using dec_digits_digits [of c] by (cases "dec_digits c") auto
  show ?thesis
  proof (cases "c < 0")
    case False
    then show ?thesis
      using point_at_first [OF ab(2), of "nat (- e)" b] ab
      by (auto simp: Dec Let_def sign_str_def mantissa_def split: list.split)
  qed (auto simp: Dec Let_def sign_str_def)
qed

lemma float_zero: "py_float (Dec c e) = Dec c e \<Longrightarrow> c = 0 \<Longrightarrow> e = 0"
  by (simp add: py_float_def float_of_def)

lemma hd_dec_digits: "hd (dec_digits c) = digit_char 0 \<longleftrightarrow> c = 0"
  by (simp add: dec_digits_def nat_digits_hd)

lemma digits_val_zeros_right: "digits_val (ds @ replicate k (CHR ''0'')) = digits_val ds * 10 ^ k"
  using digits_val_zeros [of k "[]"] digits_val_append [of ds "replicate k (CHR ''0'')"] by (simp add: digits_val_def [of "[]"])

lemma parse_number_float:
  assumes f: "py_float d = d" and r: "stops r"
  shows "parse_number (float_text d @ r) = Some (JFloat d, r)"
proof (cases d)
  case (Dec c e)
  define ds where "ds = dec_digits c"
  have ds: "list_all is_digit ds" "ds \<noteq> []" by (simp_all add: ds_def dec_digits_digits)
  have val: "(if c < 0 then - 1 else 1) * int (digits_val ds) = c"
    by (simp add: ds_def digits_val_dec_digits)
  have c0: "hd ds = digit_char 0 \<longleftrightarrow> c = 0" by (simp add: ds_def hd_dec_digits)
  have ds0: "c = 0 \<Longrightarrow> ds = [digit_char 0]" by (simp add: ds_def dec_digits_def nat_digits_0)
  have res: "py_float x = d" if "dec_val x = of_int c * 10 powi e" for x
    using that py_float_cong [of x d] f by (simp add: Dec)
  let ?adj = "e + int (length ds) - 1"
  consider (int) "- 4 \<le> ?adj" "?adj < 16" "0 \<le> e" | (point) "- 4 \<le> ?adj" "?adj < 16" "e < 0"
    | (exp) "\<not> (- 4 \<le> ?adj \<and> ?adj < 16)" by linarith
  then show ?thesis
  proof cases
    case int
    let ?ds = "ds @ replicate (nat e) (CHR ''0'')"
    have dz: "list_all is_digit ?ds" using ds(1) by (auto simp: list_all_iff)
    have tl: "tl ?ds = []" if "hd ?ds = digit_char 0"
      using that ds(2) c0 ds0 float_zero [of c e] f Dec by simp
    have v: "(if c < 0 then - 1 else 1) * int (digits_val (?ds @ ''0'')) = c * 10 ^ nat (e + 1)"
      using digits_val_zeros_right [of ds "Suc (nat e)"] val int(3)
      by (simp add: nat_add_distrib replicate_append_same [symmetric] split: if_splits)
    have "parse_number (sign_str c @ ?ds @ ''.0'' @ r) =
        Some (JFloat (py_float (Dec ((if c < 0 then - 1 else 1) * int (digits_val (?ds @ ''0''))) (- 1))), r)"
      using parse_number_parts [of ?ds "''0''" r "[]" c False, OF dz _ tl] ds r by simp
    moreover have "py_float (Dec (c * 10 ^ nat (e + 1)) (- 1)) = d"
    proof (rule res)
      have "(10::rat) ^ nat (e + 1) * 10 powi (- 1) = 10 powi (e + 1) * 10 powi (- 1)"
        using int(3) by (simp add: power_int_def)
      also have "\<dots> = 10 powi e" using power_int_add [of "10 :: rat" "e + 1" "- 1"] by simp
      finally show "dec_val (Dec (c * 10 ^ nat (e + 1)) (- 1)) = of_int c * 10 powi e" by (simp add: mult.assoc)
    qed
    ultimately show ?thesis using int v by (simp add: Dec Let_def flip: ds_def)
  next
    case point
    define k where "k = nat (- e)"
    have tx: "float_text d = sign_str c @ point_at k ds" using point by (simp add: Dec ds_def k_def Let_def)
    have c: "c \<noteq> 0" using float_zero f Dec point by fastforce
    show ?thesis
    proof (cases "k < length ds")
      case True
      let ?a = "take (length ds - k) ds" and ?b = "drop (length ds - k) ds"
      have b: "?b \<noteq> []" using True point(3) by (simp add: k_def)
      have dab: "list_all is_digit ?a" "list_all is_digit ?b"
        using ds(1) by (auto simp: list_all_iff dest: in_set_takeD in_set_dropD)
      have a: "?a \<noteq> []" "hd ?a \<noteq> digit_char 0" using True c c0 ds(2) by simp_all
      have "parse_number (sign_str c @ ?a @ (CHR ''.'' # ?b) @ r) =
          Some (JFloat (py_float (Dec ((if c < 0 then - 1 else 1) * int (digits_val (?a @ ?b))) (- int (length ?b)))), r)"
        using parse_number_parts [of ?a ?b r "[]" c False, OF dab(1) a(1) _ dab(2) r] a(2) b by simp
      then show ?thesis using True tx val point(3) by (simp add: point_at_def k_def res)
    next
      case False
      let ?b = "replicate (k - length ds) (CHR ''0'') @ ds"
      have db: "list_all is_digit ?b" using ds(1) by (auto simp: list_all_iff)
      have "parse_number (sign_str c @ ''0'' @ (CHR ''.'' # ?b) @ r) =
          Some (JFloat (py_float (Dec ((if c < 0 then - 1 else 1) * int (digits_val (''0'' @ ?b))) (- int (length ?b)))), r)"
        using parse_number_parts [of "''0''" ?b r "[]" c False, OF _ _ _ db r] ds(2) by simp
      moreover have "digits_val (''0'' @ ?b) = digits_val ds"
        using digits_val_zeros [of "Suc (k - length ds)" ds] by simp
      ultimately show ?thesis using False tx val point(3) by (simp add: point_at_def k_def res)
    qed
  next
    case exp
    obtain a b where ab: "ds = a # b" using ds(2) by (cases ds) auto
    have c: "c \<noteq> 0" using float_zero f Dec exp ds0 by fastforce
    define xs where "xs = (if \<bar>?adj\<bar> < 10 then ''0'' else []) @ nat_digits (nat \<bar>?adj\<bar>)"
    have xs: "xs \<noteq> []" "list_all is_digit xs" "digits_val xs = nat \<bar>?adj\<bar>"
      using digits_val_zeros [of 1 "nat_digits (nat \<bar>?adj\<bar>)"]
      by (auto simp: xs_def list_all_iff nat_digits_digits)
    have "mantissa ds = [a] @ (if b = [] then [] else CHR ''.'' # b)"
      by (cases b) (simp_all add: ab mantissa_def)
    then have tx: "float_text d = sign_str c @ [a] @ (if b = [] then [] else CHR ''.'' # b) @
        (if xs = [] then [] else CHR ''e'' # (if ?adj < 0 then ''-'' else ''+'') @ xs)"
      using exp xs(1) by (auto simp: Dec Let_def xs_def simp flip: ds_def)
    have "parse_number (float_text d @ r) =
        Some (JFloat (py_float (Dec ((if c < 0 then - 1 else 1) * int (digits_val ([a] @ b)))
          ((if ?adj < 0 then - int (digits_val xs) else int (digits_val xs)) * (if xs = [] then 0 else 1) - int (length b)))), r)"
      unfolding tx append_assoc using ds ab c c0 xs r by (intro parse_number_parts) simp_all
    moreover have "(if ?adj < 0 then - int (digits_val xs) else int (digits_val xs)) * (if xs = [] then 0 else 1) - int (length b) = e"
      using xs ab by simp
    moreover have "(if c < 0 then - 1 else 1) * int (digits_val ([a] @ b)) = c" using val ab by simp
    ultimately show ?thesis using f Dec by simp
  qed
qed

end
