(* ===== verification/Json_Round_Trip.thy ===== *)
theory Json_Round_Trip
  imports Json_Literals
begin

text \<open>
  Reading what \<open>json.dumps\<close> wrote gives the value back, with the keys of every object
  sorted, or as it was for the text in insertion order. \<open>identity_ok\<close> are the values an identity payload can hold (no float, no other class of object).
\<close>

fun identity_ok :: "json \<Rightarrow> bool" where
  "identity_ok (JList xs) = (\<forall>x \<in> set xs. identity_ok x)"
| "identity_ok (JDict d) = (\<forall>(k, v) \<in> set d. identity_ok v)"
| "identity_ok (JFloat q) = False"
| "identity_ok (JBytes s) = False"
| "identity_ok (JOther s) = False"
| "identity_ok v = True"

lemma identity_ok_serialisable: "identity_ok v \<Longrightarrow> json_serialisable v"
  by (induction v rule: identity_ok.induct) auto

section \<open>Objects in the order of their keys\<close>

lemma insort_key_map_snd:
  "insort_key fst (fst p, f (snd p)) (map (\<lambda>(k, v). (k, f v)) d)
    = map (\<lambda>(k, v). (k, f v)) (insort_key fst p d)"
  by (induction d) (auto simp: case_prod_unfold)

lemma sort_key_map_snd:
  "sort_key fst (map (\<lambda>(k, v). (k, f v)) d) = map (\<lambda>(k, v). (k, f v)) (sort_key fst d)"
proof (induction d)
  case (Cons p d)
  then show ?case
    using insort_key_map_snd [of p f "sort_key fst d"] by (simp add: case_prod_unfold)
qed simp

lemma sort_key_sorted: "sorted (map f xs) \<Longrightarrow> sort_key f xs = xs"
  by (induction xs) (simp_all add: insort_is_Cons)

definition member_text :: "string \<times> json \<Rightarrow> string" where
  "member_text p = str_text (fst p) @ '':'' @ json_text (snd p)"

lemma json_text_dict:
  "json_text (JDict d) = ''{'' @ concat_sep '','' (map member_text (sort_key fst d)) @ ''}''"
  by (simp add: sort_key_map_snd) (simp add: member_text_def [abs_def] case_prod_unfold comp_def)

lemma json_norm_dict: "json_norm (JDict d) = JDict (map (\<lambda>(k, v). (k, json_norm v)) (sort_key fst d))"
  by (simp add: sort_key_map_snd)

declare json_text.simps(9) [simp del] json_norm.simps(2) [simp del]

lemma distinct_keys_sort [simp]: "distinct_keys (sort_key fst d) \<longleftrightarrow> distinct_keys d"
  by (rule mset_eq_imp_distinct_iff) simp

lemma dict_of_append:
  "distinct_keys (d @ e) \<Longrightarrow> fold (\<lambda>(k, v). dset k v) e d = d @ e"
proof (induction e arbitrary: d)
  case (Cons p e)
  obtain k v where p: "p = (k, v)" by (cases p)
  have "k \<notin> fst ` set d" using Cons.prems p by auto
  then have "dset k v d = d @ [(k, v)]" by (rule dset_new)
  then show ?case using Cons.IH [of "d @ [(k, v)]"] Cons.prems p by simp
qed simp

lemma dict_of_distinct: "distinct_keys d \<Longrightarrow> dict_of d = d"
  using dict_of_append [of "[]" d] by (simp add: dict_of_def)

section \<open>Documents in insertion order\<close>

definition ordered_member :: "string \<times> json \<Rightarrow> string" where
  "ordered_member p = str_text (fst p) @ '':'' @ ordered_text (snd p)"

lemma ordered_dict: "ordered_text (JDict d) = ''{'' @ concat_sep '','' (map ordered_member d) @ ''}''"
  by (simp add: ordered_member_def [abs_def] case_prod_unfold)

declare ordered_text.simps(9) [simp del]

lemma text_first:
  "json_serialisable v \<Longrightarrow> \<exists>c cs. ordered_text v = c # cs \<and> \<not> is_ws c \<and> c \<noteq> CHR '']''"
proof (cases v)
  case (JInt i)
  obtain c cs where c: "int_str i = c # cs"
    by (cases "int_str i") (auto simp: int_str_def split: if_splits)
  show ?thesis
    using int_str_first [OF c] is_digit_not [of c] by (auto simp: JInt c is_ws_def)
next
  case (JFloat q)
  obtain c cs where c: "float_text q = c # cs" "is_digit c \<or> c = CHR ''-''"
    using float_text_first by blast
  then show ?thesis using is_digit_not [of c] by (auto simp: JFloat is_ws_def)
qed (auto simp: is_ws_def str_text_def ordered_dict)

definition reads_back :: "json \<Rightarrow> bool" where
  "reads_back v \<longleftrightarrow> (\<forall>n r. length (ordered_text v) \<le> n \<longrightarrow> stops r \<longrightarrow>
     parse_value n (ordered_text v @ r) = Some (v, r))"

lemma skip_ws_text: "json_serialisable v \<Longrightarrow> skip_ws (ordered_text v @ r) = ordered_text v @ r"
  using text_first [of v] by auto

lemma stops_simps [simp]: "stops []" "stops (CHR '','' # r)" "stops (CHR '']'' # r)" "stops (CHR ''}'' # r)"
  by (simp_all add: stops_def)

lemma ws_simps [simp]:
  "\<not> is_ws (CHR '','')" "\<not> is_ws (CHR '']'')" "\<not> is_ws (CHR ''}'')" "\<not> is_ws (CHR '':'')" "\<not> is_ws (CHR 34)"
  by (simp_all add: is_ws_def)

lemma skip_ws_concat:
  "xs \<noteq> [] \<Longrightarrow> \<forall>x \<in> set xs. json_serialisable x
    \<Longrightarrow> skip_ws (concat_sep '','' (map ordered_text xs) @ r) = concat_sep '','' (map ordered_text xs) @ r"
  by (cases xs rule: remdups_adj.cases) (simp_all add: skip_ws_text)

lemma concat_sep_Cons: "ys \<noteq> [] \<Longrightarrow> concat_sep sep (x # ys) = x @ sep @ concat_sep sep ys"
  by (cases ys) auto

lemma parse_elems_text:
  assumes "xs \<noteq> []" "\<forall>x \<in> set xs. json_serialisable x \<and> reads_back x"
    "length (concat_sep '','' (map ordered_text xs)) < n"
  shows "parse_elems n (concat_sep '','' (map ordered_text xs) @ CHR '']'' # r) = Some (xs, r)"
  using assms
proof (induction xs arbitrary: n rule: list_nonempty_induct)
  case (single x)
  then obtain m where m: "n = Suc m" "length (ordered_text x) \<le> m" by (cases n) auto
  with single show ?case by (simp add: reads_back_def)
next
  case (cons x xs)
  then obtain m where m: "n = Suc m" "length (ordered_text x) \<le> m"
    "length (concat_sep '','' (map ordered_text xs)) < m"
    by (cases n) (auto simp: concat_sep_Cons)
  have "concat_sep '','' (map ordered_text (x # xs)) = ordered_text x @ '','' @ concat_sep '','' (map ordered_text xs)"
    using cons.hyps by (simp add: concat_sep_Cons)
  then show ?case
    using cons m by (simp add: reads_back_def skip_ws_concat)
qed

lemma parse_members_text:
  assumes "d \<noteq> []" "\<forall>p \<in> set d. json_serialisable (snd p) \<and> reads_back (snd p)"
    "length (concat_sep '','' (map ordered_member d)) < n"
  shows "parse_members n (concat_sep '','' (map ordered_member d) @ CHR ''}'' # r)
    = Some (d, r)"
  using assms
proof (induction d arbitrary: n rule: list_nonempty_induct)
  case (single p)
  then obtain m where m: "n = Suc m" "length (ordered_text (snd p)) \<le> m"
    by (cases n) (auto simp: ordered_member_def)
  with single show ?case
    by (simp add: reads_back_def ordered_member_def str_text_def parse_str_text skip_ws_text case_prod_unfold)
next
  case (cons p d)
  then obtain m where m: "n = Suc m" "length (ordered_text (snd p)) \<le> m"
    "length (concat_sep '','' (map ordered_member d)) < m"
    by (cases n) (auto simp: concat_sep_Cons ordered_member_def [of p])
  have "concat_sep '','' (map ordered_member (p # d)) = ordered_member p @ '','' @ concat_sep '','' (map ordered_member d)"
    using cons.hyps by (simp add: concat_sep_Cons)
  moreover have "skip_ws (concat_sep '','' (map ordered_member d) @ r') = concat_sep '','' (map ordered_member d) @ r'" for r'
    using cons.hyps by (cases d rule: remdups_adj.cases) (auto simp: ordered_member_def str_text_def)
  ultimately show ?case
    using cons m
    by (simp add: reads_back_def ordered_member_def [of p] str_text_def parse_str_text skip_ws_text case_prod_unfold)
qed

lemma stops_special: "stops r \<Longrightarrow> skip_ws r = r"
  by (cases r) (auto simp: stops_def)

lemma reads_backI:
  assumes "ordered_text v \<noteq> []"
    "\<And>m r. length (ordered_text v) \<le> Suc m \<Longrightarrow> stops r \<Longrightarrow> parse_value (Suc m) (ordered_text v @ r) = Some (v, r)"
  shows "reads_back v"
  unfolding reads_back_def
proof (intro allI impI)
  fix n r assume n: "length (ordered_text v) \<le> n" "stops r"
  then obtain m where "n = Suc m" using assms(1) by (cases n) auto
  with n assms(2) show "parse_value n (ordered_text v @ r) = Some (v, r)" by simp
qed

lemma reads_back_const: "reads_back JNull" "reads_back (JBool b)"
  by (rule reads_backI; simp add: expect_def)+

lemma reads_back_int: "reads_back (JInt i)"
proof (rule reads_backI)
  obtain c cs where c: "int_str i = c # cs"
    by (cases "int_str i") (auto simp: int_str_def split: if_splits)
  show "ordered_text (JInt i) \<noteq> []" by (simp add: c)
  fix m r assume r: "stops r"
  have "c \<noteq> CHR 34 \<and> c \<noteq> CHR ''['' \<and> c \<noteq> CHR ''{'' \<and> c \<noteq> CHR ''n'' \<and> c \<noteq> CHR ''t'' \<and> c \<noteq> CHR ''f''"
    using int_str_first [OF c] is_digit_not [of c] by auto
  then show "parse_value (Suc m) (ordered_text (JInt i) @ r) = Some (JInt i, r)"
    using parse_number_int_str [OF r, of i] by (simp add: c)
qed

lemma reads_back_float: "py_float q = q \<Longrightarrow> reads_back (JFloat q)"
proof (rule reads_backI)
  assume q: "py_float q = q"
  obtain c cs where c: "float_text q = c # cs" "is_digit c \<or> c = CHR ''-''"
    using float_text_first by blast
  show "ordered_text (JFloat q) \<noteq> []" by (simp add: c(1))
  fix m r assume r: "stops r"
  have "c \<noteq> CHR 34 \<and> c \<noteq> CHR ''['' \<and> c \<noteq> CHR ''{'' \<and> c \<noteq> CHR ''n'' \<and> c \<noteq> CHR ''t'' \<and> c \<noteq> CHR ''f''"
    using c(2) is_digit_not [of c] by auto
  then show "parse_value (Suc m) (ordered_text (JFloat q) @ r) = Some (JFloat q, r)"
    using parse_number_float [OF q r] by (simp add: c(1))
qed

lemma reads_back_str: "reads_back (JStr s)"
  by (rule reads_backI) (simp_all add: str_text_def parse_str_text)

lemma reads_back_list:
  assumes "\<forall>x \<in> set xs. json_serialisable x \<and> reads_back x"
  shows "reads_back (JList xs)"
proof (rule reads_backI)
  fix m r assume n: "length (ordered_text (JList xs)) \<le> Suc m"
  show "parse_value (Suc m) (ordered_text (JList xs) @ r) = Some (JList xs, r)"
  proof (cases "xs = []")
    case False
    have ws: "skip_ws (concat_sep '','' (map ordered_text xs) @ t) = concat_sep '','' (map ordered_text xs) @ t" for t
      using assms False by (auto intro: skip_ws_concat)
    obtain c cs where "concat_sep '','' (map ordered_text xs) = c # cs" "c \<noteq> CHR '']''"
      using False assms text_first [of "hd xs"] by (cases xs rule: remdups_adj.cases) auto
    then show ?thesis
      using n parse_elems_text [OF False assms, of m r] ws [of "CHR '']'' # r"] by simp
  qed simp
qed simp

lemma reads_back_dict:
  assumes wf: "distinct_keys d" and all: "\<forall>p \<in> set d. json_serialisable (snd p) \<and> reads_back (snd p)"
  shows "reads_back (JDict d)"
proof (rule reads_backI)
  fix m r assume n: "length (ordered_text (JDict d)) \<le> Suc m"
  show "parse_value (Suc m) (ordered_text (JDict d) @ r) = Some (JDict d, r)"
  proof (cases "d = []")
    case True
    then show ?thesis by (simp add: ordered_dict dict_of_def)
  next
    case False
    obtain cs where "concat_sep '','' (map ordered_member d) = CHR 34 # cs"
      using False by (cases d rule: remdups_adj.cases) (auto simp: ordered_member_def str_text_def)
    then show ?thesis
      using n parse_members_text [OF False all, of m r] dict_of_distinct [OF wf] by (simp add: ordered_dict)
  qed
qed (simp add: ordered_dict)

lemma reads_back: "json_serialisable v \<Longrightarrow> json_wf v \<Longrightarrow> reads_back v"
proof (induction v)
  case (JList xs)
  then show ?case by (auto intro!: reads_back_list)
next
  case (JDict d)
  have "\<forall>p \<in> set d. json_serialisable (snd p) \<and> reads_back (snd p)" using JDict by fastforce
  with JDict.prems show ?case by (auto intro: reads_back_dict)
qed (simp_all add: reads_back_const reads_back_int reads_back_str reads_back_float)

section \<open>The round trips\<close>

lemma json_loads_ordered:
  assumes "json_serialisable v" "json_wf v"
  shows "json_loads (ordered_text v) = Inr v"
proof -
  have "parse_value (Suc (length (ordered_text v))) (ordered_text v @ []) = Some (v, [])"
    using reads_back [OF assms, unfolded reads_back_def, rule_format, of "Suc (length (ordered_text v))" "[]"]
    by (simp del: parse_value.simps)
  then show ?thesis
    using skip_ws_text [OF assms(1), of "[]"] by (simp add: json_loads_def del: parse_value.simps)
qed

definition norm_dict :: "jdict \<Rightarrow> jdict" where
  "norm_dict d = map (\<lambda>(k, v). (k, json_norm v)) (sort_key fst d)"

lemma json_norm_JDict [simp]: "json_norm (JDict d) = JDict (norm_dict d)"
  by (simp add: json_norm_dict norm_dict_def)

lemma keys_norm_dict [simp]: "map fst (norm_dict d) = map fst (sort_key fst d)"
  by (simp add: norm_dict_def case_prod_unfold)

lemma dget_map_sort:
  assumes "distinct_keys t"
  shows "dget (map (\<lambda>(k, d). (k, f d)) (sort_key fst t)) m = map_option f (dget t m)"
proof -
  have "map_of (sort_key fst t) = map_of t"
    using assms by (intro map_of_inject_set [THEN iffD2]) simp_all
  moreover have "map_of (map (\<lambda>(k, d). (k, f d)) xs) m = map_option f (map_of xs m)" for xs
    by (induction xs) auto
  ultimately show ?thesis by simp
qed

lemma dget_norm_dict: "distinct_keys d \<Longrightarrow> dget (norm_dict d) k = map_option json_norm (dget d k)"
  unfolding norm_dict_def by (rule dget_map_sort)

lemma json_norm_dict_lookup:
  "json_norm (JDict d) = json_norm (JDict e) \<Longrightarrow> distinct_keys d \<Longrightarrow> distinct_keys e
    \<Longrightarrow> map_option json_norm (dget d k) = map_option json_norm (dget e k)"
  by (metis dget_norm_dict json.inject(7) json_norm_JDict)

lemma in_norm_dict: "(k, w) \<in> set (norm_dict d) \<longleftrightarrow> (\<exists>v. (k, v) \<in> set d \<and> w = json_norm v)"
  by (force simp: norm_dict_def)

lemma json_text_norm [simp]: "json_text (json_norm u) = json_text u"
proof (induction u)
  case (JDict d)
  have "map member_text (sort_key fst (norm_dict d))
    = map member_text (map (\<lambda>(k, v). (k, json_norm v)) (sort_key fst (sort_key fst d)))"
    unfolding norm_dict_def by (simp add: sort_key_map_snd)
  also have "sort_key fst (sort_key fst d) = sort_key fst d"
    by (rule sort_key_sorted) simp
  also have "map member_text (map (\<lambda>(k, v). (k, json_norm v)) (sort_key fst d)) = map member_text (sort_key fst d)"
    using JDict by (force simp: member_text_def)
  finally show ?case by (simp add: json_text_dict)
qed (auto cong: map_cong simp: comp_def)

lemma identity_ok_norm [simp]: "identity_ok (json_norm v) \<longleftrightarrow> identity_ok v"
proof (induction v)
  case (JDict d)
  then show ?case by (fastforce simp: in_norm_dict)
qed auto

lemma json_serialisable_norm [simp]: "json_serialisable (json_norm v) \<longleftrightarrow> json_serialisable v"
proof (induction v)
  case (JDict d)
  then show ?case by (fastforce simp: in_norm_dict)
qed auto

lemma json_wf_norm: "json_wf v \<Longrightarrow> json_wf (json_norm v)"
proof (induction v)
  case (JDict d)
  then show ?case by (fastforce simp: in_norm_dict)
qed auto

text \<open>The sorted text is that of the sorted value.\<close>

lemma ordered_norm: "ordered_text (json_norm v) = json_text v"
proof (induction v)
  case (JDict d)
  have "map ordered_member (norm_dict d) = map member_text (sort_key fst d)"
    using JDict by (force simp: norm_dict_def ordered_member_def member_text_def)
  then show ?case by (simp add: ordered_dict json_text_dict)
qed (auto cong: map_cong simp: comp_def)

lemma json_loads_dumped:
  assumes "json_serialisable v" "json_wf v"
  shows "json_loads (json_text v) = Inr (json_norm v)"
  using json_loads_ordered [of "json_norm v"] assms by (simp add: ordered_norm json_wf_norm)

lemma json_loads_text: "identity_ok v \<Longrightarrow> json_wf v \<Longrightarrow> json_loads (json_text v) = Inr (json_norm v)"
  by (rule json_loads_dumped [OF identity_ok_serialisable])

lemma json_text_inject:
  assumes "identity_ok v" "json_wf v" "identity_ok w" "json_wf w"
  shows "json_text v = json_text w \<longleftrightarrow> json_norm v = json_norm w"
  using json_loads_text [OF assms(1,2)] json_loads_text [OF assms(3,4)] json_text_norm
  by (metis sum.inject(2))

text \<open>Values with the same text are equal in Python's sense.\<close>

lemma py_eq_norm: "json_norm v = json_norm w \<Longrightarrow> json_wf v \<Longrightarrow> json_wf w \<Longrightarrow> py_eq v w"
proof (induction v arbitrary: w)
  case (JList xs)
  then obtain ys where w: "w = JList ys" "map json_norm xs = map json_norm ys" by (cases w) auto
  then have len: "length xs = length ys" by (metis length_map)
  have "py_eq (xs ! k) (ys ! k)" if "k < length xs" for k
  proof (rule JList.IH)
    show "json_norm (xs ! k) = json_norm (ys ! k)" using w(2) that len by (metis nth_map)
  qed (use JList.prems w that len in auto)
  then show ?case using w len by (simp add: list_all2_conv_all_nth)
next
  case (JDict d)
  then obtain e where w: "w = JDict e" "norm_dict d = norm_dict e" by (cases w) auto
  have len: "length d = length e"
    using arg_cong [OF w(2), of length] by (simp add: norm_dict_def)
  have "case map_of e k of None \<Rightarrow> False | Some v' \<Rightarrow> py_eq v v'" if kv: "(k, v) \<in> set d" for k v
  proof -
    have "(k, json_norm v) \<in> set (norm_dict e)" using kv w(2) in_norm_dict by metis
    then obtain v' where v': "(k, v') \<in> set e" "json_norm v = json_norm v'" by (auto simp: in_norm_dict)
    moreover have "map_of e k = Some v'" using v'(1) JDict.prems w(1) by (simp add: map_of_is_SomeI)
    moreover have "py_eq v v'"
      using JDict.IH [OF kv, of v v'] v' JDict.prems kv w(1) by force
    ultimately show ?thesis by simp
  qed
  then show ?case using w(1) len by auto
next
  case (JBool b)
  then show ?case by (cases w) (auto simp: json_num_def dec_less_iff)
next
  case (JInt i)
  then show ?case by (cases w) (auto simp: json_num_def dec_less_iff)
next
  case (JFloat q)
  then show ?case by (cases w) (auto simp: json_num_def dec_less_iff)
qed (case_tac w; simp)+

lemma py_eq_refl: "json_wf v \<Longrightarrow> py_eq v v"
  by (rule py_eq_norm) simp_all

lemma two_byte_lead:
  assumes "\<not> n < 128" "n < 256" shows "n div 64 = 2 \<or> n div 64 = (3::nat)"
proof -
  have "2 \<le> n div 64" using assms(1) by (simp add: less_eq_div_iff_mult_less_eq)
  moreover have "n div 64 < 4" using assms(2) by (simp add: div_less_iff_less_mult)
  ultimately show ?thesis by arith
qed

lemma of_char_of_small: "n < 256 \<Longrightarrow> (of_char (char_of n :: char) :: nat) = n"
  by (simp only: of_char_of mod_less)

lemma utf8_decode_char: "utf8_decode (utf8_char c @ t) = map_option ((#) c) (utf8_decode t)"
proof (cases "(of_char c :: nat) < 128")
  case True
  then show ?thesis by (simp add: utf8_char_def Let_def)
next
  case False
  let ?n = "of_char c :: nat"
  have "?n mod 256 = ?n" by simp
  then have b: "?n < 256" by (metis mod_less_divisor zero_less_numeral)
  have q: "?n div 64 = 2 \<or> ?n div 64 = 3" using two_byte_lead [OF False b] .
  define a where "a = ?n div 64"
  define b where "b = ?n mod 64"
  have ab: "a = 2 \<or> a = 3" "b < 64" "a * 64 + b = ?n" using q by (auto simp: a_def b_def)
  define d where "d = (char_of (192 + a) :: char)"
  define e where "e = (char_of (128 + b) :: char)"
  have of: "(of_char d :: nat) = 192 + a" "(of_char e :: nat) = 128 + b"
    unfolding d_def e_def using ab(1,2) by (auto intro!: of_char_of_small)
  have "utf8_char c = [d, e]" using False by (simp only: utf8_char_def d_def e_def a_def b_def Let_def if_False)
  moreover have "utf8_decode (d # e # t) = map_option ((#) (char_of (a * 64 + b))) (utf8_decode t)"
    using ab(1,2) by (elim disjE) (simp_all add: of Let_def)
  moreover have "char_of (a * 64 + b) = c" using ab(3) by (metis char_of_char)
  ultimately show ?thesis by (simp only: append.simps)
qed

lemma utf8_decode_encode [simp]: "utf8_decode (utf8_encode s) = Some s"
  by (induction s) (simp_all add: utf8_encode_def utf8_decode_char)

lemma utf8_encode_inject [simp]: "utf8_encode s = utf8_encode t \<longleftrightarrow> s = t"
  by (metis utf8_decode_encode option.inject)

lemma json_loads_bytes_text:
  "identity_ok v \<Longrightarrow> json_wf v \<Longrightarrow> json_loads_bytes (utf8_encode (json_text v)) = Inr (json_norm v)"
  by (simp add: json_loads_bytes_def json_loads_text)

end
