(* ===== verification/Canon.thy ===== *)
theory Canon
  imports Json_Round_Trip
begin

text \<open>
  The canonical bytes of an identity value (\<open>_canon.py\<close>), the digests built on them
  (\<open>hashing.py\<close>) and redaction markers (\<open>redaction.py\<close>). The digests bind what
  they are computed from: two calls with equal digests either had the same input, up to the order
  of object keys, or exhibit two different byte strings with the same SHA-256 (\<open>collision\<close>).
\<close>

section \<open>Canonical bytes\<close>

lemma forR_cong [fundef_cong]:
  "xs = ys \<Longrightarrow> (\<And>x. x \<in> set ys \<Longrightarrow> f x = g x) \<Longrightarrow> forR f xs = forR g ys"
  by (induction ys arbitrary: xs) (auto intro: bindR_Inr_cong)

lemma enumerate_size [termination_simp]:
  "(i, x) \<in> set (enumerate n xs) \<Longrightarrow> size x < Suc (size_list size xs)"
proof (induction xs arbitrary: n)
  case (Cons y xs)
  then show ?case by fastforce
qed simp

fun validate_identity_value :: "json \<Rightarrow> string \<Rightarrow> unit res" where
  "validate_identity_value JNull path = Inr ()"
| "validate_identity_value (JStr s) path = Inr ()"
| "validate_identity_value (JBool b) path = Inr ()"
| "validate_identity_value (JInt i) path = Inr ()"
| "validate_identity_value (JFloat q) path =
    Inl (TypeError (''floats are not allowed in identity payloads at '' @ path))"
| "validate_identity_value (JBytes s) path =
    Inl (TypeError (''bytes are not allowed in identity payloads at '' @ path))"
| "validate_identity_value (JList xs) path =
    forR (\<lambda>(i, x). validate_identity_value x (path @ ''['' @ int_str (int i) @ '']'')) (enumerate 0 xs)"
| "validate_identity_value (JDict d) path =
    forR (\<lambda>(k, v). validate_identity_value v (path @ ''.'' @ k)) d"
| "validate_identity_value (JOther cls) path =
    Inl (TypeError (''unsupported identity value '' @ cls @ '' at '' @ path))"

definition canonical_bytes :: "json \<Rightarrow> string res" where
  "canonical_bytes obj =
    bindR (validate_identity_value obj ''$'') (\<lambda>_.
    bindR (json_dumps obj) (\<lambda>t. Inr (utf8_encode t)))"

lemma validate_identity_value_iff: "validate_identity_value v path = Inr () \<longleftrightarrow> identity_ok v"
proof (induction v path rule: validate_identity_value.induct)
  case (7 xs path)
  have "(\<forall>p \<in> set (enumerate 0 xs). identity_ok (snd p)) \<longleftrightarrow> (\<forall>x \<in> snd ` set (enumerate 0 xs). identity_ok x)"
    by auto
  also have "snd ` set (enumerate 0 xs) = set xs"
    by (metis map_snd_enumerate set_map)
  finally show ?case using 7 by (auto simp: forR_Inr_iff case_prod_unfold)
next
  case (8 d path)
  then show ?case by (auto simp: forR_Inr_iff)
qed simp_all

lemma validate_identity_error:
  "validate_identity_value v path = Inl e \<Longrightarrow> \<exists>m. e = TypeError m"
proof (induction v path arbitrary: e rule: validate_identity_value.induct)
  case (7 xs path)
  have "forR f ys = Inl e \<Longrightarrow> \<exists>y \<in> set ys. f y = Inl e" for f and ys :: "(nat \<times> json) list"
    by (induction ys) (auto simp: bindR_Inl_iff)
  from this [OF 7(2) [simplified]] 7(1) show ?case by fastforce
next
  case (8 d path)
  have "forR f ys = Inl e \<Longrightarrow> \<exists>y \<in> set ys. f y = Inl e" for f and ys :: "(string \<times> json) list"
    by (induction ys) (auto simp: bindR_Inl_iff)
  from this [OF 8(2) [simplified]] 8(1) show ?case by fastforce
qed simp_all

lemma canonical_bytes_Inr:
  "canonical_bytes v = Inr b \<longleftrightarrow> identity_ok v \<and> b = utf8_encode (json_text v)"
  by (auto simp: canonical_bytes_def bindR_Inr_iff validate_identity_value_iff json_dumps_def
      identity_ok_serialisable)

lemma canonical_bytes_ok [simp]:
  "identity_ok v \<Longrightarrow> canonical_bytes v = Inr (utf8_encode (json_text v))"
  by (simp add: canonical_bytes_Inr)

lemma canonical_bytes_Inl:
  "canonical_bytes v = Inl e \<longleftrightarrow> validate_identity_value v ''$'' = Inl e"
proof (cases "validate_identity_value v ''$''")
  case (Inr u)
  then have "identity_ok v" by (simp add: validate_identity_value_iff)
  then show ?thesis using Inr by simp
qed (simp add: canonical_bytes_def)

lemma canonical_bytes_inject:
  assumes "canonical_bytes v = Inr b" "canonical_bytes w = Inr b" "json_wf v" "json_wf w"
  shows "json_norm v = json_norm w"
  using assms json_text_inject [of v w] by (auto simp: canonical_bytes_Inr)

section \<open>Digests\<close>

definition DOMAIN :: string where
  "DOMAIN = ''pollard/v1'' @ [CHR 10]"

definition RESULT_DOMAIN :: string where
  "RESULT_DOMAIN = ''pollard/v1:result'' @ [CHR 10]"

definition identity_dict :: "string \<Rightarrow> string option \<Rightarrow> int \<Rightarrow> json \<Rightarrow> json" where
  "identity_dict kind parent_id attempt payload =
    JDict [(''a'', JInt attempt), (''k'', JStr kind),
           (''p'', JStr (case parent_id of None \<Rightarrow> [] | Some p \<Rightarrow> p)), (''pl'', payload)]"

definition node_id :: "string \<Rightarrow> string option \<Rightarrow> int \<Rightarrow> json \<Rightarrow> string res" where
  "node_id kind parent_id attempt payload =
    bindR (canonical_bytes (identity_dict kind parent_id attempt payload)) (\<lambda>b.
    Inr (sha256_hex (DOMAIN @ b)))"

definition digest_payload :: "json \<Rightarrow> string res" where
  "digest_payload payload = bindR (canonical_bytes payload) (\<lambda>b. Inr (sha256_hex b))"

definition result_to_text :: "json \<Rightarrow> string res" where
  "result_to_text result = json_dumps result"

definition result_digest_from_text :: "string \<Rightarrow> string" where
  "result_digest_from_text t = sha256_hex (RESULT_DOMAIN @ utf8_encode t)"

definition result_text_and_digest :: "json \<Rightarrow> (string \<times> string) res" where
  "result_text_and_digest result =
    bindR (result_to_text result) (\<lambda>t. Inr (t, result_digest_from_text t))"

definition collision :: "string \<Rightarrow> string \<Rightarrow> bool" where
  "collision x y \<longleftrightarrow> x \<noteq> y \<and> sha256_hex x = sha256_hex y"

definition identity_bytes :: "string \<Rightarrow> string option \<Rightarrow> int \<Rightarrow> json \<Rightarrow> string" where
  "identity_bytes kind parent_id attempt payload =
    DOMAIN @ utf8_encode (json_text (identity_dict kind parent_id attempt payload))"

lemma node_id_Inr:
  "node_id k p a pl = Inr i \<longleftrightarrow> identity_ok pl \<and> i = sha256_hex (identity_bytes k p a pl)"
  by (auto simp: node_id_def bindR_Inr_iff canonical_bytes_Inr identity_dict_def identity_bytes_def)

lemma node_id_ok [simp]: "identity_ok pl \<Longrightarrow> node_id k p a pl = Inr (sha256_hex (identity_bytes k p a pl))"
  by (simp add: node_id_Inr)

definition same_parent :: "string option \<Rightarrow> string option \<Rightarrow> bool" where
  "same_parent p q \<longleftrightarrow> p = q \<or> (p \<in> {None, Some []} \<and> q \<in> {None, Some []})"

lemma identity_bytes_inject:
  assumes "identity_ok pl" "json_wf pl" "identity_ok pl'" "json_wf pl'"
    and eq: "identity_bytes k p a pl = identity_bytes k' p' a' pl'"
  shows "k = k' \<and> same_parent p p' \<and> a = a' \<and> json_norm pl = json_norm pl'"
proof -
  have "json_norm (identity_dict k p a pl) = json_norm (identity_dict k' p' a' pl')"
    using eq assms(1-4) json_text_inject [of "identity_dict k p a pl" "identity_dict k' p' a' pl'"]
    by (simp add: identity_bytes_def identity_dict_def)
  then show ?thesis
    by (auto simp: identity_dict_def norm_dict_def same_parent_def split: option.splits)
qed

text \<open>
  C16. A node id binds what it is computed from: if the ids of two nodes agree, the nodes agree in
  kind, parent, attempt and payload (the payload up to the order of object keys), unless the two
  canonical byte strings are a SHA-256 collision.
\<close>

theorem node_id_binding:
  assumes "node_id k p a pl = Inr i" "node_id k' p' a' pl' = Inr i" "json_wf pl" "json_wf pl'"
  shows "(k = k' \<and> same_parent p p' \<and> a = a' \<and> json_norm pl = json_norm pl')
    \<or> collision (identity_bytes k p a pl) (identity_bytes k' p' a' pl')"
  using assms identity_bytes_inject [of pl pl' k p a k' p' a']
  by (auto simp: node_id_Inr collision_def)

lemma node_id_binding_witness:
  "json_norm (JDict [(''b'', JInt 1), (''a'', JNull)]) = json_norm (JDict [(''a'', JNull), (''b'', JInt 1)])
    \<or> collision (identity_bytes ''root'' None 0 (JDict [(''b'', JInt 1), (''a'', JNull)]))
        (identity_bytes ''root'' None 0 (JDict [(''a'', JNull), (''b'', JInt 1)]))"
proof -
  have "identity_bytes ''root'' None 0 (JDict [(''b'', JInt 1), (''a'', JNull)])
      = identity_bytes ''root'' None 0 (JDict [(''a'', JNull), (''b'', JInt 1)])"
    by (simp add: identity_bytes_def identity_dict_def json_text_dict member_text_def)
  then show ?thesis
    using node_id_binding [of "''root''" None 0 "JDict [(''b'', JInt 1), (''a'', JNull)]"
        "sha256_hex (identity_bytes ''root'' None 0 (JDict [(''b'', JInt 1), (''a'', JNull)]))"
        "''root''" None 0 "JDict [(''a'', JNull), (''b'', JInt 1)]"]
    by auto
qed

lemma result_digest_binding:
  "result_digest_from_text s = result_digest_from_text t
    \<Longrightarrow> s = t \<or> collision (RESULT_DOMAIN @ utf8_encode s) (RESULT_DOMAIN @ utf8_encode t)"
  by (auto simp: result_digest_from_text_def collision_def)

section \<open>Redaction\<close>

definition REDACTION_DOMAIN :: string where
  "REDACTION_DOMAIN = ''pollard/v1:redact'' @ [CHR 10]"

definition REDACTION_KEY :: string where
  "REDACTION_KEY = ''__pollard_redacted''"

definition redact :: "json \<Rightarrow> string option \<Rightarrow> jdict res" where
  "redact value hint =
    bindR (canonical_bytes value) (\<lambda>b.
    Inr [(REDACTION_KEY, JStr (sha256_hex (REDACTION_DOMAIN @ b))),
         (''hint'', case hint of None \<Rightarrow> JNull | Some h \<Rightarrow> JStr h)])"

definition is_redacted :: "json \<Rightarrow> bool" where
  "is_redacted value = (case value of
      JDict d \<Rightarrow>
        if set (map fst d) \<noteq> {REDACTION_KEY, ''hint''} then False
        else (case dget d REDACTION_KEY of
            Some (JStr digest) \<Rightarrow> length digest = 64 \<and> list_all is_hex digest
          | _ \<Rightarrow> False)
         \<and> (case dget d ''hint'' of Some (JStr _) \<Rightarrow> True | Some JNull \<Rightarrow> True | _ \<Rightarrow> False)
    | _ \<Rightarrow> False)"

fun contains_redaction :: "json \<Rightarrow> bool" where
  "contains_redaction (JDict d) =
    (if is_redacted (JDict d) then True else (\<exists>(k, v) \<in> set d. contains_redaction v))"
| "contains_redaction (JList xs) =
    (if is_redacted (JList xs) then True else (\<exists>x \<in> set xs. contains_redaction x))"
| "contains_redaction v = is_redacted v"

lemma REDACTION_KEY_not_hint [simp]: "REDACTION_KEY \<noteq> ''hint''" "''hint'' \<noteq> REDACTION_KEY"
  by (simp_all add: REDACTION_KEY_def)

lemma redact_Inr:
  "redact v h = Inr d \<longleftrightarrow> identity_ok v \<and>
    d = [(REDACTION_KEY, JStr (sha256_hex (REDACTION_DOMAIN @ utf8_encode (json_text v)))),
         (''hint'', case h of None \<Rightarrow> JNull | Some t \<Rightarrow> JStr t)]"
  by (auto simp: redact_def bindR_Inr_iff canonical_bytes_Inr)

lemma is_redacted_redact:
  assumes "redact v h = Inr d" shows "is_redacted (JDict d)"
proof -
  have "list_all is_hex (sha256_hex s)" for s
    by (simp add: list_all_iff sha256_hex_is_hex)
  then show ?thesis
    using assms by (cases h) (simp_all add: redact_Inr is_redacted_def)
qed

text \<open>The values nested in a value, itself included.\<close>

inductive nested_in :: "json \<Rightarrow> json \<Rightarrow> bool" where
  nested_self: "nested_in v v"
| nested_list: "x \<in> set xs \<Longrightarrow> nested_in v x \<Longrightarrow> nested_in v (JList xs)"
| nested_dict: "(k, x) \<in> set d \<Longrightarrow> nested_in v x \<Longrightarrow> nested_in v (JDict d)"

inductive_simps nested_in_list: "nested_in v (JList xs)"
inductive_simps nested_in_dict: "nested_in v (JDict d)"
inductive_simps nested_in_simps [simp]:
  "nested_in v JNull" "nested_in v (JBool b)" "nested_in v (JInt i)" "nested_in v (JFloat q)"
  "nested_in v (JStr s)" "nested_in v (JBytes s)" "nested_in v (JOther s)"

text \<open>
  \<open>contains_redaction\<close> finds a redaction marker wherever it sits: it is true exactly when
  some value nested in the payload, at any depth, has the shape of a marker.
\<close>

theorem contains_redaction_iff:
  "contains_redaction w \<longleftrightarrow> (\<exists>v. nested_in v w \<and> is_redacted v)"
proof (induction w)
  case (JList xs)
  then show ?case by (simp add: nested_in_list) blast
next
  case (JDict d)
  have "(\<exists>(k, x) \<in> set d. contains_redaction x) \<longleftrightarrow> (\<exists>v. (\<exists>k x. (k, x) \<in> set d \<and> nested_in v x) \<and> is_redacted v)"
    using JDict by fastforce
  then show ?case by (simp add: nested_in_dict) blast
qed auto

text \<open>
  A redaction marker hides the value and commits to it: it has the marker's shape, whatever
  the hint, and two values with the same marker digest are the same up to key order, unless they
  exhibit a SHA-256 collision.
\<close>

theorem redact_commits:
  assumes "redact v h = Inr d" "redact w h' = Inr d'" "json_wf v" "json_wf w"
    "dget d REDACTION_KEY = dget d' REDACTION_KEY"
  shows "is_redacted (JDict d) \<and> contains_redaction (JDict d) \<and>
    (json_norm v = json_norm w \<or>
     collision (REDACTION_DOMAIN @ utf8_encode (json_text v)) (REDACTION_DOMAIN @ utf8_encode (json_text w)))"
proof -
  have "identity_ok v" "identity_ok w"
    "sha256_hex (REDACTION_DOMAIN @ utf8_encode (json_text v)) = sha256_hex (REDACTION_DOMAIN @ utf8_encode (json_text w))"
    using assms(1,2,5) by (simp_all add: redact_Inr)
  then show ?thesis
    using is_redacted_redact [OF assms(1)] assms(3,4) json_text_inject [of v w]
    by (auto simp: collision_def)
qed

lemma redact_commits_witness:
  "is_redacted (JDict [(REDACTION_KEY, JStr (sha256_hex (REDACTION_DOMAIN @ utf8_encode ''7''))), (''hint'', JNull)])"
proof -
  have t: "json_text (JInt 7) = ''7''" by code_simp
  have "redact (JInt 7) None = Inr [(REDACTION_KEY, JStr (sha256_hex (REDACTION_DOMAIN @ utf8_encode ''7''))), (''hint'', JNull)]"
    "redact (JInt 7) (Some ''pin'') = Inr [(REDACTION_KEY, JStr (sha256_hex (REDACTION_DOMAIN @ utf8_encode ''7''))), (''hint'', JStr ''pin'')]"
    using t by (simp_all add: redact_def del: json_text.simps)
  from redact_commits [OF this] show ?thesis by simp
qed

end
