(* ===== verification/Nodes.thy ===== *)
theory Nodes
  imports Canon
begin

text \<open>
  Node records (\<open>tree.py\<close>): a node with its identity fields (parent, kind, attempt, payload),
  its result with the stored result text and digest, and its metadata. \<open>post_init\<close> is the
  validation every construction runs, \<open>make_node\<close> and \<open>from_storage\<close> are the two
  constructors and \<open>set_meta\<close> the copy with other metadata. Python's \<open>None\<close> result is
  \<open>JNull\<close>.
\<close>

section \<open>Kinds and records\<close>

datatype node_kind = ROOT | MODEL_CALL | TOOL_CALL | NOTE | REFUSAL

definition kind_value :: "node_kind \<Rightarrow> string" where
  "kind_value k = (case k of ROOT \<Rightarrow> ''root'' | MODEL_CALL \<Rightarrow> ''model_call''
    | TOOL_CALL \<Rightarrow> ''tool_call'' | NOTE \<Rightarrow> ''note'' | REFUSAL \<Rightarrow> ''refusal'')"

definition node_kinds :: "string list" where
  "node_kinds = map kind_value [ROOT, MODEL_CALL, TOOL_CALL, NOTE, REFUSAL]"

lemma kind_value_inject [simp]: "kind_value k = kind_value k' \<longleftrightarrow> k = k'"
  by (cases k; cases k') (simp_all add: kind_value_def)

record node =
  nid :: string
  parent :: "string option"
  kind :: string
  attempt :: int
  payload :: jdict
  result :: json
  result_digest :: "string option"
  meta :: jdict
  result_text :: "string option"

text \<open>
  \<open>^[0-9a-f]\{64\}$\<close> with \<open>re.match\<close>: the dollar also matches before a final newline.
\<close>

definition is_hex64 :: "string option \<Rightarrow> bool" where
  "is_hex64 value = (case value of None \<Rightarrow> False
    | Some s \<Rightarrow>
        let t = (if s \<noteq> [] \<and> last s = CHR 10 then butlast s else s)
        in length t = 64 \<and> list_all is_hex t)"

lemma not_is_hex_newline [simp]: "\<not> is_hex (CHR 10)"
  by code_simp

lemma is_hex64_sha256 [simp]: "is_hex64 (Some (sha256_hex s))"
proof -
  have hex: "list_all is_hex (sha256_hex s)" by (simp add: list_all_iff sha256_hex_is_hex)
  have ne: "sha256_hex s \<noteq> []" using length_sha256_hex [of s] by force
  then have "last (sha256_hex s) \<noteq> CHR 10" using sha256_hex_is_hex [OF last_in_set [OF ne]] by auto
  with hex show ?thesis by (simp add: is_hex64_def)
qed

text \<open>\<open>json.dumps(value, allow_nan=False)\<close> for its errors only.\<close>

definition validate_json :: "json \<Rightarrow> string \<Rightarrow> unit res" where
  "validate_json value label = (case json_dumps value of
      Inl e \<Rightarrow> Inl (TypeError (label @ '' must be JSON serializable''))
    | Inr t \<Rightarrow> Inr ())"

text \<open>Filling in the result text and digest, then checking the digest.\<close>

definition fill_result_text :: "node \<Rightarrow> node res" where
  "fill_result_text n =
    (if result n \<noteq> JNull \<and> result_text n = None then
       bindR (result_text_and_digest (result n)) (\<lambda>(t, dg).
       Inr (n\<lparr>result_text := Some t,
              result_digest := (case result_digest n of None \<Rightarrow> Some dg | Some x \<Rightarrow> Some x)\<rparr>))
     else Inr n)"

definition fill_result_digest :: "node \<Rightarrow> node res" where
  "fill_result_digest n = (case result_text n of
      None \<Rightarrow> Inr n
    | Some t \<Rightarrow> bindR (json_loads t) (\<lambda>_.
        Inr (if result_digest n = None
             then n\<lparr>result_digest := Some (result_digest_from_text t)\<rparr> else n)))"

definition post_init :: "node \<Rightarrow> node res" where
  "post_init n =
    bindR (ensure (kind n \<in> set node_kinds) (ValueError (''unsupported node kind: '' @ kind n))) (\<lambda>_.
    bindR (ensure (is_hex64 (Some (nid n))) (ValueError ''node id must be 64 lowercase hex characters'')) (\<lambda>_.
    bindR (if kind n = kind_value ROOT
           then ensure (parent n = None) (ValueError ''root nodes cannot have parents'')
           else ensure (is_hex64 (parent n)) (ValueError ''non-root nodes require a 64-hex parent id'')) (\<lambda>_.
    bindR (ensure (0 \<le> attempt n) (ValueError ''attempt must be a non-negative int'')) (\<lambda>_.
    bindR (canonical_bytes (JDict (payload n))) (\<lambda>_.
    bindR (validate_json (JDict (meta n)) ''meta'') (\<lambda>_.
    bindR (fill_result_text n) (\<lambda>n.
    bindR (fill_result_digest n) (\<lambda>n.
    bindR (ensure (result_digest n = None \<or> is_hex64 (result_digest n))
             (ValueError ''result digest must be 64 lowercase hex characters'')) (\<lambda>_.
    Inr n)))))))))"

definition make_node ::
  "string \<Rightarrow> string option \<Rightarrow> jdict \<Rightarrow> int \<Rightarrow> json \<Rightarrow> jdict \<Rightarrow> node res" where
  "make_node k p pl a res m =
    bindR (if res \<noteq> JNull then
             bindR (result_text_and_digest res) (\<lambda>(t, dg). Inr (Some t, Some dg))
           else Inr (None, None)) (\<lambda>(t, dg).
    bindR (node_id k p a (JDict pl)) (\<lambda>i.
    post_init \<lparr>nid = i, parent = p, kind = k, attempt = a, payload = pl, result = res,
      result_digest = dg, meta = m, result_text = t\<rparr>))"

definition from_storage ::
  "string \<Rightarrow> string option \<Rightarrow> string \<Rightarrow> int \<Rightarrow> string \<Rightarrow> string option \<Rightarrow> string option \<Rightarrow> string \<Rightarrow> node res" where
  "from_storage i p k a payload_text rt rd meta_text =
    bindR (json_loads payload_text) (\<lambda>pl.
    bindR (case rt of None \<Rightarrow> Inr JNull | Some t \<Rightarrow> json_loads t) (\<lambda>r.
    bindR (json_loads meta_text) (\<lambda>m.
    case pl of
      JDict pd \<Rightarrow> (case m of
          JDict md \<Rightarrow> post_init \<lparr>nid = i, parent = p, kind = k, attempt = a, payload = pd, result = r,
              result_digest = rd, meta = md, result_text = rt\<rparr>
        | _ \<Rightarrow> Inl (TypeError ''stored meta must be a JSON object''))
    | _ \<Rightarrow> Inl (TypeError ''stored payload must be a JSON object''))))"

text \<open>\<open>dataclasses.replace(node, meta=meta)\<close> and \<open>replace(node, payload=payload)\<close>.\<close>

definition set_meta :: "jdict \<Rightarrow> node \<Rightarrow> node res" where
  "set_meta m n = post_init (n\<lparr>meta := m\<rparr>)"

definition expected_id :: "node \<Rightarrow> string res" where
  "expected_id n = node_id (kind n) (parent n) (attempt n) (JDict (payload n))"

text \<open>\<open>a.identity_tuple() == b.identity_tuple()\<close>.\<close>

definition identity_eq :: "node \<Rightarrow> node \<Rightarrow> bool" where
  "identity_eq m n \<longleftrightarrow> parent m = parent n \<and> kind m = kind n \<and> attempt m = attempt n \<and>
    py_eq (JDict (payload m)) (JDict (payload n))"

section \<open>Well-formed nodes\<close>

text \<open>What a constructed node satisfies: a fixed point of its own validation.\<close>

definition node_wf :: "node \<Rightarrow> bool" where
  "node_wf n \<longleftrightarrow> post_init n = Inr n"

text \<open>The fields validation never changes.\<close>

definition node_core :: "node \<Rightarrow> string \<times> string option \<times> string \<times> int \<times> jdict \<times> json \<times> jdict" where
  "node_core n = (nid n, parent n, kind n, attempt n, payload n, result n, meta n)"

lemma fill_result_text_core: "fill_result_text n = Inr m \<Longrightarrow> node_core m = node_core n"
  by (auto simp: fill_result_text_def bindR_Inr_iff node_core_def split: if_splits)

lemma fill_result_digest_core: "fill_result_digest n = Inr m \<Longrightarrow> node_core m = node_core n"
  by (auto simp: fill_result_digest_def bindR_Inr_iff node_core_def split: if_splits option.splits)

text \<open>The conditions \<open>__post_init__\<close> checks before it looks at the result.\<close>

definition core_ok :: "node \<Rightarrow> bool" where
  "core_ok n \<longleftrightarrow> kind n \<in> set node_kinds \<and> is_hex64 (Some (nid n)) \<and>
    (if kind n = kind_value ROOT then parent n = None else is_hex64 (parent n)) \<and>
    0 \<le> attempt n \<and> identity_ok (JDict (payload n)) \<and> json_serialisable (JDict (meta n))"

lemma validate_json_iff: "validate_json v l = Inr u \<longleftrightarrow> json_serialisable v"
  by (auto simp: validate_json_def json_dumps_def)

lemma post_init_Inr:
  "post_init n = Inr m \<longleftrightarrow> core_ok n \<and>
    (\<exists>n1. fill_result_text n = Inr n1 \<and> fill_result_digest n1 = Inr m \<and>
      (result_digest m = None \<or> is_hex64 (result_digest m)))"
  by (simp add: post_init_def core_ok_def bindR_Inr_iff validate_json_iff canonical_bytes_Inr
      del: identity_ok.simps json_serialisable.simps)

lemma post_init_core: "post_init n = Inr m \<Longrightarrow> node_core m = node_core n"
  by (auto simp: post_init_Inr dest!: fill_result_text_core fill_result_digest_core)

lemma core_ok_cong: "node_core m = node_core n \<Longrightarrow> core_ok m = core_ok n"
  by (simp add: node_core_def core_ok_def)

lemma fill_result_text_text:
  "fill_result_text n = Inr m \<Longrightarrow> result m \<noteq> JNull \<longrightarrow> result_text m \<noteq> None"
  by (auto simp: fill_result_text_def bindR_Inr_iff split: if_splits)

lemma fill_result_text_idem:
  "result n \<noteq> JNull \<longrightarrow> result_text n \<noteq> None \<Longrightarrow> fill_result_text n = Inr n"
  by (auto simp: fill_result_text_def)

lemma fill_result_digest_text: "fill_result_digest n = Inr m \<Longrightarrow> result_text m = result_text n"
  by (auto simp: fill_result_digest_def bindR_Inr_iff split: if_splits option.splits)

lemma fill_result_digest_idem: "fill_result_digest n = Inr m \<Longrightarrow> fill_result_digest m = Inr m"
  by (auto simp: fill_result_digest_def bindR_Inr_iff split: if_splits option.splits)

text \<open>Validation is idempotent: what it accepts, it accepts again unchanged.\<close>

lemma post_init_wf: "post_init n = Inr m \<Longrightarrow> node_wf m"
proof -
  assume m: "post_init n = Inr m"
  then obtain n1 where n1: "fill_result_text n = Inr n1" "fill_result_digest n1 = Inr m"
    and ok: "core_ok n" "result_digest m = None \<or> is_hex64 (result_digest m)"
    by (auto simp: post_init_Inr)
  have core: "node_core m = node_core n1" "node_core m = node_core n"
    using n1 by (simp_all add: fill_result_digest_core fill_result_text_core)
  have "fill_result_text m = Inr m"
    using fill_result_text_text [OF n1(1)] fill_result_digest_text [OF n1(2)] core
    by (intro fill_result_text_idem) (simp add: node_core_def)
  then show "node_wf m"
    using fill_result_digest_idem [OF n1(2)] ok core_ok_cong [OF core(2)]
    by (simp add: node_wf_def post_init_Inr)
qed

lemma node_wf_core_ok: "node_wf n \<Longrightarrow> core_ok n"
  by (simp add: node_wf_def post_init_Inr)

lemma fill_result_digest_self:
  "fill_result_digest n = Inr n \<longleftrightarrow>
    (\<forall>t. result_text n = Some t \<longrightarrow> (\<exists>v. json_loads t = Inr v) \<and> result_digest n \<noteq> None)"
proof (cases "result_text n")
  case (Some t)
  have "n\<lparr>result_digest := Some d\<rparr> \<noteq> n" if "result_digest n = None" for d
    using that by (metis node.select_convs(7) node.surjective node.update_convs(7) option.distinct(1))
  then show ?thesis using Some by (auto simp: fill_result_digest_def bindR_Inr_iff)
qed (simp add: fill_result_digest_def)

lemma node_wf_iff:
  "node_wf n \<longleftrightarrow> core_ok n \<and> (result n \<noteq> JNull \<longrightarrow> result_text n \<noteq> None) \<and>
    (\<forall>t. result_text n = Some t \<longrightarrow> (\<exists>v. json_loads t = Inr v) \<and> result_digest n \<noteq> None) \<and>
    (result_digest n = None \<or> is_hex64 (result_digest n))"
proof
  assume wf: "node_wf n"
  then obtain n1 where n1: "fill_result_text n = Inr n1" "fill_result_digest n1 = Inr n"
    by (auto simp: node_wf_def post_init_Inr)
  have t: "result n \<noteq> JNull \<longrightarrow> result_text n \<noteq> None"
    using fill_result_text_text [OF n1(1)] fill_result_digest_text [OF n1(2)]
      fill_result_text_core [OF n1(1)] by (simp add: node_core_def)
  have "fill_result_digest n = Inr n" using fill_result_digest_idem n1(2) by blast
  with wf t show "core_ok n \<and> (result n \<noteq> JNull \<longrightarrow> result_text n \<noteq> None) \<and>
    (\<forall>t. result_text n = Some t \<longrightarrow> (\<exists>v. json_loads t = Inr v) \<and> result_digest n \<noteq> None) \<and>
    (result_digest n = None \<or> is_hex64 (result_digest n))"
    by (auto simp: fill_result_digest_self) (auto simp: node_wf_def post_init_Inr)
qed (simp add: node_wf_def post_init_Inr fill_result_text_idem fill_result_digest_self)

lemma set_meta_wf:
  assumes "node_wf n"
  shows "set_meta m n = (if json_serialisable (JDict m) then Inr (n\<lparr>meta := m\<rparr>)
    else Inl (TypeError ''meta must be JSON serializable''))"
proof (cases "json_serialisable (JDict m)")
  case True
  then have "node_wf (n\<lparr>meta := m\<rparr>)" using assms by (simp add: node_wf_iff core_ok_def)
  with True show ?thesis by (simp add: set_meta_def node_wf_def)
next
  case False
  have "core_ok n" using assms by (rule node_wf_core_ok)
  with False show ?thesis
    by (simp add: set_meta_def post_init_def core_ok_def validate_json_def json_dumps_def
        del: identity_ok.simps json_serialisable.simps)
qed

lemma make_node_Inr:
  assumes "make_node k p pl a r md = Inr n"
  shows "node_wf n" "parent n = p" "kind n = k" "attempt n = a" "payload n = pl" "result n = r"
    "meta n = md" "expected_id n = Inr (nid n)"
proof -
  obtain t dg i where i: "node_id k p a (JDict pl) = Inr i"
    and n: "post_init \<lparr>nid = i, parent = p, kind = k, attempt = a, payload = pl, result = r,
      result_digest = dg, meta = md, result_text = t\<rparr> = Inr n"
    using assms by (auto simp: make_node_def bindR_Inr_iff split: if_splits)
  show "node_wf n" using n by (rule post_init_wf)
  show "parent n = p" "kind n = k" "attempt n = a" "payload n = pl" "result n = r" "meta n = md"
    using post_init_core [OF n] by (simp_all add: node_core_def)
  show "expected_id n = Inr (nid n)"
    using post_init_core [OF n] i by (simp add: node_core_def expected_id_def)
qed

lemma make_node_ok:
  assumes "k \<in> set node_kinds" "if k = kind_value ROOT then p = None else is_hex64 p" "0 \<le> a"
    "identity_ok (JDict pl)" "identity_ok r" "json_wf r" "json_serialisable (JDict md)"
  shows "make_node k p pl a r md =
    Inr \<lparr>nid = sha256_hex (identity_bytes k p a (JDict pl)), parent = p, kind = k, attempt = a,
      payload = pl, result = r,
      result_digest = (if r = JNull then None else Some (result_digest_from_text (json_text r))),
      meta = md, result_text = (if r = JNull then None else Some (json_text r))\<rparr>" (is "_ = Inr ?n")
proof -
  have "node_wf ?n"
    using assms json_loads_text [OF assms(5,6)]
    by (auto simp: node_wf_iff core_ok_def result_digest_from_text_def)
  then show ?thesis
    using assms by (auto simp: make_node_def node_wf_def result_text_and_digest_def result_to_text_def
        json_dumps_def identity_ok_serialisable)
qed

section \<open>Storage\<close>

lemma canonical_text_JDict: "identity_bytes k p a (JDict (norm_dict d)) = identity_bytes k p a (JDict d)"
proof -
  have "json_text (identity_dict k p a (JDict (norm_dict d))) = json_text (identity_dict k p a (JDict d))"
    using json_text_norm [of "JDict d"] by (simp add: identity_dict_def json_text_dict [of "_ # _"] member_text_def)
  then show ?thesis by (simp add: identity_bytes_def)
qed

text \<open>
  C27. A node survives its storage form: reading back the columns a store writes (the JSON texts
  of payload and metadata, the result text and digest) gives the node again, with the keys of its
  objects sorted and its result read from the stored text, and the id the node is expected to have
  is unchanged.
\<close>

theorem from_storage_round_trip:
  assumes "node_wf n" "json_wf (JDict (payload n))" "json_wf (JDict (meta n))" "json_wf (result n)"
    "result_text n = (if result n = JNull then None else Some (json_text (result n)))"
    "json_serialisable (result n)"
  shows "\<exists>m. from_storage (nid n) (parent n) (kind n) (attempt n) (json_text (JDict (payload n)))
      (result_text n) (result_digest n) (json_text (JDict (meta n))) = Inr m \<and>
    m = n\<lparr>payload := norm_dict (payload n), meta := norm_dict (meta n), result := json_norm (result n)\<rparr> \<and>
    expected_id m = expected_id n"
proof -
  let ?m = "n\<lparr>payload := norm_dict (payload n), meta := norm_dict (meta n), result := json_norm (result n)\<rparr>"
  have core: "core_ok n" using assms(1) by (rule node_wf_core_ok)
  have pl: "identity_ok (JDict (payload n))" using core by (simp add: core_ok_def)
  have ok: "identity_ok (JDict (norm_dict (payload n)))" "json_serialisable (JDict (norm_dict (meta n)))"
    using identity_ok_norm [of "JDict (payload n)"] json_serialisable_norm [of "JDict (meta n)"] core
    by (simp_all add: core_ok_def del: identity_ok.simps json_serialisable.simps)
  then have "core_ok ?m" using core by (simp add: core_ok_def)
  moreover have "json_norm (result n) = JNull \<longleftrightarrow> result n = JNull" by (cases "result n") simp_all
  ultimately have wf: "node_wf ?m" using assms(1) by (simp add: node_wf_iff)
  have "from_storage (nid n) (parent n) (kind n) (attempt n) (json_text (JDict (payload n)))
      (result_text n) (result_digest n) (json_text (JDict (meta n))) = post_init ?m"
  proof -
    have "json_loads (json_text (JDict (payload n))) = Inr (JDict (norm_dict (payload n)))"
      "json_loads (json_text (JDict (meta n))) = Inr (JDict (norm_dict (meta n)))"
      "json_loads (json_text (result n)) = Inr (json_norm (result n))"
      using json_loads_text [OF pl assms(2)] json_loads_dumped [OF _ assms(3)] json_loads_dumped [OF assms(6,4)] core
      by (simp_all add: core_ok_def del: json_serialisable.simps)
    moreover have "(case result_text n of None \<Rightarrow> Inr JNull | Some t \<Rightarrow> json_loads t) = Inr (json_norm (result n))"
      using assms(5) calculation(3) by auto
    moreover have "n\<lparr>payload := p, meta := q, result := r\<rparr> = \<lparr>nid = nid n, parent = parent n, kind = kind n,
      attempt = attempt n, payload = p, result = r, result_digest = result_digest n, meta = q,
      result_text = result_text n\<rparr>" for p q r by simp
    ultimately show ?thesis by (simp only: from_storage_def bindR_simps json.case)
  qed
  moreover have "expected_id ?m = expected_id n"
    using ok(1) pl by (simp add: expected_id_def canonical_text_JDict del: identity_ok.simps)
  ultimately show ?thesis using wf by (simp add: node_wf_def)
qed

lemma from_storage_round_trip_witness:
  "\<exists>m. from_storage (sha256_hex (identity_bytes ''root'' None 0 (JDict [(''b'', JInt 1), (''a'', JNull)])))
      None ''root'' 0 (json_text (JDict [(''b'', JInt 1), (''a'', JNull)])) (Some (json_text (JStr ''ok'')))
      (Some (result_digest_from_text (json_text (JStr ''ok'')))) (json_text (JDict [])) = Inr m \<and>
    payload m = [(''a'', JNull), (''b'', JInt 1)]"
proof -
  obtain n where n: "make_node ''root'' None [(''b'', JInt 1), (''a'', JNull)] 0 (JStr ''ok'') [] = Inr n"
    and f: "nid n = sha256_hex (identity_bytes ''root'' None 0 (JDict [(''b'', JInt 1), (''a'', JNull)]))"
      "result_text n = Some (json_text (JStr ''ok''))"
      "result_digest n = Some (result_digest_from_text (json_text (JStr ''ok'')))"
    by (subst (asm) make_node_ok) (auto simp: node_kinds_def kind_value_def)
  note g = make_node_Inr [OF n]
  have nd: "norm_dict [(''b'', JInt 1), (''a'', JNull)] = [(''a'', JNull), (''b'', JInt 1)]"
    by (simp add: norm_dict_def)
  from from_storage_round_trip [OF g(1)] g f nd show ?thesis
    by (simp del: json_text.simps)
qed

text \<open>The dollar of the id pattern admits a trailing newline.\<close>

lemma is_hex64_trailing_newline: "is_hex64 (Some (replicate 64 (CHR ''a'') @ [CHR 10]))"
proof -
  have "is_hex (CHR ''a'')" by code_simp
  then show ?thesis by (simp add: is_hex64_def list_all_iff)
qed

end
