(* ===== verification/Walk.thy ===== *)
theory Walk
  imports Nodes
begin

text \<open>
  The depth-first walk every store offers, and what it yields on a tree of nodes: each node of the
  subtree exactly once, every node after its parent. \<open>walk_loop\<close> is the generator of
  \<open>MemoryStore.walk\<close> run to its end: the nodes yielded, and the exception that ended it if
  one did. Its stack is written top first.
\<close>

partial_function (option) walk_loop ::
  "(string \<Rightarrow> node res) \<Rightarrow> (string \<Rightarrow> string list res) \<Rightarrow> string list \<Rightarrow> node list
    \<Rightarrow> (node list \<times> exc option) option" where
  "walk_loop get children pending acc = (case pending of
      [] \<Rightarrow> Some (acc, None)
    | i # rest \<Rightarrow> (case get i of
        Inl e \<Rightarrow> Some (acc, Some e)
      | Inr n \<Rightarrow> (case children i of
          Inl e \<Rightarrow> Some (acc @ [n], Some e)
        | Inr cs \<Rightarrow> walk_loop get children (cs @ rest) (acc @ [n]))))"

lemma walk_loop_simps [simp]:
  "walk_loop get children [] acc = Some (acc, None)"
  "get i = Inl e \<Longrightarrow> walk_loop get children (i # rest) acc = Some (acc, Some e)"
  "get i = Inr n \<Longrightarrow> children i = Inl e \<Longrightarrow> walk_loop get children (i # rest) acc = Some (acc @ [n], Some e)"
  "get i = Inr n \<Longrightarrow> children i = Inr cs
    \<Longrightarrow> walk_loop get children (i # rest) acc = walk_loop get children (cs @ rest) (acc @ [n])"
  by (subst walk_loop.simps; simp)+

section \<open>Trees of nodes\<close>

type_synonym node_map = "string \<Rightarrow> node option"

definition edges :: "node_map \<Rightarrow> (string \<times> string) set" where
  "edges M = {(p, c). \<exists>n. M c = Some n \<and> parent n = Some p}"

definition kids :: "node_map \<Rightarrow> string \<Rightarrow> string set" where
  "kids M i = {c. (i, c) \<in> edges M}"

definition desc :: "node_map \<Rightarrow> string \<Rightarrow> string set" where
  "desc M i = {j. (i, j) \<in> (edges M)\<^sup>*}"

text \<open>A finite forest: ids are keys and no node is its own ancestor.\<close>

definition forest :: "node_map \<Rightarrow> bool" where
  "forest M \<longleftrightarrow> finite (dom M) \<and> acyclic (edges M) \<and> (\<forall>i n. M i = Some n \<longrightarrow> nid n = i)"

text \<open>Every parent is present.\<close>

definition parents_in :: "node_map \<Rightarrow> bool" where
  "parents_in M \<longleftrightarrow> (\<forall>i n p. M i = Some n \<longrightarrow> parent n = Some p \<longrightarrow> p \<in> dom M)"

lemma parents_inD: "parents_in M \<Longrightarrow> M i = Some n \<Longrightarrow> parent n = Some p \<Longrightarrow> \<exists>m. M p = Some m"
  unfolding parents_in_def by blast

lemma edges_dom: "(p, c) \<in> edges M \<Longrightarrow> c \<in> dom M"
  by (auto simp: edges_def)

lemma edges_parent: "(p, c) \<in> edges M \<Longrightarrow> (q, c) \<in> edges M \<Longrightarrow> p = q"
  by (auto simp: edges_def)

lemma edges_finite: "forest M \<Longrightarrow> finite (edges M)"
proof -
  assume "forest M"
  then have "finite (dom M)" by (simp add: forest_def)
  moreover have "edges M \<subseteq> (\<lambda>c. (the (parent (the (M c))), c)) ` dom M"
    by (force simp: edges_def)
  ultimately show ?thesis by (meson finite_imageI finite_subset)
qed

lemma edges_wf: "forest M \<Longrightarrow> wf ((edges M)\<inverse>)"
  using edges_finite by (intro finite_acyclic_wf_converse) (simp_all add: forest_def)

lemma forest_rank:
  assumes "finite (dom M)" "\<And>i n. M i = Some n \<Longrightarrow> nid n = i"
    "\<And>i n p. M i = Some n \<Longrightarrow> parent n = Some p \<Longrightarrow> (rank p :: nat) < rank i"
  shows "forest M"
proof -
  have "edges M \<subseteq> measure rank" using assms(3) by (auto simp: edges_def)
  then have "acyclic (edges M)" by (meson wf_measure wf_acyclic acyclic_subset)
  with assms show ?thesis unfolding forest_def by blast
qed

lemma desc_self [simp]: "i \<in> desc M i"
  by (simp add: desc_def)

lemma desc_unfold: "desc M i = insert i (\<Union>c \<in> kids M i. desc M c)"
  by (auto simp: desc_def kids_def elim: converse_rtranclE intro: converse_rtrancl_into_rtrancl)

lemma desc_dom: "i \<in> dom M \<Longrightarrow> desc M i \<subseteq> dom M"
proof
  fix j assume f: "i \<in> dom M" and "j \<in> desc M i"
  then have "(i, j) \<in> (edges M)\<^sup>*" by (simp add: desc_def)
  then show "j \<in> dom M" using f by induction (auto dest: edges_dom)
qed

text \<open>Ancestors of a node are comparable.\<close>

lemma desc_comparable:
  assumes "(a, x) \<in> (edges M)\<^sup>*" "(b, x) \<in> (edges M)\<^sup>*"
  shows "(a, b) \<in> (edges M)\<^sup>* \<or> (b, a) \<in> (edges M)\<^sup>*"
  using assms
proof (induction arbitrary: b rule: rtrancl_induct)
  case (step y z)
  from step.prems show ?case
  proof (cases rule: rtranclE)
    case base
    then show ?thesis using step.hyps by (meson rtrancl.rtrancl_into_rtrancl)
  next
    case (step w)
    then have "w = y" using \<open>(y, z) \<in> edges M\<close> edges_parent by blast
    then show ?thesis using step.IH step(1) by blast
  qed
qed simp

lemma desc_siblings_disjoint:
  assumes f: "forest M" and "c \<in> kids M i" "d \<in> kids M i" "c \<noteq> d"
  shows "desc M c \<inter> desc M d = {}"
proof -
  have no: "(a, b) \<notin> (edges M)\<^sup>*" if ab: "a \<in> kids M i" "b \<in> kids M i" "a \<noteq> b" for a b
  proof
    assume "(a, b) \<in> (edges M)\<^sup>*"
    with ab(3) obtain y where y: "(a, y) \<in> (edges M)\<^sup>*" "(y, b) \<in> edges M" by (meson rtranclE)
    moreover have "(i, b) \<in> edges M" "(i, a) \<in> edges M" using ab by (simp_all add: kids_def)
    ultimately have "(i, i) \<in> (edges M)\<^sup>+" using edges_parent by (metis rtrancl_into_trancl2)
    then show False using f by (auto simp: forest_def acyclic_def)
  qed
  show ?thesis
  proof (rule ccontr)
    assume "desc M c \<inter> desc M d \<noteq> {}"
    then obtain x where "(c, x) \<in> (edges M)\<^sup>*" "(d, x) \<in> (edges M)\<^sup>*" by (auto simp: desc_def)
    then show False using desc_comparable no assms by metis
  qed
qed

lemma desc_not_up:
  assumes "forest M" "c \<in> kids M i" shows "i \<notin> desc M c"
proof
  assume "i \<in> desc M c"
  then have "(i, i) \<in> (edges M)\<^sup>+"
    using assms(2) by (auto simp: desc_def kids_def intro: rtrancl_into_trancl2)
  then show False using assms(1) by (auto simp: forest_def acyclic_def)
qed

section \<open>What the walk yields\<close>

text \<open>
  \<open>preorder M i L\<close>: the list starts with \<open>i\<close>, holds each descendant once, and every
  later node comes after its parent.
\<close>

definition preorder :: "node_map \<Rightarrow> string \<Rightarrow> node list \<Rightarrow> bool" where
  "preorder M i L \<longleftrightarrow> L \<noteq> [] \<and> M i = Some (hd L) \<and> distinct (map nid L) \<and>
    set (map nid L) = desc M i \<and> (\<forall>n \<in> set L. M (nid n) = Some n) \<and>
    (\<forall>k. 0 < k \<and> k < length L \<longrightarrow> (\<exists>p. parent (L ! k) = Some p \<and> p \<in> nid ` set (take k L)))"

definition subtree_walk ::
  "node_map \<Rightarrow> (string \<Rightarrow> node res) \<Rightarrow> (string \<Rightarrow> string list res) \<Rightarrow> string \<Rightarrow> node list \<Rightarrow> bool" where
  "subtree_walk M get children i L \<longleftrightarrow> preorder M i L \<and>
    (\<forall>rest acc. walk_loop get children (i # rest) acc = walk_loop get children rest (acc @ L))"

lemma walk_siblings:
  assumes "\<And>c. c \<in> set cs \<Longrightarrow> \<exists>L. subtree_walk M get children c L"
  shows "\<exists>Ls. list_all2 (subtree_walk M get children) cs Ls \<and>
    (\<forall>rest acc. walk_loop get children (cs @ rest) acc = walk_loop get children rest (acc @ concat Ls))"
  using assms
proof (induction cs)
  case (Cons c cs)
  obtain L where L: "subtree_walk M get children c L" using Cons.prems by auto
  obtain Ls where Ls: "list_all2 (subtree_walk M get children) cs Ls"
    "\<And>rest acc. walk_loop get children (cs @ rest) acc = walk_loop get children rest (acc @ concat Ls)"
    using Cons by force
  show ?case
    by (rule exI [of _ "L # Ls"]) (use L Ls in \<open>simp add: subtree_walk_def [of M get children c L]\<close>)
qed simp

lemma parents_first_concat:
  assumes "\<And>L. L \<in> set Ls \<Longrightarrow> L \<noteq> [] \<and> parent (hd L) = Some i \<and>
      (\<forall>k. 0 < k \<and> k < length L \<longrightarrow> (\<exists>p. parent (L ! k) = Some p \<and> p \<in> nid ` set (take k L)))"
    and "k < length (concat Ls)"
  shows "\<exists>p. parent (concat Ls ! k) = Some p \<and> (p = i \<or> p \<in> nid ` set (take k (concat Ls)))"
  using assms
proof (induction Ls arbitrary: k)
  case (Cons L Ls)
  show ?case
  proof (cases "k < length L")
    case True
    then show ?thesis using Cons.prems(1) [of L]
      by (cases "k = 0") (auto simp: nth_append hd_conv_nth)
  next
    case False
    with Cons have "\<exists>p. parent (concat Ls ! (k - length L)) = Some p \<and>
        (p = i \<or> p \<in> nid ` set (take (k - length L) (concat Ls)))"
      by (intro Cons.IH) auto
    with False show ?thesis by (auto simp: nth_append)
  qed
qed simp

lemma preorder_ids: "preorder M c L \<Longrightarrow> nid ` set L = desc M c"
  by (simp add: preorder_def)

lemma preorder_concat_ids:
  "list_all2 (preorder M) cs Ls \<Longrightarrow> nid ` set (concat Ls) = (\<Union>c \<in> set cs. desc M c)"
  by (induction cs Ls rule: list_all2_induct) (simp_all add: preorder_ids image_Un)

lemma preorder_concat_distinct:
  assumes f: "forest M"
  shows "list_all2 (preorder M) cs Ls \<Longrightarrow> distinct cs \<Longrightarrow> set cs \<subseteq> kids M i
    \<Longrightarrow> distinct (map nid (concat Ls))"
proof (induction cs Ls rule: list_all2_induct)
  case (Cons c cs L Ls)
  have "desc M c \<inter> desc M d = {}" if "d \<in> set cs" for d
    using Cons.prems that by (intro desc_siblings_disjoint [OF f]) auto
  then have "nid ` set L \<inter> nid ` set (concat Ls) = {}"
    unfolding preorder_ids [OF Cons.hyps(1)] preorder_concat_ids [OF Cons.hyps(2)] by blast
  moreover have "distinct (map nid L)" using Cons.hyps(1) by (simp add: preorder_def)
  ultimately show ?case using Cons.IH Cons.prems by simp
qed simp

lemma preorder_node:
  assumes f: "forest M" and n: "M i = Some n" and cs: "distinct cs" "set cs = kids M i"
    and Ls: "list_all2 (preorder M) cs Ls"
  shows "preorder M i (n # concat Ls)"
proof -
  have ni: "nid n = i" using f n by (simp add: forest_def)
  have L: "\<exists>c \<in> kids M i. preorder M c L" if "L \<in> set Ls" for L
    using that Ls cs(2) by (metis list_all2_conv_all_nth in_set_conv_nth)
  have sets: "set (map nid (concat Ls)) = (\<Union>c \<in> kids M i. desc M c)"
    using preorder_concat_ids [OF Ls] cs(2) by simp
  have "distinct (map nid (concat Ls))"
    using preorder_concat_distinct [OF f Ls cs(1), of i] cs(2) by simp
  moreover have "nid n \<notin> set (map nid (concat Ls))"
    unfolding sets ni using desc_not_up [OF f] by blast
  moreover have "\<forall>m \<in> set (concat Ls). M (nid m) = Some m" using L by (fastforce simp: preorder_def)
  moreover have "\<exists>p. parent ((n # concat Ls) ! k) = Some p \<and> p \<in> nid ` set (take k (n # concat Ls))"
    if k: "0 < k" "k < length (n # concat Ls)" for k
  proof -
    obtain j where j: "k = Suc j" "j < length (concat Ls)" using k by (cases k) auto
    have "L' \<noteq> [] \<and> parent (hd L') = Some i \<and>
      (\<forall>k. 0 < k \<and> k < length L' \<longrightarrow> (\<exists>p. parent (L' ! k) = Some p \<and> p \<in> nid ` set (take k L')))"
      if "L' \<in> set Ls" for L'
      using L [OF that] unfolding preorder_def by (auto simp: kids_def edges_def)
    from parents_first_concat [OF this j(2)] show ?thesis using ni j by auto
  qed
  ultimately show ?thesis
    using n ni sets desc_unfold [of M i] by (simp add: preorder_def)
qed

lemma walk_subtree:
  assumes f: "forest M" and get: "\<And>i n. M i = Some n \<Longrightarrow> get i = Inr n"
    and ch: "\<And>i. i \<in> dom M \<Longrightarrow> \<exists>cs. children i = Inr cs \<and> distinct cs \<and> set cs = kids M i"
  shows "i \<in> dom M \<Longrightarrow> \<exists>L. subtree_walk M get children i L"
proof (induction i rule: wf_induct_rule [OF edges_wf [OF f]])
  case (1 i)
  then obtain n where n: "M i = Some n" by auto
  obtain cs where cs: "children i = Inr cs" "distinct cs" "set cs = kids M i" using ch 1 by blast
  have "\<exists>L. subtree_walk M get children c L" if "c \<in> set cs" for c
    using 1(1) [of c] that cs(3) edges_dom [of i _ M] by (auto simp: kids_def)
  from walk_siblings [OF this] obtain Ls where
    Ls: "list_all2 (subtree_walk M get children) cs Ls"
    "\<And>rest acc. walk_loop get children (cs @ rest) acc = walk_loop get children rest (acc @ concat Ls)"
    by blast
  have "list_all2 (preorder M) cs Ls"
    using Ls(1) by (rule list_all2_mono) (simp add: subtree_walk_def)
  with preorder_node [OF f n cs(2,3)] have "preorder M i (n # concat Ls)" by blast
  moreover have "walk_loop get children (i # rest) acc = walk_loop get children rest (acc @ n # concat Ls)" for rest acc
    using get [OF n] cs(1) Ls(2) by simp
  ultimately show ?case unfolding subtree_walk_def by blast
qed

lemma walk_preorder:
  assumes "forest M" "\<And>i n. M i = Some n \<Longrightarrow> get i = Inr n"
    "\<And>i. i \<in> dom M \<Longrightarrow> \<exists>cs. children i = Inr cs \<and> distinct cs \<and> set cs = kids M i" "i \<in> dom M"
  shows "\<exists>L. walk_loop get children [i] [] = Some (L, None) \<and> preorder M i L"
proof -
  obtain L where "subtree_walk M get children i L"
    using walk_subtree [of M get children i] assms by blast
  then show ?thesis by (simp add: subtree_walk_def)
qed

lemma walk_missing: "get i = Inl e \<Longrightarrow> walk_loop get children [i] [] = Some ([], Some e)"
  by simp

end
