(* ===== verification/Store.thy ===== *)
theory Store
  imports Walk
begin

text \<open>
  The \<open>Store\<close> protocol and \<open>MemoryStore\<close> (\<open>store.py\<close>). \<open>store_ops\<close> is the
  protocol: the operations a client calls, over a state of any type. The locale
  \<open>store_contract\<close> states what a store promises through them: it is append only, keeps every
  node it returns consistent with its id and digest, lists the children of a node in order and walks
  a subtree. \<open>MemoryStore\<close> is the record \<open>mem_store\<close>: the dictionary of nodes and the
  dictionary of child sets (a set is a list without duplicates; the deep copies the code takes are
  what values are in the model). The results: every operation keeps the store's invariant
  \<open>mem_inv\<close>, and \<open>MemoryStore\<close> satisfies the contract.
\<close>

section \<open>Python texts and lists of values\<close>

text \<open>\<open>repr\<close> and \<open>str\<close> of a JSON value.\<close>

definition repr_char :: "nat \<Rightarrow> char \<Rightarrow> string" where
  "repr_char q c =
    (let n = (of_char c :: nat) in
     if n = q \<or> n = 92 then [CHR 92, c]
     else if n = 9 then [CHR 92, CHR ''t'']
     else if n = 10 then [CHR 92, CHR ''n'']
     else if n = 13 then [CHR 92, CHR ''r'']
     else if n < 32 \<or> (127 \<le> n \<and> n \<le> 160) \<or> n = 173
       then [CHR 92, CHR ''x'', hex_char (int (n div 16)), hex_char (int (n mod 16))]
     else [c])"

definition py_repr_str :: "string \<Rightarrow> string" where
  "py_repr_str s =
    (let q = (if CHR 39 \<in> set s \<and> CHR 34 \<notin> set s then 34 else 39)
     in char_of q # concat (map (repr_char q) s) @ [char_of q])"

fun py_repr :: "json \<Rightarrow> string" where
  "py_repr JNull = ''None''"
| "py_repr (JBool b) = (if b then ''True'' else ''False'')"
| "py_repr (JInt i) = int_str i"
| "py_repr (JFloat q) = float_text q"
| "py_repr (JStr s) = py_repr_str s"
| "py_repr (JBytes s) = ''b'' @ py_repr_str s"
| "py_repr (JOther cls) = cls"
| "py_repr (JList xs) = ''['' @ concat_sep '', '' (map py_repr xs) @ '']''"
| "py_repr (JDict d) = ''{'' @ concat_sep '', '' (map (\<lambda>(k, v). py_repr_str k @ '': '' @ py_repr v) d) @ ''}''"

definition py_str :: "json \<Rightarrow> string" where
  "py_str v = (case v of JStr s \<Rightarrow> s | _ \<Rightarrow> py_repr v)"

text \<open>\<open>list(value)\<close>.\<close>

definition py_list :: "json \<Rightarrow> json list res" where
  "py_list v = (case v of
      JList xs \<Rightarrow> Inr xs
    | JStr s \<Rightarrow> Inr (map (\<lambda>c. JStr [c]) s)
    | JDict d \<Rightarrow> Inr (map (\<lambda>(k, _). JStr k) d)
    | _ \<Rightarrow> Inl (TypeError ''object is not iterable''))"

section \<open>The protocol\<close>

record 'st store_ops =
  s_put :: "node \<Rightarrow> 'st \<Rightarrow> 'st res"
  s_get :: "'st \<Rightarrow> string \<Rightarrow> node res"
  s_exists :: "'st \<Rightarrow> string \<Rightarrow> bool"
  s_children :: "'st \<Rightarrow> string \<Rightarrow> string list res"
  s_update_meta :: "string \<Rightarrow> jdict \<Rightarrow> 'st \<Rightarrow> 'st res"
  s_walk :: "'st \<Rightarrow> string \<Rightarrow> (node list \<times> exc option) option"
  s_roots :: "'st \<Rightarrow> string list res"

text \<open>Nodes whose dictionaries have distinct keys, as every Python object's do.\<close>

definition node_ok :: "node \<Rightarrow> bool" where
  "node_ok n \<longleftrightarrow> node_wf n \<and> json_wf (JDict (payload n)) \<and> json_wf (JDict (meta n)) \<and> json_wf (result n)"

text \<open>What \<open>_validate_for_put\<close> checks.\<close>

definition validate_for_put :: "node \<Rightarrow> unit res" where
  "validate_for_put n =
    bindR (expected_id n) (\<lambda>e.
    bindR (ensure (nid n = e) (IntegrityError (''node id does not match identity fields: '' @ nid n))) (\<lambda>_.
    bindR (ensure (\<not> (result_text n \<noteq> None \<and> result_digest n = None))
             (IntegrityError (''node result digest missing: '' @ nid n))) (\<lambda>_.
    bindR (ensure (\<not> (case result_text n of None \<Rightarrow> False
                      | Some t \<Rightarrow> result_digest n \<noteq> Some (result_digest_from_text t)))
             (IntegrityError (''node result digest does not match result: '' @ nid n))) (\<lambda>_.
    ensure (\<not> (kind n = kind_value ROOT \<and> parent n \<noteq> None))
      (IntegrityError ''root node cannot have a parent'')))))"

definition node_valid :: "node \<Rightarrow> bool" where
  "node_valid n \<longleftrightarrow> expected_id n = Inr (nid n) \<and>
    (\<forall>t. result_text n = Some t \<longrightarrow> result_digest n = Some (result_digest_from_text t)) \<and>
    (kind n = kind_value ROOT \<longrightarrow> parent n = None)"

lemma validate_for_put_iff: "validate_for_put n = Inr u \<longleftrightarrow> node_valid n"
  by (auto simp: validate_for_put_def node_valid_def bindR_Inr_iff split: option.splits)

text \<open>The parts of a node no later operation changes.\<close>

definition same_record :: "node \<Rightarrow> node \<Rightarrow> bool" where
  "same_record m n \<longleftrightarrow> nid m = nid n \<and> parent m = parent n \<and> kind m = kind n \<and> attempt m = attempt n \<and>
    json_norm (JDict (payload m)) = json_norm (JDict (payload n)) \<and>
    result_text m = result_text n \<and> result_digest m = result_digest n"

lemma same_record_refl [simp]: "same_record n n"
  by (simp add: same_record_def)

lemma same_record_trans: "same_record l m \<Longrightarrow> same_record m n \<Longrightarrow> same_record l n"
  by (simp add: same_record_def)

lemma same_record_set_meta [simp]: "same_record (n\<lparr>meta := m\<rparr>) n"
  by (simp add: same_record_def)

text \<open>\<open>grows M M'\<close>: every node of \<open>M\<close> is still in \<open>M'\<close> with the same record.\<close>

definition grows :: "node_map \<Rightarrow> node_map \<Rightarrow> bool" where
  "grows M M' \<longleftrightarrow> (\<forall>i n. M i = Some n \<longrightarrow> (\<exists>n'. M' i = Some n' \<and> same_record n' n))"

lemma grows_refl [simp]: "grows M M"
  by (simp add: grows_def)

lemma grows_trans: "grows L M \<Longrightarrow> grows M N \<Longrightarrow> grows L N"
  unfolding grows_def by (meson same_record_trans)

lemma grows_upd_new: "M i = None \<Longrightarrow> grows M (M(i \<mapsto> n))"
  by (auto simp: grows_def)

lemma grows_upd_same: "M i = Some m \<Longrightarrow> same_record n m \<Longrightarrow> grows M (M(i \<mapsto> n))"
  by (auto simp: grows_def)

locale store_view =
  fixes ops :: "'st store_ops" and inv :: "'st \<Rightarrow> bool" and nodes :: "'st \<Rightarrow> node_map"
  assumes nodes_forest: "inv st \<Longrightarrow> forest (nodes st)"
    and nodes_closed: "inv st \<Longrightarrow> parents_in (nodes st)"
    and nodes_valid: "inv st \<Longrightarrow> nodes st i = Some n \<Longrightarrow> node_ok n \<and> node_valid n"
    and get_nodes: "inv st \<Longrightarrow> s_get ops st i = (case nodes st i of None \<Rightarrow> Inl (KeyError i) | Some n \<Rightarrow> Inr n)"
    and exists_nodes: "inv st \<Longrightarrow> s_exists ops st i \<longleftrightarrow> nodes st i \<noteq> None"
    and children_nodes: "inv st \<Longrightarrow> \<exists>cs. s_children ops st i = Inr cs \<and> distinct cs \<and> set cs = kids (nodes st) i"
    and walk_nodes: "inv st \<Longrightarrow> i \<in> dom (nodes st) \<Longrightarrow> s_walk ops st i = walk_loop (s_get ops st) (s_children ops st) [i] []"
    and roots_nodes: "inv st \<Longrightarrow> \<exists>rs. s_roots ops st = Inr rs \<and> set rs = {i. \<exists>n. nodes st i = Some n \<and> parent n = None}"
begin

lemma walk_yields_subtree:
  assumes "inv st" "i \<in> dom (nodes st)"
  shows "\<exists>L. s_walk ops st i = Some (L, None) \<and> preorder (nodes st) i L"
  unfolding walk_nodes [OF assms]
proof (rule walk_preorder [OF nodes_forest [OF assms(1)]])
  show "s_get ops st j = Inr n" if "nodes st j = Some n" for j n
    using that get_nodes [OF assms(1)] by simp
  show "\<exists>cs. s_children ops st j = Inr cs \<and> distinct cs \<and> set cs = kids (nodes st) j" for j
    using children_nodes [OF assms(1)] by blast
qed (rule assms(2))

lemma get_Inr_iff: "inv st \<Longrightarrow> s_get ops st i = Inr n \<longleftrightarrow> nodes st i = Some n"
  by (simp add: get_nodes split: option.split)

lemma get_valid: "inv st \<Longrightarrow> s_get ops st i = Inr n \<Longrightarrow> nid n = i \<and> node_ok n \<and> node_valid n"
  using nodes_valid [of st i n] nodes_forest [of st] by (simp add: get_Inr_iff forest_def)

end

text \<open>The laws of the writes are those of \<open>put\<close> and \<open>update_meta\<close>.\<close>

locale store_contract = store_view ops inv nodes
  for ops :: "'st store_ops" and inv :: "'st \<Rightarrow> bool" and nodes :: "'st \<Rightarrow> node_map" +
  assumes put_nodes: "inv st \<Longrightarrow> node_ok n \<Longrightarrow> s_put ops n st = Inr st' \<Longrightarrow>
      inv st' \<and> grows (nodes st) (nodes st') \<and> dom (nodes st') = insert (nid n) (dom (nodes st)) \<and>
      (nodes st (nid n) = None \<longrightarrow> (\<exists>m. nodes st' (nid n) = Some m \<and> same_record m n))"
    and put_fresh: "inv st \<Longrightarrow> node_ok n \<Longrightarrow> node_valid n \<Longrightarrow> nodes st (nid n) = None \<Longrightarrow>
      (\<forall>p. parent n = Some p \<longrightarrow> p \<in> dom (nodes st)) \<Longrightarrow> \<exists>st'. s_put ops n st = Inr st'"
    and update_meta_nodes: "inv st \<Longrightarrow> json_wf (JDict patch) \<Longrightarrow> s_update_meta ops i patch st = Inr st' \<Longrightarrow>
      inv st' \<and> grows (nodes st) (nodes st') \<and> dom (nodes st') = dom (nodes st)"
    and update_meta_ok: "inv st \<Longrightarrow> nodes st i = Some n \<Longrightarrow> json_wf (JDict patch) \<Longrightarrow> json_serialisable (JDict patch) \<Longrightarrow>
      \<exists>st'. s_update_meta ops i patch st = Inr st'"
begin

lemma put_existing_keeps:
  assumes "inv st" "node_ok n" "s_put ops n st = Inr st'" "s_get ops st i = Inr m"
  shows "\<exists>m'. s_get ops st' i = Inr m' \<and> same_record m' m"
proof -
  have st': "inv st'" "grows (nodes st) (nodes st')" using put_nodes [OF assms(1-3)] by simp_all
  have "nodes st i = Some m" using assms(1,4) by (simp add: get_Inr_iff)
  with st' show ?thesis by (simp add: grows_def get_Inr_iff)
qed
end

section \<open>MemoryStore\<close>

record mem_store =
  ms_nodes :: "(string \<times> node) list"
  ms_children :: "(string \<times> string list) list"

definition mem_empty :: mem_store where
  "mem_empty = \<lparr>ms_nodes = [], ms_children = []\<rparr>"

definition mem_lookup :: "mem_store \<Rightarrow> string \<Rightarrow> node res" where
  "mem_lookup s i = (case dget (ms_nodes s) i of None \<Rightarrow> Inl (KeyError i) | Some n \<Rightarrow> Inr n)"

definition conflict_record :: "node \<Rightarrow> json" where
  "conflict_record n = JDict [(''result_digest'', case result_digest n of None \<Rightarrow> JNull | Some d \<Rightarrow> JStr d),
     (''result'', result n)]"

definition mem_handle_existing :: "node \<Rightarrow> node \<Rightarrow> mem_store \<Rightarrow> mem_store res" where
  "mem_handle_existing existing incoming s =
    (if \<not> identity_eq existing incoming
     then Inl (IntegrityError (''node id collision for '' @ nid incoming))
     else if result_text incoming = None \<or> result_text incoming = result_text existing then Inr s
     else
       bindR (py_list (dget_or (meta existing) ''result_conflicts'' (JList []))) (\<lambda>conflicts.
       bindR (set_meta (dset ''result_conflicts'' (JList (conflicts @ [conflict_record incoming])) (meta existing))
                existing) (\<lambda>n.
       Inr (s\<lparr>ms_nodes := dset (nid existing) n (ms_nodes s)\<rparr>))))"

definition add_child :: "string \<Rightarrow> string option \<Rightarrow> (string \<times> string list) list \<Rightarrow> (string \<times> string list) list" where
  "add_child i p ch = (case p of None \<Rightarrow> ch | Some q \<Rightarrow> dset q (set_add i (dget_or ch q [])) ch)"

definition mem_put :: "node \<Rightarrow> mem_store \<Rightarrow> mem_store res" where
  "mem_put n s =
    bindR (validate_for_put n) (\<lambda>_.
    bindR (case parent n of None \<Rightarrow> Inr ()
           | Some p \<Rightarrow> ensure (dget (ms_nodes s) p \<noteq> None) (KeyError p)) (\<lambda>_.
    case dget (ms_nodes s) (nid n) of
      Some existing \<Rightarrow> mem_handle_existing existing n s
    | None \<Rightarrow> Inr \<lparr>ms_nodes = dset (nid n) n (ms_nodes s),
                   ms_children = add_child (nid n) (parent n) (ms_children s)\<rparr>))"

definition mem_get :: "mem_store \<Rightarrow> string \<Rightarrow> node res" where
  "mem_get s i = mem_lookup s i"

definition mem_exists :: "mem_store \<Rightarrow> string \<Rightarrow> bool" where
  "mem_exists s i = (dget (ms_nodes s) i \<noteq> None)"

definition mem_children :: "mem_store \<Rightarrow> string \<Rightarrow> string list res" where
  "mem_children s i =
    bindR (mapR (\<lambda>c. bindR (mem_lookup s c) (\<lambda>n. Inr (kind n, c))) (dget_or (ms_children s) i [])) (\<lambda>keyed.
    Inr (map snd (sort keyed)))"

definition mem_update_meta :: "string \<Rightarrow> jdict \<Rightarrow> mem_store \<Rightarrow> mem_store res" where
  "mem_update_meta i patch s =
    bindR (mem_lookup s i) (\<lambda>n.
    bindR (set_meta (dmerge (meta n) patch) n) (\<lambda>n'.
    Inr (s\<lparr>ms_nodes := dset i n' (ms_nodes s)\<rparr>)))"

definition mem_walk :: "mem_store \<Rightarrow> string \<Rightarrow> (node list \<times> exc option) option" where
  "mem_walk s root_id = walk_loop (mem_get s) (mem_children s) [root_id] []"

definition run_key :: "node \<Rightarrow> string" where
  "run_key n = py_str (dget_or (payload n) ''run'' (JStr []))"

definition mem_roots :: "mem_store \<Rightarrow> string list res" where
  "mem_roots s = Inr (map snd (sort (map (\<lambda>(i, n). (run_key n, i))
    (filter (\<lambda>(i, n). parent n = None) (ms_nodes s)))))"

definition mem_drop_nodes :: "string list \<Rightarrow> mem_store \<Rightarrow> mem_store" where
  "mem_drop_nodes ids s =
    (let ns = filter (\<lambda>(i, n). i \<notin> set ids) (ms_nodes s)
     in \<lparr>ms_nodes = ns, ms_children = fold (\<lambda>(_, n). add_child (nid n) (parent n)) ns []\<rparr>)"

definition mem_compact :: "mem_store \<Rightarrow> int \<times> mem_store" where
  "mem_compact s = (0, s)"

definition mem_ops :: "mem_store store_ops" where
  "mem_ops = \<lparr>s_put = mem_put, s_get = mem_get, s_exists = mem_exists, s_children = mem_children,
     s_update_meta = mem_update_meta, s_walk = mem_walk, s_roots = mem_roots\<rparr>"

section \<open>The invariant of MemoryStore\<close>

definition mem_nodes :: "mem_store \<Rightarrow> node_map" where
  "mem_nodes s = map_of (ms_nodes s)"

text \<open>Nodes are stored after their parents, which is what makes the tree acyclic.\<close>

definition parents_first :: "(string \<times> node) list \<Rightarrow> bool" where
  "parents_first ns \<longleftrightarrow> (\<forall>k < length ns. \<forall>p. parent (snd (ns ! k)) = Some p \<longrightarrow> p \<in> fst ` set (take k ns))"

definition children_index :: "(string \<times> node) list \<Rightarrow> (string \<times> string list) list \<Rightarrow> bool" where
  "children_index ns ch \<longleftrightarrow> (\<forall>i. distinct (dget_or ch i []) \<and> set (dget_or ch i []) = kids (map_of ns) i)"

definition mem_inv :: "mem_store \<Rightarrow> bool" where
  "mem_inv s \<longleftrightarrow> distinct_keys (ms_nodes s) \<and>
    (\<forall>(i, n) \<in> set (ms_nodes s). nid n = i \<and> node_ok n \<and> node_valid n) \<and>
    parents_first (ms_nodes s) \<and> children_index (ms_nodes s) (ms_children s)"

lemma mem_inv_empty [simp]: "mem_inv mem_empty"
  by (simp add: mem_inv_def mem_empty_def parents_first_def children_index_def dget_or_def kids_def edges_def)

lemma mem_inv_node:
  "mem_inv s \<Longrightarrow> mem_nodes s i = Some n \<Longrightarrow> nid n = i \<and> node_ok n \<and> node_valid n"
  by (auto simp: mem_inv_def mem_nodes_def dest: map_of_SomeD)

lemma parents_first_forest:
  assumes d: "distinct_keys ns" and ids: "\<forall>(i, n) \<in> set ns. nid n = i" and pf: "parents_first ns"
  shows "forest (map_of ns)"
proof -
  define rank where "rank i = length (takeWhile (\<lambda>p. fst p \<noteq> i) ns)" for i
  have rank: "rank (fst (ns ! k)) = k" if "k < length ns" for k
  proof -
    have "\<forall>j < k. fst (ns ! j) \<noteq> fst (ns ! k)"
      using d that by (metis (no_types, lifting) length_map less_trans nat_less_le nth_eq_iff_index_eq nth_map)
    then show ?thesis using that unfolding rank_def
      by (intro takeWhile_eq_take_P_nth [THEN arg_cong [where f = length], THEN trans]) auto
  qed
  show ?thesis
  proof (rule forest_rank [where rank = rank])
    show "finite (dom (map_of ns))" by (rule finite_dom_map_of)
    show "nid n = i" if "map_of ns i = Some n" for i n using ids that by (auto dest: map_of_SomeD)
    show "rank p < rank i" if m: "map_of ns i = Some n" "parent n = Some p" for i n p
    proof -
      obtain k where k: "k < length ns" "ns ! k = (i, n)"
        using map_of_SomeD [OF m(1)] by (auto simp: in_set_conv_nth)
      then have "p \<in> fst ` set (take k ns)" using pf m(2) by (auto simp: parents_first_def)
      then obtain j where j: "j < k" "fst (ns ! j) = p"
        using k(1) by (auto simp: in_set_conv_nth)
      then have "rank p = j" "rank i = k" using rank [of j] rank [of k] k by auto
      then show ?thesis using j(1) by simp
    qed
  qed
qed

lemma parents_first_closed: "parents_first ns \<Longrightarrow> parents_in (map_of ns)"
  unfolding parents_in_def
proof (intro allI impI)
  fix i n p assume pf: "parents_first ns" and m: "map_of ns i = Some n" "parent n = Some p"
  obtain k where k: "k < length ns" "ns ! k = (i, n)"
    using map_of_SomeD [OF m(1)] by (auto simp: in_set_conv_nth)
  then have "p \<in> fst ` set (take k ns)" using pf m(2) by (auto simp: parents_first_def)
  then have "p \<in> fst ` set ns" by (auto dest: in_set_takeD)
  then show "p \<in> dom (map_of ns)" by (simp add: dom_map_of_conv_image_fst)
qed

lemma mem_closed: "mem_inv s \<Longrightarrow> parents_in (mem_nodes s)"
  unfolding mem_nodes_def by (rule parents_first_closed) (simp add: mem_inv_def)

lemma mem_forest: "mem_inv s \<Longrightarrow> forest (mem_nodes s)"
  unfolding mem_nodes_def by (rule parents_first_forest) (auto simp: mem_inv_def)

lemma parents_first_Nil [simp]: "parents_first []"
  by (simp add: parents_first_def)

text \<open>Only ids and parents matter for the shape of the tree.\<close>

definition shape :: "(string \<times> node) list \<Rightarrow> (string \<times> string option) list" where
  "shape ns = map (\<lambda>(i, n). (i, parent n)) ns"

lemma map_of_shape: "map_of (shape ns) c = map_option parent (map_of ns c)"
  by (induction ns) (auto simp: shape_def)

lemma kids_shape: "kids (map_of ns) i = {c. map_of (shape ns) c = Some (Some i)}"
  by (auto simp: kids_def edges_def map_of_shape)

lemma parents_first_shape:
  "parents_first ns \<longleftrightarrow> (\<forall>k < length (shape ns). \<forall>p. snd (shape ns ! k) = Some p
     \<longrightarrow> p \<in> fst ` set (take k (shape ns)))"
proof -
  have "fst ` set (take k (shape ns)) = fst ` set (take k ns)" for k
    by (simp add: shape_def take_map image_image case_prod_unfold)
  then show ?thesis by (auto simp: parents_first_def shape_def case_prod_unfold)
qed

lemma shape_dset:
  "map_of ns i = Some m \<Longrightarrow> parent n = parent m \<Longrightarrow> shape (dset i n ns) = shape ns"
  by (induction ns) (auto simp: shape_def split: if_splits)

lemma parents_first_snoc:
  "parents_first (ns @ [(i, n)]) \<longleftrightarrow> parents_first ns \<and> (\<forall>p. parent n = Some p \<longrightarrow> p \<in> fst ` set ns)"
proof -
  have "parents_first (ns @ [x]) \<longleftrightarrow>
      (\<forall>k < length ns. \<forall>p. parent (snd (ns ! k)) = Some p \<longrightarrow> p \<in> fst ` set (take k ns)) \<and>
      (\<forall>p. parent (snd x) = Some p \<longrightarrow> p \<in> fst ` set ns)" for x
    by (simp add: parents_first_def less_Suc_eq all_conj_distrib imp_conjL disj_imp)
       (auto simp: nth_append)
  then show ?thesis by (simp add: parents_first_def)
qed

lemma children_index_snoc:
  assumes old: "children_index ns ch" and new: "i \<notin> fst ` set ns"
  shows "children_index (ns @ [(i, n)]) (add_child i (parent n) ch)"
proof -
  have fresh: "map_of ns i = None" using new by (simp add: map_of_eq_None_iff)
  have "map_of (ns @ [(i, n)]) = (map_of ns)(i \<mapsto> n)"
    using fresh by (auto simp: map_add_def fun_eq_iff split: option.splits)
  then have "kids (map_of (ns @ [(i, n)])) q =
      (if parent n = Some q then insert i (kids (map_of ns) q) else kids (map_of ns) q)" for q
    using fresh by (auto simp: kids_def edges_def)
  then show ?thesis
    using old by (auto simp: children_index_def add_child_def dget_or_dset split: option.splits)
qed

lemma mem_replace_inv:
  assumes inv: "mem_inv s" and m: "dget (ms_nodes s) i = Some m" and same: "same_record n m"
    and ok: "node_ok n" "node_valid n"
  shows "mem_inv (s\<lparr>ms_nodes := dset i n (ms_nodes s)\<rparr>)"
    "mem_nodes (s\<lparr>ms_nodes := dset i n (ms_nodes s)\<rparr>) = (mem_nodes s)(i \<mapsto> n)"
proof -
  have sh: "shape (dset i n (ms_nodes s)) = shape (ms_nodes s)"
    using m same by (intro shape_dset) (simp_all add: same_record_def)
  have i: "nid n = i" using mem_inv_node [OF inv, of i m] m same by (simp add: mem_nodes_def same_record_def)
  have kids: "kids (map_of (dset i n (ms_nodes s))) = kids (map_of (ms_nodes s))"
    using sh by (simp add: fun_eq_iff kids_shape del: map_of_dset)
  have "set (dset i n (ms_nodes s)) \<subseteq> insert (i, n) (set (ms_nodes s))"
    by (rule set_dset_subset)
  then show "mem_inv (s\<lparr>ms_nodes := dset i n (ms_nodes s)\<rparr>)"
    using inv i ok sh kids
    by (auto simp: mem_inv_def parents_first_shape children_index_def)
  show "mem_nodes (s\<lparr>ms_nodes := dset i n (ms_nodes s)\<rparr>) = (mem_nodes s)(i \<mapsto> n)"
    by (simp add: mem_nodes_def)
qed

lemma mem_add_inv:
  assumes inv: "mem_inv s" and fresh: "dget (ms_nodes s) (nid n) = None"
    and par: "\<forall>p. parent n = Some p \<longrightarrow> dget (ms_nodes s) p \<noteq> None"
    and ok: "node_ok n" "node_valid n"
  defines "s' \<equiv> \<lparr>ms_nodes = dset (nid n) n (ms_nodes s),
                 ms_children = add_child (nid n) (parent n) (ms_children s)\<rparr>"
  shows "mem_inv s'" "mem_nodes s' = (mem_nodes s)(nid n \<mapsto> n)"
proof -
  have new: "nid n \<notin> fst ` set (ms_nodes s)" using fresh by (simp add: map_of_eq_None_iff)
  then have ns: "dset (nid n) n (ms_nodes s) = ms_nodes s @ [(nid n, n)]" by (rule dset_new)
  have par': "\<forall>p. parent n = Some p \<longrightarrow> p \<in> fst ` set (ms_nodes s)"
    using par by (auto simp: dom_map_of_conv_image_fst [symmetric])
  have "children_index (dset (nid n) n (ms_nodes s)) (add_child (nid n) (parent n) (ms_children s))"
    unfolding ns using inv new by (intro children_index_snoc) (simp_all add: mem_inv_def)
  then show "mem_inv s'"
    using inv ok new par' by (auto simp: mem_inv_def s'_def ns parents_first_snoc)
  show "mem_nodes s' = (mem_nodes s)(nid n \<mapsto> n)" by (simp add: mem_nodes_def s'_def)
qed

lemma dict_value_wf: "json_wf (JDict d) \<Longrightarrow> dget d k = Some v \<Longrightarrow> json_wf v"
  by (auto dest: map_of_SomeD)

lemma py_list_wf: "py_list v = Inr xs \<Longrightarrow> json_wf v \<Longrightarrow> \<forall>x \<in> set xs. json_wf x"
  by (cases v) (auto simp: py_list_def)

lemma json_wf_dset: "json_wf (JDict d) \<Longrightarrow> json_wf v \<Longrightarrow> json_wf (JDict (dset k v d))"
  using set_dset_subset [of k v d] by auto

lemma json_wf_dmerge: "json_wf (JDict d) \<Longrightarrow> json_wf (JDict p) \<Longrightarrow> json_wf (JDict (dmerge d p))"
  using set_dmerge_subset [of d p] by (auto simp: distinct_keys_dmerge)

lemma node_ok_set_meta:
  "node_ok n \<Longrightarrow> set_meta m n = Inr n' \<Longrightarrow> json_wf (JDict m) \<Longrightarrow>
    n' = n\<lparr>meta := m\<rparr> \<and> node_ok n' \<and> node_valid n' = node_valid n \<and> same_record n' n"
proof -
  assume n: "node_ok n" and r: "set_meta m n = Inr n'" and m: "json_wf (JDict m)"
  then have n': "n' = n\<lparr>meta := m\<rparr>" by (auto simp: node_ok_def set_meta_wf split: if_splits)
  moreover have "node_wf n'" using r post_init_wf by (simp add: set_meta_def)
  ultimately show ?thesis
    using n m by (simp add: node_ok_def node_valid_def expected_id_def del: json_wf.simps)
qed

lemma conflicts_wf:
  assumes "node_ok e" "node_ok n" "py_list (dget_or (meta e) ''result_conflicts'' (JList [])) = Inr conflicts"
  shows "json_wf (JDict (dset ''result_conflicts'' (JList (conflicts @ [conflict_record n])) (meta e)))"
proof (rule json_wf_dset)
  show "json_wf (JDict (meta e))" using assms(1) by (simp add: node_ok_def)
  then have "json_wf (dget_or (meta e) ''result_conflicts'' (JList []))"
    by (auto simp: dget_or_def dest: map_of_SomeD split: option.split)
  then have "\<forall>x \<in> set conflicts. json_wf x" by (rule py_list_wf [OF assms(3)])
  moreover have "json_wf (conflict_record n)"
    using assms(2) by (simp add: conflict_record_def node_ok_def split: option.split)
  ultimately show "json_wf (JList (conflicts @ [conflict_record n]))" by auto
qed

lemma mem_handle_existing_inv:
  assumes inv: "mem_inv s" and n: "node_ok n" and e: "dget (ms_nodes s) (nid n) = Some e"
    and r: "mem_handle_existing e n s = Inr s'"
  shows "mem_inv s' \<and> grows (mem_nodes s) (mem_nodes s') \<and> dom (mem_nodes s') = dom (mem_nodes s)"
proof (cases "s' = s")
  case False
  have e': "nid e = nid n" "node_ok e" "node_valid e"
    using mem_inv_node [OF inv, of "nid n" e] e by (simp_all add: mem_nodes_def)
  obtain conflicts m where c: "py_list (dget_or (meta e) ''result_conflicts'' (JList [])) = Inr conflicts"
    and m: "set_meta (dset ''result_conflicts'' (JList (conflicts @ [conflict_record n])) (meta e)) e = Inr m"
    and s': "s' = s\<lparr>ms_nodes := dset (nid e) m (ms_nodes s)\<rparr>"
    using r False by (auto simp: mem_handle_existing_def bindR_Inr_iff split: if_splits)
  have "node_ok m" "node_valid m" "same_record m e"
    using node_ok_set_meta [OF e'(2) m conflicts_wf [OF e'(2) n c]] e'(3) by auto
  from mem_replace_inv [OF inv e [folded e'(1)] this(3,1,2)] this(3) show ?thesis
    using e e'(1) by (auto simp: s' mem_nodes_def intro!: grows_upd_same)
qed (use inv in simp)

lemma mem_put_inv:
  assumes inv: "mem_inv s" and n: "node_ok n" and r: "mem_put n s = Inr s'"
  shows "mem_inv s' \<and> grows (mem_nodes s) (mem_nodes s') \<and>
    dom (mem_nodes s') = insert (nid n) (dom (mem_nodes s)) \<and>
    (mem_nodes s (nid n) = None \<longrightarrow> (\<exists>m. mem_nodes s' (nid n) = Some m \<and> same_record m n))"
proof -
  have v: "node_valid n" "\<forall>p. parent n = Some p \<longrightarrow> dget (ms_nodes s) p \<noteq> None"
    using r by (auto simp: mem_put_def bindR_Inr_iff validate_for_put_iff split: option.splits)
  show ?thesis
  proof (cases "dget (ms_nodes s) (nid n)")
    case None
    have s': "s' = \<lparr>ms_nodes = dset (nid n) n (ms_nodes s),
                 ms_children = add_child (nid n) (parent n) (ms_children s)\<rparr>"
      using r None by (simp add: mem_put_def bindR_Inr_iff)
    have "mem_nodes s (nid n) = None" using None by (simp add: mem_nodes_def)
    then show ?thesis
      using mem_add_inv [OF inv None v(2) n v(1)] by (auto simp: s' intro: grows_upd_new)
  next
    case (Some e)
    then have "mem_handle_existing e n s = Inr s'" using r by (simp add: mem_put_def bindR_Inr_iff)
    from mem_handle_existing_inv [OF inv n Some this] show ?thesis using Some by (auto simp: mem_nodes_def)
  qed
qed

lemma mem_put_fresh:
  assumes "node_valid n" "mem_nodes s (nid n) = None" "\<forall>p. parent n = Some p \<longrightarrow> p \<in> dom (mem_nodes s)"
  shows "mem_put n s = Inr \<lparr>ms_nodes = dset (nid n) n (ms_nodes s),
                 ms_children = add_child (nid n) (parent n) (ms_children s)\<rparr>"
proof -
  have "validate_for_put n = Inr ()" using assms(1) by (simp add: validate_for_put_iff)
  then show ?thesis using assms(2,3) by (cases "parent n") (auto simp: mem_put_def mem_nodes_def)
qed

lemma mem_update_meta_inv:
  assumes inv: "mem_inv s" and p: "json_wf (JDict patch)" and r: "mem_update_meta i patch s = Inr s'"
  shows "\<exists>n. mem_nodes s i = Some n \<and> mem_nodes s' = (mem_nodes s)(i \<mapsto> n\<lparr>meta := dmerge (meta n) patch\<rparr>) \<and> mem_inv s'"
proof -
  obtain n n' where n: "dget (ms_nodes s) i = Some n" and n': "set_meta (dmerge (meta n) patch) n = Inr n'"
    and s': "s' = s\<lparr>ms_nodes := dset i n' (ms_nodes s)\<rparr>"
    using r by (auto simp: mem_update_meta_def mem_lookup_def bindR_Inr_iff split: option.splits)
  have ok: "node_ok n" "node_valid n" using mem_inv_node [OF inv, of i n] n by (simp_all add: mem_nodes_def)
  have "json_wf (JDict (meta n))" using ok(1) by (simp add: node_ok_def)
  from node_ok_set_meta [OF ok(1) n' json_wf_dmerge [OF this p]]
  have m: "n' = n\<lparr>meta := dmerge (meta n) patch\<rparr>" "node_ok n'" "node_valid n'" "same_record n' n"
    using ok(2) by auto
  from mem_replace_inv [OF inv n m(4,2,3)] show ?thesis using n m(1) by (auto simp: s' mem_nodes_def)
qed

lemma map_of_filter_keys: "map_of (filter (\<lambda>(i, n). i \<notin> S) ns) = map_of ns |` (- S)"
  by (induction ns) (auto simp: restrict_map_def fun_eq_iff)

lemma parents_first_filter:
  "parents_first ns \<Longrightarrow> \<forall>(i, n) \<in> set ns. \<forall>p. parent n = Some p \<longrightarrow> p \<in> S \<longrightarrow> i \<in> S
    \<Longrightarrow> parents_first (filter (\<lambda>(i, n). i \<notin> S) ns)"
proof (induction ns rule: rev_induct)
  case (snoc x ns)
  obtain i n where x: "x = (i, n)" by (cases x)
  have pf: "parents_first ns" "\<forall>p. parent n = Some p \<longrightarrow> p \<in> fst ` set ns"
    using snoc.prems(1) by (simp_all add: x parents_first_snoc)
  have IH: "parents_first (filter (\<lambda>(i, n). i \<notin> S) ns)" using snoc pf by auto
  show ?case
  proof (cases "i \<in> S")
    case False
    have "p \<in> fst ` set (filter (\<lambda>(i, n). i \<notin> S) ns)" if "parent n = Some p" for p
      using that False pf(2) snoc.prems(2) x by force
    with False IH show ?thesis by (simp add: x parents_first_snoc)
  qed (simp add: x IH)
qed simp

lemma children_index_rebuild:
  "distinct_keys ns \<Longrightarrow> \<forall>(i, n) \<in> set ns. nid n = i
    \<Longrightarrow> children_index ns (fold (\<lambda>(_, n). add_child (nid n) (parent n)) ns [])"
proof (induction ns rule: rev_induct)
  case Nil
  then show ?case by (simp add: children_index_def dget_or_def kids_def edges_def)
next
  case (snoc x ns)
  then show ?case using children_index_snoc [of ns _ "fst x" "snd x"] by (auto simp: case_prod_unfold)
qed

text \<open>A set of ids that holds the children of its members.\<close>

definition child_closed :: "node_map \<Rightarrow> string set \<Rightarrow> bool" where
  "child_closed M S \<longleftrightarrow> (\<forall>i n p. M i = Some n \<longrightarrow> parent n = Some p \<longrightarrow> p \<in> S \<longrightarrow> i \<in> S)"

lemma mem_drop_inv:
  assumes inv: "mem_inv s" and closed: "child_closed (mem_nodes s) (set ids)"
  shows "mem_inv (mem_drop_nodes ids s)" "mem_nodes (mem_drop_nodes ids s) = mem_nodes s |` (- set ids)"
proof -
  let ?ns = "filter (\<lambda>(i, n). i \<notin> set ids) (ms_nodes s)"
  have d: "distinct_keys (ms_nodes s)" using inv by (simp add: mem_inv_def)
  then have d': "distinct_keys ?ns" by (rule distinct_map_filter)
  have "\<forall>(i, n) \<in> set (ms_nodes s). \<forall>p. parent n = Some p \<longrightarrow> p \<in> set ids \<longrightarrow> i \<in> set ids"
    using closed d by (auto simp: mem_nodes_def child_closed_def)
  then have "parents_first ?ns" using inv by (intro parents_first_filter) (simp_all add: mem_inv_def)
  moreover have "\<forall>(i, n) \<in> set ?ns. nid n = i \<and> node_ok n \<and> node_valid n"
    using inv by (auto simp: mem_inv_def)
  moreover have "children_index ?ns (fold (\<lambda>(_, n). add_child (nid n) (parent n)) ?ns [])"
    using calculation(2) by (intro children_index_rebuild d') auto
  ultimately show "mem_inv (mem_drop_nodes ids s)"
    using d' by (simp add: mem_inv_def mem_drop_nodes_def Let_def)
  show "mem_nodes (mem_drop_nodes ids s) = mem_nodes s |` (- set ids)"
    by (simp add: mem_nodes_def mem_drop_nodes_def Let_def map_of_filter_keys)
qed

section \<open>MemoryStore meets the contract\<close>

lemma mem_get_nodes: "mem_get s i = (case mem_nodes s i of None \<Rightarrow> Inl (KeyError i) | Some n \<Rightarrow> Inr n)"
  by (simp add: mem_get_def mem_lookup_def mem_nodes_def)

lemma mem_children_nodes:
  assumes inv: "mem_inv s"
  shows "\<exists>cs. mem_children s i = Inr cs \<and> distinct cs \<and> set cs = kids (mem_nodes s) i \<and>
    sorted (map (\<lambda>c. (kind (the (mem_nodes s c)), c)) cs)"
proof -
  define cs where "cs = dget_or (ms_children s) i []"
  let ?f = "\<lambda>c. (kind (the (mem_nodes s c)), c)"
  have cs: "distinct cs" "set cs = kids (mem_nodes s) i"
    using inv by (auto simp: mem_inv_def children_index_def mem_nodes_def cs_def)
  have "\<exists>n. mem_nodes s c = Some n" if "c \<in> set cs" for c
    using that cs(2) by (auto simp: kids_def edges_def)
  then have "mapR (\<lambda>c. bindR (mem_lookup s c) (\<lambda>n. Inr (kind n, c))) cs = Inr (map ?f cs)"
    by (intro mapR_Inr) (force simp: mem_lookup_def mem_nodes_def)
  then have ch: "mem_children s i = Inr (map snd (sort (map ?f cs)))" by (simp add: mem_children_def cs_def)
  define ks where "ks = sort (map ?f cs)"
  have perm: "mset (map snd ks) = mset cs"
    by (simp add: ks_def multiset.map_comp comp_def)
  have "map ?f (map snd ks) = ks"
    unfolding map_map by (rule map_idI) (auto simp: ks_def)
  then have "sorted (map ?f (map snd ks))" by (simp add: ks_def)
  moreover have "distinct (map snd ks)" "set (map snd ks) = kids (mem_nodes s) i"
    using mset_eq_imp_distinct_iff [OF perm] mset_eq_setD [OF perm] cs by simp_all
  ultimately show ?thesis using ch by (auto simp: ks_def)
qed

lemma json_serialisable_dmerge:
  "json_serialisable (JDict d) \<Longrightarrow> json_serialisable (JDict p) \<Longrightarrow> json_serialisable (JDict (dmerge d p))"
  using set_dmerge_subset [of d p] by (simp add: case_prod_unfold) blast

lemma mem_update_meta_ok:
  assumes "mem_inv s" "mem_nodes s i = Some n" "json_serialisable (JDict patch)"
  shows "\<exists>s'. mem_update_meta i patch s = Inr s'"
proof -
  have n: "node_wf n" using mem_inv_node [OF assms(1,2)] by (simp add: node_ok_def)
  then have "json_serialisable (JDict (meta n))" by (simp add: node_wf_iff core_ok_def del: json_serialisable.simps)
  from json_serialisable_dmerge [OF this assms(3)]
  have "set_meta (dmerge (meta n) patch) n = Inr (n\<lparr>meta := dmerge (meta n) patch\<rparr>)"
    using set_meta_wf [OF n] by (simp del: json_serialisable.simps)
  then show ?thesis using assms(2) by (simp add: mem_update_meta_def mem_lookup_def mem_nodes_def)
qed

lemma mem_roots_nodes:
  assumes "mem_inv s"
  shows "\<exists>rs. mem_roots s = Inr rs \<and> set rs = {i. \<exists>n. mem_nodes s i = Some n \<and> parent n = None}"
proof -
  have "(i, n) \<in> set (ms_nodes s) \<longleftrightarrow> mem_nodes s i = Some n" for i n
    using assms by (simp add: mem_inv_def mem_nodes_def)
  moreover have "\<exists>rs. mem_roots s = Inr rs \<and> set rs = {i. \<exists>n. (i, n) \<in> set (ms_nodes s) \<and> parent n = None}"
    by (force simp: mem_roots_def image_iff)
  ultimately show ?thesis by simp
qed

interpretation mem: store_contract mem_ops mem_inv mem_nodes
proof unfold_locales
  fix st i n st' patch
  show "mem_inv st \<Longrightarrow> forest (mem_nodes st)" by (rule mem_forest)
  show "mem_inv st \<Longrightarrow> parents_in (mem_nodes st)" by (rule mem_closed)
  show "mem_inv st \<Longrightarrow> mem_nodes st i = Some n \<Longrightarrow> node_ok n \<and> node_valid n" using mem_inv_node by blast
  show "s_get mem_ops st i = (case mem_nodes st i of None \<Rightarrow> Inl (KeyError i) | Some n \<Rightarrow> Inr n)"
    by (simp add: mem_ops_def mem_get_nodes)
  show "s_exists mem_ops st i \<longleftrightarrow> mem_nodes st i \<noteq> None"
    by (simp add: mem_ops_def mem_exists_def mem_nodes_def)
  show "mem_inv st \<Longrightarrow> \<exists>cs. s_children mem_ops st i = Inr cs \<and> distinct cs \<and> set cs = kids (mem_nodes st) i"
    using mem_children_nodes [of st i] by (auto simp: mem_ops_def)
  show "s_walk mem_ops st i = walk_loop (s_get mem_ops st) (s_children mem_ops st) [i] []"
    by (simp add: mem_ops_def mem_walk_def)
  show "mem_inv st \<Longrightarrow> node_ok n \<Longrightarrow> s_put mem_ops n st = Inr st' \<Longrightarrow>
      mem_inv st' \<and> grows (mem_nodes st) (mem_nodes st') \<and> dom (mem_nodes st') = insert (nid n) (dom (mem_nodes st)) \<and>
      (mem_nodes st (nid n) = None \<longrightarrow> (\<exists>m. mem_nodes st' (nid n) = Some m \<and> same_record m n))"
    by (simp add: mem_ops_def mem_put_inv)
  show "node_valid n \<Longrightarrow> mem_nodes st (nid n) = None \<Longrightarrow>
      (\<forall>p. parent n = Some p \<longrightarrow> p \<in> dom (mem_nodes st)) \<Longrightarrow> \<exists>st'. s_put mem_ops n st = Inr st'"
    by (simp add: mem_ops_def mem_put_fresh)
  show "mem_inv st \<Longrightarrow> json_wf (JDict patch) \<Longrightarrow> s_update_meta mem_ops i patch st = Inr st' \<Longrightarrow>
      mem_inv st' \<and> grows (mem_nodes st) (mem_nodes st') \<and> dom (mem_nodes st') = dom (mem_nodes st)"
  proof -
    assume "mem_inv st" "json_wf (JDict patch)" "s_update_meta mem_ops i patch st = Inr st'"
    from mem_update_meta_inv [OF this(1,2), of i st'] this(3) show ?thesis
      by (auto simp: mem_ops_def insert_absorb split: if_splits intro!: grows_upd_same)
  qed
  show "mem_inv st \<Longrightarrow> mem_nodes st i = Some n \<Longrightarrow> json_serialisable (JDict patch) \<Longrightarrow>
      \<exists>st'. s_update_meta mem_ops i patch st = Inr st'"
    by (simp add: mem_ops_def mem_update_meta_ok del: json_serialisable.simps)
  show "mem_inv st \<Longrightarrow> \<exists>rs. s_roots mem_ops st = Inr rs \<and> set rs = {i. \<exists>n. mem_nodes st i = Some n \<and> parent n = None}"
    by (simp add: mem_ops_def mem_roots_nodes)
qed

end
