(* ===== verification/Vectors.thy ===== *)
theory Vectors
  imports Nodes
begin

text \<open>
  Digests computed in the logic: the published test vector of SHA-256, the node id of the run
  \<open>first-run\<close> that the README prints, and the two small nodes the concrete examples of the other
  theories use.
\<close>

lemma digest_abc_block0:
  "compress_block initial_hash
      [1633837952, 0, 0, 0, 0, 0, 0, 0, 0, 0, 0, 0, 0, 0, 0, 24] =
      [3128432319, 2399260650, 1094795486, 1571693091, 2953011619, 2518121116, 3021012833, 4060091821]"
  by (subst compress_block_eval [OF refl refl])
    (simp add: schedule_numeral word_eval round_constants_def initial_hash_def del: compress_step.simps)

lemma digest_abc: "sha256_hex (''abc'') =
  ''ba7816bf8f01cfea414140de5dae2223b00361a396177a9cb410ff61f20015ad''"
proof -
  have "blocks16 (be_words (padded (''abc''))) =
      [[1633837952, 0, 0, 0, 0, 0, 0, 0, 0, 0, 0, 0, 0, 0, 0, 24]]"
    by (simp add: padding_eval blocks16.simps)
  then show ?thesis
    by (simp only: sha256_hex_def sha256_words_def fold.simps comp_apply id_apply digest_abc_block0)
      (simp add: hex_eval)
qed


lemma digest_first_run_block0:
  "compress_block initial_hash
      [1886350444, 1634886703, 1982925435, 576791098, 808198763, 574235250, 1869575202, 740454434,
      975315500, 577793058, 981148274, 1970151994, 577137010, 1936993650, 1970152061, 2105540608] =
      [2705089139, 2695305439, 2230809456, 356751779, 2111233747, 2017959909, 2542174170, 1509483660]"
  by (subst compress_block_eval [OF refl refl])
    (simp add: schedule_numeral word_eval round_constants_def initial_hash_def del: compress_step.simps)

lemma digest_first_run_block1:
  "compress_block [2705089139, 2695305439, 2230809456, 356751779, 2111233747, 2017959909, 2542174170, 1509483660]
      [0, 0, 0, 0, 0, 0, 0, 0, 0, 0, 0, 0, 0, 0, 0, 488] =
      [4216269347, 3424218707, 4042948618, 1908418016, 2847386712, 2427993165, 2635727380, 392011221]"
  by (subst compress_block_eval [OF refl refl])
    (simp add: schedule_numeral word_eval round_constants_def initial_hash_def del: compress_step.simps)

lemma digest_first_run: "sha256_hex (''pollard/v1'' @ [CHR 10] @ ''{'' @ [CHR 34] @ ''a'' @ [CHR 34] @ '':0,'' @ [CHR 34] @ ''k'' @ [CHR 34] @ '':'' @ [CHR 34] @ ''root'' @ [CHR 34] @ '','' @ [CHR 34] @ ''p'' @ [CHR 34] @ '':'' @ [CHR 34] @ [CHR 34] @ '','' @ [CHR 34] @ ''pl'' @ [CHR 34] @ '':{'' @ [CHR 34] @ ''run'' @ [CHR 34] @ '':'' @ [CHR 34] @ ''first-run'' @ [CHR 34] @ ''}}'') =
  ''fb4f2a23cc196e53f0fa800a71c025e0a9b7ac5890b83c4d9d1a0214175d9dd5''"
proof -
  have "blocks16 (be_words (padded (''pollard/v1'' @ [CHR 10] @ ''{'' @ [CHR 34] @ ''a'' @ [CHR 34] @ '':0,'' @ [CHR 34] @ ''k'' @ [CHR 34] @ '':'' @ [CHR 34] @ ''root'' @ [CHR 34] @ '','' @ [CHR 34] @ ''p'' @ [CHR 34] @ '':'' @ [CHR 34] @ [CHR 34] @ '','' @ [CHR 34] @ ''pl'' @ [CHR 34] @ '':{'' @ [CHR 34] @ ''run'' @ [CHR 34] @ '':'' @ [CHR 34] @ ''first-run'' @ [CHR 34] @ ''}}''))) =
      [[1886350444, 1634886703, 1982925435, 576791098, 808198763, 574235250, 1869575202, 740454434,
      975315500, 577793058, 981148274, 1970151994, 577137010, 1936993650, 1970152061, 2105540608],
       [0, 0, 0, 0, 0, 0, 0, 0, 0, 0, 0, 0, 0, 0, 0, 488]]"
    by (simp add: padding_eval blocks16.simps)
  then show ?thesis
    by (simp only: sha256_hex_def sha256_words_def fold.simps comp_apply id_apply digest_first_run_block0 digest_first_run_block1)
      (simp add: hex_eval)
qed


lemma digest_demo_root_block0:
  "compress_block initial_hash
      [1886350444, 1634886703, 1982925435, 576791098, 808198763, 574235250, 1869575202, 740454434,
      975315500, 577793058, 981171581, 2147483648, 0, 0, 0, 352] =
      [1339837382, 2333347099, 4185452635, 603010474, 3042076388, 2096422528, 1266540596, 754193062]"
  by (subst compress_block_eval [OF refl refl])
    (simp add: schedule_numeral word_eval round_constants_def initial_hash_def del: compress_step.simps)

lemma digest_demo_root: "sha256_hex (''pollard/v1'' @ [CHR 10] @ ''{'' @ [CHR 34] @ ''a'' @ [CHR 34] @ '':0,'' @ [CHR 34] @ ''k'' @ [CHR 34] @ '':'' @ [CHR 34] @ ''root'' @ [CHR 34] @ '','' @ [CHR 34] @ ''p'' @ [CHR 34] @ '':'' @ [CHR 34] @ [CHR 34] @ '','' @ [CHR 34] @ ''pl'' @ [CHR 34] @ '':{}}'') =
  ''4fdc4bc68b140d1bf978f05b23f135aab55266e47cf4de804b7de0342cf412a6''"
proof -
  have "blocks16 (be_words (padded (''pollard/v1'' @ [CHR 10] @ ''{'' @ [CHR 34] @ ''a'' @ [CHR 34] @ '':0,'' @ [CHR 34] @ ''k'' @ [CHR 34] @ '':'' @ [CHR 34] @ ''root'' @ [CHR 34] @ '','' @ [CHR 34] @ ''p'' @ [CHR 34] @ '':'' @ [CHR 34] @ [CHR 34] @ '','' @ [CHR 34] @ ''pl'' @ [CHR 34] @ '':{}}''))) =
      [[1886350444, 1634886703, 1982925435, 576791098, 808198763, 574235250, 1869575202, 740454434,
      975315500, 577793058, 981171581, 2147483648, 0, 0, 0, 352]]"
    by (simp add: padding_eval blocks16.simps)
  then show ?thesis
    by (simp only: sha256_hex_def sha256_words_def fold.simps comp_apply id_apply digest_demo_root_block0)
      (simp add: hex_eval)
qed


lemma digest_demo_note_block0:
  "compress_block initial_hash
      [1886350444, 1634886703, 1982925435, 576791098, 808198763, 574235246, 1869899042, 740454434,
      975320166, 1684223074, 1664497762, 825503844, 828532281, 926443056, 895627827, 1714500405] =
      [341038109, 1625871637, 2928055922, 3502766785, 1658552182, 2709546814, 3972101928, 3552390914]"
  by (subst compress_block_eval [OF refl refl])
    (simp add: schedule_numeral word_eval round_constants_def initial_hash_def del: compress_step.simps)

lemma digest_demo_note_block1:
  "compress_block [341038109, 1625871637, 2928055922, 3502766785, 1658552182, 2709546814, 3972101928, 3552390914]
      [1633772085, 892483126, 1697920867, 1714709605, 942683234, 929326384, 859058787, 1714696498,
      1630937644, 577793058, 981171581, 2147483648, 0, 0, 0, 864] =
      [1533692688, 455806035, 3252087602, 98873005, 243596002, 1634610607, 4037803082, 410927920]"
  by (subst compress_block_eval [OF refl refl])
    (simp add: schedule_numeral word_eval round_constants_def initial_hash_def del: compress_step.simps)

lemma digest_demo_note: "sha256_hex (''pollard/v1'' @ [CHR 10] @ ''{'' @ [CHR 34] @ ''a'' @ [CHR 34] @ '':0,'' @ [CHR 34] @ ''k'' @ [CHR 34] @ '':'' @ [CHR 34] @ ''note'' @ [CHR 34] @ '','' @ [CHR 34] @ ''p'' @ [CHR 34] @ '':'' @ [CHR 34] @ ''4fdc4bc68b140d1bf978f05b23f135aab55266e47cf4de804b7de0342cf412a6'' @ [CHR 34] @ '','' @ [CHR 34] @ ''pl'' @ [CHR 34] @ '':{}}'') =
  ''5b6a4b101b2b0c53c1d6eb3205e4aead0e84fae2616e2daff0abfc4a187e4330''"
proof -
  have "blocks16 (be_words (padded (''pollard/v1'' @ [CHR 10] @ ''{'' @ [CHR 34] @ ''a'' @ [CHR 34] @ '':0,'' @ [CHR 34] @ ''k'' @ [CHR 34] @ '':'' @ [CHR 34] @ ''note'' @ [CHR 34] @ '','' @ [CHR 34] @ ''p'' @ [CHR 34] @ '':'' @ [CHR 34] @ ''4fdc4bc68b140d1bf978f05b23f135aab55266e47cf4de804b7de0342cf412a6'' @ [CHR 34] @ '','' @ [CHR 34] @ ''pl'' @ [CHR 34] @ '':{}}''))) =
      [[1886350444, 1634886703, 1982925435, 576791098, 808198763, 574235246, 1869899042, 740454434,
      975320166, 1684223074, 1664497762, 825503844, 828532281, 926443056, 895627827, 1714500405],
       [1633772085, 892483126, 1697920867, 1714709605, 942683234, 929326384, 859058787, 1714696498,
      1630937644, 577793058, 981171581, 2147483648, 0, 0, 0, 864]]"
    by (simp add: padding_eval blocks16.simps)
  then show ?thesis
    by (simp only: sha256_hex_def sha256_words_def fold.simps comp_apply id_apply digest_demo_note_block0 digest_demo_note_block1)
      (simp add: hex_eval)
qed


text \<open>The node ids as the code computes them.\<close>

lemma digit_char_0: "digit_char 0 = CHR ''0''"
  by code_simp

lemmas identity_bytes_eval =
  identity_bytes_def identity_dict_def DOMAIN_def json_text_dict member_text_def str_text_def
  esc_char_def int_str_def nat_digits_0 digit_char_0 utf8_encode_def utf8_char_def

lemma first_run_id:
  "node_id ''root'' None 0 (JDict [(''run'', JStr ''first-run'')]) =
    Inr ''fb4f2a23cc196e53f0fa800a71c025e0a9b7ac5890b83c4d9d1a0214175d9dd5''"
  using digest_first_run by (simp add: identity_bytes_eval)

definition demo_root_id :: string where
  "demo_root_id = ''4fdc4bc68b140d1bf978f05b23f135aab55266e47cf4de804b7de0342cf412a6''"

definition demo_note_id :: string where
  "demo_note_id = ''5b6a4b101b2b0c53c1d6eb3205e4aead0e84fae2616e2daff0abfc4a187e4330''"

lemma demo_root_id: "sha256_hex (identity_bytes ''root'' None 0 (JDict [])) = demo_root_id"
  using digest_demo_root by (simp add: identity_bytes_eval demo_root_id_def)

lemma demo_note_id: "sha256_hex (identity_bytes ''note'' (Some demo_root_id) 0 (JDict [])) = demo_note_id"
  using digest_demo_note by (simp add: identity_bytes_eval demo_root_id_def demo_note_id_def)

lemma demo_ids_differ [simp]: "demo_root_id \<noteq> demo_note_id" "demo_note_id \<noteq> demo_root_id"
  by (simp_all add: demo_root_id_def demo_note_id_def)

end
