(* ===== verification/Store_Facts.thy ===== *)
theory Store_Facts
  imports Store Vectors
begin

text \<open>
  What \<open>MemoryStore\<close> guarantees, stated over its operations, with the two-node store the
  concrete examples use.
\<close>

section \<open>A concrete store\<close>

definition demo_root :: node where
  "demo_root = \<lparr>nid = demo_root_id, parent = None, kind = ''root'', attempt = 0, payload = [],
     result = JNull, result_digest = None, meta = [], result_text = None\<rparr>"

definition demo_note :: node where
  "demo_note = \<lparr>nid = demo_note_id, parent = Some demo_root_id, kind = ''note'', attempt = 0, payload = [],
     result = JNull, result_digest = None, meta = [], result_text = None\<rparr>"

definition demo_store :: mem_store where
  "demo_store = \<lparr>ms_nodes = [(demo_root_id, demo_root), (demo_note_id, demo_note)],
     ms_children = [(demo_root_id, [demo_note_id])]\<rparr>"

lemma demo_root_hex [simp]: "is_hex64 (Some demo_root_id)" "is_hex64 (Some demo_note_id)"
  by (simp_all flip: demo_root_id demo_note_id)

lemma demo_nodes_ok:
  "node_ok demo_root" "node_valid demo_root" "node_ok demo_note" "node_valid demo_note"
  by (simp_all add: node_ok_def node_wf_iff core_ok_def node_valid_def expected_id_def demo_root_def
      demo_note_def node_kinds_def kind_value_def demo_root_id demo_note_id)

lemma demo_put: "mem_put demo_root mem_empty = Inr \<lparr>ms_nodes = [(demo_root_id, demo_root)], ms_children = []\<rparr>"
  "mem_put demo_note \<lparr>ms_nodes = [(demo_root_id, demo_root)], ms_children = []\<rparr> = Inr demo_store"
proof -
  have v: "validate_for_put demo_root = Inr ()" "validate_for_put demo_note = Inr ()"
    by (simp_all add: validate_for_put_iff demo_nodes_ok)
  show "mem_put demo_root mem_empty = Inr \<lparr>ms_nodes = [(demo_root_id, demo_root)], ms_children = []\<rparr>"
    using v by (simp add: mem_put_def) (simp add: demo_root_def mem_empty_def add_child_def)
  show "mem_put demo_note \<lparr>ms_nodes = [(demo_root_id, demo_root)], ms_children = []\<rparr> = Inr demo_store"
    using v by (simp add: mem_put_def) (simp add: demo_note_def demo_store_def add_child_def set_add_def dget_or_def)
qed

lemma demo_inv: "mem_inv demo_store"
  using mem_put_inv [OF mem_inv_empty demo_nodes_ok(1) demo_put(1)] mem_put_inv [OF _ demo_nodes_ok(3) demo_put(2)]
  by blast

section \<open>Properties\<close>

text \<open>
  C3. \<open>MemoryStore.put\<close> is append only: on success the store keeps its invariant, holds the
  new id, holds nothing else it did not hold before, and every node it held can still be read with
  the same parent, kind, attempt, payload, result text and result digest.
\<close>

theorem mem_put_append_only:
  assumes "mem_inv s" "node_ok n" "mem_put n s = Inr s'"
  shows "mem_inv s' \<and> (\<forall>i. mem_exists s' i \<longleftrightarrow> i = nid n \<or> mem_exists s i) \<and>
    (\<forall>i m. mem_get s i = Inr m \<longrightarrow> (\<exists>m'. mem_get s' i = Inr m' \<and> same_record m' m))"
proof -
  have r: "s_put mem_ops n s = Inr s'" using assms(3) by (simp add: mem_ops_def)
  have i: "mem_inv s'" and d: "dom (mem_nodes s') = insert (nid n) (dom (mem_nodes s))"
    using mem.put_nodes [OF assms(1,2) r] by simp_all
  have "mem_exists s' i \<longleftrightarrow> i = nid n \<or> mem_exists s i" for i
    using d by (auto simp: mem_exists_def mem_nodes_def set_eq_iff)
  moreover have "\<exists>m'. mem_get s' i = Inr m' \<and> same_record m' m" if "mem_get s i = Inr m" for i m
    using mem.put_existing_keeps [OF assms(1,2) r, of i m] that by (simp add: mem_ops_def)
  ultimately show ?thesis using i by blast
qed

lemma mem_put_append_only_witness:
  "mem_inv demo_store \<and> mem_exists demo_store demo_note_id \<and> mem_exists demo_store demo_root_id"
proof -
  have "mem_inv \<lparr>ms_nodes = [(demo_root_id, demo_root)], ms_children = []\<rparr>"
    using mem_put_inv [OF mem_inv_empty demo_nodes_ok(1) demo_put(1)] by blast
  from mem_put_append_only [OF this demo_nodes_ok(3) demo_put(2)]
  show ?thesis by (simp add: mem_exists_def demo_note_def)
qed

text \<open>
  C26. \<open>MemoryStore.walk\<close> ends without an exception and yields exactly the subtree: the node
  asked for first, each descendant once, every node after its parent.
\<close>

theorem mem_walk_subtree:
  assumes "mem_inv s" "mem_exists s i"
  shows "\<exists>L. mem_walk s i = Some (L, None) \<and> preorder (mem_nodes s) i L"
  using mem.walk_yields_subtree [OF assms(1), of i] assms(2)
  by (simp add: mem_ops_def mem_exists_def mem_nodes_def domIff)

lemma mem_walk_subtree_witness:
  "\<exists>L. mem_walk demo_store demo_root_id = Some (L, None) \<and> preorder (mem_nodes demo_store) demo_root_id L"
  by (rule mem_walk_subtree [OF demo_inv]) (simp add: mem_exists_def demo_store_def)

lemma node_ok_identity:
  assumes "node_ok n" shows "identity_ok (JDict (payload n))" "json_wf (JDict (payload n))"
    "if kind n = kind_value ROOT then parent n = None else is_hex64 (parent n)"
  using assms node_wf_core_ok [of n] by (simp_all add: node_ok_def core_ok_def)

lemma same_identity_eq:
  assumes "node_ok e" "node_ok n"
    "identity_bytes (kind e) (parent e) (attempt e) (JDict (payload e))
      = identity_bytes (kind n) (parent n) (attempt n) (JDict (payload n))"
  shows "identity_eq e n"
proof -
  note e = node_ok_identity [OF assms(1)] and n = node_ok_identity [OF assms(2)]
  have same: "kind e = kind n" "same_parent (parent e) (parent n)" "attempt e = attempt n"
    "json_norm (JDict (payload e)) = json_norm (JDict (payload n))"
    using identity_bytes_inject [OF e(1,2) n(1,2) assms(3)] by simp_all
  have "parent e = parent n"
    using same(1,2) e(3) n(3) by (auto simp: same_parent_def is_hex64_def split: if_splits)
  then show ?thesis using same py_eq_norm [OF same(4) e(2) n(2)] by (simp add: identity_eq_def)
qed

lemma existing_collision:
  assumes "node_ok e" "expected_id e = Inr (nid e)" "node_ok n" "expected_id n = Inr (nid n)" "nid e = nid n"
    "\<not> identity_eq e n"
  shows "collision (identity_bytes (kind e) (parent e) (attempt e) (JDict (payload e)))
      (identity_bytes (kind n) (parent n) (attempt n) (JDict (payload n)))"
  using assms same_identity_eq [OF assms(1,3)] by (auto simp: collision_def expected_id_def node_id_Inr)

lemma mem_handle_existing_errors:
  "mem_handle_existing e n s = Inl (IntegrityError m) \<Longrightarrow> node_ok e \<Longrightarrow> \<not> identity_eq e n"
  by (auto simp: mem_handle_existing_def bindR_Inl_iff py_list_def node_ok_def set_meta_wf
      split: if_splits json.splits)

text \<open>
  The id-collision check of \<open>put\<close> is about SHA-256 only: a stored node with the id of a
  valid new node has the same identity as Python compares it, and \<open>put\<close> does not report a
  collision, unless the two canonical identities are different byte strings with the same SHA-256.
\<close>

theorem put_collision_is_sha256:
  assumes "mem_inv s" "node_ok n" "node_valid n" "mem_nodes s (nid n) = Some e"
  shows "(identity_eq e n \<and> (\<forall>m. mem_put n s \<noteq> Inl (IntegrityError m))) \<or>
    collision (identity_bytes (kind e) (parent e) (attempt e) (JDict (payload e)))
      (identity_bytes (kind n) (parent n) (attempt n) (JDict (payload n)))"
proof -
  have e: "node_ok e" "node_valid e" "nid e = nid n" using mem_inv_node [OF assms(1,4)] by simp_all
  have v: "validate_for_put n = Inr ()" using assms(3) by (simp add: validate_for_put_iff)
  have "identity_eq e n \<Longrightarrow> mem_put n s \<noteq> Inl (IntegrityError m)" for m
    using mem_handle_existing_errors [of e n s m] e(1) v assms(4)
    by (auto simp: mem_put_def mem_nodes_def bindR_Inl_iff split: option.splits)
  moreover have "expected_id e = Inr (nid e)" "expected_id n = Inr (nid n)"
    using e(2) assms(3) by (simp_all add: node_valid_def)
  ultimately show ?thesis using existing_collision [OF e(1) _ assms(2) _ e(3)] by blast
qed

lemma put_collision_is_sha256_witness:
  "identity_eq demo_note demo_note \<or> collision (identity_bytes ''note'' (Some demo_root_id) 0 (JDict []))
     (identity_bytes ''note'' (Some demo_root_id) 0 (JDict []))"
proof -
  have "mem_nodes demo_store (nid demo_note) = Some demo_note"
    by (simp add: mem_nodes_def demo_store_def demo_note_def)
  from put_collision_is_sha256 [OF demo_inv demo_nodes_ok(3,4) this] show ?thesis
    by (auto simp: demo_note_def)
qed

text \<open>
  Putting a node whose id is stored never loses data: without a new result the store is
  unchanged, and a different result is appended to the stored node's list of conflicts while the
  stored result stays the first one.
\<close>

theorem put_existing_records_conflict:
  assumes "mem_inv s" "node_ok n" "node_valid n" "mem_nodes s (nid n) = Some e"
    "parent n = parent e" "identity_eq e n"
    "dget_or (meta e) ''result_conflicts'' (JList []) = JList old" "json_serialisable (result n)"
  shows "mem_put n s =
    (if result_text n = None \<or> result_text n = result_text e then Inr s
     else Inr (s\<lparr>ms_nodes := dset (nid n)
       (e\<lparr>meta := dset ''result_conflicts'' (JList (old @ [conflict_record n])) (meta e)\<rparr>) (ms_nodes s)\<rparr>))"
proof -
  have e: "node_ok e" "nid e = nid n" using mem_inv_node [OF assms(1,4)] by simp_all
  have p: "dget (ms_nodes s) q \<noteq> None" if "parent n = Some q" for q
    using parents_inD [OF mem_closed [OF assms(1)] assms(4), of q] assms(5) that by (auto simp: mem_nodes_def)
  have v: "validate_for_put n = Inr ()" using assms(3) by (simp add: validate_for_put_iff)
  have ser: "json_serialisable (JDict (meta e))"
    using node_wf_core_ok [of e] e(1) by (simp add: node_ok_def core_ok_def)
  have "json_serialisable (JList old)"
  proof (cases "dget (meta e) ''result_conflicts''")
    case (Some v)
    then show ?thesis using ser assms(7) by (force simp: dget_or_def dest: map_of_SomeD)
  qed (use assms(7) in \<open>simp add: dget_or_def\<close>)
  moreover have "json_serialisable (conflict_record n)"
    using assms(8) by (simp add: conflict_record_def split: option.split)
  ultimately have "json_serialisable (JDict (dset ''result_conflicts'' (JList (old @ [conflict_record n])) (meta e)))"
    using ser set_dset_subset [of "''result_conflicts''" "JList (old @ [conflict_record n])" "meta e"] by auto
  then have m: "set_meta (dset ''result_conflicts'' (JList (old @ [conflict_record n])) (meta e)) e =
      Inr (e\<lparr>meta := dset ''result_conflicts'' (JList (old @ [conflict_record n])) (meta e)\<rparr>)"
    using e(1) by (simp add: node_ok_def set_meta_wf)
  have "mem_put n s = mem_handle_existing e n s"
    using v p assms(4) by (cases "parent n") (simp_all add: mem_put_def mem_nodes_def)
  then show ?thesis
    using assms(6,7) m e(2) by (simp add: mem_handle_existing_def py_list_def)
qed

lemma put_existing_records_conflict_witness: "mem_put demo_note demo_store = Inr demo_store"
proof -
  have "mem_nodes demo_store (nid demo_note) = Some demo_note" by (simp add: mem_nodes_def demo_store_def demo_note_def)
  moreover have "identity_eq demo_note demo_note" "dget_or (meta demo_note) ''result_conflicts'' (JList []) = JList []"
    by (simp_all add: identity_eq_def demo_note_def dget_or_def)
  ultimately show ?thesis
    using put_existing_records_conflict [OF demo_inv demo_nodes_ok(3,4) _ refl]
    by (simp add: demo_note_def)
qed

text \<open>
  Dropping nodes: if the set dropped contains every descendant it must (no kept node has a
  dropped parent), the store keeps its invariant and holds exactly the other nodes, unchanged.
\<close>

theorem mem_drop_nodes_exact:
  assumes "mem_inv s" "child_closed (mem_nodes s) (set ids)"
  shows "mem_inv (mem_drop_nodes ids s) \<and> mem_nodes (mem_drop_nodes ids s) = mem_nodes s |` (- set ids)"
  using mem_drop_inv [OF assms] by blast

lemma mem_drop_nodes_exact_witness:
  "mem_nodes (mem_drop_nodes [demo_note_id] demo_store) demo_root_id = Some demo_root \<and>
   mem_nodes (mem_drop_nodes [demo_note_id] demo_store) demo_note_id = None"
proof -
  have "mem_nodes (mem_drop_nodes [demo_note_id] demo_store) = mem_nodes demo_store |` (- set [demo_note_id])"
    by (rule mem_drop_nodes_exact [OF demo_inv, THEN conjunct2])
      (auto simp: child_closed_def mem_nodes_def demo_store_def demo_root_def demo_note_def split: if_splits)
  then show ?thesis by (simp add: mem_nodes_def demo_store_def)
qed

end
