(* ===== verification/Verify.thy ===== *)
theory Verify
  imports Store_Facts
begin

text \<open>
  Integrity verification (\<open>verify.py\<close>): the walk from a node to its root that recomputes
  every id and result digest. \<open>verify_loop\<close> is the \<open>while\<close> loop, \<open>verify\<close> the function
  over any store. The results: it ends whatever the parent pointers are, it passes a store that
  keeps its contract, and what it passes is a hash chain, so two stores that both pass at one id
  agree on every ancestor's identity.
\<close>

record verify_finding =
  vf_node_id :: string
  vf_message :: string

record verify_report =
  vr_ok :: bool
  vr_findings :: "verify_finding list"

text \<open>The two checks on a node that was read.\<close>

definition verify_node :: "node \<Rightarrow> verify_finding list \<Rightarrow> verify_finding list res" where
  "verify_node n fs =
    bindR (expected_id n) (\<lambda>e.
    let fs1 = (if nid n \<noteq> e
               then fs @ [\<lparr>vf_node_id = nid n, vf_message = ''node id does not match identity fields''\<rparr>] else fs)
    in Inr (case result_text n of
        None \<Rightarrow> fs1
      | Some t \<Rightarrow>
          if result_digest n \<noteq> Some (result_digest_from_text t)
          then fs1 @ [\<lparr>vf_node_id = nid n, vf_message = ''result digest does not match stored result''\<rparr>]
          else fs1))"

partial_function (option) verify_loop ::
  "(string \<Rightarrow> node res) \<Rightarrow> string option \<Rightarrow> string list \<Rightarrow> verify_finding list
    \<Rightarrow> (verify_finding list res) option" where
  "verify_loop get current seen fs = (case current of
      None \<Rightarrow> Some (Inr fs)
    | Some i \<Rightarrow>
        if i \<in> set seen
        then Some (Inr (fs @ [\<lparr>vf_node_id = i, vf_message = ''cycle detected in ancestry''\<rparr>]))
        else (case get i of
            Inl e \<Rightarrow> (case e of
                KeyError k \<Rightarrow> Some (Inr (fs @ [\<lparr>vf_node_id = i, vf_message = ''node is missing''\<rparr>]))
              | _ \<Rightarrow> Some (Inl e))
          | Inr n \<Rightarrow> (case verify_node n fs of
                Inl e \<Rightarrow> Some (Inl e)
              | Inr fs' \<Rightarrow> verify_loop get (parent n) (i # seen) fs')))"

definition verify :: "'st store_ops \<Rightarrow> 'st \<Rightarrow> string \<Rightarrow> (verify_report res) option" where
  "verify ops st i = map_option (\<lambda>r. bindR r (\<lambda>fs. Inr \<lparr>vr_ok = (fs = []), vr_findings = fs\<rparr>))
    (verify_loop (s_get ops st) (Some i) [] [])"

section \<open>Termination\<close>

lemma verify_loop_total:
  assumes "finite {i. \<exists>n. get i = Inr n}"
  shows "\<exists>r. verify_loop get current seen fs = Some r"
proof (induction "card ({i. \<exists>n. get i = Inr n} - set seen)" arbitrary: current seen fs rule: less_induct)
  case less
  show ?case
  proof (cases current)
    case None
    then show ?thesis by (simp add: verify_loop.simps)
  next
    case (Some i)
    show ?thesis
    proof (cases "i \<in> set seen \<or> (\<exists>e. get i = Inl e)")
      case True
      then show ?thesis
        by (subst verify_loop.simps) (auto simp: Some split: exc.split)
    next
      case False
      then obtain n where n: "get i = Inr n" "i \<notin> set seen" by (cases "get i") auto
      then have "card ({i. \<exists>n. get i = Inr n} - set (i # seen)) < card ({i. \<exists>n. get i = Inr n} - set seen)"
        using assms by (intro psubset_card_mono) auto
      from less [OF this] show ?thesis
        using n by (subst verify_loop.simps) (auto simp: Some split: sum.split)
    qed
  qed
qed

section \<open>What a passing verification means\<close>

text \<open>The nodes from one up to its root, as a store returns them.\<close>

inductive lineage :: "(string \<Rightarrow> node res) \<Rightarrow> string \<Rightarrow> node list \<Rightarrow> bool" for get where
  lineage_root: "get i = Inr n \<Longrightarrow> parent n = None \<Longrightarrow> lineage get i [n]"
| lineage_step: "get i = Inr n \<Longrightarrow> parent n = Some p \<Longrightarrow> lineage get p L \<Longrightarrow> lineage get i (n # L)"

lemma lineage_Cons:
  "lineage get i L \<Longrightarrow> \<exists>n L'. get i = Inr n \<and> L = n # L' \<and>
    (case parent n of None \<Rightarrow> L' = [] | Some p \<Rightarrow> lineage get p L')"
  by (erule lineage.cases) auto

definition node_sound :: "node \<Rightarrow> bool" where
  "node_sound n \<longleftrightarrow> expected_id n = Inr (nid n) \<and>
    (\<forall>t. result_text n = Some t \<longrightarrow> result_digest n = Some (result_digest_from_text t))"

lemma verify_node_Nil: "verify_node n fs = Inr [] \<longleftrightarrow> fs = [] \<and> node_sound n"
  by (auto simp: verify_node_def bindR_Inr_iff node_sound_def Let_def split: if_splits option.splits)

lemma verify_node_grows: "verify_node n fs = Inr fs' \<Longrightarrow> fs \<noteq> [] \<Longrightarrow> fs' \<noteq> []"
  by (auto simp: verify_node_def bindR_Inr_iff Let_def split: if_splits option.splits)

definition sound_from :: "(string \<Rightarrow> node res) \<Rightarrow> string option \<Rightarrow> bool" where
  "sound_from get current \<longleftrightarrow>
    (\<forall>i. current = Some i \<longrightarrow> (\<exists>L. lineage get i L \<and> (\<forall>n \<in> set L. node_sound n)))"

lemma sound_from_step:
  assumes "get i = Inr n" "node_sound n" "sound_from get (parent n)"
  shows "sound_from get (Some i)"
proof (cases "parent n")
  case None
  then have "lineage get i [n]" using assms(1) by (rule lineage_root [rotated])
  then show ?thesis using assms(2) unfolding sound_from_def by (intro allI impI exI [of _ "[n]"]) simp
next
  case (Some p)
  then obtain L where "lineage get p L" "\<forall>n \<in> set L. node_sound n"
    using assms(3) by (auto simp: sound_from_def)
  moreover from this(1) have "lineage get i (n # L)" using assms(1) Some by (rule lineage_step [rotated 2])
  ultimately show ?thesis
    using assms(2) unfolding sound_from_def by (intro allI impI exI [of _ "n # L"]) simp
qed

lemma verify_loop_sound:
  assumes "verify_loop get current seen fs = Some (Inr [])"
  shows "fs = [] \<and> sound_from get current"
proof -
  have "r = Inr [] \<longrightarrow> fs = [] \<and> sound_from get current" if "verify_loop get current seen fs = Some r" for r
  proof (rule verify_loop.raw_induct
      [where P = "\<lambda>get current seen fs r. r = Inr [] \<longrightarrow> fs = [] \<and> sound_from get current", OF _ that])
    fix vl get current seen and fs :: "verify_finding list" and r
    assume IH: "\<And>get current seen fs r. vl get current seen fs = Some r \<Longrightarrow>
        r = Inr [] \<longrightarrow> fs = [] \<and> sound_from get current"
      and step: "(case current of None \<Rightarrow> Some (Inr fs) | Some i \<Rightarrow>
        if i \<in> set seen
        then Some (Inr (fs @ [\<lparr>vf_node_id = i, vf_message = ''cycle detected in ancestry''\<rparr>]))
        else (case get i of
            Inl e \<Rightarrow> (case e of
                KeyError k \<Rightarrow> Some (Inr (fs @ [\<lparr>vf_node_id = i, vf_message = ''node is missing''\<rparr>]))
              | _ \<Rightarrow> Some (Inl e))
          | Inr n \<Rightarrow> (case verify_node n fs of
                Inl e \<Rightarrow> Some (Inl e)
              | Inr fs' \<Rightarrow> vl get (parent n) (i # seen) fs'))) = Some r"
    show "r = Inr [] \<longrightarrow> fs = [] \<and> sound_from get current"
    proof (cases current)
      case None
      then show ?thesis using step by (auto simp: sound_from_def)
    next
      case (Some i)
      show ?thesis
      proof
        assume r: "r = Inr []"
        obtain n where n: "get i = Inr n"
          using step Some r by (cases "get i") (auto split: if_splits exc.splits)
        then obtain fs' where fs': "verify_node n fs = Inr fs'" "vl get (parent n) (i # seen) fs' = Some r"
          using step Some r by (auto split: if_splits sum.splits)
        from IH [OF fs'(2)] r have "fs' = []" "sound_from get (parent n)" by simp_all
        then show "fs = [] \<and> sound_from get current"
          using fs'(1) sound_from_step [of get i n, OF n] Some by (simp add: verify_node_Nil)
      qed
    qed
  qed
  with assms show ?thesis by blast
qed

lemma verify_ok_lineage:
  "verify ops st i = Some (Inr rep) \<Longrightarrow> vr_ok rep \<Longrightarrow>
    \<exists>L. lineage (s_get ops st) i L \<and> (\<forall>n \<in> set L. node_sound n)"
  using verify_loop_sound [of "s_get ops st" "Some i" "[]" "[]"]
  by (auto simp: verify_def bindR_Inr_iff sound_from_def)

section \<open>Properties\<close>

text \<open>
  C28. \<open>verify\<close> ends on every store with finitely many readable nodes, whatever their parent
  pointers say: a cycle is reported, not followed.
\<close>

theorem verify_terminates:
  assumes "finite {i. \<exists>n. s_get ops st i = Inr n}"
  shows "\<exists>r. verify ops st i = Some r"
  using verify_loop_total [OF assms] by (simp add: verify_def)

lemma verify_terminates_witness: "\<exists>r. verify mem_ops demo_store demo_note_id = Some r"
proof (rule verify_terminates)
  have "{i. \<exists>n. s_get mem_ops demo_store i = Inr n} \<subseteq> {demo_root_id, demo_note_id}"
    by (auto simp: mem_ops_def mem_get_def mem_lookup_def demo_store_def split: option.splits if_splits)
  then show "finite {i. \<exists>n. s_get mem_ops demo_store i = Inr n}" by (rule finite_subset) simp
qed

context store_contract
begin

lemma verify_loop_clean:
  assumes inv: "inv st" and i: "i \<in> dom (nodes st)"
    and seen: "\<forall>j \<in> set seen. (i, j) \<in> (edges (nodes st))\<^sup>+"
  shows "verify_loop (s_get ops st) (Some i) seen [] = Some (Inr [])"
proof -
  have f: "forest (nodes st)" using nodes_forest inv by blast
  have "wf (edges (nodes st))"
    using edges_finite [OF f] f by (intro finite_acyclic_wf) (simp_all add: forest_def)
  then show ?thesis using i seen
  proof (induction i arbitrary: seen rule: wf_induct_rule)
    case (less i)
    obtain n where n: "nodes st i = Some n" using less.prems(1) by auto
    have ni: "i \<notin> set seen" using f less.prems(2) by (auto simp: forest_def acyclic_def)
    have "verify_node n [] = Inr []"
      using nodes_valid [OF inv n] by (simp add: verify_node_Nil node_sound_def node_valid_def)
    moreover have "verify_loop (s_get ops st) (parent n) (i # seen) [] = Some (Inr [])"
    proof (cases "parent n")
      case None
      then show ?thesis by (simp add: verify_loop.simps)
    next
      case (Some p)
      then have e: "(p, i) \<in> edges (nodes st)" using n by (auto simp: edges_def)
      have "p \<in> dom (nodes st)" using nodes_closed [OF inv] n Some unfolding parents_in_def by blast
      moreover have "\<forall>j \<in> set (i # seen). (p, j) \<in> (edges (nodes st))\<^sup>+"
        using e less.prems(2) by (auto intro: trancl_into_trancl2)
      ultimately show ?thesis using less.IH [OF e] Some by simp
    qed
    ultimately show ?case
      using ni n by (subst verify_loop.simps) (simp add: get_nodes [OF inv])
  qed
qed

lemma verify_clean:
  "inv st \<Longrightarrow> i \<in> dom (nodes st) \<Longrightarrow> verify ops st i = Some (Inr \<lparr>vr_ok = True, vr_findings = []\<rparr>)"
  using verify_loop_clean [of st i "[]"] by (simp add: verify_def)

end

text \<open>
  A \<open>MemoryStore\<close> verifies: whatever sequence of operations built it, \<open>verify\<close> of a
  stored node reports no finding.
\<close>

theorem verify_mem_store_ok:
  assumes "mem_inv s" "mem_exists s i"
  shows "verify mem_ops s i = Some (Inr \<lparr>vr_ok = True, vr_findings = []\<rparr>)"
  using mem.verify_clean [OF assms(1), of i] assms(2) by (simp add: mem_exists_def mem_nodes_def domIff)

lemma verify_mem_store_ok_witness:
  "verify mem_ops demo_store demo_note_id = Some (Inr \<lparr>vr_ok = True, vr_findings = []\<rparr>)"
  by (rule verify_mem_store_ok [OF demo_inv]) (simp add: mem_exists_def demo_store_def)

definition node_bytes :: "node \<Rightarrow> string" where
  "node_bytes n = identity_bytes (kind n) (parent n) (attempt n) (JDict (payload n))"

lemma sound_same_id:
  assumes "node_sound n" "node_ok n" "node_sound n'" "node_ok n'" "nid n = nid n'"
  shows "identity_eq n n' \<or> collision (node_bytes n) (node_bytes n')"
  using existing_collision [OF assms(2) _ assms(4) _ assms(5)] assms(1,3)
  by (auto simp: node_sound_def node_bytes_def)

lemma lineage_binding:
  assumes "lineage get i L" "lineage get' i L'"
    "\<forall>n \<in> set L. node_sound n \<and> node_ok n" "\<forall>n \<in> set L'. node_sound n \<and> node_ok n"
    "\<And>j n. get j = Inr n \<Longrightarrow> nid n = j" "\<And>j n. get' j = Inr n \<Longrightarrow> nid n = j"
  shows "list_all2 identity_eq L L' \<or> (\<exists>n \<in> set L. \<exists>n' \<in> set L'. collision (node_bytes n) (node_bytes n'))"
  using assms(1-4)
proof (induction arbitrary: L' rule: lineage.induct)
  case (lineage_root i n)
  from lineage_Cons [OF lineage_root.prems(1)] obtain n' L'' where n': "get' i = Inr n'" "L' = n' # L''"
    "parent n' = None \<longrightarrow> L'' = []"
    by (auto split: option.splits)
  have "nid n = nid n'" using assms(5) [OF lineage_root.hyps(1)] assms(6) [OF n'(1)] by simp
  then have "identity_eq n n' \<or> collision (node_bytes n) (node_bytes n')"
    using lineage_root.prems(2,3) n'(2) by (intro sound_same_id) auto
  then show ?case using n' lineage_root.hyps(2) by (auto simp: identity_eq_def)
next
  case (lineage_step i n p L)
  from lineage_Cons [OF lineage_step.prems(1)] obtain n' L'' where n': "get' i = Inr n'" "L' = n' # L''"
    "parent n' = Some p \<longrightarrow> lineage get' p L''"
    by (auto split: option.splits)
  have "nid n = nid n'" using assms(5) [OF lineage_step.hyps(1)] assms(6) [OF n'(1)] by simp
  then have "identity_eq n n' \<or> collision (node_bytes n) (node_bytes n')"
    using lineage_step.prems(2,3) n'(2) by (intro sound_same_id) auto
  then show ?case
  proof
    assume eq: "identity_eq n n'"
    then have "lineage get' p L''" using n'(3) lineage_step.hyps(2) by (simp add: identity_eq_def)
    with lineage_step.IH [of L''] lineage_step.prems n'(2) eq show ?thesis by auto
  qed (use n'(2) in auto)
qed



text \<open>
  C36. \<open>verify\<close> does not compare a node's id with the id it asked for: whatever consistent root
  node a store returns under an id, the report is clean, so a record filed under another node's id
  (or an id that was never computed) goes unnoticed.
\<close>

theorem verify_ignores_asked_id:
  assumes "s_get ops st i = Inr n" "node_sound n" "parent n = None" "nid n \<noteq> i"
  shows "verify ops st i = Some (Inr \<lparr>vr_ok = True, vr_findings = []\<rparr>)"
proof -
  have "verify_node n [] = Inr []" using assms(2) by (simp add: verify_node_Nil)
  then have "verify_loop (s_get ops st) (Some i) [] [] = Some (Inr [])"
    using assms(1,3) by (subst verify_loop.simps) (simp add: verify_loop.simps)
  then show ?thesis by (simp add: verify_def)
qed

lemma verify_ignores_asked_id_witness:
  "verify (mem_ops\<lparr>s_get := (\<lambda>s i. Inr demo_root)\<rparr>) mem_empty ''forged'' =
    Some (Inr \<lparr>vr_ok = True, vr_findings = []\<rparr>)"
proof (rule verify_ignores_asked_id)
  show "node_sound demo_root" using demo_nodes_ok(2) by (simp add: node_sound_def node_valid_def)
  show "nid demo_root \<noteq> ''forged''" by (simp add: demo_root_def demo_root_id_def)
qed (simp_all add: demo_root_def)

end
