(* ===== verification/Seal.thy ===== *)
theory Seal
  imports Verify
begin

text \<open>
  Rolling seals (\<open>seal.py\<close>): the hash chain over the nodes of a subtree in walk order. The
  result is that the final digest binds the whole sequence of ids, parents, kinds and result digests.
\<close>

definition SEAL_DOMAIN :: string where
  "SEAL_DOMAIN = ''pollard/v1:seal'' @ [CHR 10]"

definition SEAL_ALGORITHM :: string where
  "SEAL_ALGORITHM = ''sha256:pollard/v1:seal''"

record seal_entry =
  se_index :: nat
  se_node_id :: string
  se_parent_id :: "string option"
  se_kind :: string
  se_result_digest :: "string option"
  se_previous :: "string option"
  se_seal :: string

record seal_report =
  sr_root_id :: string
  sr_algorithm :: string
  sr_digest :: string
  sr_entries :: "seal_entry list"

definition opt_str :: "string option \<Rightarrow> json" where
  "opt_str x = (case x of None \<Rightarrow> JNull | Some s \<Rightarrow> JStr s)"

definition or_empty :: "string option \<Rightarrow> string" where
  "or_empty x = (case x of None \<Rightarrow> [] | Some s \<Rightarrow> s)"

definition seal_entry_dict :: "seal_entry \<Rightarrow> json" where
  "seal_entry_dict e = JDict
    [(''index'', JInt (int (se_index e))), (''node_id'', JStr (se_node_id e)),
     (''parent_id'', opt_str (se_parent_id e)), (''kind'', JStr (se_kind e)),
     (''result_digest'', opt_str (se_result_digest e)), (''previous'', opt_str (se_previous e)),
     (''seal'', JStr (se_seal e))]"

definition seal_report_dict :: "seal_report \<Rightarrow> json" where
  "seal_report_dict r = JDict
    [(''root_id'', JStr (sr_root_id r)), (''algorithm'', JStr (sr_algorithm r)),
     (''digest'', JStr (sr_digest r)), (''entries'', JList (map seal_entry_dict (sr_entries r)))]"

definition seal_record :: "nat \<Rightarrow> node \<Rightarrow> string \<Rightarrow> json" where
  "seal_record i n previous = JDict
    [(''index'', JInt (int i)), (''node_id'', JStr (nid n)), (''parent_id'', JStr (or_empty (parent n))),
     (''kind'', JStr (kind n)), (''result_digest'', JStr (or_empty (result_digest n))),
     (''previous'', JStr previous)]"

definition validate_node :: "node \<Rightarrow> unit res" where
  "validate_node n =
    bindR (expected_id n) (\<lambda>e.
    bindR (ensure (nid n = e) (IntegrityError (''node id does not match identity fields: '' @ nid n))) (\<lambda>_.
    case result_text n of None \<Rightarrow> Inr ()
    | Some t \<Rightarrow> ensure (result_digest n = Some (result_digest_from_text t))
        (IntegrityError (''node result digest does not match result: '' @ nid n))))"

fun seal_nodes :: "nat \<Rightarrow> string \<Rightarrow> node list \<Rightarrow> (seal_entry list \<times> string) res" where
  "seal_nodes i previous [] = Inr ([], previous)"
| "seal_nodes i previous (n # ns) =
    bindR (validate_node n) (\<lambda>_.
    bindR (canonical_bytes (seal_record i n previous)) (\<lambda>b.
    let current = sha256_hex (SEAL_DOMAIN @ b) in
    bindR (seal_nodes (Suc i) current ns) (\<lambda>(es, digest).
    Inr (\<lparr>se_index = i, se_node_id = nid n, se_parent_id = parent n, se_kind = kind n,
          se_result_digest = result_digest n, se_previous = (if previous = [] then None else Some previous),
          se_seal = current\<rparr> # es, digest))))"

definition seal :: "'st store_ops \<Rightarrow> 'st \<Rightarrow> string \<Rightarrow> seal_report res option" where
  "seal ops st root_id = map_option (\<lambda>(ns, e).
     bindR (seal_nodes 0 [] ns) (\<lambda>(es, digest).
     case e of Some x \<Rightarrow> Inl x
     | None \<Rightarrow> Inr \<lparr>sr_root_id = root_id, sr_algorithm = SEAL_ALGORITHM, sr_digest = digest, sr_entries = es\<rparr>))
     (s_walk ops st root_id)"

section \<open>The chain\<close>

lemma validate_node_iff: "validate_node n = Inr u \<longleftrightarrow> node_sound n"
  by (auto simp: validate_node_def node_sound_def bindR_Inr_iff split: option.splits)

definition seal_bytes :: "nat \<Rightarrow> node \<Rightarrow> string \<Rightarrow> string" where
  "seal_bytes i n previous = SEAL_DOMAIN @ utf8_encode (json_text (seal_record i n previous))"

text \<open>The digest after each node, and the byte strings that were hashed.\<close>

fun seal_digest :: "nat \<Rightarrow> string \<Rightarrow> node list \<Rightarrow> string" where
  "seal_digest i previous [] = previous"
| "seal_digest i previous (n # ns) = seal_digest (Suc i) (sha256_hex (seal_bytes i n previous)) ns"

fun seal_inputs :: "nat \<Rightarrow> string \<Rightarrow> node list \<Rightarrow> string list" where
  "seal_inputs i previous [] = []"
| "seal_inputs i previous (n # ns) =
    seal_bytes i n previous # seal_inputs (Suc i) (sha256_hex (seal_bytes i n previous)) ns"

lemma seal_record_ok: "identity_ok (seal_record i n previous)" "json_wf (seal_record i n previous)"
  by (simp_all add: seal_record_def)

lemma seal_nodes_digest: "seal_nodes i previous ns = Inr (es, d) \<Longrightarrow> d = seal_digest i previous ns"
  by (induction i previous ns arbitrary: es rule: seal_nodes.induct)
    (auto simp: bindR_Inr_iff canonical_bytes_Inr seal_bytes_def Let_def)

lemma seal_nodes_ok:
  "\<forall>n \<in> set ns. node_sound n \<Longrightarrow> \<exists>es. seal_nodes i previous ns = Inr (es, seal_digest i previous ns)"
proof (induction ns arbitrary: i previous)
  case (Cons n ns)
  have "validate_node n = Inr ()" using Cons.prems by (simp add: validate_node_iff)
  with Cons.IH [of "Suc i" "sha256_hex (seal_bytes i n previous)"] Cons.prems show ?case
    by (auto simp: seal_record_ok seal_bytes_def Let_def)
qed simp

lemma seal_nodes_sound: "seal_nodes i previous ns = Inr r \<Longrightarrow> n \<in> set ns \<Longrightarrow> node_sound n"
  by (induction i previous ns arbitrary: r rule: seal_nodes.induct)
    (auto simp: bindR_Inr_iff validate_node_iff Let_def)

lemma seal_digest_snoc:
  "seal_digest i previous (ns @ [n]) = sha256_hex (seal_bytes (i + length ns) n (seal_digest i previous ns))"
  by (induction i previous ns rule: seal_digest.induct) simp_all

lemma seal_inputs_snoc:
  "seal_inputs i previous (ns @ [n]) =
    seal_inputs i previous ns @ [seal_bytes (i + length ns) n (seal_digest i previous ns)]"
  by (induction i previous ns rule: seal_inputs.induct) simp_all

definition sealed_fields :: "node \<Rightarrow> string \<times> string \<times> string \<times> string" where
  "sealed_fields n = (nid n, or_empty (parent n), kind n, or_empty (result_digest n))"

lemma seal_bytes_inject:
  assumes "seal_bytes i n p = seal_bytes j m q"
  shows "i = j \<and> sealed_fields n = sealed_fields m \<and> p = q"
proof -
  have "json_norm (seal_record i n p) = json_norm (seal_record j m q)"
    using assms json_text_inject [OF seal_record_ok [of i n p] seal_record_ok [of j m q]]
    by (simp add: seal_bytes_def)
  from json_norm_dict_lookup [OF this [unfolded seal_record_def]]
  have l: "\<And>k. map_option json_norm (dget [(''index'', JInt (int i)), (''node_id'', JStr (nid n)), (''parent_id'', JStr (or_empty (parent n))),
     (''kind'', JStr (kind n)), (''result_digest'', JStr (or_empty (result_digest n))), (''previous'', JStr p)] k) =
     map_option json_norm (dget [(''index'', JInt (int j)), (''node_id'', JStr (nid m)), (''parent_id'', JStr (or_empty (parent m))),
     (''kind'', JStr (kind m)), (''result_digest'', JStr (or_empty (result_digest m))), (''previous'', JStr q)] k)"
    by simp
  show ?thesis
    using l [of "''index''"] l [of "''node_id''"] l [of "''parent_id''"] l [of "''kind''"]
      l [of "''result_digest''"] l [of "''previous''"]
    by (simp add: sealed_fields_def)
qed

lemma sha256_hex_nonempty [simp]: "sha256_hex x \<noteq> []" "[] \<noteq> sha256_hex x"
  using length_sha256_hex [of x] by (metis list.size(3) zero_neq_numeral)+

lemma seal_digest_binding:
  "seal_digest i [] ns = seal_digest i [] ms \<Longrightarrow>
    map sealed_fields ns = map sealed_fields ms \<or>
    (\<exists>x \<in> set (seal_inputs i [] ns). \<exists>y \<in> set (seal_inputs i [] ms). collision x y)"
proof (induction ns arbitrary: ms rule: rev_induct)
  case Nil
  then show ?case by (cases ms rule: rev_cases) (simp_all add: seal_digest_snoc)
next
  case (snoc n ns)
  show ?case
  proof (cases ms rule: rev_cases)
    case Nil
    with snoc.prems show ?thesis by (simp add: seal_digest_snoc)
  next
    case (snoc ms' m)
    let ?x = "seal_bytes (i + length ns) n (seal_digest i [] ns)"
    let ?y = "seal_bytes (i + length ms') m (seal_digest i [] ms')"
    have xy: "sha256_hex ?x = sha256_hex ?y"
      using \<open>seal_digest i [] (ns @ [n]) = seal_digest i [] ms\<close> by (simp add: snoc seal_digest_snoc)
    show ?thesis
    proof (cases "?x = ?y")
      case False
      with xy show ?thesis by (simp add: snoc seal_inputs_snoc collision_def)
    next
      case True
      from seal_bytes_inject [OF this] snoc.IH [of ms'] show ?thesis
        by (auto simp: snoc seal_inputs_snoc)
    qed
  qed
qed

lemma seal_report_digest:
  "seal ops st r = Some (Inr q) \<Longrightarrow> s_walk ops st r = Some (l, None) \<Longrightarrow> sr_digest q = seal_digest 0 [] l"
  using seal_nodes_digest by (auto simp: seal_def bindR_Inr_iff)

text \<open>
  C17. The seal digest binds the subtree: two sealed walks with the same digest list the same
  node ids, parents, kinds and result digests in the same order, node by node (so they also have the
  same length), unless two of the hashed records are a SHA-256 collision.
\<close>

theorem seal_binds_walk:
  assumes "s_walk ops st r = Some (ns, None)" "seal ops st r = Some (Inr rep)"
    "s_walk ops' st' r' = Some (ms, None)" "seal ops' st' r' = Some (Inr rep')"
    "sr_digest rep = sr_digest rep'"
  shows "map sealed_fields ns = map sealed_fields ms \<or>
    (\<exists>x \<in> set (seal_inputs 0 [] ns). \<exists>y \<in> set (seal_inputs 0 [] ms). collision x y)"
proof (rule seal_digest_binding)
  show "seal_digest 0 [] ns = seal_digest 0 [] ms"
    using assms(5) seal_report_digest [OF assms(2,1)] seal_report_digest [OF assms(4,3)] by simp
qed

lemma seal_mem_root:
  "seal mem_ops \<lparr>ms_nodes = [(demo_root_id, demo_root)], ms_children = []\<rparr> demo_root_id =
    Some (Inr \<lparr>sr_root_id = demo_root_id, sr_algorithm = SEAL_ALGORITHM,
      sr_digest = seal_digest 0 [] [demo_root],
      sr_entries = [\<lparr>se_index = 0, se_node_id = demo_root_id, se_parent_id = None, se_kind = ''root'',
        se_result_digest = None, se_previous = None, se_seal = seal_digest 0 [] [demo_root]\<rparr>]\<rparr>)"
  "s_walk mem_ops \<lparr>ms_nodes = [(demo_root_id, demo_root)], ms_children = []\<rparr> demo_root_id = Some ([demo_root], None)"
proof -
  show w: "s_walk mem_ops \<lparr>ms_nodes = [(demo_root_id, demo_root)], ms_children = []\<rparr> demo_root_id = Some ([demo_root], None)"
    by (simp add: mem_ops_def mem_walk_def mem_get_def mem_lookup_def mem_children_def dget_or_def)
  have "validate_node demo_root = Inr ()"
    using demo_nodes_ok(2) by (simp add: validate_node_iff node_sound_def node_valid_def)
  then show "seal mem_ops \<lparr>ms_nodes = [(demo_root_id, demo_root)], ms_children = []\<rparr> demo_root_id =
    Some (Inr \<lparr>sr_root_id = demo_root_id, sr_algorithm = SEAL_ALGORITHM,
      sr_digest = seal_digest 0 [] [demo_root],
      sr_entries = [\<lparr>se_index = 0, se_node_id = demo_root_id, se_parent_id = None, se_kind = ''root'',
        se_result_digest = None, se_previous = None, se_seal = seal_digest 0 [] [demo_root]\<rparr>]\<rparr>)"
    by (simp add: seal_def w seal_record_ok Let_def seal_bytes_def) (simp add: demo_root_def)
qed

lemma seal_binds_walk_witness:
  "map sealed_fields [demo_root] = map sealed_fields [demo_root] \<or>
    (\<exists>x \<in> set (seal_inputs 0 [] [demo_root]). \<exists>y \<in> set (seal_inputs 0 [] [demo_root]). collision x y)"
  by (rule seal_binds_walk [OF seal_mem_root(2,1) seal_mem_root(2,1) refl])

end
