(* ===== verification/Json_Reads.thy ===== *)
theory Json_Reads
  imports Json_Round_Trip
begin

text \<open>What \<open>json.loads\<close> returns has distinct keys in every object and can be serialised again.\<close>

fun json_plain :: "json \<Rightarrow> bool" where
  "json_plain (JList xs) = (\<forall>x \<in> set xs. json_plain x)"
| "json_plain (JDict d) = (distinct_keys d \<and> (\<forall>(k, v) \<in> set d. json_plain v))"
| "json_plain (JBytes s) = False"
| "json_plain (JOther s) = False"
| "json_plain (JFloat q) = (py_float q = q)"
| "json_plain v = True"

lemma json_plain_dict: "json_plain (JDict d) \<longleftrightarrow> distinct_keys d \<and> (\<forall>p \<in> set d. json_plain (snd p))"
  by (simp add: case_prod_unfold)

declare json_plain.simps(2) [simp del] json_plain_dict [simp]

lemma json_plain_wf: "json_plain v \<Longrightarrow> json_wf v \<and> json_serialisable v"
proof (induction v)
  case (JDict d)
  have "json_wf (snd p) \<and> json_serialisable (snd p)" if "p \<in> set d" for p
    using JDict.IH [OF that, of "snd p"] bspec [OF conjunct2 [OF JDict.prems [unfolded json_plain_dict]] that]
    by (cases p) simp
  then show ?case using JDict.prems by (simp add: case_prod_unfold)
qed auto

lemma dict_of_plain:
  "\<forall>p \<in> set kvs. json_plain (snd p) \<Longrightarrow> json_plain (JDict d) \<Longrightarrow>
    json_plain (JDict (fold (\<lambda>(k, v). dset k v) kvs d))"
proof (induction kvs arbitrary: d)
  case (Cons p kvs)
  have "json_plain (JDict (dset (fst p) (snd p) d))"
  proof -
    have "\<forall>q \<in> set (dset (fst p) (snd p) d). json_plain (snd q)"
      using Cons.prems set_dset_subset [of "fst p" "snd p" d] by (auto simp: subset_iff)
    then show ?thesis using Cons.prems(2) by simp
  qed
  then show ?case using Cons.IH [of "dset (fst p) (snd p) d"] Cons.prems by (simp add: case_prod_unfold)
qed simp

lemma apfst_Some: "map_option (apfst f) x = Some (u, q) \<Longrightarrow> \<exists>y. x = Some (y, q) \<and> u = f y"
  by (cases x) auto

lemma number_plain:
  "(if a then None else if b then Some (JInt i, r) else Some (JFloat (py_float f), r')) = Some (w, q) \<Longrightarrow> json_plain w"
  by (auto split: if_splits)

lemma parse_number_plain: "parse_number t = Some (w, q) \<Longrightarrow> json_plain w"
  unfolding parse_number_def Let_def by (rule number_plain)

lemma expect_value: "expect l w t = Some (u, q) \<Longrightarrow> u = w"
  by (auto simp: expect_def split: if_splits)

definition parsed :: "nat \<Rightarrow> json \<Rightarrow> bool" where
  "parsed n v \<longleftrightarrow> json_plain v \<or> (\<exists>xs t r. parse_elems n t = Some (xs, r) \<and> v = JList xs) \<or>
    (\<exists>kvs t r. parse_members n t = Some (kvs, r) \<and> v = JDict (dict_of kvs))"

lemma parse_value_cases:
  assumes "parse_value (Suc n) s = Some (v, r)"
  shows "parsed n v"
proof (cases s)
  case Nil
  with assms show ?thesis by simp
next
  case (Cons c cs)
  consider (str) "c = CHR 34" | (list) "c = CHR ''[''" | (dict) "c = CHR ''{''"
    | (lit) "c \<in> {CHR ''n'', CHR ''t'', CHR ''f''}"
    | (num) "c \<notin> {CHR 34, CHR ''['', CHR ''{'', CHR ''n'', CHR ''t'', CHR ''f''}" by blast
  then show ?thesis
  proof cases
    case str
    then have "map_option (apfst JStr) (parse_str cs) = Some (v, r)" using assms Cons by simp
    then show ?thesis by (auto simp: parsed_def dest: apfst_Some)
  next
    case list
    then consider "v = JList []" | t where "map_option (apfst JList) (parse_elems n t) = Some (v, r)"
      using assms Cons by (auto split: list.splits if_splits)
    then show ?thesis by cases (auto simp: parsed_def dest!: apfst_Some)
  next
    case dict
    then consider "v = JDict []"
      | t where "map_option (apfst (\<lambda>kvs. JDict (dict_of kvs))) (parse_members n t) = Some (v, r)"
      using assms Cons by (auto split: list.splits if_splits)
    then show ?thesis
    proof cases
      case 2
      from apfst_Some [OF this] show ?thesis unfolding parsed_def by blast
    qed (simp add: parsed_def)
  next
    case lit
    then have "v = JNull \<or> v = JBool True \<or> v = JBool False"
      using assms Cons by (auto dest: expect_value)
    then show ?thesis by (auto simp: parsed_def)
  next
    case num
    then have "parse_number s = Some (v, r)" using assms Cons by simp
    then show ?thesis by (simp add: parsed_def parse_number_plain)
  qed
qed

lemma parse_elems_cases:
  assumes "parse_elems (Suc n) s = Some (vs, r)"
  shows "\<exists>v q. parse_value n s = Some (v, q) \<and> (vs = [v] \<or> (\<exists>ws t. parse_elems n t = Some (ws, r) \<and> vs = v # ws))"
  using assms by (auto split: list.splits if_splits option.splits)

lemma parse_members_cases:
  assumes "parse_members (Suc n) s = Some (kvs, r)"
  shows "\<exists>k v t q. parse_value n t = Some (v, q) \<and>
    (kvs = [(k, v)] \<or> (\<exists>ws u. parse_members n u = Some (ws, r) \<and> kvs = (k, v) # ws))"
  using assms by (auto split: list.splits if_splits option.splits) blast+

definition parse_ok :: "nat \<Rightarrow> bool" where
  "parse_ok n \<longleftrightarrow> (\<forall>s v r. parse_value n s = Some (v, r) \<longrightarrow> json_plain v) \<and>
   (\<forall>s vs r. parse_elems n s = Some (vs, r) \<longrightarrow> (\<forall>x \<in> set vs. json_plain x)) \<and>
   (\<forall>s kvs r. parse_members n s = Some (kvs, r) \<longrightarrow> (\<forall>p \<in> set kvs. json_plain (snd p)))"

lemma parse_okD:
  "parse_ok n \<Longrightarrow> parse_value n s = Some (v, r) \<Longrightarrow> json_plain v"
  "parse_ok n \<Longrightarrow> parse_elems n s = Some (vs, r) \<Longrightarrow> x \<in> set vs \<Longrightarrow> json_plain x"
  "parse_ok n \<Longrightarrow> parse_members n s = Some (kvs, r) \<Longrightarrow> p \<in> set kvs \<Longrightarrow> json_plain (snd p)"
  unfolding parse_ok_def by blast+

lemma parsed_plain:
  assumes ok: "parse_ok n" and v: "parsed n v" shows "json_plain v"
proof -
  have "json_plain (JDict (dict_of kvs))" if "parse_members n t = Some (kvs, r)" for kvs t r
    unfolding dict_of_def by (rule dict_of_plain) (use parse_okD(3) [OF ok that] in auto)
  with v parse_okD(2) [OF ok] show ?thesis
    unfolding parsed_def by (elim disjE exE conjE) (auto simp del: json_plain_dict)
qed

lemma parse_ok: "parse_ok n"
proof (induction n)
  case 0
  show ?case by (simp add: parse_ok_def)
next
  case (Suc n)
  have "json_plain v" if "parse_value (Suc n) s = Some (v, r)" for s v r
    using parse_value_cases [OF that] parsed_plain [OF Suc] by blast
  moreover have "json_plain x" if "parse_elems (Suc n) s = Some (vs, r)" "x \<in> set vs" for s vs r x
    using parse_elems_cases [OF that(1)] that(2) parse_okD(1,2) [OF Suc] by auto
  moreover have "json_plain (snd p)" if m: "parse_members (Suc n) s = Some (kvs, r)" "p \<in> set kvs" for s kvs r p
  proof -
    obtain k v t q where kv: "parse_value n t = Some (v, q)"
      "kvs = [(k, v)] \<or> (\<exists>ws u. parse_members n u = Some (ws, r) \<and> kvs = (k, v) # ws)"
      using parse_members_cases [OF m(1)] by blast
    then show ?thesis using m(2) parse_okD(1,3) [OF Suc] by (metis set_ConsD snd_conv empty_iff list.set(1))
  qed
  ultimately show ?case unfolding parse_ok_def by blast
qed

lemma json_loads_plain: "json_loads s = Inr v \<Longrightarrow> json_plain v"
  unfolding json_loads_def
  by (auto simp del: parse_value.simps dest: parse_okD(1) [OF parse_ok] split: option.splits if_splits)

lemma json_loads_wf: "json_loads s = Inr v \<Longrightarrow> json_wf v"
  using json_loads_plain json_plain_wf by blast

lemma json_loads_error: "json_loads s = Inl e \<Longrightarrow> e = ValueError ''JSONDecodeError''"
  by (auto simp: json_loads_def simp del: parse_value.simps split: option.splits if_splits)

end
