(* ===== verification/Governance.thy ===== *)
theory Governance
  imports Seal Json_Reads
begin

text \<open>
  Offline storage governance (\<open>governance.py\<close>): garbage collection of pruned subtrees, sealed
  subtree export and verified import. A manifest is the JSON document the export writes; the read-only
  store an import stages it in is \<open>manifest_store\<close>. An operation that may raise after it
  changed the store returns the exception together with the state it left.
\<close>

section \<open>Garbage collection\<close>

record 'st maintenance_ops =
  mt_drop_nodes :: "string list \<Rightarrow> 'st \<Rightarrow> 'st"
  mt_compact :: "'st \<Rightarrow> int \<times> 'st"

record gc_report =
  gc_mode :: string
  gc_removed_nodes :: "string list"
  gc_removed_blobs :: int
  gc_survivor_seals :: "(string \<times> string) list"

text \<open>\<open>list(store.walk(id))\<close>.\<close>

definition walk_list :: "'st store_ops \<Rightarrow> 'st \<Rightarrow> string \<Rightarrow> node list res option" where
  "walk_list ops st i = map_option (\<lambda>(ns, e). case e of None \<Rightarrow> Inr ns | Some x \<Rightarrow> Inl x) (s_walk ops st i)"

definition seal_roots :: "'st store_ops \<Rightarrow> 'st \<Rightarrow> (string \<times> string) list res option" where
  "seal_roots ops st =
    bindO (Some (s_roots ops st))
      (foldO (\<lambda>acc r. bindO (seal ops st r) (\<lambda>rep. Some (Inr (dset r (sr_digest rep) acc)))) [])"

definition is_pruned :: "node \<Rightarrow> bool" where
  "is_pruned n \<longleftrightarrow> dget (meta n) ''pruned'' = Some (JBool True)"

definition gc_visit :: "'st store_ops \<Rightarrow> 'st \<Rightarrow> string list \<Rightarrow> node \<Rightarrow> string list res option" where
  "gc_visit ops st removed n =
    (if nid n \<notin> set removed \<and> is_pruned n
     then bindO (walk_list ops st (nid n)) (\<lambda>cs. Some (Inr (fold set_add (map nid cs) removed)))
     else Some (Inr removed))"

definition gc_mark :: "'st store_ops \<Rightarrow> 'st \<Rightarrow> string list res option" where
  "gc_mark ops st =
    bindO (Some (s_roots ops st))
      (foldO (\<lambda>removed r. bindO (walk_list ops st r) (foldO (gc_visit ops st) removed)) [])"

definition gc_finish ::
  "'st store_ops \<Rightarrow> string \<Rightarrow> string list \<Rightarrow> int \<Rightarrow> 'st \<Rightarrow> (gc_report res \<times> 'st) option" where
  "gc_finish ops mode removed blobs st = map_option (\<lambda>r.
     (bindR r (\<lambda>survivors. Inr \<lparr>gc_mode = mode, gc_removed_nodes = sort removed,
        gc_removed_blobs = blobs, gc_survivor_seals = survivors\<rparr>), st))
     (seal_roots ops st)"

definition gc ::
  "'st maintenance_ops option \<Rightarrow> 'st store_ops \<Rightarrow> string \<Rightarrow> 'st \<Rightarrow> (gc_report res \<times> 'st) option" where
  "gc maint ops mode st = (case maint of
      None \<Rightarrow> Some (Inl (TypeError ''store backend does not support offline garbage collection''), st)
    | Some mt \<Rightarrow> (case seal_roots ops st of
        None \<Rightarrow> None
      | Some (Inl e) \<Rightarrow> Some (Inl e, st)
      | Some (Inr before) \<Rightarrow>
          if mode = ''drop-pruned'' then
            (case gc_mark ops st of
               None \<Rightarrow> None
             | Some (Inl e) \<Rightarrow> Some (Inl e, st)
             | Some (Inr removed) \<Rightarrow> gc_finish ops mode removed 0 (mt_drop_nodes mt removed st))
          else if mode = ''compact'' then
            (case mt_compact mt st of (blobs, st') \<Rightarrow> gc_finish ops mode [] blobs st')
          else Some (Inl (ValueError (''unsupported gc mode: '' @ mode)), st)))"

definition mem_maintenance :: "mem_store maintenance_ops" where
  "mem_maintenance = \<lparr>mt_drop_nodes = mem_drop_nodes, mt_compact = mem_compact\<rparr>"

section \<open>Export\<close>

definition EXPORT_FORMAT :: string where
  "EXPORT_FORMAT = ''pollard/subtree/v1''"

definition gov_node_record :: "node \<Rightarrow> json res" where
  "gov_node_record n =
    bindR (canonical_bytes (JDict (payload n))) (\<lambda>_.
    bindR (json_dumps (JDict (meta n))) (\<lambda>m.
    Inr (JDict [(''id'', JStr (nid n)), (''parent'', opt_str (parent n)), (''kind'', JStr (kind n)),
      (''attempt'', JInt (attempt n)), (''payload'', JStr (json_text (JDict (payload n)))),
      (''result'', opt_str (result_text n)), (''result_digest'', opt_str (result_digest n)),
      (''meta'', JStr m)])))"

record export_report =
  ex_root_id :: string
  ex_digest :: string
  ex_nodes :: nat

definition export_subtree :: "'st store_ops \<Rightarrow> 'st \<Rightarrow> string \<Rightarrow> (json \<times> export_report) res option" where
  "export_subtree ops st root_id =
    bindO (seal ops st root_id) (\<lambda>report.
    bindO (walk_list ops st root_id) (\<lambda>nodes.
    bindO (Some (mapR gov_node_record nodes)) (\<lambda>records.
    Some (Inr (JDict [(''format'', JStr EXPORT_FORMAT), (''root_id'', JStr root_id),
        (''seal'', seal_report_dict report), (''nodes'', JList records)],
      \<lparr>ex_root_id = root_id, ex_digest = sr_digest report, ex_nodes = length nodes\<rparr>)))))"

section \<open>Reading a manifest\<close>

definition required_str :: "jdict \<Rightarrow> string \<Rightarrow> string res" where
  "required_str d key = (case dget d key of Some (JStr s) \<Rightarrow> Inr s
    | _ \<Rightarrow> Inl (IntegrityError (''subtree node '' @ key @ '' must be a string'')))"

definition optional_str :: "jdict \<Rightarrow> string \<Rightarrow> string option res" where
  "optional_str d key = (case dget_or d key JNull of
      JNull \<Rightarrow> Inr None
    | JStr s \<Rightarrow> Inr (Some s)
    | _ \<Rightarrow> Inl (IntegrityError (''subtree node '' @ key @ '' must be a string or null'')))"

definition required_int :: "jdict \<Rightarrow> string \<Rightarrow> int res" where
  "required_int d key = (case dget d key of Some (JInt i) \<Rightarrow> Inr i
    | _ \<Rightarrow> Inl (IntegrityError (''subtree node '' @ key @ '' must be an integer'')))"

text \<open>\<open>except (TypeError, ValueError)\<close> around the construction of the node.\<close>

definition wrap_invalid :: "string \<Rightarrow> 'a res \<Rightarrow> 'a res" where
  "wrap_invalid msg r = (case r of
      Inl (TypeError m) \<Rightarrow> Inl (IntegrityError (msg @ m))
    | Inl (ValueError m) \<Rightarrow> Inl (IntegrityError (msg @ m))
    | _ \<Rightarrow> r)"

definition gov_node_from_record :: "json \<Rightarrow> node res" where
  "gov_node_from_record v = (case v of
      JDict d \<Rightarrow> wrap_invalid ''invalid subtree node record: ''
        (bindR (required_str d ''id'') (\<lambda>i.
         bindR (optional_str d ''parent'') (\<lambda>p.
         bindR (required_str d ''kind'') (\<lambda>k.
         bindR (required_int d ''attempt'') (\<lambda>a.
         bindR (required_str d ''payload'') (\<lambda>pt.
         bindR (optional_str d ''result'') (\<lambda>rt.
         bindR (optional_str d ''result_digest'') (\<lambda>rd.
         bindR (required_str d ''meta'') (\<lambda>mt.
         from_storage i p k a pt rt rd mt)))))))))
    | _ \<Rightarrow> Inl (IntegrityError ''subtree node record must be an object''))"

definition parse_manifest :: "json \<Rightarrow> (string \<times> node list \<times> json) res" where
  "parse_manifest v = (case v of
      JDict d \<Rightarrow>
        if dget d ''format'' \<noteq> Some (JStr EXPORT_FORMAT)
        then Inl (IntegrityError ''unsupported subtree export format'')
        else (case (dget d ''root_id'', dget d ''nodes'') of
          (Some (JStr root_id), Some (JList records)) \<Rightarrow>
            (case dget d ''seal'' of
               Some (JDict sd) \<Rightarrow>
                 bindR (mapR gov_node_from_record records) (\<lambda>nodes.
                 if nodes = [] \<or> nid (hd nodes) \<noteq> root_id
                 then Inl (IntegrityError ''subtree manifest does not begin with its root'')
                 else Inr (root_id, nodes, JDict sd))
             | _ \<Rightarrow> Inl (IntegrityError ''subtree manifest is missing its seal''))
        | _ \<Rightarrow> Inl (IntegrityError ''subtree manifest is missing its root or nodes''))
    | _ \<Rightarrow> Inl (IntegrityError ''unsupported subtree export format''))"

section \<open>The staged store\<close>

record manifest_store =
  mf_root_id :: string
  mf_nodes :: "(string \<times> node) list"
  mf_children :: "(string \<times> string list) list"

definition manifest_get :: "manifest_store \<Rightarrow> string \<Rightarrow> node res" where
  "manifest_get s i = (case dget (mf_nodes s) i of None \<Rightarrow> Inl (KeyError i) | Some n \<Rightarrow> Inr n)"

definition manifest_children :: "manifest_store \<Rightarrow> string \<Rightarrow> string list res" where
  "manifest_children s i =
    bindR (mapR (\<lambda>c. bindR (manifest_get s c) (\<lambda>n. Inr (kind n, c))) (dget_or (mf_children s) i [])) (\<lambda>keyed.
    Inr (map snd (sort keyed)))"

definition manifest_walk :: "manifest_store \<Rightarrow> string \<Rightarrow> (node list \<times> exc option) option" where
  "manifest_walk s root_id = walk_loop (manifest_get s) (manifest_children s) [root_id] []"

definition manifest_ops :: "manifest_store store_ops" where
  "manifest_ops = \<lparr>s_put = (\<lambda>n s. Inl (TypeError ''manifest store is read-only'')),
     s_get = manifest_get, s_exists = (\<lambda>s i. dget (mf_nodes s) i \<noteq> None), s_children = manifest_children,
     s_update_meta = (\<lambda>i p s. Inl (TypeError ''manifest store is read-only'')),
     s_walk = manifest_walk, s_roots = (\<lambda>s. Inr [mf_root_id s])\<rparr>"

definition manifest_child :: "node \<Rightarrow> (string \<times> string list) list \<Rightarrow> (string \<times> string list) list" where
  "manifest_child n ch = (case parent n of None \<Rightarrow> ch | Some p \<Rightarrow> dset p (dget_or ch p [] @ [nid n]) ch)"

definition manifest_add :: "manifest_store \<Rightarrow> node \<Rightarrow> manifest_store" where
  "manifest_add s n = s\<lparr>mf_nodes := dset (nid n) n (mf_nodes s), mf_children := manifest_child n (mf_children s)\<rparr>"

text \<open>The loop of the constructor after its first node.\<close>

definition manifest_step :: "manifest_store \<Rightarrow> node \<Rightarrow> manifest_store res" where
  "manifest_step s n =
    bindR (ensure (\<exists>p. parent n = Some p \<and> dget (mf_nodes s) p \<noteq> None)
      (IntegrityError (''subtree node parent is outside the manifest: '' @ nid n))) (\<lambda>_.
    Inr (manifest_add s n))"

definition manifest_init :: "string \<Rightarrow> node list \<Rightarrow> manifest_store res option" where
  "manifest_init root_id nodes =
    (let ids = map nid nodes; empty = \<lparr>mf_root_id = root_id, mf_nodes = [], mf_children = []\<rparr> in
     if \<not> distinct ids then Some (Inl (IntegrityError ''subtree manifest contains duplicate node ids''))
     else if (\<exists>p. parent (hd nodes) = Some p \<and> p \<in> set ids)
       then Some (Inl (IntegrityError ''subtree root parent must be outside the manifest''))
     else bindO (Some (foldR manifest_step (manifest_add empty (hd nodes)) (tl nodes))) (\<lambda>s.
       bindO (map_option (\<lambda>(ns, e). case e of None \<Rightarrow> Inr ns | Some x \<Rightarrow> Inl x) (manifest_walk s root_id)) (\<lambda>ns.
       Some (if map nid ns \<noteq> ids
             then Inl (IntegrityError ''subtree nodes are not in deterministic walk order'') else Inr s))))"

section \<open>Import\<close>

record import_report =
  im_root_id :: string
  im_digest :: string
  im_imported :: nat
  im_existing :: nat

text \<open>The read-only pass over the target: how many nodes it already has, or the conflict.\<close>

fun import_check :: "'st store_ops \<Rightarrow> 'st \<Rightarrow> nat \<Rightarrow> node list \<Rightarrow> nat res" where
  "import_check ops st existing [] = Inr existing"
| "import_check ops st existing (n # ns) =
    (if \<not> s_exists ops st (nid n) then import_check ops st existing ns
     else bindR (s_get ops st (nid n)) (\<lambda>stored.
       if \<not> identity_eq stored n
       then Inl (IntegrityError (''target identity conflicts with imported node: '' @ nid n))
       else if result_text stored \<noteq> result_text n \<or> result_digest stored \<noteq> result_digest n
       then Inl (IntegrityError (''target result conflicts with imported node: '' @ nid n))
       else import_check ops st (Suc existing) ns))"

text \<open>The writing pass: the count, or the exception, and the store it left.\<close>

fun import_write :: "'st store_ops \<Rightarrow> 'st \<Rightarrow> nat \<Rightarrow> node list \<Rightarrow> nat res \<times> 'st" where
  "import_write ops st imported [] = (Inr imported, st)"
| "import_write ops st imported (n # ns) =
    (if s_exists ops st (nid n) then import_write ops st imported ns
     else case s_put ops n st of
       Inl e \<Rightarrow> (Inl e, st)
     | Inr st' \<Rightarrow> import_write ops st' (Suc imported) ns)"

text \<open>Everything checked before the first write.\<close>

definition import_prepare ::
  "'st store_ops \<Rightarrow> json \<Rightarrow> 'st \<Rightarrow> (string \<times> node list \<times> string \<times> nat) res option" where
  "import_prepare ops manifest st =
    bindO (Some (parse_manifest manifest)) (\<lambda>(root_id, nodes, expected_seal).
    bindO (manifest_init root_id nodes) (\<lambda>staged.
    bindO (seal manifest_ops staged root_id) (\<lambda>actual.
    Some (bindR (ensure (py_eq (seal_report_dict actual) expected_seal)
             (IntegrityError ''subtree seal does not match the manifest'')) (\<lambda>_.
          bindR (manifest_get staged root_id) (\<lambda>rt.
          bindR (case parent rt of None \<Rightarrow> Inr ()
                 | Some p \<Rightarrow> ensure (s_exists ops st p)
                     (IntegrityError (''subtree parent is missing from target store: '' @ p))) (\<lambda>_.
          bindR (import_check ops st 0 nodes) (\<lambda>existing.
          Inr (root_id, nodes, sr_digest actual, existing)))))))))"

definition import_manifest ::
  "'st store_ops \<Rightarrow> json \<Rightarrow> 'st \<Rightarrow> (import_report res \<times> 'st) option" where
  "import_manifest ops manifest st = (case import_prepare ops manifest st of
      None \<Rightarrow> None
    | Some (Inl e) \<Rightarrow> Some (Inl e, st)
    | Some (Inr (root_id, nodes, digest, existing)) \<Rightarrow>
        (case import_write ops st 0 nodes of
           (Inl e, st') \<Rightarrow> Some (Inl e, st')
         | (Inr imported, st') \<Rightarrow>
             Some (Inr \<lparr>im_root_id = root_id, im_digest = digest, im_imported = imported, im_existing = existing\<rparr>, st')))"

text \<open>\<open>import_subtree\<close>: the manifest is the text of the file.\<close>

definition import_subtree ::
  "'st store_ops \<Rightarrow> string \<Rightarrow> 'st \<Rightarrow> (import_report res \<times> 'st) option" where
  "import_subtree ops file_text st = (case json_loads file_text of
      Inl e \<Rightarrow> Some (Inl e, st)
    | Inr manifest \<Rightarrow> import_manifest ops manifest st)"

end
