(* ===== verification/Governance_Facts.thy ===== *)
theory Governance_Facts
  imports Governance
begin

text \<open>
  Garbage collection removes exactly the pruned subtrees, and an import either changes nothing or
  stores every node of the manifest.
\<close>

section \<open>Walks and seals of a store that keeps its contract\<close>

context store_contract
begin

lemma walk_list_ok:
  "inv st \<Longrightarrow> i \<in> dom (nodes st) \<Longrightarrow> \<exists>L. walk_list ops st i = Some (Inr L) \<and> preorder (nodes st) i L"
  using walk_yields_subtree [of st i] by (auto simp: walk_list_def)

lemma seal_total:
  assumes "inv st" "i \<in> dom (nodes st)" shows "\<exists>rep. seal ops st i = Some (Inr rep)"
proof -
  obtain L where L: "s_walk ops st i = Some (L, None)" "preorder (nodes st) i L"
    using walk_yields_subtree [OF assms] by blast
  have "node_sound n" if "n \<in> set L" for n
    using L(2) that nodes_valid [OF assms(1), of "nid n" n] by (auto simp: preorder_def node_sound_def node_valid_def)
  then obtain es where "seal_nodes 0 [] L = Inr (es, seal_digest 0 [] L)" using seal_nodes_ok by blast
  then show ?thesis by (simp add: seal_def L(1))
qed

end

lemma desc_trans: "a \<in> desc M b \<Longrightarrow> c \<in> desc M a \<Longrightarrow> c \<in> desc M b"
  by (auto simp: desc_def)

lemma under_root:
  assumes f: "forest M" "parents_in M" and i: "i \<in> dom M"
  shows "\<exists>r n. M r = Some n \<and> parent n = None \<and> i \<in> desc M r"
proof -
  have "wf (edges M)" using edges_finite [OF f(1)] f(1) by (intro finite_acyclic_wf) (simp_all add: forest_def)
  then show ?thesis using i
  proof (induction i rule: wf_induct_rule)
    case (less i)
    obtain n where n: "M i = Some n" using less.prems by auto
    show ?case
    proof (cases "parent n")
      case None
      with n show ?thesis by (metis desc_self)
    next
      case (Some p)
      then have e: "(p, i) \<in> edges M" using n by (auto simp: edges_def)
      moreover have "p \<in> dom M" using parents_inD [OF f(2) n Some] by auto
      ultimately obtain r m where "M r = Some m" "parent m = None" "p \<in> desc M r" using less.IH by blast
      moreover have "i \<in> desc M p" using e by (auto simp: desc_def)
      ultimately show ?thesis using desc_trans by metis
    qed
  qed
qed

lemma foldO_invariant:
  assumes "\<And>s x V. x \<in> set xs \<Longrightarrow> I s V \<Longrightarrow> \<exists>s'. f s x = Some (Inr s') \<and> I s' (V \<union> g x)" "I s V"
  shows "\<exists>s'. foldO f s xs = Some (Inr s') \<and> I s' (V \<union> (\<Union>x \<in> set xs. g x))"
  using assms
proof (induction xs arbitrary: s V)
  case (Cons x xs)
  obtain s1 where s1: "f s x = Some (Inr s1)" "I s1 (V \<union> g x)" using Cons.prems by fastforce
  have "\<exists>s'. foldO f s1 xs = Some (Inr s') \<and> I s' ((V \<union> g x) \<union> (\<Union>x \<in> set xs. g x))"
    using Cons.prems(1) s1(2) by (intro Cons.IH) auto
  with s1 show ?case by (simp add: Un_assoc)
qed simp

lemma seal_roots_ok: "mem_inv s \<Longrightarrow> \<exists>sv. seal_roots mem_ops s = Some (Inr sv)"
proof -
  assume inv: "mem_inv s"
  obtain rs where r: "s_roots mem_ops s = Inr rs" "set rs = {i. \<exists>n. mem_nodes s i = Some n \<and> parent n = None}"
    using mem.roots_nodes [OF inv] by (elim exE conjE)
  have rs: "s_roots mem_ops s = Inr rs" "set rs \<subseteq> dom (mem_nodes s)" using r by auto
  have "\<exists>s'. foldO (\<lambda>acc r. bindO (seal mem_ops s r) (\<lambda>rep. Some (Inr (dset r (sr_digest rep) acc)))) [] rs = Some (Inr s') \<and> True"
    using foldO_invariant [of rs "\<lambda>_ _. True" _ "\<lambda>_. {}" "[]" "{}"] mem.seal_total [OF inv] rs(2)
    by (metis (no_types, lifting) bindO_simps(3) subsetD)
  then show ?thesis by (simp add: seal_roots_def rs(1))
qed

section \<open>Garbage collection\<close>

definition pruned_ids :: "node_map \<Rightarrow> string set \<Rightarrow> string set" where
  "pruned_ids M V = \<Union> {desc M a | a. a \<in> V \<and> (\<exists>n. M a = Some n \<and> is_pruned n)}"

lemma set_fold_set_add: "set (fold set_add xs ys) = set xs \<union> set ys"
  by (induction xs arbitrary: ys) auto

lemma gc_visit_ok:
  assumes inv: "mem_inv s" and n: "mem_nodes s (nid n) = Some n" and R: "set R = pruned_ids (mem_nodes s) V"
  shows "\<exists>R'. gc_visit mem_ops s R n = Some (Inr R') \<and> set R' = pruned_ids (mem_nodes s) (V \<union> {nid n})"
proof -
  let ?M = "mem_nodes s"
  obtain L where L: "walk_list mem_ops s (nid n) = Some (Inr L)" "preorder ?M (nid n) L"
    using mem.walk_list_ok [OF inv, of "nid n"] n by auto
  have add: "pruned_ids ?M (V \<union> {nid n}) = pruned_ids ?M V \<union> (if is_pruned n then desc ?M (nid n) else {})"
    using n by (auto simp: pruned_ids_def)
  have inside: "desc ?M (nid n) \<subseteq> pruned_ids ?M V" if "nid n \<in> set R"
    using that desc_trans unfolding R pruned_ids_def by blast
  show ?thesis
  proof (cases "nid n \<notin> set R \<and> is_pruned n")
    case True
    then show ?thesis using L preorder_ids [OF L(2)] R add by (auto simp: gc_visit_def set_fold_set_add)
  next
    case False
    then show ?thesis using R add inside by (auto simp: gc_visit_def)
  qed
qed

lemma gc_mark_ok:
  assumes inv: "mem_inv s"
  shows "\<exists>R. gc_mark mem_ops s = Some (Inr R) \<and> set R = pruned_ids (mem_nodes s) (dom (mem_nodes s))"
proof -
  let ?M = "mem_nodes s" and ?I = "\<lambda>R V. set R = pruned_ids (mem_nodes s) V"
  obtain rs where rs: "s_roots mem_ops s = Inr rs" "set rs = {i. \<exists>n. ?M i = Some n \<and> parent n = None}"
    using mem.roots_nodes [OF inv] by blast
  have walk: "\<exists>R'. bindO (walk_list mem_ops s r) (foldO (gc_visit mem_ops s) R) = Some (Inr R') \<and> ?I R' (V \<union> desc ?M r)"
    if r: "r \<in> set rs" and R: "?I R V" for R r V
  proof -
    have "r \<in> dom ?M" using r rs(2) by auto
    then obtain L where L: "walk_list mem_ops s r = Some (Inr L)" "preorder ?M r L"
      using mem.walk_list_ok [OF inv] by blast
    have "\<exists>R'. foldO (gc_visit mem_ops s) R L = Some (Inr R') \<and> ?I R' (V \<union> (\<Union>n \<in> set L. {nid n}))"
    proof (rule foldO_invariant)
      fix Q n V assume "n \<in> set L" "?I Q V"
      then show "\<exists>R'. gc_visit mem_ops s Q n = Some (Inr R') \<and> ?I R' (V \<union> {nid n})"
        using gc_visit_ok [OF inv] L(2) by (simp add: preorder_def)
    qed (rule R)
    moreover have "(\<Union>n \<in> set L. {nid n}) = desc ?M r" using preorder_ids [OF L(2)] by auto
    ultimately show ?thesis using L(1) by simp
  qed
  have "\<exists>R. foldO (\<lambda>removed r. bindO (walk_list mem_ops s r) (foldO (gc_visit mem_ops s) removed)) [] rs = Some (Inr R) \<and>
      ?I R ({} \<union> (\<Union>r \<in> set rs. desc ?M r))"
    by (rule foldO_invariant [where g = "desc ?M"]) (use walk in \<open>auto simp: pruned_ids_def\<close>)
  moreover have "(\<Union>r \<in> set rs. desc ?M r) = dom ?M"
  proof
    show "(\<Union>r \<in> set rs. desc ?M r) \<subseteq> dom ?M" using desc_dom rs(2) by blast
    show "dom ?M \<subseteq> (\<Union>r \<in> set rs. desc ?M r)"
      using under_root [OF mem_forest [OF inv] mem_closed [OF inv]] rs(2) by fast
  qed
  ultimately show ?thesis by (simp add: gc_mark_def rs(1))
qed

text \<open>
  C22. Collecting pruned nodes on a \<open>MemoryStore\<close> always succeeds, keeps the store's invariant,
  and leaves exactly the nodes that have no pruned ancestor and are not pruned themselves, unchanged;
  the report lists the ids removed.
\<close>

theorem gc_drop_pruned_exact:
  assumes inv: "mem_inv s"
  shows "\<exists>rep s'. gc (Some mem_maintenance) mem_ops ''drop-pruned'' s = Some (Inr rep, s') \<and> mem_inv s' \<and>
    mem_nodes s' = mem_nodes s |` {i. \<forall>a n. mem_nodes s a = Some n \<and> is_pruned n \<longrightarrow> i \<notin> desc (mem_nodes s) a} \<and>
    set (gc_removed_nodes rep) = dom (mem_nodes s) - dom (mem_nodes s')"
proof -
  let ?M = "mem_nodes s"
  obtain R where R: "gc_mark mem_ops s = Some (Inr R)" "set R = pruned_ids ?M (dom ?M)"
    using gc_mark_ok [OF inv] by blast
  have mem: "i \<in> set R \<longleftrightarrow> (\<exists>a n. ?M a = Some n \<and> is_pruned n \<and> i \<in> desc ?M a)" for i
    unfolding R(2) pruned_ids_def by blast
  have closed: "child_closed ?M (set R)" unfolding child_closed_def
  proof (intro allI impI)
    fix i n p assume n: "?M i = Some n" "parent n = Some p" "p \<in> set R"
    have "i \<in> desc ?M p" using n(1,2) by (auto simp: desc_def edges_def)
    then show "i \<in> set R" using n(3) desc_trans unfolding mem by blast
  qed
  let ?s' = "mem_drop_nodes R s"
  have s': "mem_inv ?s'" "mem_nodes ?s' = ?M |` (- set R)" using mem_drop_inv [OF inv closed] by blast+
  obtain sv0 where sv0: "seal_roots mem_ops s = Some (Inr sv0)" using seal_roots_ok [OF inv] by blast
  obtain sv where sv: "seal_roots mem_ops ?s' = Some (Inr sv)" using seal_roots_ok [OF s'(1)] by blast
  have keep: "- set R = {i. \<forall>a n. ?M a = Some n \<and> is_pruned n \<longrightarrow> i \<notin> desc ?M a}" using mem by blast
  have sub: "set R \<subseteq> dom ?M" using mem desc_dom by blast
  let ?rep = "\<lparr>gc_mode = ''drop-pruned'', gc_removed_nodes = sort R, gc_removed_blobs = 0, gc_survivor_seals = sv\<rparr>"
  have "gc (Some mem_maintenance) mem_ops ''drop-pruned'' s = Some (Inr ?rep, ?s')"
    by (simp add: gc_def sv0 R(1) gc_finish_def sv mem_maintenance_def)
  moreover have "set (gc_removed_nodes ?rep) = dom ?M - dom (mem_nodes ?s')" using sub s'(2) by auto
  ultimately show ?thesis using s' unfolding keep by (intro exI [of _ ?rep] exI [of _ ?s'] conjI)
qed

lemma gc_drop_pruned_exact_witness:
  "\<exists>rep s'. gc (Some mem_maintenance) mem_ops ''drop-pruned'' demo_store = Some (Inr rep, s') \<and> mem_inv s'"
  using gc_drop_pruned_exact [OF demo_inv] by blast

section \<open>Import\<close>

lemma from_storage_ok: "from_storage i p k a pt rt rd mt = Inr n \<Longrightarrow> node_ok n"
proof -
  assume r: "from_storage i p k a pt rt rd mt = Inr n"
  then obtain pl rs ml where l: "json_loads pt = Inr pl"
    "(case rt of None \<Rightarrow> Inr JNull | Some t \<Rightarrow> json_loads t) = Inr rs" "json_loads mt = Inr ml"
    and c: "(case pl of JDict pd \<Rightarrow> (case ml of
          JDict md \<Rightarrow> post_init \<lparr>nid = i, parent = p, kind = k, attempt = a, payload = pd, result = rs,
              result_digest = rd, meta = md, result_text = rt\<rparr>
        | _ \<Rightarrow> Inl (TypeError ''stored meta must be a JSON object''))
      | _ \<Rightarrow> Inl (TypeError ''stored payload must be a JSON object'')) = Inr n"
    unfolding from_storage_def bindR_Inr_iff by blast
  obtain pd md where d: "pl = JDict pd" "ml = JDict md"
    using c by (cases pl; cases ml) auto
  then have n: "post_init \<lparr>nid = i, parent = p, kind = k, attempt = a, payload = pd, result = rs,
      result_digest = rd, meta = md, result_text = rt\<rparr> = Inr n" using c by simp
  have "json_wf rs" using l(2) json_loads_wf by (cases rt) auto
  with d json_loads_wf [OF l(1)] json_loads_wf [OF l(3)] post_init_wf [OF n] post_init_core [OF n]
  show ?thesis by (simp add: node_ok_def node_core_def)
qed

lemma gov_node_from_record_ok: "gov_node_from_record v = Inr n \<Longrightarrow> node_ok n"
  by (auto simp: gov_node_from_record_def wrap_invalid_def bindR_Inr_iff dest: from_storage_ok
      split: json.splits sum.splits exc.splits)

lemma parse_manifest_ok:
  "parse_manifest v = Inr (root_id, nodes, sd) \<Longrightarrow> nodes \<noteq> [] \<and> nid (hd nodes) = root_id \<and> (\<forall>n \<in> set nodes. node_ok n)"
proof -
  assume "parse_manifest v = Inr (root_id, nodes, sd)"
  then obtain records where r: "mapR gov_node_from_record records = Inr nodes" "nodes \<noteq> []" "nid (hd nodes) = root_id"
    by (auto simp: parse_manifest_def bindR_Inr_iff split: json.splits if_splits option.splits)
  have "node_ok n" if "n \<in> set nodes" for n
    using that mapR_Inr_nth [OF r(1)] mapR_Inr_length [OF r(1)] gov_node_from_record_ok
    by (metis in_set_conv_nth)
  with r show ?thesis by blast
qed

text \<open>The nodes a manifest stages: each after its parent, the first one's parent outside.\<close>

definition staged_order :: "node list \<Rightarrow> bool" where
  "staged_order ns \<longleftrightarrow> (\<forall>k. 0 < k \<and> k < length ns \<longrightarrow>
    (\<exists>p. parent (ns ! k) = Some p \<and> p \<in> nid ` set (take k ns)))"

definition staged :: "string \<Rightarrow> node list \<Rightarrow> manifest_store" where
  "staged root_id ns = fold (\<lambda>n s. manifest_add s n) ns \<lparr>mf_root_id = root_id, mf_nodes = [], mf_children = []\<rparr>"

lemma staged_snoc: "staged r (ns @ [n]) = manifest_add (staged r ns) n"
  by (simp add: staged_def)

lemma staged_nodes: "distinct (map nid ns) \<Longrightarrow> mf_nodes (staged r ns) = map (\<lambda>n. (nid n, n)) ns"
proof (induction ns rule: rev_induct)
  case (snoc n ns)
  then have "nid n \<notin> fst ` set (map (\<lambda>n. (nid n, n)) ns)" by force
  with snoc show ?case by (simp add: staged_snoc manifest_add_def dset_new)
qed (simp add: staged_def)

lemma staged_children:
  "dget_or (mf_children (staged r ns)) i [] = map nid (filter (\<lambda>n. parent n = Some i) ns)"
proof (induction ns rule: rev_induct)
  case (snoc n ns)
  then show ?case by (auto simp: staged_snoc manifest_add_def manifest_child_def dget_or_dset split: option.splits)
qed (simp add: staged_def dget_or_def)

lemma staged_order_snoc:
  "ns \<noteq> [] \<Longrightarrow> staged_order (ns @ [n]) \<longleftrightarrow> staged_order ns \<and> (\<exists>p. parent n = Some p \<and> p \<in> nid ` set ns)"
proof -
  assume ne: "ns \<noteq> []"
  have "(\<forall>k. 0 < k \<and> k < Suc (length ns) \<longrightarrow> P k) \<longleftrightarrow> (\<forall>k. 0 < k \<and> k < length ns \<longrightarrow> P k) \<and> P (length ns)" for P
    using ne by (auto simp: less_Suc_eq)
  then show ?thesis by (auto simp: staged_order_def nth_append)
qed

lemma dget_ids: "dget (map (\<lambda>n. (nid n, n)) ns) p \<noteq> None \<longleftrightarrow> p \<in> nid ` set ns"
  by (induction ns) auto

lemma manifest_steps:
  "foldR manifest_step (staged r [n0]) ns = Inr s \<Longrightarrow> distinct (map nid (n0 # ns)) \<Longrightarrow>
    s = staged r (n0 # ns) \<and> staged_order (n0 # ns)"
proof (induction ns arbitrary: s rule: rev_induct)
  case Nil
  then show ?case by (auto simp: staged_order_def)
next
  case (snoc n ns)
  then obtain s1 where s1: "foldR manifest_step (staged r [n0]) ns = Inr s1" "manifest_step s1 n = Inr s"
    by (auto simp: foldR_append bindR_Inr_iff)
  with snoc have IH: "s1 = staged r (n0 # ns)" "staged_order (n0 # ns)" by auto
  have nodes: "mf_nodes s1 = map (\<lambda>n. (nid n, n)) (n0 # ns)"
    using snoc.prems(2) IH(1) staged_nodes [of "n0 # ns" r] by simp
  obtain p where p: "parent n = Some p" "dget (mf_nodes s1) p \<noteq> None" and s: "s = manifest_add s1 n"
    using s1(2) by (auto simp: manifest_step_def bindR_Inr_iff)
  have "p \<in> nid ` set (n0 # ns)"
    using p(2) unfolding nodes dget_ids .
  then show ?case
    using IH s p(1) staged_order_snoc [of "n0 # ns" n] staged_snoc [of r "n0 # ns" n] by auto
qed

lemma staged_forest:
  assumes d: "distinct (map nid ns)" and ord: "staged_order ns"
    and out: "\<And>p. ns \<noteq> [] \<Longrightarrow> parent (hd ns) = Some p \<Longrightarrow> p \<notin> nid ` set ns"
  shows "forest (map_of (map (\<lambda>n. (nid n, n)) ns))"
proof -
  let ?M = "map_of (map (\<lambda>n. (nid n, n)) ns)"
  define rank where "rank i = (if i \<in> nid ` set ns then Suc (length (takeWhile (\<lambda>n. nid n \<noteq> i) ns)) else 0)" for i
  have rank: "rank (nid (ns ! k)) = Suc k" if "k < length ns" for k
  proof -
    have "\<forall>j < k. nid (ns ! j) \<noteq> nid (ns ! k)"
      using d that by (metis (no_types, lifting) length_map less_trans nat_less_le nth_eq_iff_index_eq nth_map)
    then have "length (takeWhile (\<lambda>n. nid n \<noteq> nid (ns ! k)) ns) = k"
      using that by (intro takeWhile_eq_take_P_nth [THEN arg_cong [where f = length], THEN trans]) auto
    then show ?thesis using that by (simp add: rank_def)
  qed
  have M: "\<exists>k < length ns. n = ns ! k \<and> nid n = i" if "?M i = Some n" for i n
    using map_of_SomeD [OF that] by (auto simp: in_set_conv_nth)
  show ?thesis
  proof (rule forest_rank [where rank = rank])
    show "finite (dom ?M)" by (rule finite_dom_map_of)
    show "nid n = i" if "?M i = Some n" for i n using M [OF that] by auto
    show "rank p < rank i" if m: "?M i = Some n" "parent n = Some p" for i n p
    proof -
      obtain k where k: "k < length ns" "n = ns ! k" "nid n = i" using M [OF m(1)] by auto
      show ?thesis
      proof (cases "k = 0")
        case True
        then have "p \<notin> nid ` set ns" using out [of p] k m(2) by (cases ns) auto
        then show ?thesis using rank [OF k(1)] k(2,3) by (simp add: rank_def [of p])
      next
        case False
        then have "p \<in> nid ` set (take k ns)" using ord k m(2) unfolding staged_order_def by (metis gr0I option.inject)
        then obtain j where "j < k" "nid (ns ! j) = p" using k(1) by (auto simp: in_set_conv_nth)
        then show ?thesis using rank [of j] rank [OF k(1)] k by auto
      qed
    qed
  qed
qed

lemma manifest_walk_total:
  assumes d: "distinct (map nid ns)" and ord: "staged_order ns" and ne: "ns \<noteq> []" "r = nid (hd ns)"
    and out: "\<And>p. parent (hd ns) = Some p \<Longrightarrow> p \<notin> nid ` set ns"
  shows "\<exists>L. manifest_walk (staged r ns) r = Some (L, None) \<and>
    (map nid L = map nid ns \<longrightarrow> L = ns)"
proof -
  let ?M = "map_of (map (\<lambda>n. (nid n, n)) ns)"
  have nodes: "mf_nodes (staged r ns) = map (\<lambda>n. (nid n, n)) ns" using d by (rule staged_nodes)
  have dk: "distinct (map fst (map (\<lambda>n. (nid n, n)) ns))" using d by (simp add: comp_def)
  have M: "?M i = Some n \<longleftrightarrow> n \<in> set ns \<and> nid n = i" for i n
    unfolding map_of_eq_Some_iff [OF dk] by auto
  have f: "forest ?M" by (rule staged_forest [OF d ord]) (rule out)
  have get: "manifest_get (staged r ns) i = Inr n" if "?M i = Some n" for i n
    using that by (simp add: manifest_get_def nodes)
  have ch: "\<exists>cs. manifest_children (staged r ns) i = Inr cs \<and> distinct cs \<and> set cs = kids ?M i" for i
  proof -
    let ?cs = "map nid (filter (\<lambda>n. parent n = Some i) ns)"
    let ?f = "\<lambda>c. (kind (the (?M c)), c)"
    have "mapR (\<lambda>c. bindR (manifest_get (staged r ns) c) (\<lambda>n. Inr (kind n, c))) ?cs = Inr (map ?f ?cs)"
    proof (rule mapR_Inr)
      fix c assume "c \<in> set ?cs"
      then obtain n where "?M c = Some n" using M by auto
      then show "bindR (manifest_get (staged r ns) c) (\<lambda>n. Inr (kind n, c)) = Inr (?f c)" by (simp add: get)
    qed
    then have r: "manifest_children (staged r ns) i = Inr (map snd (sort (map ?f ?cs)))"
      by (simp add: manifest_children_def staged_children)
    have perm: "mset (map snd (sort (map ?f ?cs))) = mset ?cs"
      by (simp only: mset_map mset_sort multiset.map_comp comp_def snd_conv multiset.map_ident)
    have "distinct ?cs" using d by (rule distinct_map_filter)
    then have "distinct (map snd (sort (map ?f ?cs)))" using mset_eq_imp_distinct_iff [OF perm] by blast
    moreover have "set ?cs = kids ?M i" using M by (auto simp: kids_def edges_def)
    then have "set (map snd (sort (map ?f ?cs))) = kids ?M i" using mset_eq_setD [OF perm] by blast
    ultimately show ?thesis using r by blast
  qed
  have "?M r = Some (hd ns)" using M ne by simp
  then have "r \<in> dom ?M" by blast
  then have "\<exists>L. manifest_walk (staged r ns) r = Some (L, None) \<and> preorder ?M r L"
    unfolding manifest_walk_def by (intro walk_preorder [OF f] get ch)
  then obtain L where L: "manifest_walk (staged r ns) r = Some (L, None)" "preorder ?M r L" by blast
  have "L = ns" if "map nid L = map nid ns"
  proof (rule nth_equalityI)
    show "length L = length ns" using that by (metis length_map)
    fix k assume k: "k < length L"
    then have "?M (nid (L ! k)) = Some (L ! k)" using L(2) by (auto simp: preorder_def)
    moreover have "nid (L ! k) = nid (ns ! k)" using that k by (metis length_map nth_map)
    moreover have "ns ! k \<in> set ns" using that k by (metis length_map nth_mem)
    ultimately show "L ! k = ns ! k" using M by (metis option.inject)
  qed
  with L(1) show ?thesis by blast
qed

lemma manifest_init_total:
  assumes "nodes \<noteq> []" "nid (hd nodes) = r"
  shows "(\<exists>e. manifest_init r nodes = Some (Inl e)) \<or>
    (manifest_init r nodes = Some (Inr (staged r nodes)) \<and> distinct (map nid nodes) \<and> staged_order nodes \<and>
     (\<forall>p. parent (hd nodes) = Some p \<longrightarrow> p \<notin> nid ` set nodes) \<and>
     manifest_walk (staged r nodes) r = Some (nodes, None))"
proof (cases "distinct (map nid nodes) \<and> (\<forall>p. parent (hd nodes) = Some p \<longrightarrow> p \<notin> nid ` set nodes)")
  case False
  then show ?thesis by (auto simp: manifest_init_def Let_def)
next
  case True
  obtain n0 ns where ns: "nodes = n0 # ns" using assms(1) by (cases nodes) auto
  have s0: "manifest_add \<lparr>mf_root_id = r, mf_nodes = [], mf_children = []\<rparr> n0 = staged r [n0]"
    by (simp add: staged_def)
  show ?thesis
  proof (cases "foldR manifest_step (staged r [n0]) ns")
    case (Inl e)
    then show ?thesis using True by (auto simp: manifest_init_def Let_def ns s0)
  next
    case (Inr s)
    have s: "s = staged r nodes" "staged_order nodes" using manifest_steps [OF Inr] True ns by auto
    obtain L where L: "manifest_walk (staged r nodes) r = Some (L, None)" "map nid L = map nid nodes \<longrightarrow> L = nodes"
      using manifest_walk_total [of nodes r] True s(2) assms by auto
    then show ?thesis using True Inr s by (auto simp: manifest_init_def Let_def ns s0)
  qed
qed

text \<open>A stored node with the id, identity fields and result of \<open>n\<close>.\<close>

definition holds_node :: "node_map \<Rightarrow> node \<Rightarrow> bool" where
  "holds_node M n \<longleftrightarrow> (\<exists>m. M (nid n) = Some m \<and> parent m = parent n \<and> kind m = kind n \<and>
    attempt m = attempt n \<and> result_text m = result_text n \<and> result_digest m = result_digest n)"

lemma holds_node_grows: "grows M M' \<Longrightarrow> holds_node M n \<Longrightarrow> holds_node M' n"
  by (fastforce simp: grows_def holds_node_def same_record_def)

fun parents_known :: "string set \<Rightarrow> node list \<Rightarrow> bool" where
  "parents_known K [] = True"
| "parents_known K (n # ns) \<longleftrightarrow> (\<forall>p. parent n = Some p \<longrightarrow> p \<in> K) \<and> parents_known (insert (nid n) K) ns"

lemma parents_known_nth:
  "(\<And>k p. k < length ns \<Longrightarrow> parent (ns ! k) = Some p \<Longrightarrow> p \<in> K \<union> nid ` set (take k ns)) \<Longrightarrow> parents_known K ns"
proof (induction ns arbitrary: K)
  case (Cons n ns)
  have "parents_known (insert (nid n) K) ns"
    using Cons.prems [of "Suc _"] by (intro Cons.IH) fastforce
  with Cons.prems [of 0] show ?case by auto
qed simp

lemma staged_parents_known:
  assumes "staged_order ns" "\<And>p. ns \<noteq> [] \<Longrightarrow> parent (hd ns) = Some p \<Longrightarrow> p \<in> K"
  shows "parents_known K ns"
proof (rule parents_known_nth)
  fix k p assume k: "k < length ns" "parent (ns ! k) = Some p"
  show "p \<in> K \<union> nid ` set (take k ns)"
  proof (cases k)
    case 0
    then show ?thesis using k assms(2) [of p] by (cases ns) auto
  next
    case (Suc j)
    then show ?thesis using k assms(1) unfolding staged_order_def by fastforce
  qed
qed

lemma sound_valid: "node_ok n \<Longrightarrow> node_sound n \<Longrightarrow> node_valid n"
  by (auto simp: node_ok_def node_sound_def node_valid_def dest!: node_wf_core_ok simp: core_ok_def split: if_splits)

lemma import_write_skip:
  "s_exists ops st (nid n) \<Longrightarrow> import_write ops st c (n # ns) = import_write ops st c ns"
  "\<not> s_exists ops st (nid n) \<Longrightarrow> s_put ops n st = Inr st' \<Longrightarrow>
    import_write ops st c (n # ns) = import_write ops st' (Suc c) ns"
  by simp_all

context store_contract
begin

lemma import_check_held:
  "inv st \<Longrightarrow> import_check ops st c ns = Inr c' \<Longrightarrow>
    (\<forall>n \<in> set ns. nid n \<in> dom (nodes st) \<longrightarrow> holds_node (nodes st) n) \<and>
    c' = c + length (filter (\<lambda>n. nid n \<in> dom (nodes st)) ns)"
proof (induction ns arbitrary: c)
  case (Cons n ns)
  show ?case
  proof (cases "nodes st (nid n)")
    case None
    then show ?thesis using Cons by (auto simp: exists_nodes)
  next
    case (Some m)
    then have "s_get ops st (nid n) = Inr m" using Cons.prems(1) by (simp add: get_Inr_iff)
    with Some Cons.prems have n: "identity_eq m n" "result_text m = result_text n" "result_digest m = result_digest n"
      "import_check ops st (Suc c) ns = Inr c'"
      by (auto simp: exists_nodes split: if_splits)
    have "holds_node (nodes st) n" using n Some unfolding holds_node_def identity_eq_def by blast
    with Cons.IH [OF Cons.prems(1) n(4)] domI [of "nodes st" "nid n" m] Some show ?thesis by simp
  qed
qed simp

lemma import_write_ok:
  assumes "inv st" "\<forall>n \<in> set ns. node_ok n \<and> node_valid n" "parents_known (dom (nodes st)) ns" "distinct (map nid ns)"
  shows "\<exists>st'. import_write ops st c ns =
      (Inr (c + length (filter (\<lambda>n. nid n \<notin> dom (nodes st)) ns)), st') \<and> inv st' \<and>
    grows (nodes st) (nodes st') \<and> dom (nodes st') = dom (nodes st) \<union> nid ` set ns \<and>
    (\<forall>n \<in> set ns. nid n \<notin> dom (nodes st) \<longrightarrow> holds_node (nodes st') n)"
  using assms
proof (induction ns arbitrary: st c)
  case (Cons n ns)
  show ?case
  proof (cases "nid n \<in> dom (nodes st)")
    case True
    then have "parents_known (dom (nodes st)) ns" using Cons.prems(3) by (simp add: insert_absorb)
    then obtain st' where "import_write ops st c ns =
        (Inr (c + length (filter (\<lambda>n. nid n \<notin> dom (nodes st)) ns)), st') \<and> inv st' \<and>
      grows (nodes st) (nodes st') \<and> dom (nodes st') = dom (nodes st) \<union> nid ` set ns \<and>
      (\<forall>n \<in> set ns. nid n \<notin> dom (nodes st) \<longrightarrow> holds_node (nodes st') n)"
      using Cons by force
    moreover have "s_exists ops st (nid n)" using True Cons.prems(1) by (auto simp: exists_nodes)
    ultimately show ?thesis using True by (intro exI [of _ st']) (simp add: insert_absorb)
  next
    case False
    have n: "node_ok n" "node_valid n" "\<forall>p. parent n = Some p \<longrightarrow> p \<in> dom (nodes st)" using Cons.prems by auto
    obtain st1 where st1: "s_put ops n st = Inr st1"
      using put_fresh [OF Cons.prems(1) n(1,2)] False n(3) by blast
    have g: "inv st1" "grows (nodes st) (nodes st1)" "dom (nodes st1) = insert (nid n) (dom (nodes st))"
      "holds_node (nodes st1) n"
      using put_nodes [OF Cons.prems(1) n(1) st1] False by (auto simp: holds_node_def same_record_def)
    have "\<forall>n \<in> set ns. node_ok n \<and> node_valid n" "parents_known (dom (nodes st1)) ns" "distinct (map nid ns)"
      using Cons.prems(2-4) g(3) by simp_all
    from Cons.IH [OF g(1) this, of "Suc c"]
    obtain st' where st': "import_write ops st1 (Suc c) ns =
        (Inr (Suc c + length (filter (\<lambda>n. nid n \<notin> dom (nodes st1)) ns)), st') \<and> inv st' \<and>
      grows (nodes st1) (nodes st') \<and> dom (nodes st') = dom (nodes st1) \<union> nid ` set ns \<and>
      (\<forall>n \<in> set ns. nid n \<notin> dom (nodes st1) \<longrightarrow> holds_node (nodes st') n)"
      by blast
    have new: "nid m \<notin> dom (nodes st1) \<longleftrightarrow> nid m \<notin> dom (nodes st)" if "m \<in> set ns" for m
    proof -
      have "nid m \<noteq> nid n" using that Cons.prems(4) by (metis distinct.simps(2) image_eqI list.set_map list.simps(9))
      then show ?thesis using g(3) by blast
    qed
    then have len: "filter (\<lambda>n. nid n \<notin> dom (nodes st1)) ns = filter (\<lambda>n. nid n \<notin> dom (nodes st)) ns"
      by (intro filter_cong) simp_all
    have "import_write ops st c (n # ns) = import_write ops st1 (Suc c) ns"
      using False st1 Cons.prems(1) by (intro import_write_skip) (simp_all add: exists_nodes domIff)
    moreover have "holds_node (nodes st') n" using holds_node_grows g(4) st' by blast
    moreover have "grows (nodes st) (nodes st')" using g(2) st' grows_trans by blast
    moreover have "\<forall>x \<in> set ns. nid x \<notin> dom (nodes st) \<longrightarrow> holds_node (nodes st') x" using st' new by blast
    moreover have "dom (nodes st') = dom (nodes st) \<union> nid ` set (n # ns)"
    proof -
      have "dom (nodes st') = insert (nid n) (dom (nodes st)) \<union> nid ` set ns" using st' g(3) by argo
      then show ?thesis by simp
    qed
    ultimately show ?thesis using st' False by (intro exI [of _ st']) (simp add: len)
  qed
qed simp

lemma seal_staged_total:
  "manifest_walk (staged r ns) r = Some (ns, None) \<Longrightarrow>
    (\<exists>e. seal manifest_ops (staged r ns) r = Some (Inl e)) \<or>
    (\<exists>rep. seal manifest_ops (staged r ns) r = Some (Inr rep) \<and> (\<forall>n \<in> set ns. node_sound n))"
  using seal_nodes_sound [of 0 "[]" ns]
  by (cases "seal_nodes 0 [] ns") (auto simp: seal_def manifest_ops_def)

lemma import_prepare_total:
  assumes inv: "inv st"
  shows "(\<exists>e. import_prepare ops m st = Some (Inl e)) \<or>
    (\<exists>r ns sl d. import_prepare ops m st = Some (Inr (r, ns, d, length (filter (\<lambda>n. nid n \<in> dom (nodes st)) ns))) \<and>
      parse_manifest m = Inr (r, ns, sl) \<and> distinct (map nid ns) \<and> (\<forall>n \<in> set ns. node_ok n \<and> node_valid n) \<and>
      parents_known (dom (nodes st)) ns \<and> (\<forall>n \<in> set ns. nid n \<in> dom (nodes st) \<longrightarrow> holds_node (nodes st) n))"
proof (cases "parse_manifest m")
  case (Inl e)
  then show ?thesis by (simp add: import_prepare_def)
next
  case (Inr q)
  obtain r ns sl where q: "q = (r, ns, sl)" by (cases q)
  have p: "ns \<noteq> []" "nid (hd ns) = r" "\<forall>n \<in> set ns. node_ok n" using parse_manifest_ok Inr q by blast+
  consider (fail) e where "manifest_init r ns = Some (Inl e)"
    | (ok) "manifest_init r ns = Some (Inr (staged r ns))" "distinct (map nid ns)" "staged_order ns"
        "manifest_walk (staged r ns) r = Some (ns, None)"
    using manifest_init_total [OF p(1,2)] by blast
  then show ?thesis
  proof cases
    case fail
    then show ?thesis by (simp add: import_prepare_def Inr q)
  next
    case ok
    consider (fail) e where "seal manifest_ops (staged r ns) r = Some (Inl e)"
      | (rep) rep where "seal manifest_ops (staged r ns) r = Some (Inr rep)" "\<forall>n \<in> set ns. node_sound n"
      using seal_staged_total [OF ok(4)] by blast
    then show ?thesis
    proof cases
      case fail
      then show ?thesis by (simp add: import_prepare_def Inr q ok(1))
    next
      case rep
      have "manifest_get (staged r ns) r = Inr (hd ns)"
        using ok(2) p(1,2) staged_nodes [OF ok(2), of r] by (cases ns) (auto simp: manifest_get_def)
      then show ?thesis
        using staged_parents_known [OF ok(3), of "dom (nodes st)"] sound_valid rep p ok(2) import_check_held [OF inv, of 0 ns]
        by (cases "import_check ops st 0 ns"; cases "py_eq (seal_report_dict rep) sl"; cases "parent (hd ns)";
            cases "\<forall>q. parent (hd ns) = Some q \<longrightarrow> s_exists ops st q")
          (auto simp: import_prepare_def Inr q ok(1) exists_nodes inv domIff)
    qed
  qed
qed

lemma import_all_or_nothing:
  assumes inv: "inv st"
  shows "(\<exists>e. import_manifest ops m st = Some (Inl e, st)) \<or>
    (\<exists>rep st' r ns sl. import_manifest ops m st = Some (Inr rep, st') \<and> parse_manifest m = Inr (r, ns, sl) \<and>
      inv st' \<and> grows (nodes st) (nodes st') \<and> dom (nodes st') = dom (nodes st) \<union> nid ` set ns \<and>
      (\<forall>n \<in> set ns. holds_node (nodes st') n) \<and> im_imported rep + im_existing rep = length ns)"
  using import_prepare_total [OF inv, of m]
proof (elim disjE exE conjE)
  fix e assume "import_prepare ops m st = Some (Inl e)"
  then show ?thesis by (simp add: import_manifest_def)
next
  fix r ns sl d
  assume p: "import_prepare ops m st = Some (Inr (r, ns, d, length (filter (\<lambda>n. nid n \<in> dom (nodes st)) ns)))"
    and m: "parse_manifest m = Inr (r, ns, sl)" and d: "distinct (map nid ns)" "\<forall>n \<in> set ns. node_ok n \<and> node_valid n"
      "parents_known (dom (nodes st)) ns" and h: "\<forall>n \<in> set ns. nid n \<in> dom (nodes st) \<longrightarrow> holds_node (nodes st) n"
  obtain st' where w: "import_write ops st 0 ns = (Inr (0 + length (filter (\<lambda>n. nid n \<notin> dom (nodes st)) ns)), st')"
    and st': "inv st'" "grows (nodes st) (nodes st')" "dom (nodes st') = dom (nodes st) \<union> nid ` set ns"
      "\<forall>n \<in> set ns. nid n \<notin> dom (nodes st) \<longrightarrow> holds_node (nodes st') n"
    using import_write_ok [OF inv d(2,3,1), of 0] by blast
  have "\<forall>n \<in> set ns. holds_node (nodes st') n" using st'(2,4) h holds_node_grows by blast
  moreover have "length (filter (\<lambda>n. nid n \<notin> dom (nodes st)) ns) + length (filter (\<lambda>n. nid n \<in> dom (nodes st)) ns) = length ns"
    using sum_length_filter_compl [of "\<lambda>n. nid n \<in> dom (nodes st)" ns] by simp
  ultimately show ?thesis using p w m st'(1-3) by (simp add: import_manifest_def)
qed

end

text \<open>
  C19. An import into a \<open>MemoryStore\<close> always returns, and is all or nothing: either it raises and
  the store is unchanged, or it succeeds, keeps the invariant and every earlier record, adds exactly
  the ids of the manifest, holds every node of it with its identity and result, and reports counts
  that add up to its length. No failure leaves part of a manifest behind.
\<close>

theorem import_atomic:
  assumes "mem_inv s"
  shows "(\<exists>e. import_manifest mem_ops m s = Some (Inl e, s)) \<or>
    (\<exists>rep s' r ns sl. import_manifest mem_ops m s = Some (Inr rep, s') \<and> parse_manifest m = Inr (r, ns, sl) \<and>
      mem_inv s' \<and> grows (mem_nodes s) (mem_nodes s') \<and> dom (mem_nodes s') = dom (mem_nodes s) \<union> nid ` set ns \<and>
      (\<forall>n \<in> set ns. holds_node (mem_nodes s') n) \<and> im_imported rep + im_existing rep = length ns)"
  using mem.import_all_or_nothing [OF assms, of m] .

lemma import_atomic_witness:
  "\<exists>e. import_manifest mem_ops (JDict [(''format'', JStr ''other'')]) demo_store = Some (Inl e, demo_store)"
proof -
  have "parse_manifest (JDict [(''format'', JStr ''other'')]) = Inl (IntegrityError ''unsupported subtree export format'')"
    by (simp add: parse_manifest_def EXPORT_FORMAT_def)
  then show ?thesis using import_atomic [OF demo_inv, of "JDict [(''format'', JStr ''other'')]"] by auto
qed

end
