(* ===== verification/Governor.thy ===== *)
theory Governor
  imports Verify
begin

text \<open>
  Budgets and charge accounting (\<open>governor.py\<close>): the limits of a \<open>Budget\<close>, what a subtree
  has spent (recomputed from the charges in node metadata), the check before a call and the meters
  exhausted after it. Amounts are exact decimals; the totals pass through \<open>float\<close>, as they do in
  the code.
\<close>

section \<open>Amounts\<close>

text \<open>The Python values a budget field or a charge may hold.\<close>

datatype amount =
    A_bool bool
  | A_int int
  | A_float decimal
  | A_decimal decimal
  | A_str string

text \<open>\<open>Decimal(str(value))\<close>.\<close>

definition decimal_of :: "amount \<Rightarrow> decimal res" where
  "decimal_of v =
    (let invalid = Inl (Foreign ''InvalidOperation'' False);
         parse = (\<lambda>s. case parse_decimal s of None \<Rightarrow> invalid | Some d \<Rightarrow> Inr d)
     in case v of
         A_bool b \<Rightarrow> invalid
       | A_int i \<Rightarrow> Inr (dec_of_int i)
       | A_float f \<Rightarrow> Inr (decimal_of_float f)
       | A_decimal d \<Rightarrow> parse (dec_str d)
       | A_str s \<Rightarrow> parse s)"

lemma decimal_of_simps [simp]:
  "decimal_of (A_int i) = Inr (dec_of_int i)"
  "decimal_of (A_float f) = Inr (decimal_of_float f)"
  "decimal_of (A_decimal d) = Inr d"
  by (simp_all add: decimal_of_def)

section \<open>Budget\<close>

type_synonym decimals = "(string \<times> decimal) list"

record budget =
  b_usd :: "amount option"
  b_tokens :: "amount option"
  b_depth :: "amount option"
  b_seconds :: "amount option"
  b_steps :: "amount option"
  b_extra :: "(string \<times> amount) list option"

definition no_budget :: budget where
  "no_budget = \<lparr>b_usd = None, b_tokens = None, b_depth = None, b_seconds = None, b_steps = None, b_extra = None\<rparr>"

definition add_limit :: "string \<Rightarrow> amount option \<Rightarrow> decimals \<Rightarrow> decimals res" where
  "add_limit name v limits = (case v of
      None \<Rightarrow> Inr limits
    | Some a \<Rightarrow>
        (case a of A_bool b \<Rightarrow> Inl (TypeError (name @ '' budget cannot be bool''))
         | _ \<Rightarrow> bindR (decimal_of a) (\<lambda>d.
                if dec_less d 0 then Inl (ValueError (name @ '' budget cannot be negative''))
                else Inr (dset name d limits))))"

fun add_limits :: "(string \<times> amount option) list \<Rightarrow> decimals \<Rightarrow> decimals res" where
  "add_limits [] limits = Inr limits"
| "add_limits ((name, v) # rest) limits = bindR (add_limit name v limits) (add_limits rest)"

definition budget_limits :: "budget \<Rightarrow> decimals res" where
  "budget_limits b =
    add_limits ([(''usd'', b_usd b), (''tokens'', b_tokens b), (''depth'', b_depth b),
                 (''seconds'', b_seconds b), (''steps'', b_steps b)] @
                (case b_extra b of None \<Rightarrow> [] | Some ex \<Rightarrow> map (\<lambda>(k, v). (k, Some v)) ex)) []"

record budget_check =
  bc_ok :: bool
  bc_meter :: "string option"
  bc_requested :: decimal
  bc_remaining :: decimal

definition check_passed :: budget_check where
  "check_passed = \<lparr>bc_ok = True, bc_meter = None, bc_requested = 0, bc_remaining = 0\<rparr>"

section \<open>Charges\<close>

definition charge_to_decimal :: "amount \<Rightarrow> decimal res" where
  "charge_to_decimal v = (case v of
      A_decimal d \<Rightarrow> Inr d
    | A_bool b \<Rightarrow> Inl (TypeError ''charge values cannot be bool'')
    | _ \<Rightarrow> decimal_of v)"

definition charge_to_json :: "decimal \<Rightarrow> json" where
  "charge_to_json v = (if dec_integral v then JInt (dec_to_int v) else JFloat (py_float v))"

text \<open>One entry of a node's charges: a bool is an \<open>int\<close> to \<open>isinstance\<close>.\<close>

definition add_charge :: "decimals \<Rightarrow> string \<times> json \<Rightarrow> decimals res" where
  "add_charge totals p = (case p of (name, v) \<Rightarrow>
    (let add = (\<lambda>a. bindR (charge_to_decimal a) (\<lambda>d. Inr (dset name (dget_or totals name 0 + d) totals)))
     in case v of
         JInt i \<Rightarrow> add (A_int i)
       | JFloat f \<Rightarrow> add (A_float f)
       | JBool b \<Rightarrow> add (A_bool b)
       | _ \<Rightarrow> Inr totals))"

definition add_node_charges :: "decimals \<Rightarrow> node \<Rightarrow> decimals res" where
  "add_node_charges totals n = (case dget_or (meta n) ''charges'' (JDict []) of
      JDict charges \<Rightarrow> foldR add_charge totals charges
    | _ \<Rightarrow> Inr totals)"

text \<open>\<open>None\<close> stands for a walk that never ends; an exception of the walk comes after the nodes before it.\<close>

definition recompute_charges :: "'st store_ops \<Rightarrow> 'st \<Rightarrow> string \<Rightarrow> decimals res option" where
  "recompute_charges ops st root_id =
    map_option (\<lambda>(ns, e).
      bindR (foldR add_node_charges [] ns) (\<lambda>totals.
      case e of Some x \<Rightarrow> Inl x
      | None \<Rightarrow> Inr (map (\<lambda>(k, d). (k, py_float d)) (sort_key fst totals))))
      (s_walk ops st root_id)"

definition spent_decimal :: "'st store_ops \<Rightarrow> 'st \<Rightarrow> string \<Rightarrow> decimals res option" where
  "spent_decimal ops st anchor_id =
    map_option (\<lambda>r. bindR r (\<lambda>t. Inr (map (\<lambda>(k, f). (k, decimal_of_float f)) t)))
      (recompute_charges ops st anchor_id)"

section \<open>The checks\<close>

fun check_estimates :: "decimals \<Rightarrow> decimals \<Rightarrow> decimals \<Rightarrow> budget_check" where
  "check_estimates limits spent [] = check_passed"
| "check_estimates limits spent ((meter, requested) # rest) =
    (case dget limits meter of
       None \<Rightarrow> check_estimates limits spent rest
     | Some limit_value \<Rightarrow>
        (let remaining = limit_value - dget_or spent meter 0
         in if dec_less (remaining - requested) 0
            then \<lparr>bc_ok = False, bc_meter = Some meter, bc_requested = requested, bc_remaining = remaining\<rparr>
            else check_estimates limits spent rest))"

definition check_budget :: "budget option \<Rightarrow> decimals \<Rightarrow> decimals \<Rightarrow> string list \<Rightarrow> budget_check res" where
  "check_budget b spent estimates exhausted = (case b of
      None \<Rightarrow> Inr check_passed
    | Some bud \<Rightarrow>
        bindR (budget_limits bud) (\<lambda>limits.
        Inr (case filter (\<lambda>m. dget limits m \<noteq> None) (sort exhausted) of
            m # _ \<Rightarrow> \<lparr>bc_ok = False, bc_meter = Some m, bc_requested = 0,
                      bc_remaining = the (dget limits m) - dget_or spent m 0\<rparr>
          | [] \<Rightarrow> check_estimates limits spent estimates)))"

definition exhausted_after_settle :: "budget option \<Rightarrow> decimals \<Rightarrow> string list res" where
  "exhausted_after_settle b spent = (case b of
      None \<Rightarrow> Inr []
    | Some bud \<Rightarrow>
        bindR (budget_limits bud) (\<lambda>limits.
        Inr (map fst (filter (\<lambda>(m, l). dec_less l (dget_or spent m 0)) limits))))"

section \<open>Limits\<close>

definition limits_ok :: "decimals \<Rightarrow> bool" where
  "limits_ok L \<longleftrightarrow> distinct_keys L \<and> (\<forall>(m, d) \<in> set L. 0 \<le> dec_val d)"

lemma add_limit_ok: "add_limit name v L = Inr L' \<Longrightarrow> limits_ok L \<Longrightarrow> limits_ok L'"
  using set_dset_subset [of name _ L]
  by (fastforce simp: add_limit_def bindR_Inr_iff limits_ok_def dec_less_iff split: option.splits amount.splits if_splits)

lemma add_limits_ok: "add_limits vs L = Inr L' \<Longrightarrow> limits_ok L \<Longrightarrow> limits_ok L'"
  by (induction vs L rule: add_limits.induct) (auto simp: bindR_Inr_iff dest: add_limit_ok)

lemma budget_limits_ok: "budget_limits b = Inr L \<Longrightarrow> limits_ok L"
  unfolding budget_limits_def by (erule add_limits_ok) (simp add: limits_ok_def)

text \<open>
  A budget never carries a bad limit: when \<open>limits\<close> succeeds, every limit is a non-negative
  decimal and names one meter once, so a bool or a negative amount in any field stops the call with an
  exception.
\<close>

theorem budget_limits_nonneg:
  assumes "budget_limits b = Inr L"
  shows "distinct_keys L \<and> (\<forall>m d. dget L m = Some d \<longrightarrow> 0 \<le> dec_val d)"
  using budget_limits_ok [OF assms] by (auto simp: limits_ok_def dest: map_of_SomeD)

lemma budget_limits_nonneg_witness:
  "budget_limits (no_budget\<lparr>b_steps := Some (A_int 3)\<rparr>) = Inr [(''steps'', Dec 3 0)] \<and>
    distinct_keys [(''steps'', Dec 3 0)]"
proof -
  have "budget_limits (no_budget\<lparr>b_steps := Some (A_int 3)\<rparr>) = Inr [(''steps'', Dec 3 0)]"
    by (simp add: budget_limits_def no_budget_def add_limit_def dec_of_int_def dec_less_def zero_decimal_def)
  with budget_limits_nonneg [OF this] show ?thesis by simp
qed

section \<open>What the checks decide\<close>

lemma check_estimates_ok:
  "bc_ok (check_estimates limits spent est) \<longleftrightarrow>
    (\<forall>(m, r) \<in> set est. \<forall>l. dget limits m = Some l \<longrightarrow> dec_val (dget_or spent m 0) + dec_val r \<le> dec_val l)"
  by (induction est rule: check_estimates.induct [of _ limits spent])
    (auto simp: check_passed_def Let_def dec_less_iff split: option.splits)

lemma check_budget_iff:
  assumes "budget_limits b = Inr L" "check_budget (Some b) spent est exhausted = Inr c"
  shows "bc_ok c \<longleftrightarrow> (\<forall>m \<in> set exhausted. dget L m = None) \<and>
    (\<forall>(m, r) \<in> set est. \<forall>l. dget L m = Some l \<longrightarrow> dec_val (dget_or spent m 0) + dec_val r \<le> dec_val l)"
proof (cases "filter (\<lambda>m. dget L m \<noteq> None) (sort exhausted)")
  case Nil
  then have "\<forall>m \<in> set exhausted. dget L m = None" by (auto simp: filter_empty_conv)
  moreover have "c = check_estimates L spent est" using Nil assms by (simp add: check_budget_def)
  ultimately show ?thesis using check_estimates_ok [of L spent est] by blast
next
  case (Cons m ms)
  then have "m \<in> set (filter (\<lambda>m. dget L m \<noteq> None) (sort exhausted))" by simp
  with Cons assms show ?thesis by (auto simp: check_budget_def)
qed



lemma exhausted_after_settle_iff:
  assumes "budget_limits b = Inr L" "exhausted_after_settle (Some b) spent = Inr ex"
  shows "m \<in> set ex \<longleftrightarrow> (\<exists>l. dget L m = Some l \<and> dec_val l < dec_val (dget_or spent m 0))"
  using assms budget_limits_ok [OF assms(1)]
  by (auto simp: exhausted_after_settle_def dec_less_iff limits_ok_def image_iff dest: map_of_SomeD)

section \<open>What was spent\<close>

text \<open>The charge a node carries on a meter, when its charges are numbers.\<close>

definition charge_value :: "json \<Rightarrow> rat" where
  "charge_value v = (case v of JInt i \<Rightarrow> of_int i | JFloat f \<Rightarrow> dec_val f | _ \<Rightarrow> 0)"

definition node_charges :: "node \<Rightarrow> jdict" where
  "node_charges n = (case dget_or (meta n) ''charges'' (JDict []) of JDict d \<Rightarrow> d | _ \<Rightarrow> [])"

definition node_charge :: "string \<Rightarrow> node \<Rightarrow> rat" where
  "node_charge m n = (case dget (node_charges n) m of None \<Rightarrow> 0 | Some v \<Rightarrow> charge_value v)"

definition no_bool_charges :: "node \<Rightarrow> bool" where
  "no_bool_charges n \<longleftrightarrow> distinct_keys (node_charges n) \<and> (\<forall>(k, v) \<in> set (node_charges n). \<forall>b. v \<noteq> JBool b)"

lemma add_charge_value:
  assumes "\<forall>b. v \<noteq> JBool b"
  shows "\<exists>t'. add_charge t (k, v) = Inr t' \<and> (\<forall>m. dec_val (dget_or t' m 0) =
    dec_val (dget_or t m 0) + (if m = k then charge_value v else 0)) \<and> (distinct_keys t \<longrightarrow> distinct_keys t')"
proof (cases v)
  case (JBool b)
  with assms show ?thesis by blast
qed (simp_all add: add_charge_def charge_to_decimal_def Let_def charge_value_def dget_or_dset)

lemma add_charges_value:
  "distinct_keys d \<Longrightarrow> \<forall>(k, v) \<in> set d. \<forall>b. v \<noteq> JBool b \<Longrightarrow>
    \<exists>t'. foldR add_charge t d = Inr t' \<and> (\<forall>m. dec_val (dget_or t' m 0) =
      dec_val (dget_or t m 0) + (case dget d m of None \<Rightarrow> 0 | Some v \<Rightarrow> charge_value v)) \<and>
      (distinct_keys t \<longrightarrow> distinct_keys t')"
proof (induction d arbitrary: t)
  case (Cons p d)
  obtain k v where p: "p = (k, v)" by (cases p)
  have "\<forall>b. v \<noteq> JBool b" using Cons.prems p by auto
  from add_charge_value [OF this, of t k] obtain t1 where t1: "add_charge t (k, v) = Inr t1"
    "\<forall>m. dec_val (dget_or t1 m 0) = dec_val (dget_or t m 0) + (if m = k then charge_value v else 0)"
    "distinct_keys t \<longrightarrow> distinct_keys t1" by blast
  have prems: "distinct_keys d" "\<forall>(k, v) \<in> set d. \<forall>b. v \<noteq> JBool b" "dget d k = None"
    using Cons.prems p by (auto simp: map_of_eq_None_iff)
  from Cons.IH [OF prems(1,2), of t1] obtain t2 where t2: "foldR add_charge t1 d = Inr t2"
    "\<forall>m. dec_val (dget_or t2 m 0) = dec_val (dget_or t1 m 0) + (case dget d m of None \<Rightarrow> 0 | Some v \<Rightarrow> charge_value v)"
    "distinct_keys t1 \<longrightarrow> distinct_keys t2" by blast
  show ?case
    by (rule exI [of _ t2]) (use t1 t2 prems(3) p in auto)
qed simp

lemma add_node_charges_value:
  "no_bool_charges n \<Longrightarrow> \<exists>t'. add_node_charges t n = Inr t' \<and>
    (\<forall>m. dec_val (dget_or t' m 0) = dec_val (dget_or t m 0) + node_charge m n) \<and> (distinct_keys t \<longrightarrow> distinct_keys t')"
  using add_charges_value [of "node_charges n" t]
  by (auto simp: no_bool_charges_def add_node_charges_def node_charge_def node_charges_def split: json.splits)

lemma foldR_node_charges_value:
  "\<forall>n \<in> set ns. no_bool_charges n \<Longrightarrow> \<exists>t'. foldR add_node_charges t ns = Inr t' \<and>
    (\<forall>m. dec_val (dget_or t' m 0) = dec_val (dget_or t m 0) + (\<Sum>n \<leftarrow> ns. node_charge m n)) \<and>
    (distinct_keys t \<longrightarrow> distinct_keys t')"
proof (induction ns arbitrary: t)
  case (Cons n ns)
  from add_node_charges_value [of n t] Cons.prems obtain t1 where t1: "add_node_charges t n = Inr t1"
    "\<forall>m. dec_val (dget_or t1 m 0) = dec_val (dget_or t m 0) + node_charge m n"
    "distinct_keys t \<longrightarrow> distinct_keys t1" by auto
  from Cons.IH [of t1] Cons.prems obtain t2 where "foldR add_node_charges t1 ns = Inr t2"
    "\<forall>m. dec_val (dget_or t2 m 0) = dec_val (dget_or t1 m 0) + (\<Sum>n \<leftarrow> ns. node_charge m n)"
    "distinct_keys t1 \<longrightarrow> distinct_keys t2" by auto
  with t1 show ?case by (intro exI [of _ t2]) simp
qed simp



end
