(* ===== verification/Kv.thy ===== *)
theory Kv
  imports Governor Seal Json_Reads
begin

text \<open>
  The node operations of the transactional key/value store (\<open>stores/_transactional.py\<close>) that the
  Redis, MongoDB and Neo4j stores inherit. The database is what the callbacks see of it: buckets of
  rows, each row a key and a text (\<open>kv\<close>). A transaction is a function that returns its result with
  the new buckets, or an exception, which rolls back. The connection is a parameter of every
  operation: each of the two attempts may fail before or after its commit (\<open>link\<close>), at a time of
  the server's clock.
\<close>

section \<open>Buckets and transactions\<close>

type_synonym kv = "(string \<times> (string \<times> string) list) list"

definition kv_get :: "kv \<Rightarrow> string \<Rightarrow> string \<Rightarrow> string option" where
  "kv_get st bucket key = dget (dget_or st bucket []) key"

definition kv_items :: "kv \<Rightarrow> string \<Rightarrow> (string \<times> string) list" where
  "kv_items st bucket = dget_or st bucket []"

definition kv_put :: "string \<Rightarrow> string \<Rightarrow> string \<Rightarrow> kv \<Rightarrow> kv" where
  "kv_put bucket key v st = dset bucket (dset key v (dget_or st bucket [])) st"

definition kv_delete :: "string \<Rightarrow> string \<Rightarrow> kv \<Rightarrow> kv" where
  "kv_delete bucket key st = dset bucket (AList.delete key (dget_or st bucket [])) st"

definition SCHEMA_BUCKET :: string where "SCHEMA_BUCKET = ''schema''"
definition NODE_BUCKET :: string where "NODE_BUCKET = ''nodes''"
definition BUDGET_BUCKET :: string where "BUDGET_BUCKET = ''budget''"
definition RESERVATION_BUCKET :: string where "RESERVATION_BUCKET = ''reservations''"
definition WINDOW_BUCKET :: string where "WINDOW_BUCKET = ''window-events''"

type_synonym 'a transaction = "decimal \<Rightarrow> kv \<Rightarrow> ('a \<times> kv) res"

datatype link = Up | Lost_before exc | Lost_after exc

record attempt_env =
  at_link :: link
  at_now :: decimal

record connection =
  cn_first :: attempt_env
  cn_reconnect :: "exc option"
  cn_second :: attempt_env

definition steady :: connection where
  "steady = (let up = \<lparr>at_link = Up, at_now = 0\<rparr> in \<lparr>cn_first = up, cn_reconnect = None, cn_second = up\<rparr>)"

text \<open>One transaction (\<open>_read\<close>, \<open>_write\<close>).\<close>

definition kv_transact :: "attempt_env \<Rightarrow> 'a transaction \<Rightarrow> kv \<Rightarrow> 'a res \<times> kv" where
  "kv_transact a f st = (case at_link a of
      Lost_before e \<Rightarrow> (Inl e, st)
    | Up \<Rightarrow> (case f (at_now a) st of Inl e \<Rightarrow> (Inl e, st) | Inr (x, st') \<Rightarrow> (Inr x, st'))
    | Lost_after e \<Rightarrow> (case f (at_now a) st of Inl e' \<Rightarrow> (Inl e', st) | Inr (x, st') \<Rightarrow> (Inl e, st')))"

text \<open>
  \<open>_read_reconnecting\<close> and \<open>_write_reconnecting\<close>; \<open>is_conn\<close> is the backend's
  \<open>_is_connection_error\<close>, a parameter.
\<close>

definition kv_reconnecting :: "(exc \<Rightarrow> bool) \<Rightarrow> connection \<Rightarrow> 'a transaction \<Rightarrow> kv \<Rightarrow> 'a res \<times> kv" where
  "kv_reconnecting is_conn c f st = (case kv_transact (cn_first c) f st of
      (Inr x, st1) \<Rightarrow> (Inr x, st1)
    | (Inl e, st1) \<Rightarrow>
        if \<not> is_conn e then (Inl e, st1)
        else (case cn_reconnect c of
            Some e' \<Rightarrow> (Inl e', st1)
          | None \<Rightarrow> kv_transact (cn_second c) f st1))"

section \<open>Texts in the rows\<close>

definition kv_object :: "string \<Rightarrow> string \<Rightarrow> jdict res" where
  "kv_object text label = (case json_loads text of
      Inr (JDict d) \<Rightarrow> Inr d
    | Inr _ \<Rightarrow> Inl (IntegrityError (''stored '' @ label @ '' must be an object''))
    | Inl (TypeError m) \<Rightarrow> Inl (IntegrityError (''invalid stored '' @ label))
    | Inl (ValueError m) \<Rightarrow> Inl (IntegrityError (''invalid stored '' @ label))
    | Inl e \<Rightarrow> Inl e)"

definition kv_string :: "jdict \<Rightarrow> string \<Rightarrow> string res" where
  "kv_string d key = (case dget d key of Some (JStr s) \<Rightarrow> Inr s
    | _ \<Rightarrow> Inl (IntegrityError (''stored '' @ key @ '' must be a string'')))"

definition kv_integer :: "jdict \<Rightarrow> string \<Rightarrow> int res" where
  "kv_integer d key = (case dget d key of Some (JInt i) \<Rightarrow> Inr i
    | _ \<Rightarrow> Inl (IntegrityError (''stored '' @ key @ '' must be an integer'')))"

definition kv_float :: "jdict \<Rightarrow> string \<Rightarrow> decimal res" where
  "kv_float d key = (case dget d key of
      Some (JInt i) \<Rightarrow> Inr (py_float (dec_of_int i))
    | Some (JFloat f) \<Rightarrow> Inr f
    | _ \<Rightarrow> Inl (IntegrityError (''stored '' @ key @ '' must be a number'')))"

text \<open>\<open>canonical_bytes(value).decode("utf-8")\<close>.\<close>

definition canonical_text :: "json \<Rightarrow> string res" where
  "canonical_text v = bindR (canonical_bytes v) (\<lambda>b. case utf8_decode b of
      Some s \<Rightarrow> Inr s | None \<Rightarrow> Inl (ValueError ''UnicodeDecodeError''))"

definition compound_key :: "string list \<Rightarrow> string res" where
  "compound_key parts = canonical_text (JList (map JStr parts))"

definition kv_node_text :: "node \<Rightarrow> string res" where
  "kv_node_text n =
    bindR (canonical_text (JDict (payload n))) (\<lambda>p.
    bindR (json_dumps (JDict (meta n))) (\<lambda>m.
    json_dumps (JDict [(''id'', JStr (nid n)), (''parent'', opt_str (parent n)), (''kind'', JStr (kind n)),
      (''attempt'', JInt (attempt n)), (''payload'', JStr p), (''result'', opt_str (result_text n)),
      (''result_digest'', opt_str (result_digest n)), (''meta'', JStr m)])))"

definition kv_optional :: "jdict \<Rightarrow> string \<Rightarrow> string \<Rightarrow> string option res" where
  "kv_optional d key msg = (case dget_or d key JNull of
      JNull \<Rightarrow> Inr None | JStr s \<Rightarrow> Inr (Some s) | _ \<Rightarrow> Inl (IntegrityError msg))"

definition kv_node_from_text :: "string \<Rightarrow> node res" where
  "kv_node_from_text text =
    bindR (kv_object text ''node'') (\<lambda>d.
    bindR (kv_optional d ''parent'' ''stored node parent must be a string or null'') (\<lambda>p.
    bindR (kv_optional d ''result'' ''stored node result must be JSON text or null'') (\<lambda>r.
    bindR (kv_optional d ''result_digest'' ''stored node result digest must be a string or null'') (\<lambda>rd.
    case bindR (kv_string d ''id'') (\<lambda>i.
         bindR (kv_string d ''kind'') (\<lambda>k.
         bindR (kv_integer d ''attempt'') (\<lambda>a.
         bindR (kv_string d ''payload'') (\<lambda>pt.
         bindR (kv_string d ''meta'') (\<lambda>mt.
         from_storage i p k a pt r rd mt))))) of
      Inl (TypeError m) \<Rightarrow> Inl (IntegrityError ''invalid stored node'')
    | Inl (ValueError m) \<Rightarrow> Inl (IntegrityError ''invalid stored node'')
    | res \<Rightarrow> res))))"

section \<open>Schema\<close>

definition kv_initialize :: "string \<Rightarrow> unit transaction" where
  "kv_initialize backend now st = (case kv_get st SCHEMA_BUCKET ''version'' of
      None \<Rightarrow> Inr ((), kv_put SCHEMA_BUCKET ''version'' ''1'' st)
    | Some v \<Rightarrow> if v = ''1'' then Inr ((), st)
        else Inl (IntegrityError (''unsupported '' @ backend @ '' schema version: '' @ v)))"

section \<open>Store operations\<close>

definition kv_read_node :: "kv \<Rightarrow> string \<Rightarrow> node res" where
  "kv_read_node st i = (case kv_get st NODE_BUCKET i of
      None \<Rightarrow> Inl (KeyError i) | Some text \<Rightarrow> kv_node_from_text text)"

text \<open>Writing a node back with new metadata.\<close>

definition kv_rewrite :: "string \<Rightarrow> node \<Rightarrow> jdict \<Rightarrow> kv \<Rightarrow> (unit \<times> kv) res" where
  "kv_rewrite key n md st =
    bindR (canonical_text (JDict (payload n))) (\<lambda>p.
    bindR (json_dumps (JDict md)) (\<lambda>m.
    bindR (from_storage (nid n) (parent n) (kind n) (attempt n) p (result_text n) (result_digest n) m) (\<lambda>n'.
    bindR (kv_node_text n') (\<lambda>text. Inr ((), kv_put NODE_BUCKET key text st)))))"

definition kv_existing :: "node \<Rightarrow> node \<Rightarrow> kv \<Rightarrow> (unit \<times> kv) res" where
  "kv_existing existing n st =
    (if \<not> identity_eq existing n then Inl (IntegrityError (''node id collision for '' @ nid n))
     else if result_text n = None \<or> result_text n = result_text existing then Inr ((), st)
     else bindR (py_list (dget_or (meta existing) ''result_conflicts'' (JList []))) (\<lambda>conflicts.
       if list_ex (\<lambda>c. py_eq c (conflict_record n)) conflicts then Inr ((), st)
       else kv_rewrite (nid n) existing
         (dset ''result_conflicts'' (JList (conflicts @ [conflict_record n])) (meta existing)) st))"

definition kv_put_transaction :: "node \<Rightarrow> unit transaction" where
  "kv_put_transaction n now st =
    bindR (case parent n of None \<Rightarrow> Inr ()
           | Some p \<Rightarrow> ensure (kv_get st NODE_BUCKET p \<noteq> None) (KeyError p)) (\<lambda>_.
    case kv_get st NODE_BUCKET (nid n) of
      None \<Rightarrow> bindR (kv_node_text n) (\<lambda>text. Inr ((), kv_put NODE_BUCKET (nid n) text st))
    | Some current \<Rightarrow> bindR (kv_node_from_text current) (\<lambda>existing. kv_existing existing n st))"

definition kv_put_node :: "(exc \<Rightarrow> bool) \<Rightarrow> connection \<Rightarrow> node \<Rightarrow> kv \<Rightarrow> unit res \<times> kv" where
  "kv_put_node is_conn c n st = (case validate_for_put n of
      Inl e \<Rightarrow> (Inl e, st) | Inr _ \<Rightarrow> kv_reconnecting is_conn c (kv_put_transaction n) st)"

definition kv_reading :: "(exc \<Rightarrow> bool) \<Rightarrow> connection \<Rightarrow> (kv \<Rightarrow> 'a res) \<Rightarrow> kv \<Rightarrow> 'a res" where
  "kv_reading is_conn c f st =
    fst (kv_reconnecting is_conn c (\<lambda>now st. bindR (f st) (\<lambda>x. Inr (x, st))) st)"

definition kv_all_nodes :: "kv \<Rightarrow> node list res" where
  "kv_all_nodes st = mapR (\<lambda>(key, text). kv_node_from_text text) (kv_items st NODE_BUCKET)"

definition kv_children_of :: "string \<Rightarrow> kv \<Rightarrow> string list res" where
  "kv_children_of i st =
    bindR (kv_all_nodes st) (\<lambda>ns.
    Inr (map nid (sort_key (\<lambda>n. (kind n, nid n)) (filter (\<lambda>n. parent n = Some i) ns))))"

definition kv_update_transaction :: "string \<Rightarrow> jdict \<Rightarrow> unit transaction" where
  "kv_update_transaction i patch now st =
    bindR (kv_read_node st i) (\<lambda>n. kv_rewrite i n (dmerge (meta n) patch) st)"

definition kv_walk_nodes :: "string \<Rightarrow> kv \<Rightarrow> node list res option" where
  "kv_walk_nodes root_id st = (case kv_all_nodes st of
      Inl e \<Rightarrow> Some (Inl e)
    | Inr all \<Rightarrow>
        (let nodes = fold (\<lambda>n d. dset (nid n) n d) all [];
             children = (\<lambda>i. map nid (sort_key (\<lambda>n. (kind n, nid n))
               (filter (\<lambda>n. parent n = Some i) (map snd nodes))))
         in map_option (\<lambda>(ns, e). case e of None \<Rightarrow> Inr ns | Some x \<Rightarrow> Inl x)
           (walk_loop (\<lambda>i. case dget nodes i of None \<Rightarrow> Inl (KeyError i) | Some n \<Rightarrow> Inr n)
             (\<lambda>i. Inr (children i)) [root_id] [])))"

definition kv_root_ids :: "kv \<Rightarrow> string list res" where
  "kv_root_ids st =
    bindR (kv_all_nodes st) (\<lambda>ns.
    Inr (map nid (sort_key (\<lambda>n. (run_key n, nid n)) (filter (\<lambda>n. parent n = None) ns))))"

definition kv_drop_nodes :: "string list \<Rightarrow> kv \<Rightarrow> kv" where
  "kv_drop_nodes ids st = fold (kv_delete NODE_BUCKET) ids st"

text \<open>The protocol over a connection that holds.\<close>

definition kv_ops :: "kv store_ops" where
  "kv_ops = \<lparr>s_put = (\<lambda>n st. case kv_put_node (\<lambda>_. False) steady n st of (Inl e, _) \<Rightarrow> Inl e | (Inr _, st') \<Rightarrow> Inr st'),
     s_get = (\<lambda>st i. kv_read_node st i), s_exists = (\<lambda>st i. kv_get st NODE_BUCKET i \<noteq> None),
     s_children = (\<lambda>st i. kv_children_of i st),
     s_update_meta = (\<lambda>i p st. bindR (kv_update_transaction i p 0 st) (\<lambda>(_, st'). Inr st')),
     s_walk = (\<lambda>st i. map_option (\<lambda>r. case r of Inl e \<Rightarrow> ([], Some e) | Inr ns \<Rightarrow> (ns, None)) (kv_walk_nodes i st)),
     s_roots = (\<lambda>st. kv_root_ids st)\<rparr>"

end
