(* ===== verification/Arbiter.thy ===== *)
theory Arbiter
  imports Governor
begin

text \<open>
  The reserve/settle contract of shared governance (\<open>arbiter.py\<close>): the requests and the answer.
  A float (a lease, a window, a clock reading) is the shortest decimal of its binary64 value.
\<close>

record budget_reservation =
  br_scope_id :: string
  br_limits :: decimals
  br_baseline :: decimals
  br_estimates :: decimals

record window_reservation =
  wr_ledger_key :: string
  wr_meter :: string
  wr_limit :: decimal
  wr_amount :: decimal
  wr_seconds :: decimal

record reservation_check =
  rc_ok :: bool
  rc_reason :: string
  rc_meter :: "string option"
  rc_requested :: decimal
  rc_remaining :: decimal
  rc_window_seconds :: "decimal option"

definition reservation_ok :: reservation_check where
  "reservation_ok = \<lparr>rc_ok = True, rc_reason = ''budget'', rc_meter = None, rc_requested = 0, rc_remaining = 0,
     rc_window_seconds = None\<rparr>"

definition dec_le :: "decimal \<Rightarrow> decimal \<Rightarrow> bool" where
  "dec_le a b \<longleftrightarrow> \<not> dec_less b a"

lemma dec_le_iff: "dec_le a b \<longleftrightarrow> dec_val a \<le> dec_val b"
  by (auto simp: dec_le_def dec_less_iff)

text \<open>\<open>Decimal(text)\<close>, and its sum over texts.\<close>

definition decimal_text :: "string \<Rightarrow> decimal res" where
  "decimal_text s = (case parse_decimal s of
      None \<Rightarrow> Inl (Foreign ''InvalidOperation'' False) | Some d \<Rightarrow> Inr d)"

lemma decimal_text_dec_str [simp]: "decimal_text (dec_str d) = Inr d"
  by (simp add: decimal_text_def)

end
