(* ===== verification/Kv_Arbiter.thy ===== *)
theory Kv_Arbiter
  imports Kv Arbiter
begin

text \<open>
  The exact arbiter of the transactional key/value store (\<open>stores/_transactional.py\<close>): reserve,
  settle, release and renew. Settled totals are Decimal texts in the budget bucket, active
  reservations and window events are JSON texts. A \<open>transaction\<close> gets the time of the server.
\<close>

section \<open>Requests\<close>

definition decimals_json :: "decimals \<Rightarrow> json" where
  "decimals_json d = JDict (map (\<lambda>(name, v). (name, JStr (dec_str v))) (sort_key fst d))"

definition reservation_document :: "budget_reservation list \<Rightarrow> window_reservation list \<Rightarrow> decimal \<Rightarrow> json" where
  "reservation_document budgets windows lease = JDict
    [(''budgets'', JList (map (\<lambda>r. JDict
        [(''scope_id'', JStr (br_scope_id r)), (''limits'', decimals_json (br_limits r)),
         (''baseline'', decimals_json (br_baseline r)), (''estimates'', decimals_json (br_estimates r))])
        (sort_key br_scope_id budgets))),
     (''windows'', JList (map (\<lambda>r. JDict
        [(''ledger_key'', JStr (wr_ledger_key r)), (''meter'', JStr (wr_meter r)),
         (''limit'', JStr (dec_str (wr_limit r))), (''amount'', JStr (dec_str (wr_amount r))),
         (''window_seconds'', JStr (float_text (wr_seconds r)))])
        (sort_key wr_ledger_key windows))),
     (''lease_seconds'', JStr (float_text lease))]"

definition text_and_digest :: "json \<Rightarrow> (string \<times> string) res" where
  "text_and_digest v = bindR (canonical_bytes v) (\<lambda>b.
     bindR (canonical_text v) (\<lambda>t. Inr (t, sha256_hex b)))"

definition reservation_request ::
  "budget_reservation list \<Rightarrow> window_reservation list \<Rightarrow> decimal \<Rightarrow> (string \<times> string) res" where
  "reservation_request budgets windows lease = text_and_digest (reservation_document budgets windows lease)"

definition reservation_charges :: "decimals \<Rightarrow> (string \<times> string) res" where
  "reservation_charges charges = text_and_digest (decimals_json charges)"

section \<open>Reading the stored state\<close>

definition detail_matches :: "string \<Rightarrow> string \<Rightarrow> string \<Rightarrow> jdict \<Rightarrow> bool" where
  "detail_matches k scope m d \<longleftrightarrow> dget d ''kind'' = Some (JStr k) \<and> dget d ''scope_id'' = Some (JStr scope) \<and>
    dget d ''meter'' = Some (JStr m)"

definition add_detail :: "string \<Rightarrow> string \<Rightarrow> string \<Rightarrow> decimal \<Rightarrow> json \<Rightarrow> decimal res" where
  "add_detail k scope m acc v = (case v of
      JDict d \<Rightarrow>
        if detail_matches k scope m d
        then bindR (kv_string d ''amount'') (\<lambda>s. bindR (decimal_text s) (\<lambda>a. Inr (acc + a)))
        else Inr acc
    | _ \<Rightarrow> Inl (IntegrityError ''invalid reservation detail''))"

definition add_reservation :: "string \<Rightarrow> string \<Rightarrow> string \<Rightarrow> decimal \<Rightarrow> jdict \<Rightarrow> decimal res" where
  "add_reservation k scope m acc r = (case dget r ''details'' of
      Some (JList details) \<Rightarrow> foldR (add_detail k scope m) acc details
    | _ \<Rightarrow> Inl (IntegrityError ''invalid reservation details''))"

definition active_amount :: "jdict list \<Rightarrow> string \<Rightarrow> string \<Rightarrow> string \<Rightarrow> decimal res" where
  "active_amount reservations k scope m = foldR (add_reservation k scope m) 0 reservations"

definition is_active :: "decimal \<Rightarrow> jdict \<Rightarrow> bool res" where
  "is_active now r =
    (if dget r ''state'' = Some (JStr ''active'')
     then bindR (kv_float r ''expires_at'') (\<lambda>e. Inr (dec_less now e)) else Inr False)"

text \<open>\<open>[x for x in xs if keep(x)]\<close> with a test that may raise.\<close>

fun filterR :: "('a \<Rightarrow> bool res) \<Rightarrow> 'a list \<Rightarrow> 'a list res" where
  "filterR f [] = Inr []"
| "filterR f (x # xs) = bindR (f x) (\<lambda>b. bindR (filterR f xs) (\<lambda>ys. Inr (if b then x # ys else ys)))"

definition active_reservations :: "decimal \<Rightarrow> kv \<Rightarrow> jdict list res" where
  "active_reservations now st =
    bindR (mapR (\<lambda>(key, text). kv_object text ''reservation'') (kv_items st RESERVATION_BUCKET)) (filterR (is_active now))"

section \<open>Reserve\<close>

type_synonym budget_row = "budget_reservation \<times> string \<times> decimal"

definition budget_rows :: "budget_reservation list \<Rightarrow> budget_row list" where
  "budget_rows budgets = concat (map (\<lambda>r. map (\<lambda>(m, l). (r, m, l)) (filter (\<lambda>(m, l). m \<noteq> ''depth'') (br_limits r))) budgets)"

text \<open>One limit: the settled amount is raised to the caller's baseline before it is compared.\<close>

definition check_budget_row ::
  "jdict list \<Rightarrow> budget_row \<Rightarrow> kv \<Rightarrow> (reservation_check option \<times> kv) res" where
  "check_budget_row active row st = (case row of (request, m, limit) \<Rightarrow>
    bindR (compound_key [br_scope_id request, m]) (\<lambda>key.
    let stored = kv_get st BUDGET_BUCKET key in
    bindR (case stored of None \<Rightarrow> Inr 0 | Some s \<Rightarrow> decimal_text s) (\<lambda>current.
    let baseline = dget_or (br_baseline request) m 0;
        settled = (if dec_less current baseline then baseline else current);
        st' = (if stored = None \<or> dec_less current settled \<or> dec_less settled current
               then kv_put BUDGET_BUCKET key (dec_str settled) st else st) in
    bindR (active_amount active ''budget'' (br_scope_id request) m) (\<lambda>reserved.
    let amount = dget_or (br_estimates request) m 0; remaining = limit - settled - reserved in
    Inr (if dec_less remaining amount
         then (Some (reservation_ok\<lparr>rc_ok := False, rc_meter := Some m, rc_requested := amount,
                 rc_remaining := remaining\<rparr>), st')
         else (None, st'))))))"

fun check_budget_rows :: "jdict list \<Rightarrow> budget_row list \<Rightarrow> kv \<Rightarrow> (reservation_check option \<times> kv) res" where
  "check_budget_rows active [] st = Inr (None, st)"
| "check_budget_rows active (row # rows) st =
    bindR (check_budget_row active row st) (\<lambda>(refusal, st').
    case refusal of Some c \<Rightarrow> Inr (Some c, st') | None \<Rightarrow> check_budget_rows active rows st')"

text \<open>The window events still inside their window; the others are deleted.\<close>

fun live_events :: "decimal \<Rightarrow> (string \<times> string) list \<Rightarrow> kv \<Rightarrow> (jdict list \<times> kv) res" where
  "live_events now [] st = Inr ([], st)"
| "live_events now ((key, text) # rows) st =
    bindR (kv_object text ''window event'') (\<lambda>event.
    bindR (kv_float event ''settled_at'') (\<lambda>t0.
    bindR (kv_float event ''window_seconds'') (\<lambda>w.
    if dec_le t0 (float_sub now w) then live_events now rows (kv_delete WINDOW_BUCKET key st)
    else bindR (live_events now rows st) (\<lambda>(es, st'). Inr (event # es, st')))))"

definition event_in_window :: "decimal \<Rightarrow> window_reservation \<Rightarrow> jdict \<Rightarrow> bool res" where
  "event_in_window now w e =
    (if dget e ''scope_id'' = Some (JStr (wr_ledger_key w)) \<and> dget e ''meter'' = Some (JStr (wr_meter w))
     then bindR (kv_float e ''settled_at'') (\<lambda>t0. Inr (dec_less (float_sub now (wr_seconds w)) t0)) else Inr False)"

definition window_settled :: "decimal \<Rightarrow> jdict list \<Rightarrow> window_reservation \<Rightarrow> decimal res" where
  "window_settled now events w = foldR (\<lambda>acc e.
     bindR (event_in_window now w e) (\<lambda>b.
     if b then bindR (kv_string e ''amount'') (\<lambda>s. bindR (decimal_text s) (\<lambda>a. Inr (acc + a))) else Inr acc)) 0 events"

fun check_windows ::
  "decimal \<Rightarrow> jdict list \<Rightarrow> jdict list \<Rightarrow> window_reservation list \<Rightarrow> reservation_check option res" where
  "check_windows now active events [] = Inr None"
| "check_windows now active events (w # ws) =
    bindR (window_settled now events w) (\<lambda>settled.
    bindR (active_amount active ''window'' (wr_ledger_key w) (wr_meter w)) (\<lambda>reserved.
    let remaining = wr_limit w - settled - reserved in
    if dec_less remaining (wr_amount w)
    then Inr (Some (reservation_ok\<lparr>rc_ok := False, rc_reason := ''window'', rc_meter := Some (wr_meter w),
           rc_requested := wr_amount w, rc_remaining := remaining, rc_window_seconds := Some (wr_seconds w)\<rparr>))
    else check_windows now active events ws))"

definition budget_detail :: "budget_row \<Rightarrow> json" where
  "budget_detail row = (case row of (r, m, l) \<Rightarrow> JDict
    [(''kind'', JStr ''budget''), (''scope_id'', JStr (br_scope_id r)), (''meter'', JStr m),
     (''amount'', JStr (dec_str (dget_or (br_estimates r) m 0)))])"

definition window_detail :: "window_reservation \<Rightarrow> json" where
  "window_detail w = JDict
    [(''kind'', JStr ''window''), (''scope_id'', JStr (wr_ledger_key w)), (''meter'', JStr (wr_meter w)),
     (''amount'', JStr (dec_str (wr_amount w))), (''window_seconds'', JFloat (wr_seconds w))]"

definition reservation_record ::
  "string \<Rightarrow> string \<Rightarrow> decimal \<Rightarrow> decimal \<Rightarrow> json list \<Rightarrow> jdict" where
  "reservation_record digest text now lease details =
    [(''request_digest'', JStr digest), (''request'', JStr text), (''state'', JStr ''active''),
     (''charges_digest'', JNull), (''charges'', JNull), (''expires_at'', JFloat (float_add now lease)),
     (''created_at'', JFloat now), (''completed_at'', JNull), (''details'', JList details)]"

text \<open>A reservation id that is already there: the answer to a retry.\<close>

definition retry_reservation :: "string \<Rightarrow> string \<Rightarrow> decimal \<Rightarrow> string \<Rightarrow> reservation_check res" where
  "retry_reservation rid digest now current_text =
    bindR (kv_object current_text ''reservation'') (\<lambda>current.
    bindR (ensure (dget current ''request_digest'' = Some (JStr digest))
      (IntegrityError (''reservation retry changed request: '' @ rid))) (\<lambda>_.
    bindR (kv_string current ''state'') (\<lambda>state.
    bindR (ensure (state = ''active'') (IntegrityError (''reservation is already '' @ state @ '': '' @ rid))) (\<lambda>_.
    bindR (kv_float current ''expires_at'') (\<lambda>e.
    bindR (ensure (dec_less now e) (IntegrityError (''reservation expired before retry: '' @ rid))) (\<lambda>_.
    Inr reservation_ok))))))"

definition reserve_once ::
  "string \<Rightarrow> budget_reservation list \<Rightarrow> window_reservation list \<Rightarrow> decimal \<Rightarrow> reservation_check transaction" where
  "reserve_once rid budgets windows lease now st =
    bindR (reservation_request budgets windows lease) (\<lambda>(text, digest).
    case kv_get st RESERVATION_BUCKET rid of
      Some current \<Rightarrow> bindR (retry_reservation rid digest now current) (\<lambda>c. Inr (c, st))
    | None \<Rightarrow>
        bindR (active_reservations now st) (\<lambda>active.
        bindR (check_budget_rows active (sort_key (\<lambda>(r, m, l). (br_scope_id r, m)) (budget_rows budgets)) st) (\<lambda>(refusal, st1).
        case refusal of Some c \<Rightarrow> Inr (c, st1)
        | None \<Rightarrow>
            bindR (live_events now (kv_items st1 WINDOW_BUCKET) st1) (\<lambda>(events, st2).
            bindR (check_windows now active events (sort_key wr_ledger_key windows)) (\<lambda>refusal.
            case refusal of Some c \<Rightarrow> Inr (c, st2)
            | None \<Rightarrow>
                bindR (json_dumps (JDict (reservation_record digest text now lease
                    (map budget_detail (budget_rows budgets) @ map window_detail windows)))) (\<lambda>t.
                Inr (reservation_ok, kv_put RESERVATION_BUCKET rid t st2)))))))"

section \<open>Settle, release, renew\<close>

text \<open>One detail of the reservation, with its position.\<close>

definition settle_detail :: "string \<Rightarrow> decimals \<Rightarrow> decimal \<Rightarrow> kv \<Rightarrow> nat \<times> json \<Rightarrow> kv res" where
  "settle_detail rid charges now st p = (case p of (index, v) \<Rightarrow> (case v of
      JDict d \<Rightarrow>
        bindR (kv_string d ''kind'') (\<lambda>k.
        bindR (kv_string d ''scope_id'') (\<lambda>scope.
        bindR (kv_string d ''meter'') (\<lambda>m.
        let actual = dget_or charges m 0 in
        if k = ''budget'' then
          bindR (compound_key [scope, m]) (\<lambda>key.
          case kv_get st BUDGET_BUCKET key of
            None \<Rightarrow> Inl (IntegrityError ''budget state missing during settlement'')
          | Some s \<Rightarrow> bindR (decimal_text s) (\<lambda>old. Inr (kv_put BUDGET_BUCKET key (dec_str (old + actual)) st)))
        else if k = ''window'' \<and> \<not> dec_eq0 actual then
          bindR (compound_key [rid, nat_digits index]) (\<lambda>key.
          bindR (kv_float d ''window_seconds'') (\<lambda>w.
          bindR (json_dumps (JDict [(''scope_id'', JStr scope), (''meter'', JStr m), (''amount'', JStr (dec_str actual)),
              (''settled_at'', JFloat now), (''window_seconds'', JFloat w)])) (\<lambda>t.
          Inr (kv_put WINDOW_BUCKET key t st))))
        else if k = ''window'' then Inr st
        else Inl (IntegrityError (''invalid reservation kind: '' @ k)))))
    | _ \<Rightarrow> Inl (IntegrityError (''invalid reservation details: '' @ rid))))"

definition settle_once :: "string \<Rightarrow> decimals \<Rightarrow> unit transaction" where
  "settle_once rid charges now st =
    bindR (reservation_charges charges) (\<lambda>(text, digest).
    case kv_get st RESERVATION_BUCKET rid of
      None \<Rightarrow> Inl (IntegrityError (''unknown reservation: '' @ rid))
    | Some current_text \<Rightarrow>
        bindR (kv_object current_text ''reservation'') (\<lambda>current.
        bindR (kv_string current ''state'') (\<lambda>state.
        if state = ''settled'' then
          bindR (ensure (dget current ''charges_digest'' = Some (JStr digest))
            (IntegrityError (''reservation retry used different charges: '' @ rid))) (\<lambda>_. Inr ((), st))
        else if state \<noteq> ''active'' then Inl (IntegrityError (''reservation is already '' @ state @ '': '' @ rid))
        else (case dget current ''details'' of
            Some (JList details) \<Rightarrow>
              if details = [] then Inl (IntegrityError (''reservation details are missing: '' @ rid))
              else
                bindR (foldR (settle_detail rid charges now) st (enumerate 0 details)) (\<lambda>st1.
                bindR (json_dumps (JDict (dmerge current [(''state'', JStr ''settled''), (''charges_digest'', JStr digest),
                    (''charges'', JStr text), (''completed_at'', JFloat now)]))) (\<lambda>t.
                Inr ((), kv_put RESERVATION_BUCKET rid t st1)))
          | _ \<Rightarrow> Inl (IntegrityError (''reservation details are missing: '' @ rid))))))"

definition release_once :: "string \<Rightarrow> unit transaction" where
  "release_once rid now st = (case kv_get st RESERVATION_BUCKET rid of
      None \<Rightarrow> Inr ((), st)
    | Some current_text \<Rightarrow>
        bindR (kv_object current_text ''reservation'') (\<lambda>current.
        bindR (kv_string current ''state'') (\<lambda>state.
        if state = ''released'' then Inr ((), st)
        else if state \<noteq> ''active'' then Inl (IntegrityError (''reservation is already '' @ state @ '': '' @ rid))
        else
          bindR (json_dumps (JDict (dmerge current [(''state'', JStr ''released''), (''completed_at'', JFloat now)]))) (\<lambda>t.
          Inr ((), kv_put RESERVATION_BUCKET rid t st)))))"

definition renew_once :: "string \<Rightarrow> decimal \<Rightarrow> bool transaction" where
  "renew_once rid lease now st = (case kv_get st RESERVATION_BUCKET rid of
      None \<Rightarrow> Inr (False, st)
    | Some current_text \<Rightarrow>
        bindR (kv_object current_text ''reservation'') (\<lambda>current.
        bindR (is_active now current) (\<lambda>alive.
        if \<not> alive then Inr (False, st)
        else
          bindR (json_dumps (JDict (dset ''expires_at'' (JFloat (float_add now lease)) current))) (\<lambda>t.
          Inr (True, kv_put RESERVATION_BUCKET rid t st)))))"

text \<open>
  The calls: two attempts around a reconnect; a connection lost twice leaves the outcome uncertain,
  which is the exception \<open>unsure\<close> of the operation.
\<close>

definition kv_uncertain :: "(exc \<Rightarrow> bool) \<Rightarrow> connection \<Rightarrow> exc \<Rightarrow> 'a transaction \<Rightarrow> kv \<Rightarrow> 'a res \<times> kv" where
  "kv_uncertain is_conn c unsure f st = (case kv_transact (cn_first c) f st of
      (Inr x, st1) \<Rightarrow> (Inr x, st1)
    | (Inl e, st1) \<Rightarrow>
        if \<not> is_conn e then (Inl e, st1)
        else (case (case cn_reconnect c of Some e' \<Rightarrow> (Inl e', st1) | None \<Rightarrow> kv_transact (cn_second c) f st1) of
            (Inr x, st2) \<Rightarrow> (Inr x, st2)
          | (Inl e', st2) \<Rightarrow> if is_conn e' then (Inl unsure, st2) else (Inl e', st2)))"

definition kv_reserve ::
  "string \<Rightarrow> (exc \<Rightarrow> bool) \<Rightarrow> connection \<Rightarrow> string \<Rightarrow> budget_reservation list \<Rightarrow> window_reservation list \<Rightarrow>
    decimal \<Rightarrow> kv \<Rightarrow> reservation_check res \<times> kv" where
  "kv_reserve backend is_conn c rid budgets windows lease st =
    kv_uncertain is_conn c (ReservationUncertain (backend @ '' reservation outcome is uncertain after reconnect'') rid)
      (reserve_once rid budgets windows lease) st"

definition kv_settle ::
  "string \<Rightarrow> (exc \<Rightarrow> bool) \<Rightarrow> connection \<Rightarrow> string \<Rightarrow> decimals \<Rightarrow> kv \<Rightarrow> unit res \<times> kv" where
  "kv_settle backend is_conn c rid charges st =
    kv_uncertain is_conn c (SettlementUncertain (backend @ '' settlement outcome is uncertain after reconnect'') rid)
      (settle_once rid charges) st"

definition kv_release :: "string \<Rightarrow> (exc \<Rightarrow> bool) \<Rightarrow> connection \<Rightarrow> string \<Rightarrow> kv \<Rightarrow> unit res \<times> kv" where
  "kv_release backend is_conn c rid st =
    kv_uncertain is_conn c (ReservationUncertain (backend @ '' reservation release is uncertain after reconnect'') rid)
      (release_once rid) st"

definition kv_renew :: "(exc \<Rightarrow> bool) \<Rightarrow> connection \<Rightarrow> string \<Rightarrow> decimal \<Rightarrow> kv \<Rightarrow> bool res \<times> kv" where
  "kv_renew is_conn c rid lease st = kv_reconnecting is_conn c (renew_once rid lease) st"

end
