(* ===== verification/Kv_Facts.thy ===== *)
theory Kv_Facts
  imports Kv Governance_Facts
begin

text \<open>
  The transactional store keeps the contract of a store: rows hold what \<open>put\<close> was given, up to the
  order of object keys, and the walks, seals, verification and imports proved over the contract hold
  for it too.
\<close>

section \<open>What a row holds\<close>

text \<open>The node read back from the row written for \<open>n\<close>.\<close>

definition stored :: "node \<Rightarrow> node" where
  "stored n = n\<lparr>payload := norm_dict (payload n), meta := norm_dict (meta n),
     result := (case result_text n of None \<Rightarrow> JNull | Some t \<Rightarrow> projr (json_loads t))\<rparr>"

lemma canonical_text_Inr: "canonical_text v = Inr t \<longleftrightarrow> identity_ok v \<and> t = json_text v"
  by (auto simp: canonical_text_def bindR_Inr_iff canonical_bytes_Inr)

lemma canonical_text_ok: "identity_ok v \<Longrightarrow> canonical_text v = Inr (json_text v)"
  by (simp add: canonical_text_Inr)

lemma json_norm_idem [simp]: "json_norm (json_norm v) = json_norm v"
proof (induction v)
  case (JDict d)
  let ?n = "map (\<lambda>(k, v). (k, json_norm v))"
  have "sort_key fst (?n (sort_key fst d)) = ?n (sort_key fst (sort_key fst d))" by (rule sort_key_map_snd)
  also have "sort_key fst (sort_key fst d) = sort_key fst d" by (rule sort_key_sorted) simp
  finally have "norm_dict (norm_dict d) = ?n (?n (sort_key fst d))" by (simp add: norm_dict_def)
  also have "\<dots> = ?n (sort_key fst d)" using JDict by (force simp: case_prod_unfold)
  finally show ?case by (simp add: norm_dict_def)
qed simp_all

lemma norm_dict_idem [simp]: "norm_dict (norm_dict d) = norm_dict d"
  using json_norm_idem [of "JDict d"] by simp

lemma stored_sel [simp]:
  "nid (stored n) = nid n" "parent (stored n) = parent n" "kind (stored n) = kind n" "attempt (stored n) = attempt n"
  "payload (stored n) = norm_dict (payload n)" "meta (stored n) = norm_dict (meta n)"
  "result_text (stored n) = result_text n" "result_digest (stored n) = result_digest n"
  by (simp_all add: stored_def)

lemma stored_same: "same_record (stored n) n"
  by (simp add: same_record_def)

lemma node_ok_parts:
  assumes "node_ok n"
  shows "core_ok n" "identity_ok (JDict (payload n))" "json_wf (JDict (payload n))"
    "json_serialisable (JDict (meta n))" "json_wf (JDict (meta n))"
    "\<And>t. result_text n = Some t \<Longrightarrow> \<exists>v. json_loads t = Inr v"
  using assms by (auto simp: node_ok_def node_wf_iff core_ok_def simp del: identity_ok.simps json_wf.simps json_serialisable.simps)

lemma stored_wf:
  assumes n: "node_ok n" shows "node_ok (stored n)"
proof -
  note p = node_ok_parts [OF n]
  have r: "result (stored n) = (case result_text n of None \<Rightarrow> JNull | Some t \<Rightarrow> projr (json_loads t))"
    by (simp add: stored_def)
  have norm: "identity_ok (JDict (norm_dict (payload n)))" "json_serialisable (JDict (norm_dict (meta n)))"
    "json_wf (JDict (norm_dict (payload n)))" "json_wf (JDict (norm_dict (meta n)))"
    using identity_ok_norm [of "JDict (payload n)"] json_serialisable_norm [of "JDict (meta n)"]
      json_wf_norm [OF p(3)] json_wf_norm [OF p(5)] p by (simp_all only: json_norm_JDict)
  have "core_ok (stored n)" using p(1) norm by (simp add: core_ok_def)
  then have "node_wf (stored n)"
    using n by (auto simp: node_ok_def node_wf_iff r split: option.splits)
  moreover have "json_wf (result (stored n))"
    using p(6) json_loads_wf by (auto simp: r split: option.split)
  ultimately show ?thesis using norm by (simp add: node_ok_def del: json_wf.simps)
qed

lemma stored_valid:
  assumes n: "node_ok n" shows "node_valid (stored n) = node_valid n"
proof -
  note p = node_ok_parts [OF n]
  have "identity_ok (JDict (norm_dict (payload n)))"
    using identity_ok_norm [of "JDict (payload n)"] p(2) by (simp only: json_norm_JDict)
  then have "expected_id (stored n) = expected_id n"
    using p(2) by (simp add: expected_id_def canonical_text_JDict del: identity_ok.simps)
  then show ?thesis by (simp add: node_valid_def)
qed

lemma from_storage_stored:
  assumes n: "node_ok n"
  shows "from_storage (nid n) (parent n) (kind n) (attempt n) (json_text (JDict (payload n)))
    (result_text n) (result_digest n) (json_text (JDict (meta n))) = Inr (stored n)"
proof -
  note p = node_ok_parts [OF n]
  have loads: "json_loads (json_text (JDict (payload n))) = Inr (JDict (norm_dict (payload n)))"
    "json_loads (json_text (JDict (meta n))) = Inr (JDict (norm_dict (meta n)))"
    using json_loads_text [OF p(2,3)] json_loads_dumped [OF p(4,5)] by simp_all
  have res: "(case result_text n of None \<Rightarrow> Inr JNull | Some t \<Rightarrow> json_loads t) = Inr (result (stored n))"
    using p(6) by (auto simp: stored_def split: option.split)
  have rec: "stored n = \<lparr>nid = nid n, parent = parent n, kind = kind n, attempt = attempt n,
      payload = norm_dict (payload n), result = result (stored n), result_digest = result_digest n,
      meta = norm_dict (meta n), result_text = result_text n\<rparr>" by (simp add: stored_def)
  have "post_init (stored n) = Inr (stored n)" using stored_wf [OF n] by (simp add: node_ok_def node_wf_def)
  with rec show ?thesis by (simp only: from_storage_def bindR_simps json.case loads res)
qed

definition row_text :: "node \<Rightarrow> string" where
  "row_text n = json_text (JDict [(''id'', JStr (nid n)), (''parent'', opt_str (parent n)), (''kind'', JStr (kind n)),
      (''attempt'', JInt (attempt n)), (''payload'', JStr (json_text (JDict (payload n)))), (''result'', opt_str (result_text n)),
      (''result_digest'', opt_str (result_digest n)), (''meta'', JStr (json_text (JDict (meta n))))])"

lemma opt_str_plain [simp]: "json_serialisable (opt_str x)" "json_wf (opt_str x)" "json_norm (opt_str x) = opt_str x"
  by (simp_all add: opt_str_def split: option.split)

lemma kv_node_text_ok: "node_ok n \<Longrightarrow> kv_node_text n = Inr (row_text n)"
  using node_ok_parts [of n]
  by (simp add: kv_node_text_def row_text_def canonical_text_ok json_dumps_def del: identity_ok.simps json_serialisable.simps(2))
    simp

lemma kv_optional_opt_str: "dget d k = Some (opt_str x) \<Longrightarrow> kv_optional d k m = Inr x"
  by (cases x) (simp_all add: kv_optional_def dget_or_def opt_str_def)

lemma kv_node_from_row:
  assumes n: "node_ok n" shows "kv_node_from_text (row_text n) = Inr (stored n)"
proof -
  let ?d = "[(''id'', JStr (nid n)), (''parent'', opt_str (parent n)), (''kind'', JStr (kind n)),
      (''attempt'', JInt (attempt n)), (''payload'', JStr (json_text (JDict (payload n)))), (''result'', opt_str (result_text n)),
      (''result_digest'', opt_str (result_digest n)), (''meta'', JStr (json_text (JDict (meta n))))]"
  have wf: "json_serialisable (JDict ?d)" "json_wf (JDict ?d)" by simp_all
  have "json_loads (row_text n) = Inr (JDict (norm_dict ?d))"
    unfolding row_text_def using json_loads_dumped [OF wf] by (simp only: json_norm_JDict)
  then have o: "kv_object (row_text n) ''node'' = Inr (norm_dict ?d)" by (simp add: kv_object_def)
  have g: "dget (norm_dict ?d) k = map_option json_norm (dget ?d k)" for k
    by (rule dget_norm_dict) simp
  have opt: "kv_optional (norm_dict ?d) ''parent'' m = Inr (parent n)"
    "kv_optional (norm_dict ?d) ''result'' m = Inr (result_text n)"
    "kv_optional (norm_dict ?d) ''result_digest'' m = Inr (result_digest n)" for m
    by (rule kv_optional_opt_str; simp add: g)+
  have str: "kv_string (norm_dict ?d) ''id'' = Inr (nid n)" "kv_string (norm_dict ?d) ''kind'' = Inr (kind n)"
    "kv_string (norm_dict ?d) ''payload'' = Inr (json_text (JDict (payload n)))"
    "kv_string (norm_dict ?d) ''meta'' = Inr (json_text (JDict (meta n)))"
    "kv_integer (norm_dict ?d) ''attempt'' = Inr (attempt n)"
    by (simp_all add: kv_string_def kv_integer_def g)
  show ?thesis
    unfolding kv_node_from_text_def o bindR_simps opt str from_storage_stored [OF n] by simp
qed

section \<open>The invariant\<close>

definition rows_ok :: "(string \<times> node) list \<Rightarrow> bool" where
  "rows_ok ns \<longleftrightarrow> distinct_keys ns \<and>
    (\<forall>p \<in> set ns. nid (snd p) = fst p \<and> node_ok (snd p) \<and> node_valid (snd p)) \<and> parents_first ns"

definition kv_decode :: "kv \<Rightarrow> (string \<times> node) list" where
  "kv_decode st = map (\<lambda>(i, t). (i, projr (kv_node_from_text t))) (kv_items st NODE_BUCKET)"

definition kv_nodes :: "kv \<Rightarrow> node_map" where
  "kv_nodes st = map_of (kv_decode st)"

definition kv_inv :: "kv \<Rightarrow> bool" where
  "kv_inv st \<longleftrightarrow> (\<forall>p \<in> set (kv_items st NODE_BUCKET). \<exists>n. kv_node_from_text (snd p) = Inr n) \<and> rows_ok (kv_decode st)"

lemma kv_items_put: "kv_items (kv_put b k v st) b' = (if b' = b then dset k v (kv_items st b) else kv_items st b')"
  by (simp add: kv_items_def kv_put_def dget_or_dset)

lemma kv_get_put: "kv_get (kv_put b k v st) b' k' = (if b' = b \<and> k' = k then Some v else kv_get st b' k')"
  by (simp add: kv_get_def kv_put_def dget_or_dset)

lemma kv_get_items: "kv_get st b k = dget (kv_items st b) k"
  by (simp add: kv_get_def kv_items_def)

lemma bucket_names [simp]:
  "SCHEMA_BUCKET \<noteq> NODE_BUCKET" "BUDGET_BUCKET \<noteq> NODE_BUCKET" "RESERVATION_BUCKET \<noteq> NODE_BUCKET"
  "WINDOW_BUCKET \<noteq> NODE_BUCKET" "BUDGET_BUCKET \<noteq> RESERVATION_BUCKET" "BUDGET_BUCKET \<noteq> WINDOW_BUCKET"
  "RESERVATION_BUCKET \<noteq> WINDOW_BUCKET" "NODE_BUCKET \<noteq> SCHEMA_BUCKET" "NODE_BUCKET \<noteq> BUDGET_BUCKET"
  "NODE_BUCKET \<noteq> RESERVATION_BUCKET" "NODE_BUCKET \<noteq> WINDOW_BUCKET" "RESERVATION_BUCKET \<noteq> BUDGET_BUCKET"
  "WINDOW_BUCKET \<noteq> BUDGET_BUCKET" "WINDOW_BUCKET \<noteq> RESERVATION_BUCKET"
  by (simp_all add: SCHEMA_BUCKET_def NODE_BUCKET_def BUDGET_BUCKET_def RESERVATION_BUCKET_def WINDOW_BUCKET_def)

lemma map_dset: "map (\<lambda>(i, t). (i, f t)) (dset k v d) = dset k (f v) (map (\<lambda>(i, t). (i, f t)) d)"
  by (induction d) auto

lemma kv_decode_put:
  "kv_decode (kv_put NODE_BUCKET i t st) = dset i (projr (kv_node_from_text t)) (kv_decode st)"
  by (simp add: kv_decode_def kv_items_put map_dset)

lemma map_of_map_snd: "map_of (map (\<lambda>(i, t). (i, f t)) d) i = map_option f (map_of d i)"
  by (induction d) auto

lemma kv_nodes_get: "kv_nodes st i = map_option (\<lambda>t. projr (kv_node_from_text t)) (kv_get st NODE_BUCKET i)"
  by (simp add: kv_nodes_def kv_decode_def kv_get_items map_of_map_snd)

lemma kv_read_node_nodes:
  assumes "kv_inv st"
  shows "kv_read_node st i = (case kv_nodes st i of None \<Rightarrow> Inl (KeyError i) | Some n \<Rightarrow> Inr n)"
proof (cases "kv_get st NODE_BUCKET i")
  case (Some t)
  then have "(i, t) \<in> set (kv_items st NODE_BUCKET)" by (auto simp: kv_get_items dest: map_of_SomeD)
  then obtain n where "kv_node_from_text t = Inr n" using assms unfolding kv_inv_def by force
  with Some show ?thesis by (simp add: kv_read_node_def kv_nodes_get)
qed (simp add: kv_read_node_def kv_nodes_get)

lemma rows_ok_snoc:
  assumes "rows_ok ns" "node_ok n" "node_valid n" "nid n \<notin> fst ` set ns" "\<forall>p. parent n = Some p \<longrightarrow> p \<in> fst ` set ns"
  shows "rows_ok (dset (nid n) n ns)"
  using assms by (auto simp: rows_ok_def dset_new parents_first_snoc)

lemma rows_ok_replace:
  assumes ok: "rows_ok ns" and m: "map_of ns i = Some m" and n: "node_ok n" "node_valid n" "same_record n m"
  shows "rows_ok (dset i n ns)"
proof -
  have "shape (dset i n ns) = shape ns" using m n(3) by (intro shape_dset) (simp_all add: same_record_def)
  then have "parents_first (dset i n ns)" using ok by (simp add: rows_ok_def parents_first_shape)
  moreover have "(i, m) \<in> set ns" using m by (rule map_of_SomeD)
  then have "nid n = i" using ok n(3) by (fastforce simp: rows_ok_def same_record_def)
  ultimately show ?thesis
    using ok n set_dset_subset [of i n ns] by (fastforce simp: rows_ok_def)
qed

lemma kv_inv_row:
  "kv_inv st \<Longrightarrow> kv_nodes st i = Some n \<Longrightarrow> nid n = i \<and> node_ok n \<and> node_valid n"
  unfolding kv_inv_def rows_ok_def kv_nodes_def by (drule map_of_SomeD) fastforce

lemma kv_forest: "kv_inv st \<Longrightarrow> forest (kv_nodes st)"
  unfolding kv_nodes_def by (rule parents_first_forest) (auto simp: kv_inv_def rows_ok_def)

lemma kv_closed: "kv_inv st \<Longrightarrow> parents_in (kv_nodes st)"
  unfolding kv_nodes_def by (rule parents_first_closed) (simp add: kv_inv_def rows_ok_def)

lemma kv_write_row:
  assumes inv: "kv_inv st" and n: "node_ok n" and ok: "rows_ok (dset i (stored n) (kv_decode st))"
  shows "kv_inv (kv_put NODE_BUCKET i (row_text n) st)"
    "kv_nodes (kv_put NODE_BUCKET i (row_text n) st) = (kv_nodes st)(i \<mapsto> stored n)"
proof -
  have "\<forall>p \<in> set (dset i (row_text n) (kv_items st NODE_BUCKET)). \<exists>m. kv_node_from_text (snd p) = Inr m"
    using inv set_dset_subset [of i "row_text n" "kv_items st NODE_BUCKET"] kv_node_from_row [OF n]
    unfolding kv_inv_def by fastforce
  then show "kv_inv (kv_put NODE_BUCKET i (row_text n) st)"
    using ok kv_node_from_row [OF n] by (simp add: kv_inv_def kv_items_put kv_decode_put)
  show "kv_nodes (kv_put NODE_BUCKET i (row_text n) st) = (kv_nodes st)(i \<mapsto> stored n)"
    using kv_node_from_row [OF n] by (simp add: kv_nodes_def kv_decode_put)
qed

lemma kv_add_row:
  assumes inv: "kv_inv st" and n: "node_ok n" "node_valid n" and fresh: "kv_nodes st (nid n) = None"
    and par: "\<forall>p. parent n = Some p \<longrightarrow> kv_nodes st p \<noteq> None"
  shows "kv_inv (kv_put NODE_BUCKET (nid n) (row_text n) st)"
    "kv_nodes (kv_put NODE_BUCKET (nid n) (row_text n) st) = (kv_nodes st)(nid n \<mapsto> stored n)"
proof -
  have "rows_ok (dset (nid (stored n)) (stored n) (kv_decode st))"
    using inv fresh par stored_wf [OF n(1)] stored_valid [OF n(1)] n(2)
    by (intro rows_ok_snoc) (simp_all add: kv_inv_def kv_nodes_def map_of_eq_None_iff)
  then show "kv_inv (kv_put NODE_BUCKET (nid n) (row_text n) st)"
    "kv_nodes (kv_put NODE_BUCKET (nid n) (row_text n) st) = (kv_nodes st)(nid n \<mapsto> stored n)"
    using kv_write_row [OF inv n(1)] by simp_all
qed

text \<open>Rewriting a row with new metadata.\<close>

lemma kv_rewrite_ok:
  assumes inv: "kv_inv st" and e: "kv_nodes st i = Some e" and md: "json_wf (JDict md)"
    and r: "kv_rewrite i e md st = Inr (u, st')"
  shows "kv_inv st' \<and> (\<exists>n'. kv_nodes st' = (kv_nodes st)(i \<mapsto> n') \<and> same_record n' e \<and> meta n' = norm_dict md)"
proof -
  have ok: "nid e = i" "node_ok e" "node_valid e" using kv_inv_row [OF inv e] by simp_all
  note p = node_ok_parts [OF ok(2)]
  obtain n' t where n': "json_serialisable (JDict md)" "from_storage (nid e) (parent e) (kind e) (attempt e)
      (json_text (JDict (payload e))) (result_text e) (result_digest e) (json_text (JDict md)) = Inr n'"
    and t: "kv_node_text n' = Inr t" and st': "st' = kv_put NODE_BUCKET i t st"
    using r p(2) by (auto simp: kv_rewrite_def bindR_Inr_iff canonical_text_Inr json_dumps_def
        simp del: identity_ok.simps json_serialisable.simps split: if_splits)
  have em: "node_ok (e\<lparr>meta := md\<rparr>)" "node_valid (e\<lparr>meta := md\<rparr>)"
    using node_ok_set_meta [OF ok(2), of md "e\<lparr>meta := md\<rparr>"] md n'(1) ok
    by (simp_all add: node_ok_def set_meta_wf del: json_wf.simps json_serialisable.simps)
  have n'': "n' = stored (e\<lparr>meta := md\<rparr>)"
    using from_storage_stored [OF em(1)] n'(2) by simp
  have n'ok: "node_ok n'" "node_valid n'"
    using stored_wf [OF em(1)] stored_valid [OF em(1)] em(2) by (simp_all add: n'')
  have tr: "t = row_text n'" using t kv_node_text_ok [OF n'ok(1)] by simp
  have same: "same_record (stored n') e" by (simp add: same_record_def n'')
  have "rows_ok (dset i (stored n') (kv_decode st))"
    using inv e same stored_wf [OF n'ok(1)] stored_valid [OF n'ok(1)] n'ok(2)
    by (intro rows_ok_replace [where m = e]) (simp_all add: kv_inv_def kv_nodes_def)
  from kv_write_row [OF inv n'ok(1) this] show ?thesis
    using same by (intro conjI exI [of _ "stored n'"]) (simp_all add: st' tr n'')
qed

lemma kv_rewrite_grows:
  assumes "kv_inv st" "kv_nodes st i = Some e" "json_wf (JDict md)" "kv_rewrite i e md st = Inr (u, st')"
  shows "kv_inv st' \<and> grows (kv_nodes st) (kv_nodes st') \<and> dom (kv_nodes st') = dom (kv_nodes st)"
proof -
  obtain n' where n': "kv_inv st'" "kv_nodes st' = (kv_nodes st)(i \<mapsto> n')" "same_record n' e"
    using kv_rewrite_ok [OF assms] by blast
  have "i \<in> dom (kv_nodes st)" using assms(2) by blast
  then show ?thesis using n' assms(2) by (simp add: insert_absorb grows_upd_same)
qed

section \<open>The operations\<close>

lemma kv_existing_inv:
  assumes inv: "kv_inv st" and n: "node_ok n" and e: "kv_nodes st (nid n) = Some e"
    and r: "kv_existing e n st = Inr (u, st')"
  shows "kv_inv st' \<and> grows (kv_nodes st) (kv_nodes st') \<and> dom (kv_nodes st') = dom (kv_nodes st)"
proof (cases "st' = st")
  case False
  obtain conflicts where c: "py_list (dget_or (meta e) ''result_conflicts'' (JList [])) = Inr conflicts"
    and w: "kv_rewrite (nid n) e (dset ''result_conflicts'' (JList (conflicts @ [conflict_record n])) (meta e)) st
      = Inr (u, st')"
    using r False by (auto simp: kv_existing_def bindR_Inr_iff split: if_splits)
  have "node_ok e" using kv_inv_row [OF inv e] by simp
  from kv_rewrite_grows [OF inv e conflicts_wf [OF this n c] w] show ?thesis .
qed (use inv in simp)

lemma kv_put_transaction_inv:
  assumes inv: "kv_inv st" and n: "node_ok n" "node_valid n" and r: "kv_put_transaction n now st = Inr (u, st')"
  shows "kv_inv st' \<and> grows (kv_nodes st) (kv_nodes st') \<and>
    dom (kv_nodes st') = insert (nid n) (dom (kv_nodes st)) \<and>
    (kv_nodes st (nid n) = None \<longrightarrow> (\<exists>m. kv_nodes st' (nid n) = Some m \<and> same_record m n))"
proof -
  have par: "\<forall>p. parent n = Some p \<longrightarrow> kv_nodes st p \<noteq> None"
    using r by (auto simp: kv_put_transaction_def bindR_Inr_iff kv_nodes_get split: option.splits)
  show ?thesis
  proof (cases "kv_get st NODE_BUCKET (nid n)")
    case None
    then have fresh: "kv_nodes st (nid n) = None" by (simp add: kv_nodes_get)
    have "st' = kv_put NODE_BUCKET (nid n) (row_text n) st"
      using r None kv_node_text_ok [OF n(1)] by (simp add: kv_put_transaction_def bindR_Inr_iff)
    with kv_add_row [OF inv n fresh par] fresh stored_same [of n] show ?thesis by (auto intro: grows_upd_new)
  next
    case (Some t)
    then have "kv_read_node st (nid n) = kv_node_from_text t" by (simp add: kv_read_node_def)
    moreover obtain e where e: "kv_nodes st (nid n) = Some e" using Some by (simp add: kv_nodes_get)
    ultimately have "kv_node_from_text t = Inr e" using kv_read_node_nodes [OF inv, of "nid n"] by simp
    then have "kv_existing e n st = Inr (u, st')" using r Some by (simp add: kv_put_transaction_def bindR_Inr_iff)
    from kv_existing_inv [OF inv n(1) e this] e show ?thesis by auto
  qed
qed

lemma kv_put_transaction_fresh:
  assumes inv: "kv_inv st" and n: "node_ok n" and fresh: "kv_nodes st (nid n) = None"
    and par: "\<forall>p. parent n = Some p \<longrightarrow> p \<in> dom (kv_nodes st)"
  shows "kv_put_transaction n now st = Inr ((), kv_put NODE_BUCKET (nid n) (row_text n) st)"
  using fresh par kv_node_text_ok [OF n]
  by (cases "parent n") (auto simp: kv_put_transaction_def kv_nodes_get)

lemma kv_update_transaction_inv:
  assumes inv: "kv_inv st" and p: "json_wf (JDict patch)" and r: "kv_update_transaction i patch now st = Inr (u, st')"
  shows "kv_inv st' \<and> grows (kv_nodes st) (kv_nodes st') \<and> dom (kv_nodes st') = dom (kv_nodes st)"
proof -
  obtain e where e: "kv_nodes st i = Some e" and w: "kv_rewrite i e (dmerge (meta e) patch) st = Inr (u, st')"
    using r kv_read_node_nodes [OF inv, of i]
    by (auto simp: kv_update_transaction_def bindR_Inr_iff split: option.splits)
  have "json_wf (JDict (meta e))" using kv_inv_row [OF inv e] by (simp add: node_ok_def)
  from kv_rewrite_grows [OF inv e json_wf_dmerge [OF this p] w] show ?thesis .
qed

lemma kv_all_nodes_ok: "kv_inv st \<Longrightarrow> kv_all_nodes st = Inr (map snd (kv_decode st))"
proof -
  assume inv: "kv_inv st"
  have "(\<lambda>(key, text). kv_node_from_text text) p = Inr (snd ((\<lambda>(i, t). (i, projr (kv_node_from_text t))) p))"
    if "p \<in> set (kv_items st NODE_BUCKET)" for p
    using inv that unfolding kv_inv_def by (force simp: case_prod_unfold)
  from mapR_Inr [OF this] show ?thesis by (simp add: kv_all_nodes_def kv_decode_def comp_def)
qed

lemma decoded_set: "kv_inv st \<Longrightarrow> n \<in> snd ` set (kv_decode st) \<longleftrightarrow> kv_nodes st (nid n) = Some n"
  unfolding kv_inv_def rows_ok_def kv_nodes_def by force

lemma decoded_ids: "kv_inv st \<Longrightarrow> map nid (map snd (kv_decode st)) = map fst (kv_decode st)"
  unfolding kv_inv_def rows_ok_def by auto

definition sorted_kids :: "node list \<Rightarrow> string \<Rightarrow> string list" where
  "sorted_kids ns i = map nid (sort_key (\<lambda>n. (kind n, nid n)) (filter (\<lambda>n. parent n = Some i) ns))"

lemma sorted_kids_ok:
  assumes inv: "kv_inv st"
  shows "distinct (sorted_kids (map snd (kv_decode st)) i) \<and> set (sorted_kids (map snd (kv_decode st)) i) = kids (kv_nodes st) i"
proof -
  let ?ns = "map snd (kv_decode st)"
  have d: "distinct (map nid ?ns)"
    unfolding decoded_ids [OF inv] using inv by (simp add: kv_inv_def rows_ok_def)
  have perm: "mset (sorted_kids ?ns i) = mset (map nid (filter (\<lambda>n. parent n = Some i) ?ns))"
    by (simp add: sorted_kids_def)
  have "distinct (map nid (filter (\<lambda>n. parent n = Some i) ?ns))" using d by (rule distinct_map_filter)
  then have "distinct (sorted_kids ?ns i)" using mset_eq_imp_distinct_iff [OF perm] by blast
  moreover have "set (sorted_kids ?ns i) = nid ` {n \<in> snd ` set (kv_decode st). parent n = Some i}"
    using mset_eq_setD [OF perm] by auto
  moreover have "\<dots> = kids (kv_nodes st) i"
  proof (intro equalityI subsetI)
    fix c assume "c \<in> nid ` {n \<in> snd ` set (kv_decode st). parent n = Some i}"
    then obtain n where "c = nid n" "kv_nodes st c = Some n" "parent n = Some i"
      using decoded_set [OF inv] by blast
    then show "c \<in> kids (kv_nodes st) i" by (simp add: kids_def edges_def)
  next
    fix c assume "c \<in> kids (kv_nodes st) i"
    then obtain n where n: "kv_nodes st c = Some n" "parent n = Some i" by (auto simp: kids_def edges_def)
    then have "nid n = c" using kv_inv_row [OF inv] by blast
    with n show "c \<in> nid ` {n \<in> snd ` set (kv_decode st). parent n = Some i}"
      using decoded_set [OF inv, of n] by blast
  qed
  ultimately show ?thesis by simp
qed

lemma kv_children_ok:
  "kv_inv st \<Longrightarrow> kv_children_of i st = Inr (sorted_kids (map snd (kv_decode st)) i)"
  by (simp add: kv_children_of_def kv_all_nodes_ok sorted_kids_def)

lemma fold_dset_nodes:
  "distinct (map nid ns) \<Longrightarrow> nid ` set ns \<inter> fst ` set d = {} \<Longrightarrow>
    fold (\<lambda>n d. dset (nid n) n d) ns d = d @ map (\<lambda>n. (nid n, n)) ns"
proof (induction ns arbitrary: d)
  case (Cons n ns)
  have "nid n \<notin> fst ` set d" using Cons.prems(2) by auto
  with Cons show ?case by (auto simp: dset_new)
qed simp

lemma kv_walk_loop:
  assumes inv: "kv_inv st"
  shows "kv_walk_nodes i st = map_option (\<lambda>(ns, e). case e of None \<Rightarrow> Inr ns | Some x \<Rightarrow> Inl x)
    (walk_loop (kv_read_node st) (\<lambda>i. kv_children_of i st) [i] [])"
proof -
  let ?ns = "map snd (kv_decode st)"
  have d: "distinct (map nid ?ns)"
    unfolding decoded_ids [OF inv] using inv by (simp add: kv_inv_def rows_ok_def)
  have nodes: "fold (\<lambda>n d. dset (nid n) n d) ?ns [] = map (\<lambda>n. (nid n, n)) ?ns"
    using fold_dset_nodes [OF d, of "[]"] by simp
  have dec: "map (\<lambda>n. (nid n, n)) ?ns = kv_decode st"
  proof -
    have "(nid (snd p), snd p) = p" if "p \<in> set (kv_decode st)" for p
      using inv that by (auto simp: kv_inv_def rows_ok_def)
    then show ?thesis by (simp add: map_idI)
  qed
  have get: "(\<lambda>i. case dget (kv_decode st) i of None \<Rightarrow> Inl (KeyError i) | Some n \<Rightarrow> Inr n) = kv_read_node st"
    using kv_read_node_nodes [OF inv] by (auto simp: kv_nodes_def fun_eq_iff)
  show ?thesis
    unfolding kv_walk_nodes_def kv_all_nodes_ok [OF inv] sum.case Let_def nodes dec get
      kv_children_ok [OF inv] sorted_kids_def ..
qed

lemma kv_rewrite_total:
  assumes "kv_inv st" "kv_nodes st i = Some n" "json_wf (JDict md)" "json_serialisable (JDict md)"
  shows "\<exists>st'. kv_rewrite i n md st = Inr ((), st')"
proof -
  have ok: "nid n = i" "node_ok n" using kv_inv_row [OF assms(1,2)] by simp_all
  note parts = node_ok_parts [OF ok(2)]
  have em: "node_ok (n\<lparr>meta := md\<rparr>)"
    using node_ok_set_meta [OF ok(2), of md "n\<lparr>meta := md\<rparr>"] assms(3,4) ok
    by (simp add: node_ok_def set_meta_wf del: json_wf.simps json_serialisable.simps)
  have "kv_rewrite i n md st = Inr ((), kv_put NODE_BUCKET i (row_text (stored (n\<lparr>meta := md\<rparr>))) st)"
    using from_storage_stored [OF em] kv_node_text_ok [OF stored_wf [OF em]] assms(4) parts(2)
    by (simp add: kv_rewrite_def canonical_text_ok json_dumps_def del: identity_ok.simps json_serialisable.simps)
  then show ?thesis by blast
qed

lemma kv_update_transaction_ok:
  assumes inv: "kv_inv st" and n: "kv_nodes st i = Some n" and p: "json_wf (JDict patch)" "json_serialisable (JDict patch)"
  shows "\<exists>st'. kv_update_transaction i patch now st = Inr ((), st')"
proof -
  have "node_ok n" using kv_inv_row [OF inv n] by simp
  note parts = node_ok_parts [OF this]
  have "\<exists>st'. kv_rewrite i n (dmerge (meta n) patch) st = Inr ((), st')"
    by (rule kv_rewrite_total [OF inv n json_wf_dmerge [OF parts(5) p(1)] json_serialisable_dmerge [OF parts(4) p(2)]])
  then show ?thesis using kv_read_node_nodes [OF inv, of i] n by (simp add: kv_update_transaction_def)
qed

lemma kv_roots_ok:
  assumes inv: "kv_inv st"
  shows "\<exists>rs. kv_root_ids st = Inr rs \<and> set rs = {i. \<exists>n. kv_nodes st i = Some n \<and> parent n = None}"
proof -
  have "nid ` {n \<in> snd ` set (kv_decode st). parent n = None} = {i. \<exists>n. kv_nodes st i = Some n \<and> parent n = None}"
  proof (intro equalityI subsetI)
    fix i assume "i \<in> {i. \<exists>n. kv_nodes st i = Some n \<and> parent n = None}"
    then obtain n where n: "kv_nodes st i = Some n" "parent n = None" by blast
    then have "nid n = i" using kv_inv_row [OF inv] by blast
    with n show "i \<in> nid ` {n \<in> snd ` set (kv_decode st). parent n = None}"
      using decoded_set [OF inv, of n] by blast
  qed (use decoded_set [OF inv] in blast)
  then show ?thesis by (simp add: kv_root_ids_def kv_all_nodes_ok [OF inv])
qed

text \<open>The transactional store meets the contract.\<close>

interpretation kvs: store_contract kv_ops kv_inv kv_nodes
proof unfold_locales
  fix st i n st' patch
  show "kv_inv st \<Longrightarrow> forest (kv_nodes st)" by (rule kv_forest)
  show "kv_inv st \<Longrightarrow> parents_in (kv_nodes st)" by (rule kv_closed)
  show "kv_inv st \<Longrightarrow> kv_nodes st i = Some n \<Longrightarrow> node_ok n \<and> node_valid n" using kv_inv_row by blast
  show "kv_inv st \<Longrightarrow> s_get kv_ops st i = (case kv_nodes st i of None \<Rightarrow> Inl (KeyError i) | Some n \<Rightarrow> Inr n)"
    by (simp add: kv_ops_def kv_read_node_nodes)
  show "s_exists kv_ops st i \<longleftrightarrow> kv_nodes st i \<noteq> None"
    by (simp add: kv_ops_def kv_nodes_get)
  show "kv_inv st \<Longrightarrow> \<exists>cs. s_children kv_ops st i = Inr cs \<and> distinct cs \<and> set cs = kids (kv_nodes st) i"
    using sorted_kids_ok [of st i] by (simp add: kv_ops_def kv_children_ok)
  show "s_walk kv_ops st i = walk_loop (s_get kv_ops st) (s_children kv_ops st) [i] []"
    if inv: "kv_inv st" and i: "i \<in> dom (kv_nodes st)"
  proof -
    have "\<exists>L. walk_loop (kv_read_node st) (\<lambda>i. kv_children_of i st) [i] [] = Some (L, None) \<and> preorder (kv_nodes st) i L"
    proof (rule walk_preorder [OF kv_forest [OF inv]])
      show "kv_read_node st j = Inr m" if "kv_nodes st j = Some m" for j m
        using that by (simp add: kv_read_node_nodes [OF inv])
      show "\<exists>cs. kv_children_of j st = Inr cs \<and> distinct cs \<and> set cs = kids (kv_nodes st) j" for j
        using sorted_kids_ok [OF inv] by (simp add: kv_children_ok [OF inv])
    qed (rule i)
    then show ?thesis by (auto simp: kv_ops_def kv_walk_loop [OF inv])
  qed
  have put: "s_put kv_ops n st = Inr st' \<longleftrightarrow> node_valid n \<and> kv_put_transaction n 0 st = Inr ((), st')"
    using validate_for_put_iff [of n "()"]
    by (cases "validate_for_put n") (auto simp: kv_ops_def kv_put_node_def kv_reconnecting_def kv_transact_def
        steady_def Let_def split: sum.splits)
  show "kv_inv st \<Longrightarrow> node_ok n \<Longrightarrow> s_put kv_ops n st = Inr st' \<Longrightarrow>
      kv_inv st' \<and> grows (kv_nodes st) (kv_nodes st') \<and> dom (kv_nodes st') = insert (nid n) (dom (kv_nodes st)) \<and>
      (kv_nodes st (nid n) = None \<longrightarrow> (\<exists>m. kv_nodes st' (nid n) = Some m \<and> same_record m n))"
    using kv_put_transaction_inv [of st n 0 "()" st'] unfolding put by blast
  show "\<exists>st'. s_put kv_ops n st = Inr st'"
    if "kv_inv st" "node_ok n" "node_valid n" "kv_nodes st (nid n) = None"
      "\<forall>p. parent n = Some p \<longrightarrow> p \<in> dom (kv_nodes st)"
  proof -
    have "validate_for_put n = Inr ()" using that(3) by (simp add: validate_for_put_iff)
    then show ?thesis using kv_put_transaction_fresh [OF that(1,2,4,5), of 0]
      by (simp add: kv_ops_def kv_put_node_def kv_reconnecting_def kv_transact_def steady_def Let_def)
  qed
  show "kv_inv st \<Longrightarrow> json_wf (JDict patch) \<Longrightarrow> s_update_meta kv_ops i patch st = Inr st' \<Longrightarrow>
      kv_inv st' \<and> grows (kv_nodes st) (kv_nodes st') \<and> dom (kv_nodes st') = dom (kv_nodes st)"
    using kv_update_transaction_inv [of st patch i 0 "()" st'] by (auto simp: kv_ops_def bindR_Inr_iff)
  show "\<exists>st'. s_update_meta kv_ops i patch st = Inr st'"
    if "kv_inv st" "kv_nodes st i = Some n" "json_wf (JDict patch)" "json_serialisable (JDict patch)"
    using kv_update_transaction_ok [OF that, of 0] by (auto simp: kv_ops_def)
  show "kv_inv st \<Longrightarrow> \<exists>rs. s_roots kv_ops st = Inr rs \<and> set rs = {i. \<exists>n. kv_nodes st i = Some n \<and> parent n = None}"
    by (simp add: kv_ops_def kv_roots_ok)
qed

end
