(* ===== verification/Kv_Retry.thy ===== *)
theory Kv_Retry
  imports Kv_Arbiter Kv_Facts
begin

text \<open>
  Writes that are sent twice. When the connection is lost after the commit, the store repeats the
  transaction; the results here say that the repetition changes nothing and answers as the first
  attempt did, for a node that is put and for a reservation that is made, settled or released.
\<close>

section \<open>Putting a node twice\<close>

lemma py_eq_norm_left:
  "json_norm v = json_norm v' \<Longrightarrow> json_wf v \<Longrightarrow> json_wf v' \<Longrightarrow> py_eq v w \<Longrightarrow> py_eq v' w"
proof (induction v arbitrary: v' w)
  case (JList xs)
  obtain xs' where "v' = JList xs'" "map json_norm xs = map json_norm xs'"
    using JList.prems(1) by (cases v') simp_all
  moreover obtain ys where "w = JList ys" using JList.prems(4) by (cases w) simp_all
  ultimately have v: "v' = JList xs'" "w = JList ys" "map json_norm xs = map json_norm xs'" by blast+
  have len: "length xs = length xs'" using v(3) by (metis length_map)
  have eq: "list_all2 py_eq xs ys" using JList.prems(4) v(2) by simp
  have "py_eq (xs' ! k) (ys ! k)" if k: "k < length xs" for k
  proof (rule JList.IH [OF nth_mem [OF k]])
    show "json_norm (xs ! k) = json_norm (xs' ! k)" using v(3) k len by (metis nth_map)
    show "json_wf (xs ! k)" "json_wf (xs' ! k)" using JList.prems(2,3) v(1) k len by simp_all
    show "py_eq (xs ! k) (ys ! k)" using eq k by (simp add: list_all2_conv_all_nth)
  qed
  then show ?case using eq len by (simp add: v(1,2) list_all2_conv_all_nth)
next
  case (JDict d)
  obtain d' where "v' = JDict d'" "norm_dict d = norm_dict d'"
    using JDict.prems(1) by (cases v') simp_all
  moreover obtain e where "w = JDict e" using JDict.prems(4) by (cases w) simp_all
  ultimately have v: "v' = JDict d'" "w = JDict e" "norm_dict d = norm_dict d'" by blast+
  have "length (norm_dict x) = length x" for x by (simp add: norm_dict_def)
  then have len: "length d = length d'" using v(3) by metis
  have wf: "distinct_keys d" "distinct_keys d'" using JDict.prems(2,3) v(1) by simp_all
  have eq: "length d = length e" "\<forall>p \<in> set d. case map_of e (fst p) of None \<Rightarrow> False | Some x \<Rightarrow> py_eq (snd p) x"
    using JDict.prems(4) v(2) by (auto simp: case_prod_unfold)
  have "case map_of e k of None \<Rightarrow> False | Some x \<Rightarrow> py_eq u' x" if m: "(k, u') \<in> set d'" for k u'
  proof -
    have "(k, json_norm u') \<in> set (norm_dict d)" using m v(3) in_norm_dict by metis
    then obtain u where u: "(k, u) \<in> set d" "json_norm u = json_norm u'" by (auto simp: in_norm_dict)
    then obtain x where x: "map_of e k = Some x" "py_eq u x" using eq(2) by (fastforce split: option.splits)
    have "json_wf u" "json_wf u'" using JDict.prems(2,3) u(1) m v(1) by auto
    with JDict.IH [OF u(1), of u u' x] u(2) x show ?thesis by simp
  qed
  then show ?case using len eq(1) by (simp add: v(1,2)) blast
next
  case (JBool b)
  then show ?case by (cases v') simp_all
next
  case (JInt i)
  then show ?case by (cases v') simp_all
next
  case (JFloat f)
  then show ?case by (cases v') simp_all
qed (case_tac v'; simp)+

lemma kv_put_now: "kv_put_transaction n now st = kv_put_transaction n now' st"
  by (simp add: kv_put_transaction_def)

lemma identity_eq_same:
  assumes "identity_eq e n" "same_record e' e" "node_ok e" "node_ok e'" shows "identity_eq e' n"
  using assms py_eq_norm_left [of "JDict (payload e)" "JDict (payload e')" "JDict (payload n)"] node_ok_parts(3)
  unfolding identity_eq_def same_record_def by metis

lemma kv_put_again_row:
  assumes inv: "kv_inv st" and e: "kv_nodes st (nid n) = Some e" and par: "parent n = parent e"
  shows "kv_put_transaction n now st = kv_existing e n st"
proof -
  have "\<forall>p. parent n = Some p \<longrightarrow> kv_get st NODE_BUCKET p \<noteq> None"
    using parents_inD [OF kv_closed [OF inv] e] par by (auto simp: kv_nodes_get)
  moreover obtain t where t: "kv_get st NODE_BUCKET (nid n) = Some t" using e by (auto simp: kv_nodes_get)
  moreover have "kv_node_from_text t = Inr e"
    using kv_read_node_nodes [OF inv, of "nid n"] t e by (simp add: kv_read_node_def)
  ultimately show ?thesis by (cases "parent n") (simp_all add: kv_put_transaction_def)
qed

lemma conflict_kept:
  assumes c: "py_list (dget_or md ''result_conflicts'' (JList [])) = Inr conflicts" and wf: "json_wf (conflict_record n)"
    and md: "distinct_keys md" and m: "md' = norm_dict (dset ''result_conflicts'' (JList (conflicts @ [conflict_record n])) md)"
  shows "\<exists>cs. py_list (dget_or md' ''result_conflicts'' (JList [])) = Inr cs \<and> list_ex (\<lambda>c. py_eq c (conflict_record n)) cs"
proof -
  have "dget md' ''result_conflicts'' = Some (JList (map json_norm (conflicts @ [conflict_record n])))"
    using md by (simp add: m dget_norm_dict)
  moreover have "py_eq (json_norm (conflict_record n)) (conflict_record n)"
    by (intro py_eq_norm json_wf_norm wf) simp
  ultimately show ?thesis by (simp add: dget_or_def py_list_def)
qed

lemma kv_put_idempotent:
  assumes inv: "kv_inv st" and n: "node_ok n" "node_valid n" and r: "kv_put_transaction n now st = Inr (u, st')"
  shows "kv_put_transaction n now' st' = Inr ((), st')"
proof -
  have inv': "kv_inv st'" using kv_put_transaction_inv [OF inv n r] by simp
  have par: "\<forall>p. parent n = Some p \<longrightarrow> kv_nodes st p \<noteq> None"
    using r by (auto simp: kv_put_transaction_def bindR_Inr_iff kv_nodes_get split: option.splits)
  show ?thesis
  proof (cases "kv_nodes st (nid n)")
    case None
    have st': "st' = kv_put NODE_BUCKET (nid n) (row_text n) st"
      using r kv_put_transaction_fresh [OF inv n(1) None, of now] par by auto
    have e: "kv_nodes st' (nid n) = Some (stored n)" using kv_add_row(2) [OF inv n None par] by (simp add: st')
    have "py_eq (JDict (payload (stored n))) (JDict (payload n))"
    proof (rule py_eq_norm)
      show "json_norm (JDict (payload (stored n))) = json_norm (JDict (payload n))" by simp
    qed (use node_ok_parts(3) [OF n(1)] node_ok_parts(3) [OF stored_wf [OF n(1)]] in blast)+
    then have "kv_existing (stored n) n st' = Inr ((), st')" by (simp add: kv_existing_def identity_eq_def)
    with kv_put_again_row [OF inv' e] show ?thesis by simp
  next
    case (Some e)
    have e: "nid e = nid n" "node_ok e" using kv_inv_row [OF inv Some] by simp_all
    have x: "kv_existing e n st = Inr (u, st')"
    proof -
      obtain t where t: "kv_get st NODE_BUCKET (nid n) = Some t" using Some by (auto simp: kv_nodes_get)
      then have "kv_node_from_text t = Inr e"
        using kv_read_node_nodes [OF inv, of "nid n"] Some by (simp add: kv_read_node_def)
      then show ?thesis using r t by (simp add: kv_put_transaction_def bindR_Inr_iff)
    qed
    then have ideq: "identity_eq e n" by (auto simp: kv_existing_def split: if_splits)
    then have pe: "parent n = parent e" by (simp add: identity_eq_def)
    show ?thesis
    proof (cases "st' = st")
      case True
      then have "kv_existing e n st' = Inr ((), st')" using x by simp
      then show ?thesis using kv_put_again_row [OF inv Some pe] True by simp
    next
      case False
      obtain conflicts where res: "result_text n \<noteq> None" "result_text n \<noteq> result_text e"
        and c: "py_list (dget_or (meta e) ''result_conflicts'' (JList [])) = Inr conflicts"
        and w: "kv_rewrite (nid n) e (dset ''result_conflicts'' (JList (conflicts @ [conflict_record n])) (meta e)) st
          = Inr (u, st')"
        using x False by (auto simp: kv_existing_def bindR_Inr_iff split: if_splits)
      obtain n' where n': "kv_nodes st' (nid n) = Some n'" "same_record n' e"
        "meta n' = norm_dict (dset ''result_conflicts'' (JList (conflicts @ [conflict_record n])) (meta e))"
        using kv_rewrite_ok [OF inv Some conflicts_wf [OF e(2) n(1) c] w] by auto
      have "node_ok n'" using kv_inv_row [OF inv' n'(1)] by simp
      then have id': "identity_eq n' n" by (rule identity_eq_same [OF ideq n'(2) e(2)])
      have "json_wf (conflict_record n)"
        using n(1) by (simp add: conflict_record_def node_ok_def split: option.split)
      from conflict_kept [OF c this _ n'(3)] e(2)
      have "kv_existing n' n st' = Inr ((), st')"
        using id' res n'(2) by (auto simp: kv_existing_def same_record_def node_ok_def)
      moreover have "parent n = parent n'" using pe n'(2) by (simp add: same_record_def)
      ultimately show ?thesis using kv_put_again_row [OF inv' n'(1)] by simp
    qed
  qed
qed

text \<open>A connection whose first attempt may be lost, and whose second holds.\<close>

definition recovers :: "(exc \<Rightarrow> bool) \<Rightarrow> connection \<Rightarrow> bool" where
  "recovers is_conn c \<longleftrightarrow> cn_reconnect c = None \<and> at_link (cn_second c) = Up \<and>
    (case at_link (cn_first c) of Up \<Rightarrow> True | Lost_before e \<Rightarrow> is_conn e | Lost_after e \<Rightarrow> is_conn e)"

lemma reconnecting_once:
  assumes c: "recovers is_conn c" and same: "\<And>t t' s. f t s = f t' s"
    and again: "\<And>x st'. f 0 st = Inr (x, st') \<Longrightarrow> f 0 st' = Inr (x, st')"
    and own: "\<And>e. f 0 st = Inl e \<Longrightarrow> \<not> is_conn e"
  shows "kv_reconnecting is_conn c f st = kv_reconnecting is_conn steady f st"
proof -
  have t: "f (at_now (cn_first c)) s = f 0 s" "f (at_now (cn_second c)) s = f 0 s" for s by (rule same)+
  show ?thesis
  proof (cases "f 0 st")
    case (Inl e)
    then show ?thesis using c own [OF Inl]
      by (auto simp: t Inl recovers_def kv_reconnecting_def kv_transact_def steady_def Let_def split: link.splits)
  next
    case (Inr p)
    obtain x st' where p: "p = (x, st')" by (cases p)
    then show ?thesis using c again [of x st'] p
      by (auto simp: t Inr recovers_def kv_reconnecting_def kv_transact_def steady_def Let_def split: link.splits)
  qed
qed

text \<open>
  C23. A put is applied once even when the connection is lost: if the first attempt fails before or
  after its commit and the second one gets through, the result and the stored rows are those of a
  single put over a connection that held. In particular a conflicting result is recorded once.
\<close>

theorem kv_put_exactly_once:
  assumes "kv_inv st" "node_ok n" "recovers is_conn c"
    "\<And>e. kv_put_transaction n 0 st = Inl e \<Longrightarrow> \<not> is_conn e"
  shows "kv_put_node is_conn c n st = kv_put_node is_conn steady n st"
proof (cases "validate_for_put n")
  case (Inr u)
  then have v: "node_valid n" by (simp add: validate_for_put_iff)
  have "kv_reconnecting is_conn c (kv_put_transaction n) st = kv_reconnecting is_conn steady (kv_put_transaction n) st"
  proof (rule reconnecting_once [OF assms(3) kv_put_now _ assms(4)])
    show "kv_put_transaction n 0 st' = Inr (x, st')" if "kv_put_transaction n 0 st = Inr (x, st')" for x st'
      using kv_put_idempotent [OF assms(1,2) v that] by simp
  qed
  then show ?thesis using Inr by (simp add: kv_put_node_def)
qed (simp add: kv_put_node_def)

lemma kv_inv_empty: "kv_inv []"
  by (simp add: kv_inv_def kv_items_def dget_or_def kv_decode_def rows_ok_def)

lemma kv_put_exactly_once_witness:
  "kv_put_node (\<lambda>e. e = Foreign ''ConnectionError'' False)
     \<lparr>cn_first = \<lparr>at_link = Lost_after (Foreign ''ConnectionError'' False), at_now = 0\<rparr>, cn_reconnect = None,
      cn_second = \<lparr>at_link = Up, at_now = 0\<rparr>\<rparr> demo_root [] =
   kv_put_node (\<lambda>e. e = Foreign ''ConnectionError'' False) steady demo_root []"
proof (rule kv_put_exactly_once [OF kv_inv_empty demo_nodes_ok(1)])
  show "\<not> e = Foreign ''ConnectionError'' False" if "kv_put_transaction demo_root 0 [] = Inl e" for e
    using that kv_put_transaction_fresh [OF kv_inv_empty demo_nodes_ok(1), of 0]
    by (simp add: kv_nodes_get kv_get_def dget_or_def demo_root_def)
qed (simp add: recovers_def)

end
