(* ===== verification/Kv_Ledger.thy ===== *)
theory Kv_Ledger
  imports Kv_Retry
begin

text \<open>
  What the arbiter of the transactional store guarantees: a reservation is admitted only within
  every limit, a refused one leaves no reservation, and a settlement or a retry counts once.
\<close>

section \<open>Keys and texts\<close>

lemma compound_key_Inr: "compound_key ks = Inr k \<longleftrightarrow> k = json_text (JList (map JStr ks))"
  by (auto simp: compound_key_def canonical_text_Inr)

lemma compound_key_ok [simp]: "compound_key ks = Inr (json_text (JList (map JStr ks)))"
  by (simp add: compound_key_Inr del: json_text.simps)

lemma compound_key_inject: "json_text (JList (map JStr ks)) = json_text (JList (map JStr ls)) \<longleftrightarrow> ks = ls"
proof -
  have "inj_on JStr UNIV" by (rule injI) simp
  then show ?thesis
    using json_text_inject [of "JList (map JStr ks)" "JList (map JStr ls)"]
    by (simp add: comp_def inj_on_def)
qed

lemma kv_object_text: "json_serialisable (JDict d) \<Longrightarrow> json_wf (JDict d) \<Longrightarrow> kv_object (json_text (JDict d)) l = Inr (norm_dict d)"
  using json_loads_dumped [of "JDict d"] by (simp add: kv_object_def)

lemma kv_object_plain:
  assumes "kv_object t l = Inr d" shows "json_serialisable (JDict d)" "json_wf (JDict d)" "distinct_keys d"
proof -
  have "json_loads t = Inr (JDict d)"
    using assms by (auto simp: kv_object_def split: sum.splits json.splits exc.splits)
  then have "json_plain (JDict d)" by (rule json_loads_plain)
  then show "json_serialisable (JDict d)" "json_wf (JDict d)" using json_plain_wf by blast+
  then show "distinct_keys d" by simp
qed

lemma json_dumps_Inr: "json_dumps v = Inr t \<longleftrightarrow> json_serialisable v \<and> t = json_text v"
  by (auto simp: json_dumps_def)

lemma text_and_digest_ok:
  "identity_ok v \<Longrightarrow> text_and_digest v = Inr (json_text v, sha256_hex (utf8_encode (json_text v)))"
  by (simp add: text_and_digest_def canonical_bytes_ok canonical_text_ok)

lemma decimals_json_ok [simp]: "identity_ok (decimals_json d)"
  by (auto simp: decimals_json_def)

section \<open>Admission\<close>

definition settled_amount :: "kv \<Rightarrow> string \<Rightarrow> string \<Rightarrow> decimal res" where
  "settled_amount st scope m = bindR (compound_key [scope, m]) (\<lambda>key.
     case kv_get st BUDGET_BUCKET key of None \<Rightarrow> Inr 0 | Some s \<Rightarrow> decimal_text s)"

definition row_fits :: "jdict list \<Rightarrow> kv \<Rightarrow> budget_row \<Rightarrow> bool" where
  "row_fits active st row \<longleftrightarrow> (case row of (r, m, l) \<Rightarrow> \<exists>settled reserved.
    settled_amount st (br_scope_id r) m = Inr settled \<and>
    active_amount active ''budget'' (br_scope_id r) m = Inr reserved \<and>
    dec_val settled + dec_val reserved + dec_val (dget_or (br_estimates r) m 0) \<le> dec_val l)"

text \<open>The rows of other keys and of other buckets stay as they are.\<close>

definition same_but :: "string set \<Rightarrow> kv \<Rightarrow> kv \<Rightarrow> bool" where
  "same_but keys st st' \<longleftrightarrow> (\<forall>k. k \<notin> keys \<longrightarrow> kv_get st' BUDGET_BUCKET k = kv_get st BUDGET_BUCKET k) \<and>
    (\<forall>b. b \<noteq> BUDGET_BUCKET \<longrightarrow> kv_items st' b = kv_items st b)"

lemma check_budget_row_None:
  assumes "check_budget_row active row st = Inr (None, st')"
  shows "row_fits active st' row"
  using assms
  by (auto simp: check_budget_row_def row_fits_def settled_amount_def bindR_Inr_iff Let_def kv_get_put dec_less_iff
      split: prod.splits if_splits option.splits)

definition row_key :: "budget_row \<Rightarrow> string \<times> string" where
  "row_key row = (case row of (r, m, l) \<Rightarrow> (br_scope_id r, m))"

definition key_text :: "string \<times> string \<Rightarrow> string" where
  "key_text p = json_text (JList (map JStr [fst p, snd p]))"

lemma key_text_inject: "key_text p = key_text q \<longleftrightarrow> p = q"
  unfolding key_text_def compound_key_inject by (cases p; cases q) simp

lemma check_budget_row_same:
  "check_budget_row active row st = Inr (x, st') \<Longrightarrow> same_but {key_text (row_key row)} st st'"
  by (auto simp: check_budget_row_def same_but_def bindR_Inr_iff Let_def kv_get_put kv_items_put key_text_def row_key_def
      split: prod.splits if_splits)

lemma row_fits_cong:
  "kv_get st' BUDGET_BUCKET (key_text (row_key row)) = kv_get st BUDGET_BUCKET (key_text (row_key row)) \<Longrightarrow>
    row_fits active st' row = row_fits active st row"
  by (cases row) (simp add: row_fits_def settled_amount_def key_text_def row_key_def)

lemma check_budget_rows_same:
  "check_budget_rows active rows st = Inr (x, st') \<Longrightarrow> same_but (key_text ` row_key ` set rows) st st'"
proof (induction rows arbitrary: st)
  case (Cons row rows)
  obtain y st1 where y: "check_budget_row active row st = Inr (y, st1)"
    and r: "(case y of Some c \<Rightarrow> Inr (Some c, st1) | None \<Rightarrow> check_budget_rows active rows st1) = Inr (x, st')"
    using Cons.prems by (auto simp: bindR_Inr_iff)
  note s1 = check_budget_row_same [OF y]
  show ?case
  proof (cases y)
    case None
    then have "same_but (key_text ` row_key ` set rows) st1 st'" using r Cons.IH by simp
    with s1 show ?thesis by (simp add: same_but_def)
  next
    case (Some c)
    then show ?thesis using r s1 by (simp add: same_but_def)
  qed
qed (simp add: same_but_def)

lemma check_budget_rows_fit:
  "check_budget_rows active rows st = Inr (None, st') \<Longrightarrow> distinct (map row_key rows) \<Longrightarrow> row \<in> set rows \<Longrightarrow>
    row_fits active st' row"
proof (induction rows arbitrary: st)
  case (Cons r rows)
  obtain z st1 where z: "check_budget_row active r st = Inr (z, st1)"
    "(case z of Some c \<Rightarrow> Inr (Some c, st1) | None \<Rightarrow> check_budget_rows active rows st1) = Inr (None, st')"
    using Cons.prems(1) by (auto simp: bindR_Inr_iff)
  then have y: "check_budget_row active r st = Inr (None, st1)" and rest: "check_budget_rows active rows st1 = Inr (None, st')"
    by (cases z; simp)+
  show ?case
  proof (cases "row = r")
    case True
    have "row_key r \<notin> row_key ` set rows" using Cons.prems(2) by simp
    then have "key_text (row_key r) \<notin> key_text ` row_key ` set rows" by (auto simp: key_text_inject)
    then have "kv_get st' BUDGET_BUCKET (key_text (row_key r)) = kv_get st1 BUDGET_BUCKET (key_text (row_key r))"
      using check_budget_rows_same [OF rest] by (simp add: same_but_def)
    from row_fits_cong [OF this] check_budget_row_None [OF y] show ?thesis unfolding True by blast
  next
    case False
    then show ?thesis using Cons.IH [OF rest] Cons.prems by simp
  qed
qed simp

lemma kv_items_delete: "b \<noteq> b' \<Longrightarrow> kv_items (kv_delete b k st) b' = kv_items st b'"
  by (simp add: kv_items_def kv_delete_def dget_or_dset)

lemma live_events_same:
  "live_events now rows st = Inr (es, st') \<Longrightarrow> b \<noteq> WINDOW_BUCKET \<Longrightarrow> kv_items st' b = kv_items st b"
proof (induction rows arbitrary: st es)
  case (Cons p rows)
  obtain key t where p: "p = (key, t)" by (cases p)
  obtain st1 fs where "live_events now rows st1 = Inr (fs, st')" "kv_items st1 b = kv_items st b"
    using Cons.prems unfolding p by (auto simp: bindR_Inr_iff kv_items_delete split: if_splits)
  then show ?case using Cons.IH Cons.prems(2) by metis
qed simp

lemma check_budget_rows_refusal: "check_budget_rows active rows st = Inr (Some c, st') \<Longrightarrow> \<not> rc_ok c"
proof (induction rows arbitrary: st)
  case (Cons row rows)
  then obtain y st1 where y: "check_budget_row active row st = Inr (y, st1)"
    "(case y of Some c \<Rightarrow> Inr (Some c, st1) | None \<Rightarrow> check_budget_rows active rows st1) = Inr (Some c, st')"
    by (auto simp: bindR_Inr_iff)
  then show ?case using Cons.IH
    by (auto simp: check_budget_row_def bindR_Inr_iff Let_def split: option.splits prod.splits if_splits)
qed simp

lemma check_windows_refusal: "check_windows now active events ws = Inr (Some c) \<Longrightarrow> \<not> rc_ok c"
  by (induction ws) (auto simp: bindR_Inr_iff Let_def split: if_splits)

text \<open>The cases of a successful call with a fresh id.\<close>

lemma reserve_once_cases:
  assumes r: "reserve_once rid budgets windows lease now st = Inr (c, st')" and fresh: "kv_get st RESERVATION_BUCKET rid = None"
  obtains (refused) "\<not> rc_ok c" "kv_items st' RESERVATION_BUCKET = kv_items st RESERVATION_BUCKET"
  | (admitted) active st1 events st2 req digest t where
      "reservation_request budgets windows lease = Inr (req, digest)" "active_reservations now st = Inr active"
      "check_budget_rows active (sort_key (\<lambda>(r, m, l). (br_scope_id r, m)) (budget_rows budgets)) st = Inr (None, st1)"
      "live_events now (kv_items st1 WINDOW_BUCKET) st1 = Inr (events, st2)"
      "check_windows now active events (sort_key wr_ledger_key windows) = Inr None"
      "json_dumps (JDict (reservation_record digest req now lease
                    (map budget_detail (budget_rows budgets) @ map window_detail windows))) = Inr t"
      "c = reservation_ok" "st' = kv_put RESERVATION_BUCKET rid t st2"
proof -
  obtain req digest active x st1 where q: "reservation_request budgets windows lease = Inr (req, digest)"
    "active_reservations now st = Inr active"
    "check_budget_rows active (sort_key (\<lambda>(r, m, l). (br_scope_id r, m)) (budget_rows budgets)) st = Inr (x, st1)"
    and r1: "(case x of Some c \<Rightarrow> Inr (c, st1) | None \<Rightarrow>
      bindR (live_events now (kv_items st1 WINDOW_BUCKET) st1) (\<lambda>(events, st2).
            bindR (check_windows now active events (sort_key wr_ledger_key windows)) (\<lambda>refusal.
            case refusal of Some c \<Rightarrow> Inr (c, st2)
            | None \<Rightarrow>
                bindR (json_dumps (JDict (reservation_record digest req now lease
                    (map budget_detail (budget_rows budgets) @ map window_detail windows)))) (\<lambda>t.
                Inr (reservation_ok, kv_put RESERVATION_BUCKET rid t st2))))) = Inr (c, st')"
    using r fresh by (auto simp: reserve_once_def bindR_Inr_iff)
  have s1: "kv_items st1 b = kv_items st b" if "b \<noteq> BUDGET_BUCKET" for b
    using check_budget_rows_same [OF q(3)] that by (simp add: same_but_def)
  show thesis
  proof (cases x)
    case (Some c')
    then have "\<not> rc_ok c'" using check_budget_rows_refusal [OF q(3) [unfolded Some]] by simp
    then show ?thesis using refused r1 Some s1 by simp
  next
    case None
    then obtain events st2 y where e: "live_events now (kv_items st1 WINDOW_BUCKET) st1 = Inr (events, st2)"
      "check_windows now active events (sort_key wr_ledger_key windows) = Inr y"
      and r2: "(case y of Some c \<Rightarrow> Inr (c, st2)
            | None \<Rightarrow>
                bindR (json_dumps (JDict (reservation_record digest req now lease
                    (map budget_detail (budget_rows budgets) @ map window_detail windows)))) (\<lambda>t.
                Inr (reservation_ok, kv_put RESERVATION_BUCKET rid t st2))) = Inr (c, st')"
      using r1 by (auto simp: bindR_Inr_iff)
    show ?thesis
    proof (cases y)
      case (Some c')
      then show ?thesis using refused r2 check_windows_refusal [OF e(2) [unfolded Some]] live_events_same [OF e(1)] s1 by simp
    next
      case None
      then show ?thesis using admitted [OF q(1,2) _ e(1)] e(2) q(3) \<open>x = None\<close> r2 by (auto simp: bindR_Inr_iff)
    qed
  qed
qed

lemma check_windows_fit:
  "check_windows now active events ws = Inr None \<Longrightarrow> w \<in> set ws \<Longrightarrow> \<exists>settled reserved.
    window_settled now events w = Inr settled \<and> active_amount active ''window'' (wr_ledger_key w) (wr_meter w) = Inr reserved \<and>
    dec_val settled + dec_val reserved + dec_val (wr_amount w) \<le> dec_val (wr_limit w)"
proof (induction ws)
  case (Cons v ws)
  obtain settled reserved where v: "window_settled now events v = Inr settled"
    "active_amount active ''window'' (wr_ledger_key v) (wr_meter v) = Inr reserved"
    "\<not> dec_less (wr_limit v - settled - reserved) (wr_amount v)" "check_windows now active events ws = Inr None"
    using Cons.prems(1) by (auto simp: bindR_Inr_iff Let_def split: if_splits)
  show ?case
  proof (cases "w = v")
    case True
    with v(1-3) show ?thesis by (simp add: dec_less_iff algebra_simps)
  qed (use Cons v(4) in auto)
qed simp


definition demo_budget :: budget_reservation where
  "demo_budget = \<lparr>br_scope_id = ''s'', br_limits = [(''steps'', Dec 3 0)], br_baseline = [], br_estimates = [(''steps'', Dec 1 0)]\<rparr>"

lemma reserve_empty:
  assumes "budget_rows budgets = [(r, m, l)]" "br_baseline r = []" "dec_val (dget_or (br_estimates r) m 0) \<le> dec_val l"
  shows "\<exists>st'. reserve_once rid budgets [] lease now [] = Inr (reservation_ok, st') \<and>
    kv_get st' BUDGET_BUCKET (key_text (br_scope_id r, m)) = Some (dec_str 0)"
proof -
  have rq: "\<exists>t d. reservation_request budgets [] lease = Inr (t, d)"
    by (auto simp: reservation_request_def reservation_document_def text_and_digest_ok)
  have act: "active_reservations now [] = Inr []"
    by (simp add: active_reservations_def kv_items_def dget_or_def)
  let ?st = "kv_put BUDGET_BUCKET (key_text (br_scope_id r, m)) (dec_str 0) []"
  have "check_budget_row [] (r, m, l) [] = Inr (None, ?st)"
    using assms(2,3)
    by (simp add: check_budget_row_def kv_get_def dget_or_def Let_def active_amount_def dec_less_iff key_text_def)
  then have rows: "check_budget_rows [] (sort_key (\<lambda>(r, m, l). (br_scope_id r, m)) (budget_rows budgets)) [] = Inr (None, ?st)"
    by (simp add: assms(1))
  have "kv_items ?st WINDOW_BUCKET = []"
    by (simp add: kv_items_put) (simp add: kv_items_def dget_or_def)
  with rq act rows show ?thesis
    by (auto simp: reserve_once_def kv_get_def [of "[]"] dget_or_def [of "[]"] json_dumps_def reservation_record_def
        budget_detail_def assms(1) kv_get_put)
qed

lemma demo_budget_rows: "budget_rows [demo_budget] = [(demo_budget, ''steps'', Dec 3 0)]"
  by (simp add: budget_rows_def demo_budget_def)


section \<open>Answers to a retry\<close>

lemma reservation_record_ok:
  assumes "py_float now = now" "\<forall>w \<in> set windows. py_float (wr_seconds w) = wr_seconds w"
  shows "json_serialisable (JDict (reservation_record digest t now lease (map budget_detail rows @ map window_detail windows)))"
    "json_wf (JDict (reservation_record digest t now lease (map budget_detail rows @ map window_detail windows)))"
  using assms
  by (auto simp: reservation_record_def budget_detail_def window_detail_def float_add_def)

lemma retry_after_reserve:
  assumes r: "reserve_once rid budgets windows lease now st = Inr (c, st')" "rc_ok c"
    and fresh: "kv_get st RESERVATION_BUCKET rid = None"
    and fl: "py_float now = now" "\<forall>w \<in> set windows. py_float (wr_seconds w) = wr_seconds w"
    and alive: "dec_less later (float_add now lease)"
  shows "reserve_once rid budgets windows lease later st' = Inr (reservation_ok, st')"
  using r(1) fresh
proof (cases rule: reserve_once_cases)
  case (admitted active st1 events st2 req digest t)
  let ?d = "reservation_record digest req now lease (map budget_detail (budget_rows budgets) @ map window_detail windows)"
  note ok = reservation_record_ok [OF fl, of digest req lease "budget_rows budgets"]
  have t: "t = json_text (JDict ?d)" using admitted(6) ok(1) by (simp add: json_dumps_def del: json_serialisable.simps)
  have o: "kv_object t ''reservation'' = Inr (norm_dict ?d)" unfolding t by (rule kv_object_text [OF ok])
  have "distinct_keys ?d" using ok(2) by simp
  note g = dget_norm_dict [OF this]
  have "dget (norm_dict ?d) ''request_digest'' = Some (JStr digest)" "dget (norm_dict ?d) ''state'' = Some (JStr ''active'')"
    "dget (norm_dict ?d) ''expires_at'' = Some (JFloat (float_add now lease))"
    unfolding g by (simp_all add: reservation_record_def)
  then have "retry_reservation rid digest later t = Inr reservation_ok"
    using alive by (simp add: retry_reservation_def o kv_string_def kv_float_def)
  then show ?thesis using admitted(1) by (simp add: reserve_once_def admitted(8) kv_get_put)
qed (use r(2) in simp)

lemma settled_record:
  fixes digest req :: string
  assumes "kv_object t l = Inr d" "py_float now = now"
  defines "d' \<equiv> dmerge d [(''state'', JStr ''settled''), (''charges_digest'', JStr digest), (''charges'', JStr req),
    (''completed_at'', JFloat now)]"
  shows "json_serialisable (JDict d')" "json_wf (JDict d')"
proof -
  note p = kv_object_plain [OF assms(1)]
  have "set d' \<subseteq> set d \<union> set [(''state'', JStr ''settled''), (''charges_digest'', JStr digest), (''charges'', JStr req),
    (''completed_at'', JFloat now)]" unfolding d'_def by (rule set_dmerge_subset)
  then show "json_serialisable (JDict d')" using p(1) by fastforce
  show "json_wf (JDict d')" unfolding d'_def using p(2) assms(2) by (intro json_wf_dmerge) simp_all
qed

lemma settle_again:
  assumes r: "settle_once rid charges now st = Inr (u, st')" and fl: "py_float now = now"
  shows "settle_once rid charges later st' = Inr ((), st')"
proof -
  obtain req digest t d state where q: "reservation_charges charges = Inr (req, digest)"
    "kv_get st RESERVATION_BUCKET rid = Some t" "kv_object t ''reservation'' = Inr d" "kv_string d ''state'' = Inr state"
    using r by (auto simp: settle_once_def bindR_Inr_iff split: option.splits)
  show ?thesis
  proof (cases "state = ''settled''")
    case True
    then show ?thesis using r q by (auto simp: settle_once_def bindR_Inr_iff)
  next
    case False
    let ?d = "dmerge d [(''state'', JStr ''settled''), (''charges_digest'', JStr digest), (''charges'', JStr req),
      (''completed_at'', JFloat now)]"
    obtain details where "dget d ''details'' = Some (JList details)"
      using r q False by (cases "dget d ''details''"; cases "the (dget d ''details'')") (auto simp: settle_once_def split: if_splits)
    with r q False obtain st1 where s: "foldR (settle_detail rid charges now) st (enumerate 0 details) = Inr st1"
      and st': "json_dumps (JDict ?d) = Inr (json_text (JDict ?d))" "st' = kv_put RESERVATION_BUCKET rid (json_text (JDict ?d)) st1"
      by (auto simp: settle_once_def bindR_Inr_iff json_dumps_Inr simp del: json_text.simps json_serialisable.simps split: if_splits)
    note ok = settled_record [OF q(3) fl, of digest req]
    have "distinct_keys ?d" using ok(2) by simp
    note g = dget_norm_dict [OF this]
    have m: "map_of ?d = map_of d ++ map_of [(''state'', JStr ''settled''), (''charges_digest'', JStr digest), (''charges'', JStr req),
      (''completed_at'', JFloat now)]" by (rule map_of_dmerge) simp
    have "dget (norm_dict ?d) ''state'' = Some (JStr ''settled'')" "dget (norm_dict ?d) ''charges_digest'' = Some (JStr digest)"
      unfolding g m by simp_all
    then show ?thesis
      using kv_object_text [OF ok] q(1) by (simp add: settle_once_def st'(2) kv_get_put kv_string_def)
  qed
qed

lemma uncertain_lost_reply:
  assumes "recovers is_conn c" "at_link (cn_first c) = Lost_after e" "f (at_now (cn_first c)) st = Inr (x, st')"
    "f (at_now (cn_second c)) st' = Inr (x, st')"
  shows "kv_uncertain is_conn c unsure f st = (Inr x, st')"
  using assms by (simp add: recovers_def kv_uncertain_def kv_transact_def)

text \<open>
  C24. A reservation whose reply is lost is made once: if the transaction that admitted it was
  committed and the connection then failed, the second attempt finds the reservation active and answers
  that it is held, changing nothing, as long as its lease has not run out meanwhile.
\<close>

theorem reserve_lost_reply:
  assumes "recovers is_conn c" "at_link (cn_first c) = Lost_after e"
    "reserve_once rid budgets windows lease (at_now (cn_first c)) st = Inr (r, st')" "rc_ok r"
    "kv_get st RESERVATION_BUCKET rid = None"
    "py_float (at_now (cn_first c)) = at_now (cn_first c)" "\<forall>w \<in> set windows. py_float (wr_seconds w) = wr_seconds w"
    "dec_less (at_now (cn_second c)) (float_add (at_now (cn_first c)) lease)"
  shows "kv_reserve backend is_conn c rid budgets windows lease st = (Inr reservation_ok, st')"
proof -
  have "r = reservation_ok"
    using assms(3,5) by (cases rule: reserve_once_cases) (use assms(4) in simp_all)
  then show ?thesis unfolding kv_reserve_def
    using uncertain_lost_reply [OF assms(1,2), of "reserve_once rid budgets windows lease" st reservation_ok st']
      retry_after_reserve [OF assms(3-8)] assms(3) by blast
qed

text \<open>The settled total grows once: the second attempt of a settlement finds it done.\<close>

text \<open>
  C25. A settlement whose reply is lost counts once: if the transaction was committed and the connection
  then failed, the second attempt finds the reservation settled with the same charges and returns without
  adding them again.
\<close>

theorem settle_lost_reply:
  assumes "recovers is_conn c" "at_link (cn_first c) = Lost_after e"
    "settle_once rid charges (at_now (cn_first c)) st = Inr (u, st')" "py_float (at_now (cn_first c)) = at_now (cn_first c)"
  shows "kv_settle backend is_conn c rid charges st = (Inr (), st')"
  unfolding kv_settle_def
  using uncertain_lost_reply [OF assms(1,2), of "settle_once rid charges" st "()" st'] settle_again [OF assms(3,4)] assms(3)
  by simp

text \<open>
  C37. A reservation without details cannot be settled. A budget that limits only \<open>depth\<close> (or
  nothing) yields no budget row, so a call under it reserves with an empty list of details; every attempt
  to settle that reservation raises an integrity error, after the call was dispatched.
\<close>

theorem depth_only_reservation_stuck:
  assumes "reserve_once rid budgets [] lease now st = Inr (c, st')" "rc_ok c" "kv_get st RESERVATION_BUCKET rid = None"
    "budget_rows budgets = []" "py_float now = now"
  shows "settle_once rid charges later st' = Inl (IntegrityError (''reservation details are missing: '' @ rid))"
  using assms(1,3)
proof (cases rule: reserve_once_cases)
  case (admitted active st1 events st2 req digest t)
  let ?d = "reservation_record digest req now lease (map budget_detail [] @ map window_detail [])"
  have ok: "json_serialisable (JDict ?d)" "json_wf (JDict ?d)"
    using reservation_record_ok [OF assms(5), of "[]" digest req lease "[]"] by simp_all
  have t: "t = json_text (JDict ?d)"
    using admitted(6) ok(1) by (simp add: json_dumps_def assms(4) del: json_serialisable.simps)
  have o: "kv_object t ''reservation'' = Inr (norm_dict ?d)" unfolding t by (rule kv_object_text [OF ok])
  have "distinct_keys ?d" using ok(2) by simp
  note g = dget_norm_dict [OF this]
  have "dget (norm_dict ?d) ''details'' = Some (JList [])" "dget (norm_dict ?d) ''state'' = Some (JStr ''active'')"
    unfolding g by (simp_all add: reservation_record_def)
  then show ?thesis
    using text_and_digest_ok [OF decimals_json_ok [of charges]]
    by (simp add: settle_once_def reservation_charges_def admitted(8) kv_get_put o kv_string_def)
qed (use assms(2) in simp)

text \<open>Concrete calls.\<close>

definition demo_lost :: connection where
  "demo_lost = \<lparr>cn_first = \<lparr>at_link = Lost_after (Foreign ''ConnectionError'' False), at_now = Dec 0 0\<rparr>,
     cn_reconnect = None, cn_second = \<lparr>at_link = Up, at_now = Dec 1 0\<rparr>\<rparr>"

lemma py_float_0: "py_float (Dec 0 0) = Dec 0 0"
  by (simp add: py_float_def float_of_def)

lemma later_less: "dec_less (Dec 1 0) (float_add (Dec 0 0) (Dec 3 1))"
proof -
  have "float_val (Dec 3 1) = 30" using round_double_int [of 30] by (simp add: float_val_def)
  then have "float_add (Dec 0 0) (Dec 3 1) = py_float (Dec 3 1)" by (simp add: float_add_def float_val_def py_float_def)
  moreover have "dec_val (py_float (Dec 3 1)) = of_int 30" by (rule py_float_int) simp_all
  ultimately show ?thesis by (simp add: dec_less_iff)
qed

lemma demo_recovers: "recovers (\<lambda>e. e = Foreign ''ConnectionError'' False) demo_lost"
  by (simp add: recovers_def demo_lost_def)

lemma reservation_check_ok: "rc_ok reservation_ok"
  by (simp add: reservation_ok_def)

lemma no_row_empty: "kv_get [] b k = None"
  by (simp add: kv_get_def dget_or_def)

lemma demo_reserved:
  obtains st' where "reserve_once ''r'' [demo_budget] [] (Dec 3 1) (Dec 0 0) [] = Inr (reservation_ok, st')"
proof -
  have e: "dec_val (dget_or (br_estimates demo_budget) ''steps'' 0) \<le> dec_val (Dec 3 0)" "br_baseline demo_budget = []"
    by (simp_all add: demo_budget_def dget_or_def)
  show thesis using reserve_empty [OF demo_budget_rows e(2,1)] that by blast
qed

lemma reserve_lost_reply_witness:
  "\<exists>st'. kv_reserve ''Redis'' (\<lambda>e. e = Foreign ''ConnectionError'' False) demo_lost ''r'' [demo_budget] [] (Dec 3 1) []
     = (Inr reservation_ok, st')"
proof -
  obtain st' where st': "reserve_once ''r'' [demo_budget] [] (Dec 3 1) (Dec 0 0) [] = Inr (reservation_ok, st')"
    by (rule demo_reserved)
  have l: "at_link (cn_first demo_lost) = Lost_after (Foreign ''ConnectionError'' False)"
    and t: "at_now (cn_first demo_lost) = Dec 0 0" "at_now (cn_second demo_lost) = Dec 1 0"
    by (simp_all add: demo_lost_def)
  have "kv_reserve ''Redis'' (\<lambda>e. e = Foreign ''ConnectionError'' False) demo_lost ''r'' [demo_budget] [] (Dec 3 1) []
      = (Inr reservation_ok, st')"
    by (rule reserve_lost_reply [OF demo_recovers l, unfolded t, OF st' reservation_check_ok no_row_empty py_float_0 _ later_less])
      simp
  then show ?thesis by blast
qed

lemma depth_only_reservation_stuck_witness:
  "\<exists>st'. reserve_once ''r'' [demo_budget\<lparr>br_limits := [(''depth'', Dec 5 0)]\<rparr>] [] (Dec 3 1) (Dec 0 0) [] = Inr (reservation_ok, st') \<and>
    settle_once ''r'' [(''steps'', Dec 1 0)] (Dec 1 0) st' = Inl (IntegrityError ''reservation details are missing: r'')"
proof -
  let ?b = "demo_budget\<lparr>br_limits := [(''depth'', Dec 5 0)]\<rparr>"
  have rows: "budget_rows [?b] = []" by (simp add: budget_rows_def)
  have "\<exists>t d. reservation_request [?b] [] (Dec 3 1) = Inr (t, d)"
    by (auto simp: reservation_request_def reservation_document_def text_and_digest_ok)
  then obtain st' where st': "reserve_once ''r'' [?b] [] (Dec 3 1) (Dec 0 0) [] = Inr (reservation_ok, st')"
    by (auto simp: reserve_once_def kv_get_def dget_or_def active_reservations_def kv_items_def rows json_dumps_def
        reservation_record_def)
  from depth_only_reservation_stuck [OF this _ no_row_empty rows py_float_0] st' show ?thesis
    by (auto simp: reservation_ok_def)
qed

text \<open>An active reservation of one step, and its settlement.\<close>

definition demo_record :: jdict where
  "demo_record = reservation_record ''d'' ''q'' (Dec 0 0) (Dec 3 1) (map budget_detail [(demo_budget, ''steps'', Dec 3 0)] @ map window_detail [])"

definition demo_active :: kv where
  "demo_active = [(RESERVATION_BUCKET, [(''r'', json_text (JDict demo_record))]),
     (BUDGET_BUCKET, [(key_text (''s'', ''steps''), dec_str 0)])]"

lemma demo_settled: "\<exists>st'. settle_once ''r'' [(''steps'', Dec 1 0)] (Dec 0 0) demo_active = Inr ((), st') \<and>
  kv_get st' BUDGET_BUCKET (key_text (''s'', ''steps'')) = Some (dec_str (Dec 1 0))"
proof -
  have ok: "json_serialisable (JDict demo_record)" "json_wf (JDict demo_record)"
    using reservation_record_ok [OF py_float_0, of "[]" "''d''" "''q''" "Dec 3 1" "[(demo_budget, ''steps'', Dec 3 0)]"]
    unfolding demo_record_def by simp_all
  note o = kv_object_text [OF ok]
  have "distinct_keys demo_record" using ok(2) by simp
  note g = dget_norm_dict [OF this]
  let ?d = "[(''kind'', JStr ''budget''), (''scope_id'', JStr ''s''), (''meter'', JStr ''steps''), (''amount'', JStr (dec_str (Dec 1 0)))]"
  have f: "dget (norm_dict demo_record) ''state'' = Some (JStr ''active'')"
    "dget (norm_dict demo_record) ''details'' = Some (JList [JDict (norm_dict ?d)])"
    unfolding g by (simp_all add: demo_record_def reservation_record_def budget_detail_def demo_budget_def dget_or_def
      del: dec_str.simps)
  have h: "dget (norm_dict ?d) k = map_option json_norm (dget ?d k)" for k by (rule dget_norm_dict) simp
  have row: "kv_get demo_active RESERVATION_BUCKET ''r'' = Some (json_text (JDict demo_record))"
    "kv_get demo_active BUDGET_BUCKET (key_text (''s'', ''steps'')) = Some (dec_str 0)"
    by (simp_all add: demo_active_def kv_get_def dget_or_def)
  have "settle_detail ''r'' [(''steps'', Dec 1 0)] (Dec 0 0) demo_active (0, JDict (norm_dict ?d)) =
      Inr (kv_put BUDGET_BUCKET (key_text (''s'', ''steps'')) (dec_str (Dec 1 0)) demo_active)"
    using row(2) by (simp add: settle_detail_def kv_string_def h key_text_def dget_or_def zero_decimal_def
        del: dec_str.simps json_text.simps)
  moreover have "json_serialisable (JDict (dmerge (norm_dict demo_record) [(''state'', JStr ''settled''), (''charges_digest'', JStr dg),
      (''charges'', JStr ch), (''completed_at'', JFloat (Dec 0 0))]))" for dg ch
    using settled_record(1) [OF o [of "''reservation''"] py_float_0] .
  ultimately show ?thesis
    using text_and_digest_ok [OF decimals_json_ok]
    by (simp add: settle_once_def reservation_charges_def row(1) o kv_string_def f json_dumps_def kv_get_put
        del: json_serialisable.simps dec_str.simps)
qed

lemma settle_lost_reply_witness:
  "\<exists>st'. kv_settle ''Redis'' (\<lambda>e. e = Foreign ''ConnectionError'' False) demo_lost ''r'' [(''steps'', Dec 1 0)] demo_active = (Inr (), st') \<and>
    kv_get st' BUDGET_BUCKET (key_text (''s'', ''steps'')) = Some (dec_str (Dec 1 0))"
proof -
  obtain st' where st': "settle_once ''r'' [(''steps'', Dec 1 0)] (Dec 0 0) demo_active = Inr ((), st')"
    "kv_get st' BUDGET_BUCKET (key_text (''s'', ''steps'')) = Some (dec_str (Dec 1 0))"
    using demo_settled by blast
  have l: "at_link (cn_first demo_lost) = Lost_after (Foreign ''ConnectionError'' False)"
    and t: "at_now (cn_first demo_lost) = Dec 0 0" by (simp_all add: demo_lost_def)
  from settle_lost_reply [OF demo_recovers l, unfolded t, OF st'(1) py_float_0, of "''Redis''"] st'(2) show ?thesis by blast
qed

end
