(* ===== verification/Merge.thy ===== *)
theory Merge
  imports Governance_Facts Kv
begin

text \<open>
  Conflict-aware union of stores (\<open>merge.py\<close>): the plan taken from the source, the check of the
  destination, and the writing pass with its recursive merge of metadata.
\<close>

section \<open>Lists of JSON values as sets\<close>

definition json_key :: "json \<Rightarrow> string res" where
  "json_key v = json_dumps v"

definition list_value :: "json option \<Rightarrow> json list" where
  "list_value v = (case v of Some (JList xs) \<Rightarrow> xs | _ \<Rightarrow> [])"

definition union_json_lists :: "json list \<Rightarrow> json list \<Rightarrow> json list res" where
  "union_json_lists first second =
    bindR (mapR (\<lambda>v. bindR (json_key v) (\<lambda>k. Inr (k, v))) (first @ second)) (\<lambda>pairs.
    Inr (map snd (sort_key fst (dmerge [] pairs))))"

section \<open>Metadata\<close>

text \<open>
  \<open>_merge_meta_value\<close>, with the loop over the sorted keys of the incoming object as a function
  of its own: the merged object and the conflicts found so far.
\<close>

lemma size_list_perm: "mset xs = mset ys \<Longrightarrow> size_list f xs = size_list f ys"
proof -
  assume p: "mset xs = mset ys"
  have "sum_list (map f zs) = sum_mset (mset (map f zs))" for zs by (rule sum_mset_sum_list [symmetric])
  then have "sum_list (map f xs) = sum_list (map f ys)" using p by simp
  moreover have "length xs = length ys" using p by (metis size_mset)
  ultimately show ?thesis by (simp add: size_list_conv_sum_list)
qed

function (sequential) merge_value :: "json \<Rightarrow> json \<Rightarrow> string list \<Rightarrow> (json \<times> json list) res"
  and merge_entries :: "jdict \<Rightarrow> json list \<Rightarrow> jdict \<Rightarrow> string list \<Rightarrow> (jdict \<times> json list) res" where
  "merge_value existing incoming path =
    (if py_eq existing incoming then Inr (existing, [])
     else case (existing, incoming) of
       (JDict d, JDict e) \<Rightarrow>
         bindR (merge_entries d [] (sort_key fst e) path) (\<lambda>(merged, conflicts). Inr (JDict merged, conflicts))
     | (JList xs, JList ys) \<Rightarrow> bindR (union_json_lists xs ys) (\<lambda>zs. Inr (JList zs, []))
     | _ \<Rightarrow> bindR (union_json_lists [existing] [incoming]) (\<lambda>vs.
         Inr (existing, [JDict [(''path'', JStr (concat_sep ''.'' path)), (''values'', JList vs)]])))"
| "merge_entries merged conflicts [] path = Inr (merged, conflicts)"
| "merge_entries merged conflicts ((k, v) # rest) path = (case dget merged k of
      None \<Rightarrow> merge_entries (dset k v merged) conflicts rest path
    | Some w \<Rightarrow>
        bindR (merge_value w v (path @ [k])) (\<lambda>(u, found).
        merge_entries (dset k u merged) (conflicts @ found) rest path))"
  by pat_completeness auto
termination
  by (relation "measure (\<lambda>x. case x of Inl (a, b, p) \<Rightarrow> 2 * size b | Inr (m, c, e, p) \<Rightarrow> Suc (2 * size_list (size_prod (\<lambda>_. 0) size) e))")
    (auto simp: size_list_perm [of "sort_key fst _"])

declare merge_value.simps [simp del]

definition merge_meta :: "jdict \<Rightarrow> jdict \<Rightarrow> (jdict \<times> nat) res" where
  "merge_meta existing incoming =
    bindR (union_json_lists (list_value (dget existing ''merge_conflicts'')) (list_value (dget incoming ''merge_conflicts''))) (\<lambda>recorded.
    bindR (merge_entries existing [] (sort_key fst (filter (\<lambda>(k, v). k \<noteq> ''merge_conflicts'') incoming)) []) (\<lambda>(merged, conflicts).
    bindR (union_json_lists recorded conflicts) (\<lambda>updated.
    Inr (if updated = [] then merged else dset ''merge_conflicts'' (JList updated) merged, length updated - length recorded))))"

section \<open>The plan\<close>

definition plan_step :: "node list \<Rightarrow> node \<Rightarrow> node list res" where
  "plan_step acc n = bindR (validate_for_put n) (\<lambda>_.
     Inr (if nid n \<in> nid ` set acc then acc else acc @ [n]))"

definition prepare_merge :: "'st store_ops \<Rightarrow> 'st \<Rightarrow> node list res option" where
  "prepare_merge ops st =
    bindO (Some (s_roots ops st)) (foldO (\<lambda>acc r. map_option (\<lambda>(ns, e).
      bindR (foldR plan_step acc ns) (\<lambda>acc'. case e of None \<Rightarrow> Inr acc' | Some x \<Rightarrow> Inl x)) (s_walk ops st r)) [])"

section \<open>The destination\<close>

record merge_report =
  mg_copied :: nat
  mg_existing :: nat
  mg_result_conflicts :: nat
  mg_meta_conflicts :: nat

text \<open>The pass that only reads.\<close>

fun merge_check :: "'st store_ops \<Rightarrow> bool \<Rightarrow> 'st \<Rightarrow> node list \<Rightarrow> unit res" where
  "merge_check ops replay st [] = Inr ()"
| "merge_check ops replay st (n # ns) =
    (if \<not> s_exists ops st (nid n) then merge_check ops replay st ns
     else bindR (s_get ops st (nid n)) (\<lambda>existing.
       if \<not> identity_eq existing n then Inl (IntegrityError (''node id collision for '' @ nid n))
       else if replay \<and> result_text n \<noteq> None \<and> result_text n \<noteq> result_text existing
       then Inl (IntegrityError (''result collision during replay merge: '' @ nid n))
       else merge_check ops replay st ns))"

text \<open>The metadata an existing node gets: with the incoming result recorded when it differs.\<close>

definition record_conflict :: "node \<Rightarrow> node \<Rightarrow> jdict \<Rightarrow> (jdict \<times> nat) res" where
  "record_conflict existing incoming merged =
    (if result_text incoming \<noteq> None \<and> result_text incoming \<noteq> result_text existing
     then bindR (union_json_lists (list_value (dget merged ''result_conflicts'')) [conflict_record incoming]) (\<lambda>rs.
       Inr (dset ''result_conflicts'' (JList rs) merged,
            if length (list_value (dget merged ''result_conflicts'')) < length rs then 1 else 0))
     else Inr (merged, 0))"

definition merge_node :: "'st store_ops \<Rightarrow> node \<Rightarrow> merge_report \<times> 'st \<Rightarrow> merge_report res \<times> 'st" where
  "merge_node ops n p = (case p of (rep, st) \<Rightarrow>
    if \<not> s_exists ops st (nid n) then
      (case s_put ops n st of Inl e \<Rightarrow> (Inl e, st)
       | Inr st' \<Rightarrow> (Inr (rep\<lparr>mg_copied := Suc (mg_copied rep)\<rparr>), st'))
    else (case bindR (s_get ops st (nid n)) (\<lambda>existing.
        bindR (merge_meta (meta existing) (meta n)) (\<lambda>(merged, new).
        bindR (record_conflict existing n merged) (\<lambda>(md, found). Inr (existing, md, new, found)))) of
      Inl e \<Rightarrow> (Inl e, st)
    | Inr (existing, md, new, found) \<Rightarrow>
        let rep' = rep\<lparr>mg_existing := Suc (mg_existing rep), mg_meta_conflicts := mg_meta_conflicts rep + new,
                       mg_result_conflicts := mg_result_conflicts rep + found\<rparr> in
        if py_eq (JDict md) (JDict (meta existing)) then (Inr rep', st)
        else (case s_update_meta ops (nid existing) md st of
            Inl e \<Rightarrow> (Inl e, st) | Inr st' \<Rightarrow> (Inr rep', st'))))"

fun merge_write :: "'st store_ops \<Rightarrow> merge_report \<times> 'st \<Rightarrow> node list \<Rightarrow> merge_report res \<times> 'st" where
  "merge_write ops p [] = (Inr (fst p), snd p)"
| "merge_write ops p (n # ns) = (case merge_node ops n p of
      (Inl e, st) \<Rightarrow> (Inl e, st) | (Inr rep, st) \<Rightarrow> merge_write ops (rep, st) ns)"

definition merge_prepared :: "'st store_ops \<Rightarrow> node list \<Rightarrow> bool \<Rightarrow> 'st \<Rightarrow> merge_report res \<times> 'st" where
  "merge_prepared ops plan replay st = (case merge_check ops replay st plan of
      Inl e \<Rightarrow> (Inl e, st)
    | Inr _ \<Rightarrow> merge_write ops
        (\<lparr>mg_copied = 0, mg_existing = 0, mg_result_conflicts = 0, mg_meta_conflicts = 0\<rparr>, st) plan)"

definition merge_stores ::
  "'a store_ops \<Rightarrow> 'b store_ops \<Rightarrow> 'b \<Rightarrow> bool \<Rightarrow> 'a \<Rightarrow> (merge_report res \<times> 'a) option" where
  "merge_stores dst_ops src_ops src replay dst = (case prepare_merge src_ops src of
      None \<Rightarrow> None
    | Some (Inl e) \<Rightarrow> Some (Inl e, dst)
    | Some (Inr plan) \<Rightarrow> Some (merge_prepared dst_ops plan replay dst))"

end
