(* ===== verification/Merge_Facts.thy ===== *)
theory Merge_Facts
  imports Merge
begin

text \<open>
  A merge is the union of the two stores, or fails before it writes; merging the same metadata again
  records nothing new.
\<close>

section \<open>Unions of JSON lists\<close>

lemma json_plain_iff: "json_plain v \<longleftrightarrow> json_wf v \<and> json_serialisable v"
proof
  show "json_plain v \<Longrightarrow> json_wf v \<and> json_serialisable v" by (rule json_plain_wf)
  show "json_wf v \<and> json_serialisable v \<Longrightarrow> json_plain v"
  proof (induction v)
    case (JDict d)
    have "json_plain (snd p)" if "p \<in> set d" for p
      using JDict.IH [OF that, of "snd p"] JDict.prems that by (cases p) force
    then show ?case using JDict.prems by simp
  qed auto
qed

lemma keyed_ok: "mapR (\<lambda>v. bindR (json_key v) (\<lambda>k. Inr (k, v))) xs = Inr (map (\<lambda>v. (json_text v, v)) xs)"
  if "\<forall>v \<in> set xs. json_plain v"
  using that json_plain_wf by (intro mapR_Inr) (auto simp: json_key_def json_dumps_def)

lemma dset_keys: "fst ` set (dset k v d) = insert k (fst ` set d)"
  by (induction d) auto

lemma dmerge_keys: "set (map fst (dmerge d p)) = set (map fst d) \<union> set (map fst p)"
proof (induction p arbitrary: d)
  case (Cons x p)
  have "dmerge d (x # p) = dmerge (dset (fst x) (snd x) d) p" by (simp add: dmerge_def case_prod_unfold)
  then show ?case using Cons.IH [of "dset (fst x) (snd x) d"] by (simp add: dset_keys)
qed (simp add: dmerge_def)

definition text_set :: "json list \<Rightarrow> string set" where
  "text_set xs = json_text ` set xs"

lemma union_ok:
  assumes "\<forall>v \<in> set (xs @ ys). json_plain v"
  shows "\<exists>zs. union_json_lists xs ys = Inr zs \<and> set zs \<subseteq> set (xs @ ys) \<and> text_set zs = text_set (xs @ ys) \<and>
    length zs = card (text_set (xs @ ys))"
proof -
  let ?p = "map (\<lambda>v. (json_text v, v)) (xs @ ys)"
  let ?d = "dmerge [] ?p"
  let ?zs = "map snd (sort_key fst ?d)"
  have r: "union_json_lists xs ys = Inr ?zs"
    by (simp only: union_json_lists_def keyed_ok [OF assms] bindR_simps)
  have sub: "set ?d \<subseteq> set ?p" using set_dmerge_subset [of "[]" ?p] by simp
  have vals: "json_text (snd q) = fst q \<and> snd q \<in> set (xs @ ys)" if "q \<in> set ?d" for q
    using subsetD [OF sub that] by (auto simp del: json_text.simps)
  have keys: "fst ` set ?d = text_set (xs @ ys)"
    using dmerge_keys [of "[]" ?p] by (simp add: text_set_def image_image image_Un)
  have set_zs: "set ?zs = snd ` set ?d" by simp
  have 1: "set ?zs \<subseteq> set (xs @ ys)" unfolding set_zs using vals by blast
  have "text_set ?zs = fst ` set ?d"
    unfolding text_set_def set_zs image_image using vals by (intro image_cong) simp_all
  then have 2: "text_set ?zs = text_set (xs @ ys)" by (simp only: keys)
  have "distinct_keys ?d" by (rule distinct_keys_dmerge) simp
  then have "length ?d = card (fst ` set ?d)" 
    using distinct_card [of "map fst ?d"] by (simp only: length_map list.set_map)
  then have 3: "length ?zs = card (text_set (xs @ ys))" by (simp only: keys length_map length_sort)
  from r 1 2 3 show ?thesis by blast
qed

section \<open>Merging metadata\<close>

lemma plain_dict_iff: "json_plain (JDict d) \<longleftrightarrow> distinct_keys d \<and> (\<forall>k v. dget d k = Some v \<longrightarrow> json_plain v)"
  by (force dest: map_of_SomeD)

lemma plain_dset: "json_plain (JDict d) \<Longrightarrow> json_plain v \<Longrightarrow> json_plain (JDict (dset k v d))"
  by (simp add: plain_dict_iff del: json_plain_dict)

definition plain_all :: "json list \<Rightarrow> bool" where
  "plain_all cs \<longleftrightarrow> (\<forall>c \<in> set cs. json_plain c)"

text \<open>A merge of two plain values succeeds, and merging the incoming value again finds no new conflict.\<close>

definition value_merges :: "json \<Rightarrow> json \<Rightarrow> string list \<Rightarrow> bool" where
  "value_merges e i p \<longleftrightarrow> (\<exists>u cs. merge_value e i p = Inr (u, cs) \<and> json_plain u \<and> plain_all cs \<and>
    (\<exists>u' cs'. merge_value u i p = Inr (u', cs') \<and> text_set cs' \<subseteq> text_set cs))"

definition entries_merge :: "jdict \<Rightarrow> json list \<Rightarrow> jdict \<Rightarrow> string list \<Rightarrow> bool" where
  "entries_merge m c0 rest p \<longleftrightarrow> (\<exists>m1 cs. merge_entries m c0 rest p = Inr (m1, c0 @ cs) \<and> json_plain (JDict m1) \<and>
    plain_all cs \<and> (\<forall>k. k \<notin> fst ` set rest \<longrightarrow> dget m1 k = dget m k) \<and>
    (\<forall>m' c0'. (\<forall>k \<in> fst ` set rest. dget m' k = dget m1 k) \<longrightarrow>
      (\<exists>m2 cs'. merge_entries m' c0' rest p = Inr (m2, c0' @ cs') \<and> text_set cs' \<subseteq> text_set cs)))"

lemma merge_value_eq: "py_eq e i \<Longrightarrow> merge_value e i p = Inr (e, [])"
  by (simp add: merge_value.simps)

lemma merge_value_dicts:
  assumes ne: "\<not> py_eq (JDict d) (JDict e)" and m: "entries_merge d [] (sort_key fst e) p" shows "value_merges (JDict d) (JDict e) p"
proof -
  obtain m1 cs where m1: "merge_entries d [] (sort_key fst e) p = Inr (m1, cs)" "json_plain (JDict m1)" "plain_all cs"
    and again: "\<forall>m' c0'. (\<forall>k \<in> fst ` set (sort_key fst e). dget m' k = dget m1 k) \<longrightarrow>
      (\<exists>m2 cs'. merge_entries m' c0' (sort_key fst e) p = Inr (m2, c0' @ cs') \<and> text_set cs' \<subseteq> text_set cs)"
    using m unfolding entries_merge_def by (metis append_Nil)
  have "\<exists>u' cs'. merge_value (JDict m1) (JDict e) p = Inr (u', cs') \<and> text_set cs' \<subseteq> text_set cs"
  proof (cases "py_eq (JDict m1) (JDict e)")
    case True
    then show ?thesis by (simp add: merge_value_eq text_set_def del: py_eq.simps)
  next
    case False
    obtain m2 cs' where "merge_entries m1 [] (sort_key fst e) p = Inr (m2, [] @ cs')" "text_set cs' \<subseteq> text_set cs"
      using again by blast
    with False show ?thesis by (simp add: merge_value.simps del: py_eq.simps)
  qed
  then show ?thesis using ne m1 by (simp add: value_merges_def merge_value.simps del: py_eq.simps json_plain_dict)
qed

lemma merge_value_lists:
  assumes ne: "\<not> py_eq (JList xs) (JList ys)" and pl: "json_plain (JList xs)" "json_plain (JList ys)"
  shows "value_merges (JList xs) (JList ys) p"
proof -
  obtain zs where zs: "union_json_lists xs ys = Inr zs" "set zs \<subseteq> set (xs @ ys)"
    using union_ok [of xs ys] pl by auto
  then have z: "\<forall>v \<in> set (zs @ ys). json_plain v" using pl by auto
  then obtain ws where ws: "union_json_lists zs ys = Inr ws" using union_ok by blast
  have "\<exists>u' cs'. merge_value (JList zs) (JList ys) p = Inr (u', cs') \<and> text_set cs' \<subseteq> text_set []"
    by (cases "py_eq (JList zs) (JList ys)") (simp_all add: merge_value.simps ws text_set_def del: py_eq.simps)
  then show ?thesis using ne zs z by (simp add: value_merges_def merge_value.simps plain_all_def del: py_eq.simps)
qed

lemma merge_value_other:
  assumes ne: "\<not> py_eq e i" and pl: "json_plain e" "json_plain i"
    and o: "\<not> (\<exists>d f. e = JDict d \<and> i = JDict f)" "\<not> (\<exists>xs ys. e = JList xs \<and> i = JList ys)"
  shows "value_merges e i p"
proof -
  obtain vs where vs: "union_json_lists [e] [i] = Inr vs" "set vs \<subseteq> {e, i}" using union_ok [of "[e]" "[i]"] pl by auto
  let ?c = "JDict [(''path'', JStr (concat_sep ''.'' p)), (''values'', JList vs)]"
  have "merge_value e i p = Inr (e, [?c])"
    using ne o vs(1) by (cases e; cases i) (simp_all add: merge_value.simps del: py_eq.simps)
  moreover have "json_plain ?c" using vs(2) pl by auto
  ultimately show ?thesis using pl(1) by (auto simp: value_merges_def plain_all_def)
qed

lemma entries_merge_Nil: "json_plain (JDict m) \<Longrightarrow> entries_merge m c0 [] p"
  by (auto simp: entries_merge_def plain_all_def text_set_def intro!: exI [of _ "[]"])

lemma entries_merge_new:
  assumes n: "dget m k = None" and v: "json_plain v" and k: "k \<notin> fst ` set rest"
    and r: "entries_merge (dset k v m) c0 rest p"
  shows "entries_merge m c0 ((k, v) # rest) p"
proof -
  obtain m1 cs where m1: "merge_entries (dset k v m) c0 rest p = Inr (m1, c0 @ cs)" "json_plain (JDict m1)" "plain_all cs"
    "\<forall>j. j \<notin> fst ` set rest \<longrightarrow> dget m1 j = dget (dset k v m) j"
    and again: "\<And>m' c0'. (\<forall>k \<in> fst ` set rest. dget m' k = dget m1 k) \<Longrightarrow>
      \<exists>m2 cs'. merge_entries m' c0' rest p = Inr (m2, c0' @ cs') \<and> text_set cs' \<subseteq> text_set cs"
    using r unfolding entries_merge_def by blast
  have kv: "dget m1 k = Some v" using m1(4) k by simp
  have "\<exists>m2 cs'. merge_entries m' c0' ((k, v) # rest) p = Inr (m2, c0' @ cs') \<and> text_set cs' \<subseteq> text_set cs"
    if m': "\<forall>j \<in> fst ` set ((k, v) # rest). dget m' j = dget m1 j" for m' c0'
  proof -
    have "py_eq v v" using v json_plain_wf py_eq_refl by blast
    moreover have "dget m' k = Some v" using m' kv by simp
    moreover have "\<forall>j \<in> fst ` set rest. dget (dset k v m') j = dget m1 j" using m' k by auto
    ultimately show ?thesis using again [of "dset k v m'" c0'] by (simp add: merge_value_eq)
  qed
  moreover have "\<forall>j. j \<notin> fst ` set ((k, v) # rest) \<longrightarrow> dget m1 j = dget m j" using m1(4) by auto
  ultimately show ?thesis unfolding entries_merge_def using m1(1-3) n
    by (intro exI [of _ m1] exI [of _ cs]) simp
qed

lemma entries_merge_old:
  assumes w: "dget m k = Some w" and k: "k \<notin> fst ` set rest"
    and u: "merge_value w v (p @ [k]) = Inr (u, found)" "plain_all found"
    and u': "merge_value u v (p @ [k]) = Inr (u', found')" "text_set found' \<subseteq> text_set found"
    and r: "entries_merge (dset k u m) (c0 @ found) rest p"
  shows "entries_merge m c0 ((k, v) # rest) p"
proof -
  obtain m1 cs where m1: "merge_entries (dset k u m) (c0 @ found) rest p = Inr (m1, (c0 @ found) @ cs)" "json_plain (JDict m1)"
    "plain_all cs" "\<forall>j. j \<notin> fst ` set rest \<longrightarrow> dget m1 j = dget (dset k u m) j"
    and again: "\<And>m' c0'. (\<forall>k \<in> fst ` set rest. dget m' k = dget m1 k) \<Longrightarrow>
      \<exists>m2 cs'. merge_entries m' c0' rest p = Inr (m2, c0' @ cs') \<and> text_set cs' \<subseteq> text_set cs"
    using r unfolding entries_merge_def by blast
  have ku: "dget m1 k = Some u" using m1(4) k by simp
  have "\<exists>m2 cs'. merge_entries m' c0' ((k, v) # rest) p = Inr (m2, c0' @ cs') \<and> text_set cs' \<subseteq> text_set (found @ cs)"
    if m': "\<forall>j \<in> fst ` set ((k, v) # rest). dget m' j = dget m1 j" for m' c0'
  proof -
    have "dget m' k = Some u" using m' ku by simp
    moreover have "\<forall>j \<in> fst ` set rest. dget (dset k u' m') j = dget m1 j" using m' k by auto
    then obtain m2 cs' where "merge_entries (dset k u' m') (c0' @ found') rest p = Inr (m2, (c0' @ found') @ cs')"
      "text_set cs' \<subseteq> text_set cs" using again by blast
    ultimately show ?thesis using u' by (intro exI [of _ m2] exI [of _ "found' @ cs'"]) (auto simp: text_set_def)
  qed
  moreover have "\<forall>j. j \<notin> fst ` set ((k, v) # rest) \<longrightarrow> dget m1 j = dget m j" using m1(4) by auto
  ultimately show ?thesis unfolding entries_merge_def using m1(1-3) w u
    by (intro exI [of _ m1] exI [of _ "found @ cs"]) (simp add: plain_all_def ball_Un)
qed

lemma merges:
  "json_plain e \<Longrightarrow> json_plain i \<Longrightarrow> value_merges e i p"
  "json_plain (JDict m) \<Longrightarrow> \<forall>q \<in> set rest. json_plain (snd q) \<Longrightarrow> distinct_keys rest \<Longrightarrow> entries_merge m c0 rest p"
proof (induction e i p and m c0 rest p rule: merge_value_merge_entries.induct)
  case (1 existing incoming path)
  show ?case
  proof (cases "py_eq existing incoming")
    case True
    then show ?thesis using 1(2) by (auto simp: value_merges_def merge_value_eq plain_all_def text_set_def)
  next
    case ne: False
    consider (dicts) d e where "existing = JDict d" "incoming = JDict e"
      | (lists) xs ys where "existing = JList xs" "incoming = JList ys"
      | (other) "\<not> (\<exists>d f. existing = JDict d \<and> incoming = JDict f)" "\<not> (\<exists>xs ys. existing = JList xs \<and> incoming = JList ys)"
      by blast
    then show ?thesis
    proof cases
      case dicts
      have "entries_merge d [] (sort_key fst e) path"
        using 1(1) [OF ne refl dicts] 1(2,3) dicts by simp
      with ne dicts show ?thesis using merge_value_dicts by simp
    next
      case lists
      then show ?thesis using ne 1(2,3) merge_value_lists by simp
    next
      case other
      then show ?thesis using ne 1(2,3) merge_value_other by blast
    qed
  qed
next
  case (2 merged conflicts path)
  then show ?case by (intro entries_merge_Nil)
next
  case (3 merged conflicts k v rest path)
  have v: "json_plain v" "k \<notin> fst ` set rest" "\<forall>q \<in> set rest. json_plain (snd q)" "distinct_keys rest"
    using 3(5,6) by auto
  show ?case
  proof (cases "dget merged k")
    case None
    have "entries_merge (dset k v merged) conflicts rest path"
      using 3(1) [OF None plain_dset [OF 3(4) v(1)] v(3,4)] .
    then show ?thesis by (rule entries_merge_new [OF None v(1,2)])
  next
    case (Some w)
    have "json_plain w" using 3(4) Some by (simp add: plain_dict_iff del: json_plain_dict)
    then obtain u found u' found' where u: "merge_value w v (path @ [k]) = Inr (u, found)" "json_plain u" "plain_all found"
      "merge_value u v (path @ [k]) = Inr (u', found')" "text_set found' \<subseteq> text_set found"
      using 3(2) [OF Some _ v(1)] unfolding value_merges_def by blast
    have "entries_merge (dset k u merged) (conflicts @ found) rest path"
      using 3(3) [OF Some plain_dset [OF 3(4) u(2)] v(3,4)] .
    then show ?thesis by (rule entries_merge_old [OF Some v(2) u(1,3,4,5)])
  qed
qed

text \<open>The conflicts a node's metadata records.\<close>

definition recorded_conflicts :: "jdict \<Rightarrow> json list" where
  "recorded_conflicts d = list_value (dget d ''merge_conflicts'')"

lemma recorded_plain:
  assumes "json_plain (JDict d)" shows "\<forall>v \<in> set (recorded_conflicts d). json_plain v"
proof (cases "dget d ''merge_conflicts''")
  case (Some w)
  then have "json_plain w" using assms unfolding plain_dict_iff by blast
  then show ?thesis using Some by (cases w) (simp_all add: recorded_conflicts_def list_value_def)
qed (simp add: recorded_conflicts_def list_value_def)

lemma union_ok':
  assumes "\<forall>v \<in> set xs. json_plain v" "\<forall>v \<in> set ys. json_plain v"
  obtains zs where "union_json_lists xs ys = Inr zs" "\<forall>v \<in> set zs. json_plain v" "text_set zs = text_set xs \<union> text_set ys"
    "length zs = card (text_set xs \<union> text_set ys)"
proof -
  obtain zs where zs: "union_json_lists xs ys = Inr zs" "set zs \<subseteq> set (xs @ ys)" "text_set zs = text_set (xs @ ys)"
    "length zs = card (text_set (xs @ ys))" using union_ok [of xs ys] assms by auto
  then show thesis using assms by (intro that [of zs]) (auto simp: text_set_def image_Un)
qed

lemma merge_entries_again:
  assumes e: "json_plain (JDict d)" and r: "\<forall>q \<in> set rest. json_plain (snd q)" "distinct_keys rest"
  obtains g c where "merge_entries d [] rest p = Inr (g, c)" "json_plain (JDict g)" "plain_all c"
    "\<And>k. k \<notin> fst ` set rest \<Longrightarrow> dget g k = dget d k"
    "\<And>m. (\<forall>k \<in> fst ` set rest. dget m k = dget g k) \<Longrightarrow> json_plain (JDict m) \<Longrightarrow>
      \<exists>g' c'. merge_entries m [] rest p = Inr (g', c') \<and> text_set c' \<subseteq> text_set c \<and> plain_all c' \<and>
        (\<forall>k. k \<notin> fst ` set rest \<longrightarrow> dget g' k = dget m k)"
proof -
  obtain g c where g: "merge_entries d [] rest p = Inr (g, [] @ c)" "json_plain (JDict g)" "plain_all c"
    "\<forall>k. k \<notin> fst ` set rest \<longrightarrow> dget g k = dget d k"
    and again: "\<And>m' c0'. (\<forall>k \<in> fst ` set rest. dget m' k = dget g k) \<Longrightarrow>
      \<exists>m2 cs'. merge_entries m' c0' rest p = Inr (m2, c0' @ cs') \<and> text_set cs' \<subseteq> text_set c"
    using merges(2) [OF e r, of "[]" p] unfolding entries_merge_def by blast
  have "\<exists>g' c'. merge_entries m [] rest p = Inr (g', c') \<and> text_set c' \<subseteq> text_set c \<and> plain_all c' \<and>
      (\<forall>k. k \<notin> fst ` set rest \<longrightarrow> dget g' k = dget m k)"
    if m: "\<forall>k \<in> fst ` set rest. dget m k = dget g k" and pm: "json_plain (JDict m)" for m
  proof -
    obtain g' c' where "merge_entries m [] rest p = Inr (g', [] @ c')" "plain_all c'" "\<forall>k. k \<notin> fst ` set rest \<longrightarrow> dget g' k = dget m k"
      using merges(2) [OF pm r, of "[]" p] unfolding entries_merge_def by blast
    moreover obtain m2 c'' where "merge_entries m [] rest p = Inr (m2, [] @ c'')" "text_set c'' \<subseteq> text_set c"
      using again [OF m] by blast
    ultimately show ?thesis by auto
  qed
  with g show thesis by (intro that [of g c]) (simp_all del: json_plain_dict)
qed

lemma merge_meta_ok:
  assumes e: "json_plain (JDict existing)" and i: "json_plain (JDict incoming)"
  obtains m1 n1 m2 where "merge_meta existing incoming = Inr (m1, n1)" "json_plain (JDict m1)"
    "merge_meta m1 incoming = Inr (m2, 0)" "text_set (recorded_conflicts m2) = text_set (recorded_conflicts m1)"
proof -
  let ?mc = "''merge_conflicts''" and ?rest = "sort_key fst (filter (\<lambda>(k, v). k \<noteq> ''merge_conflicts'') incoming)"
  note json_plain_dict [simp del]
  obtain r1 where r1: "union_json_lists (recorded_conflicts existing) (recorded_conflicts incoming) = Inr r1"
    "\<forall>v \<in> set r1. json_plain v" "text_set r1 = text_set (recorded_conflicts existing) \<union> text_set (recorded_conflicts incoming)"
    using union_ok' [OF recorded_plain [OF e] recorded_plain [OF i]] by metis
  have rest: "\<forall>q \<in> set ?rest. json_plain (snd q)" "distinct_keys ?rest" and mc: "?mc \<notin> fst ` set ?rest"
    using i by (auto simp: json_plain_dict distinct_map_filter intro: distinct_keys_sort)
  obtain g c where g: "merge_entries existing [] ?rest [] = Inr (g, c)" "json_plain (JDict g)" "plain_all c"
    "\<And>k. k \<notin> fst ` set ?rest \<Longrightarrow> dget g k = dget existing k"
    and again: "\<And>m. (\<forall>k \<in> fst ` set ?rest. dget m k = dget g k) \<Longrightarrow> json_plain (JDict m) \<Longrightarrow>
      \<exists>g' c'. merge_entries m [] ?rest [] = Inr (g', c') \<and> text_set c' \<subseteq> text_set c \<and> plain_all c' \<and>
        (\<forall>k. k \<notin> fst ` set ?rest \<longrightarrow> dget g' k = dget m k)"
    using merge_entries_again [OF e rest, of "[]"] by blast
  obtain u where u: "union_json_lists r1 c = Inr u" "\<forall>v \<in> set u. json_plain v" "text_set u = text_set r1 \<union> text_set c"
    using union_ok' [OF r1(2), of c] g(3) unfolding plain_all_def by metis
  define m1 where "m1 = (if u = [] then g else dset ?mc (JList u) g)"
  have m1: "merge_meta existing incoming = Inr (m1, length u - length r1)"
    unfolding merge_meta_def m1_def using r1(1) g(1) u(1) by (simp add: recorded_conflicts_def)
  have p1: "json_plain (JDict m1)" using g(2) u(2) by (simp add: m1_def plain_dset)
  have rec1: "recorded_conflicts m1 = u"
  proof (cases "u = []")
    case True
    then have "text_set (recorded_conflicts existing) = {}" using u(3) r1(3) by (simp add: text_set_def)
    then show ?thesis using True g(4) [OF mc] by (simp add: m1_def recorded_conflicts_def text_set_def)
  qed (simp add: m1_def recorded_conflicts_def list_value_def)
  obtain r2 where r2: "union_json_lists u (recorded_conflicts incoming) = Inr r2" "\<forall>v \<in> set r2. json_plain v"
    "text_set r2 = text_set u \<union> text_set (recorded_conflicts incoming)" "length r2 = card (text_set u \<union> text_set (recorded_conflicts incoming))"
    using union_ok' [OF u(2) recorded_plain [OF i]] by metis
  have "\<forall>k \<in> fst ` set ?rest. dget m1 k = dget g k" using mc by (auto simp: m1_def)
  then obtain g2 c2 where g2: "merge_entries m1 [] ?rest [] = Inr (g2, c2)" "text_set c2 \<subseteq> text_set c" "plain_all c2"
    "\<forall>k. k \<notin> fst ` set ?rest \<longrightarrow> dget g2 k = dget m1 k" using again [OF _ p1] by blast
  obtain u2 where u2: "union_json_lists r2 c2 = Inr u2" "text_set u2 = text_set r2 \<union> text_set c2" "length u2 = card (text_set r2 \<union> text_set c2)"
    using union_ok' [OF r2(2), of c2] g2(3) unfolding plain_all_def by metis
  define m2 where "m2 = (if u2 = [] then g2 else dset ?mc (JList u2) g2)"
  have same: "text_set u2 = text_set u" "text_set r2 = text_set u" using u2(2) r2(3) u(3) r1(3) g2(2) by auto
  have "length u2 = length r2" using u2(2,3) r2(3,4) same by simp
  then have "merge_meta m1 incoming = Inr (m2, 0)"
    unfolding merge_meta_def m2_def using rec1 r2(1) g2(1) u2(1) by (simp add: recorded_conflicts_def)
  moreover have "text_set (recorded_conflicts m2) = text_set u"
  proof (cases "u2 = []")
    case True
    then have "u = []" using same by (simp add: text_set_def)
    then show ?thesis using True g2(4) mc rec1 by (simp add: m2_def recorded_conflicts_def)
  next
    case False
    then show ?thesis using same by (simp add: m2_def recorded_conflicts_def list_value_def)
  qed
  ultimately show thesis using that m1 p1 rec1 by simp
qed

section \<open>The plan holds every node of the source once, parents first\<close>

lemma parents_known_snoc:
  "parents_known K (ns @ [n]) \<longleftrightarrow> parents_known K ns \<and> (\<forall>p. parent n = Some p \<longrightarrow> p \<in> K \<union> nid ` set ns)"
  by (induction ns arbitrary: K) auto

definition plan_ok :: "node_map \<Rightarrow> node list \<Rightarrow> string set \<Rightarrow> bool" where
  "plan_ok M acc V \<longleftrightarrow> distinct (map nid acc) \<and> nid ` set acc = V \<and> (\<forall>n \<in> set acc. M (nid n) = Some n) \<and>
    parents_known {} acc"

lemma plan_fold:
  assumes "plan_ok M acc V" "parents_known V L" "\<forall>n \<in> set L. M (nid n) = Some n \<and> node_valid n"
  shows "\<exists>acc'. foldR plan_step acc L = Inr acc' \<and> plan_ok M acc' (V \<union> nid ` set L)"
  using assms
proof (induction L arbitrary: acc V)
  case (Cons n L)
  let ?acc = "if nid n \<in> nid ` set acc then acc else acc @ [n]"
  have "validate_for_put n = Inr ()" using Cons.prems(3) by (simp add: validate_for_put_iff)
  then have step: "plan_step acc n = Inr ?acc" by (simp add: plan_step_def)
  have "plan_ok M ?acc (insert (nid n) V)"
    using Cons.prems by (auto simp: plan_ok_def parents_known_snoc)
  then have "\<exists>acc'. foldR plan_step ?acc L = Inr acc' \<and> plan_ok M acc' (insert (nid n) V \<union> nid ` set L)"
    using Cons.prems by (intro Cons.IH) auto
  with step show ?case by simp
qed simp

lemma preorder_parents_known:
  assumes "preorder M r L" "\<forall>n. M r = Some n \<longrightarrow> parent n = None" shows "parents_known V L"
proof (rule parents_known_nth)
  fix k p assume "k < length L" "parent (L ! k) = Some p"
  then show "p \<in> V \<union> nid ` set (take k L)"
    using assms unfolding preorder_def by (cases "k = 0") (force simp: hd_conv_nth)+
qed

lemma node_ok_plain: "node_ok n \<Longrightarrow> json_plain (JDict (meta n))"
  using json_plain_iff [of "JDict (meta n)"]
  by (simp add: node_ok_def node_wf_iff core_ok_def del: json_plain_dict)

context store_contract
begin

lemma prepare_merge_plan:
  assumes inv: "inv st"
  shows "\<exists>plan. prepare_merge ops st = Some (Inr plan) \<and> plan_ok (nodes st) plan (dom (nodes st))"
proof -
  let ?M = "nodes st" and ?f = "\<lambda>acc r. map_option (\<lambda>(ns, e).
      bindR (foldR plan_step acc ns) (\<lambda>acc'. case e of None \<Rightarrow> Inr acc' | Some x \<Rightarrow> Inl x)) (s_walk ops st r)"
  obtain rs where rs: "s_roots ops st = Inr rs" "set rs = {i. \<exists>n. ?M i = Some n \<and> parent n = None}"
    using roots_nodes [OF inv] by blast
  have step: "\<exists>acc'. ?f acc r = Some (Inr acc') \<and> plan_ok ?M acc' (V \<union> desc ?M r)"
    if r: "r \<in> set rs" and acc: "plan_ok ?M acc V" for r acc V
  proof -
    have "r \<in> dom ?M" using r rs(2) by auto
    then obtain L where L: "s_walk ops st r = Some (L, None)" "preorder ?M r L" using walk_yields_subtree [OF inv] by blast
    have "\<forall>n \<in> set L. ?M (nid n) = Some n \<and> node_valid n"
      using L(2) nodes_valid [OF inv] by (auto simp: preorder_def)
    moreover have "parents_known V L" using r rs(2) by (intro preorder_parents_known [OF L(2)]) auto
    ultimately obtain acc' where "foldR plan_step acc L = Inr acc'" "plan_ok ?M acc' (V \<union> nid ` set L)"
      using plan_fold [OF acc] by blast
    then show ?thesis using L(1) preorder_ids [OF L(2)] by simp
  qed
  have "\<exists>plan. foldO ?f [] rs = Some (Inr plan) \<and> plan_ok ?M plan ({} \<union> (\<Union>r \<in> set rs. desc ?M r))"
    by (rule foldO_invariant [where g = "desc ?M"]) (use step in \<open>auto simp: plan_ok_def\<close>)
  moreover have "(\<Union>r \<in> set rs. desc ?M r) = dom ?M"
  proof
    show "(\<Union>r \<in> set rs. desc ?M r) \<subseteq> dom ?M" using desc_dom rs(2) by blast
    show "dom ?M \<subseteq> (\<Union>r \<in> set rs. desc ?M r)"
      using under_root [OF nodes_forest [OF inv] nodes_closed [OF inv]] rs(2) by fast
  qed
  ultimately show ?thesis by (simp add: prepare_merge_def rs(1))
qed

lemma record_conflict_ok:
  assumes "json_plain (JDict md)" "json_plain (result n)"
  shows "\<exists>md' c. record_conflict e n md = Inr (md', c) \<and> json_plain (JDict md')"
proof (cases "result_text n \<noteq> None \<and> result_text n \<noteq> result_text e")
  case True
  have "\<forall>v \<in> set (list_value (dget md ''result_conflicts'')). json_plain v"
  proof (cases "dget md ''result_conflicts''")
    case (Some w)
    then have "json_plain w" using assms(1) unfolding plain_dict_iff by blast
    then show ?thesis using Some by (cases w) (simp_all add: list_value_def)
  qed (simp add: list_value_def)
  moreover have "json_plain (conflict_record n)"
    using assms(2) by (simp add: conflict_record_def split: option.split)
  ultimately obtain zs where "union_json_lists (list_value (dget md ''result_conflicts'')) [conflict_record n] = Inr zs"
    "\<forall>v \<in> set zs. json_plain v" using union_ok' [of "list_value (dget md ''result_conflicts'')" "[conflict_record n]"]
    by (metis empty_iff empty_set set_ConsD)
  then show ?thesis using True assms(1) by (simp add: record_conflict_def plain_dset del: json_plain_dict)
next
  case False
  have "record_conflict e n md = Inr (md, 0)" unfolding record_conflict_def if_not_P [OF False] ..
  with assms(1) show ?thesis by blast
qed

lemma merge_node_ok:
  assumes inv: "inv st" and n: "node_ok n" "node_valid n" "\<forall>p. parent n = Some p \<longrightarrow> p \<in> dom (nodes st)"
    and res: "json_plain (result n)"
  shows "\<exists>rep1 st1. merge_node ops n (rep, st) = (Inr rep1, st1) \<and> inv st1 \<and> grows (nodes st) (nodes st1) \<and>
      dom (nodes st1) = insert (nid n) (dom (nodes st)) \<and>
      mg_copied rep1 = mg_copied rep + (if nid n \<in> dom (nodes st) then 0 else 1) \<and>
      mg_existing rep1 = mg_existing rep + (if nid n \<in> dom (nodes st) then 1 else 0) \<and>
      (nid n \<notin> dom (nodes st) \<longrightarrow> holds_node (nodes st1) n)"
proof (cases "nodes st (nid n)")
  case None
  obtain st1 where st1: "s_put ops n st = Inr st1" using put_fresh [OF inv n(1,2) None] n(3) by blast
  have "\<not> s_exists ops st (nid n)" using None by (simp add: exists_nodes inv)
  then have r: "merge_node ops n (rep, st) = (Inr (rep\<lparr>mg_copied := Suc (mg_copied rep)\<rparr>), st1)"
    using st1 by (simp add: merge_node_def)
  have "inv st1" "grows (nodes st) (nodes st1)" "dom (nodes st1) = insert (nid n) (dom (nodes st))" "holds_node (nodes st1) n"
    using put_nodes [OF inv n(1) st1] None by (auto simp: holds_node_def same_record_def)
  then show ?thesis using r None by (simp add: domIff)
next
  case (Some e)
  have e: "s_get ops st (nid n) = Inr e" "s_exists ops st (nid n)" "node_ok e" "nid e = nid n"
    using Some nodes_valid [OF inv Some] get_valid [OF inv, of "nid n" e] by (simp_all add: exists_nodes get_Inr_iff inv)
  have d: "insert (nid n) (dom (nodes st)) = dom (nodes st)" "nid n \<in> dom (nodes st)" using Some by auto
  obtain md new m2 where md: "merge_meta (meta e) (meta n) = Inr (md, new)" "json_plain (JDict md)"
    using merge_meta_ok [of "meta e" "meta n"] node_ok_plain e(3) n(1) by metis
  obtain md' c where md': "record_conflict e n md = Inr (md', c)" "json_plain (JDict md')"
    using record_conflict_ok [OF md(2) res] by blast
  let ?rep = "rep\<lparr>mg_existing := Suc (mg_existing rep), mg_meta_conflicts := mg_meta_conflicts rep + new,
    mg_result_conflicts := mg_result_conflicts rep + c\<rparr>"
  show ?thesis
  proof (cases "py_eq (JDict md') (JDict (meta e))")
    case True
    then have "merge_node ops n (rep, st) = (Inr ?rep, st)"
      using e md md' by (simp add: merge_node_def Let_def del: py_eq.simps)
    then show ?thesis using inv d by simp
  next
    case False
    have p: "json_wf (JDict md')" "json_serialisable (JDict md')" using md'(2) json_plain_iff by blast+
    obtain st1 where st1: "s_update_meta ops (nid e) md' st = Inr st1"
      using update_meta_ok [OF inv _ p, of "nid e" e] Some e(4) by auto
    have "merge_node ops n (rep, st) = (Inr ?rep, st1)"
      using e md md' False st1 by (simp add: merge_node_def Let_def del: py_eq.simps)
    then show ?thesis using update_meta_nodes [OF inv p(1) st1] d by simp
  qed
qed

lemma merge_write_ok:
  assumes "inv st" "\<forall>n \<in> set ns. node_ok n \<and> node_valid n \<and> json_plain (result n)"
    "parents_known (dom (nodes st)) ns" "distinct (map nid ns)"
  shows "\<exists>rep' st'. merge_write ops (rep, st) ns = (Inr rep', st') \<and> inv st' \<and> grows (nodes st) (nodes st') \<and>
    dom (nodes st') = dom (nodes st) \<union> nid ` set ns \<and>
    mg_copied rep' = mg_copied rep + length (filter (\<lambda>n. nid n \<notin> dom (nodes st)) ns) \<and>
    mg_existing rep' = mg_existing rep + length (filter (\<lambda>n. nid n \<in> dom (nodes st)) ns) \<and>
    (\<forall>n \<in> set ns. nid n \<notin> dom (nodes st) \<longrightarrow> holds_node (nodes st') n)"
  using assms
proof (induction ns arbitrary: st rep)
  case (Cons n ns)
  have "\<exists>rep1 st1. merge_node ops n (rep, st) = (Inr rep1, st1) \<and> inv st1 \<and> grows (nodes st) (nodes st1) \<and>
      dom (nodes st1) = insert (nid n) (dom (nodes st)) \<and>
      mg_copied rep1 = mg_copied rep + (if nid n \<in> dom (nodes st) then 0 else 1) \<and>
      mg_existing rep1 = mg_existing rep + (if nid n \<in> dom (nodes st) then 1 else 0) \<and>
      (nid n \<notin> dom (nodes st) \<longrightarrow> holds_node (nodes st1) n)"
    using Cons.prems by (intro merge_node_ok) simp_all
  then obtain rep1 st1 where s1: "merge_node ops n (rep, st) = (Inr rep1, st1)" "inv st1" "grows (nodes st) (nodes st1)"
      "dom (nodes st1) = insert (nid n) (dom (nodes st))"
      "mg_copied rep1 = mg_copied rep + (if nid n \<in> dom (nodes st) then 0 else 1)"
      "mg_existing rep1 = mg_existing rep + (if nid n \<in> dom (nodes st) then 1 else 0)"
      "nid n \<notin> dom (nodes st) \<longrightarrow> holds_node (nodes st1) n" by blast
  have "\<forall>n \<in> set ns. node_ok n \<and> node_valid n \<and> json_plain (result n)" "parents_known (dom (nodes st1)) ns"
    "distinct (map nid ns)" using Cons.prems(2-4) s1(4) by simp_all
  from Cons.IH [OF s1(2) this, of rep1]
  obtain rep' st' where st': "merge_write ops (rep1, st1) ns = (Inr rep', st')" "inv st'" "grows (nodes st1) (nodes st')"
    "dom (nodes st') = dom (nodes st1) \<union> nid ` set ns"
    "mg_copied rep' = mg_copied rep1 + length (filter (\<lambda>n. nid n \<notin> dom (nodes st1)) ns)"
    "mg_existing rep' = mg_existing rep1 + length (filter (\<lambda>n. nid n \<in> dom (nodes st1)) ns)"
    "\<forall>n \<in> set ns. nid n \<notin> dom (nodes st1) \<longrightarrow> holds_node (nodes st') n"
    by blast
  have new: "nid m \<in> dom (nodes st1) \<longleftrightarrow> nid m \<in> dom (nodes st)" if "m \<in> set ns" for m
  proof -
    have "nid m \<noteq> nid n" using that Cons.prems(4) by (metis distinct.simps(2) image_eqI list.set_map list.simps(9))
    then show ?thesis using s1(4) by blast
  qed
  have len: "filter (\<lambda>n. nid n \<notin> dom (nodes st1)) ns = filter (\<lambda>n. nid n \<notin> dom (nodes st)) ns"
    "filter (\<lambda>n. nid n \<in> dom (nodes st1)) ns = filter (\<lambda>n. nid n \<in> dom (nodes st)) ns"
    using new by (auto intro!: filter_cong)
  have "merge_write ops (rep, st) (n # ns) = (Inr rep', st')" using s1(1) st'(1) by simp
  moreover have "grows (nodes st) (nodes st')" using s1(3) st'(3) grows_trans by blast
  moreover have "dom (nodes st') = dom (nodes st) \<union> nid ` set (n # ns)" using st'(4) s1(4) by simp
  moreover have "\<forall>m \<in> set (n # ns). nid m \<notin> dom (nodes st) \<longrightarrow> holds_node (nodes st') m"
  proof
    fix m assume "m \<in> set (n # ns)"
    then show "nid m \<notin> dom (nodes st) \<longrightarrow> holds_node (nodes st') m"
      using s1(7) holds_node_grows [OF st'(3)] st'(7) new by auto
  qed
  moreover have "mg_copied rep' = mg_copied rep + length (filter (\<lambda>n. nid n \<notin> dom (nodes st)) (n # ns))"
    "mg_existing rep' = mg_existing rep + length (filter (\<lambda>n. nid n \<in> dom (nodes st)) (n # ns))"
    using st'(5,6) s1(5,6) by (auto simp: len)
  ultimately show ?case using st'(2) by blast
qed simp

end

lemma parents_known_mono: "parents_known K ns \<Longrightarrow> K \<subseteq> K' \<Longrightarrow> parents_known K' ns"
  by (induction ns arbitrary: K K') (auto, blast)

text \<open>
  The destination of a merge, after a run on the stores \<open>dst\<close> and \<open>src\<close> by their maps:
  the union of the ids, with every earlier record kept and every new node as the source has it.
\<close>

definition merged_into :: "node_map \<Rightarrow> node_map \<Rightarrow> merge_report \<Rightarrow> node_map \<Rightarrow> bool" where
  "merged_into D S rep D' \<longleftrightarrow> grows D D' \<and> dom D' = dom D \<union> dom S \<and>
    mg_copied rep = card (dom S - dom D) \<and> mg_existing rep = card (dom S \<inter> dom D) \<and>
    (\<forall>i n. S i = Some n \<and> i \<notin> dom D \<longrightarrow> holds_node D' n)"

lemma card_filter_ids: "distinct (map nid ns) \<Longrightarrow> length (filter (\<lambda>n. P (nid n)) ns) = card {i \<in> nid ` set ns. P i}"
proof -
  assume d: "distinct (map nid ns)"
  have "map nid (filter (\<lambda>n. P (nid n)) ns) = filter P (map nid ns)" by (simp add: filter_map comp_def)
  then have "length (filter (\<lambda>n. P (nid n)) ns) = length (filter P (map nid ns))" by (metis length_map)
  also have "\<dots> = card (set (filter P (map nid ns)))" using d by (intro distinct_card [symmetric]) simp
  finally show ?thesis by simp
qed

context store_contract
begin

lemma merge_plan_ok:
  assumes inv: "inv st" and plan: "plan_ok S plan (dom S)"
    and ns: "\<forall>i n. S i = Some n \<longrightarrow> node_ok n \<and> node_valid n \<and> json_plain (result n)"
    and r: "merge_prepared ops plan replay st = (Inr rep, st')"
  shows "inv st' \<and> merged_into (nodes st) S rep (nodes st')"
proof -
  have p: "distinct (map nid plan)" "nid ` set plan = dom S" "\<forall>n \<in> set plan. S (nid n) = Some n" "parents_known {} plan"
    using plan by (simp_all add: plan_ok_def)
  have "\<forall>n \<in> set plan. node_ok n \<and> node_valid n \<and> json_plain (result n)" using p(3) ns by blast
  moreover have "parents_known (dom (nodes st)) plan" using parents_known_mono [OF p(4)] by simp
  ultimately obtain rep1 st1 where w: "merge_write ops (\<lparr>mg_copied = 0, mg_existing = 0, mg_result_conflicts = 0,
        mg_meta_conflicts = 0\<rparr>, st) plan = (Inr rep1, st1)" "inv st1" "grows (nodes st) (nodes st1)"
    "dom (nodes st1) = dom (nodes st) \<union> nid ` set plan"
    "mg_copied rep1 = 0 + length (filter (\<lambda>n. nid n \<notin> dom (nodes st)) plan)"
    "mg_existing rep1 = 0 + length (filter (\<lambda>n. nid n \<in> dom (nodes st)) plan)"
    "\<forall>n \<in> set plan. nid n \<notin> dom (nodes st) \<longrightarrow> holds_node (nodes st1) n"
    using merge_write_ok [OF inv _ _ p(1), of "\<lparr>mg_copied = 0, mg_existing = 0, mg_result_conflicts = 0,
        mg_meta_conflicts = 0\<rparr>"] by fastforce
  have eq: "rep1 = rep" "st1 = st'"
    using r w(1) unfolding merge_prepared_def by (cases "merge_check ops replay st plan"; simp)+
  have h: "holds_node (nodes st1) n" if "S i = Some n" "i \<notin> dom (nodes st)" for i n
  proof -
    have "i \<in> nid ` set plan" using that(1) by (simp add: p(2) domIff)
    then obtain m where m: "m \<in> set plan" "nid m = i" by (elim imageE) simp
    then have "S i = Some m" using p(3) by blast
    then have "m = n" using that(1) by simp
    with m w(7) that(2) show ?thesis by simp
  qed
  have c: "mg_copied rep1 = card (dom S - dom (nodes st))"
    unfolding w(5) card_filter_ids [OF p(1), of "\<lambda>i. i \<notin> dom (nodes st)"] p(2) by (simp add: set_diff_eq)
  have x: "mg_existing rep1 = card (dom S \<inter> dom (nodes st))"
    unfolding w(6) card_filter_ids [OF p(1), of "\<lambda>i. i \<in> dom (nodes st)"] p(2) by (simp add: Int_def)
  have d: "dom (nodes st1) = dom (nodes st) \<union> dom S" unfolding w(4) p(2) ..
  have "\<forall>i n. S i = Some n \<and> i \<notin> dom (nodes st) \<longrightarrow> holds_node (nodes st1) n"
    by (intro allI impI, elim conjE) (rule h)
  then have "merged_into (nodes st) S rep1 (nodes st1)" unfolding merged_into_def using w(3) d c x by simp
  with w(2) show ?thesis unfolding eq ..
qed

lemma merge_prepared_cases:
  assumes inv: "inv st" and plan: "plan_ok S plan (dom S)"
    and ns: "\<forall>i n. S i = Some n \<longrightarrow> node_ok n \<and> node_valid n \<and> json_plain (result n)"
  shows "(\<exists>e. merge_prepared ops plan replay st = (Inl e, st)) \<or>
    (\<exists>rep st'. merge_prepared ops plan replay st = (Inr rep, st') \<and> inv st' \<and> merged_into (nodes st) S rep (nodes st'))"
proof (cases "merge_check ops replay st plan")
  case (Inl e)
  then show ?thesis by (simp add: merge_prepared_def)
next
  case (Inr u)
  have p: "\<forall>n \<in> set plan. S (nid n) = Some n" "parents_known {} plan" "distinct (map nid plan)"
    using plan by (simp_all add: plan_ok_def)
  have "\<forall>n \<in> set plan. node_ok n \<and> node_valid n \<and> json_plain (result n)" using p(1) ns by blast
  moreover have "parents_known (dom (nodes st)) plan" using parents_known_mono [OF p(2)] by simp
  ultimately obtain rep st' where "merge_prepared ops plan replay st = (Inr rep, st')"
    using merge_write_ok [OF inv _ _ p(3), of "\<lparr>mg_copied = 0, mg_existing = 0, mg_result_conflicts = 0,
        mg_meta_conflicts = 0\<rparr>"] Inr by (fastforce simp: merge_prepared_def)
  then show ?thesis using merge_plan_ok [OF inv plan ns] by blast
qed

end

section \<open>The merge of two stores\<close>

text \<open>
  C4. A merge of one \<open>MemoryStore\<close> into another always returns, and is all or nothing: it raises
  with the destination untouched, or leaves the union of the two stores, with the invariant kept, every
  earlier record of the destination unchanged, every new node as the source has it, and a report that
  counts each node of the source once.
\<close>

theorem merge_union:
  assumes "mem_inv dst" "mem_inv src" "\<And>i n. mem_nodes src i = Some n \<Longrightarrow> json_serialisable (result n)"
  shows "(\<exists>e. merge_stores mem_ops mem_ops src replay dst = Some (Inl e, dst)) \<or>
    (\<exists>rep dst'. merge_stores mem_ops mem_ops src replay dst = Some (Inr rep, dst') \<and> mem_inv dst' \<and>
      merged_into (mem_nodes dst) (mem_nodes src) rep (mem_nodes dst'))"
proof -
  obtain plan where plan: "prepare_merge mem_ops src = Some (Inr plan)" "plan_ok (mem_nodes src) plan (dom (mem_nodes src))"
    using mem.prepare_merge_plan [OF assms(2)] by blast
  have "\<forall>i n. mem_nodes src i = Some n \<longrightarrow> node_ok n \<and> node_valid n \<and> json_plain (result n)"
    using mem.nodes_valid [OF assms(2)] assms(3) json_plain_iff unfolding node_ok_def by blast
  then show ?thesis
    using mem.merge_prepared_cases [OF assms(1) plan(2), of replay] plan(1) by (auto simp: merge_stores_def)
qed

lemma merge_union_witness:
  "(\<exists>e. merge_stores mem_ops mem_ops demo_store True demo_store = Some (Inl e, demo_store)) \<or>
    (\<exists>rep dst'. merge_stores mem_ops mem_ops demo_store True demo_store = Some (Inr rep, dst') \<and> mem_inv dst' \<and>
      merged_into (mem_nodes demo_store) (mem_nodes demo_store) rep (mem_nodes dst'))"
proof (rule merge_union [OF demo_inv demo_inv])
  show "json_serialisable (result n)" if "mem_nodes demo_store i = Some n" for i n
    using that by (auto simp: mem_nodes_def demo_store_def demo_root_def demo_note_def split: if_splits)
qed

text \<open>
  Merging metadata never fails on JSON values, and repeating it finds nothing new: once the
  incoming metadata has been merged, a second merge of the same metadata adds no conflict and leaves
  the same set of conflicts recorded.
\<close>

theorem merge_meta_idempotent:
  assumes "json_plain (JDict existing)" "json_plain (JDict incoming)"
  shows "\<exists>m1 n1 m2. merge_meta existing incoming = Inr (m1, n1) \<and> json_plain (JDict m1) \<and>
    merge_meta m1 incoming = Inr (m2, 0) \<and> text_set (recorded_conflicts m2) = text_set (recorded_conflicts m1)"
  using merge_meta_ok [OF assms] by metis

lemma merge_meta_idempotent_witness:
  "\<exists>m1 n1 m2. merge_meta [(''a'', JInt 1)] [(''a'', JInt 2)] = Inr (m1, n1) \<and> merge_meta m1 [(''a'', JInt 2)] = Inr (m2, 0)"
  using merge_meta_idempotent [of "[(''a'', JInt 1)]" "[(''a'', JInt 2)]"] by auto

end
