(* ===== verification/Schema.thy ===== *)
theory Schema
  imports Store
begin

text \<open>
  Local references of a JSON Schema (\<open>schema.py\<close>): JSON pointers, the lookup of their target,
  and the expansion of every \<open>$ref\<close>. The expansion follows references, not the structure
  of the schema, so it carries a bound on the references it has followed; the main result is that
  the number of references in the document is enough, for every document.
\<close>

section \<open>Pointers\<close>

fun split_on :: "char \<Rightarrow> string \<Rightarrow> string list" where
  "split_on c [] = [[]]"
| "split_on c (x # xs) = (if x = c then [] # split_on c xs
    else case split_on c xs of [] \<Rightarrow> [[x]] | y # ys \<Rightarrow> (x # y) # ys)"

text \<open>The bytes of \<open>urllib.parse.unquote_to_bytes\<close>, then its decoding by runs of ASCII characters.\<close>

fun unquote_bytes :: "string \<Rightarrow> string" where
  "unquote_bytes (c # a # b # r) = (case (c = CHR ''%'', hex_val a, hex_val b) of
      (True, Some h, Some l) \<Rightarrow> char_of (nat (h * 16 + l)) # unquote_bytes r
    | _ \<Rightarrow> c # unquote_bytes (a # b # r))"
| "unquote_bytes s = s"

definition is_ascii :: "char \<Rightarrow> bool" where
  "is_ascii c \<longleftrightarrow> (of_char c :: nat) < 128"

function unquote_text :: "string \<Rightarrow> string option" where
  "unquote_text [] = Some []"
| "unquote_text (c # cs) =
    (if is_ascii c then
       (case (utf8_decode (unquote_bytes (c # takeWhile is_ascii cs)), unquote_text (dropWhile is_ascii cs)) of
          (Some s, Some r) \<Rightarrow> Some (s @ r) | _ \<Rightarrow> None)
     else map_option ((#) c) (unquote_text cs))"
  by pat_completeness auto
termination
  by (relation "measure length") (auto simp: le_imp_less_Suc length_dropWhile_le)

text \<open>Every percent sign is followed by two hexadecimal digits.\<close>

fun escapes_ok :: "string \<Rightarrow> bool" where
  "escapes_ok [] = True"
| "escapes_ok (c # r) =
    ((c = CHR ''%'' \<longrightarrow> 2 \<le> length r \<and> list_all (\<lambda>x. hex_val x \<noteq> None) (take 2 r)) \<and> escapes_ok r)"

definition local_pointer :: "string \<Rightarrow> string \<Rightarrow> string res" where
  "local_pointer reference path =
    (if reference = ''#'' then Inr []
     else if take 2 reference \<noteq> ''#/''
     then Inl (UnsupportedSchema (path @ ''.$ref: only local JSON Pointer references are supported''))
     else if \<not> escapes_ok (tl reference)
     then Inl (UnsupportedSchema (path @ ''.$ref: invalid percent escape''))
     else case unquote_text (tl reference) of
       None \<Rightarrow> Inl (UnsupportedSchema (path @ ''.$ref: invalid percent escape''))
     | Some p \<Rightarrow> Inr p)"

fun pointer_token :: "string \<Rightarrow> string \<Rightarrow> string res" where
  "pointer_token path [] = Inr []"
| "pointer_token path (c # r) =
    (if c \<noteq> CHR ''~'' then bindR (pointer_token path r) (\<lambda>t. Inr (c # t))
     else case r of
       [] \<Rightarrow> Inl (UnsupportedSchema (path @ ''.$ref: invalid JSON Pointer escape''))
     | d # r' \<Rightarrow>
         if d \<noteq> CHR ''0'' \<and> d \<noteq> CHR ''1''
         then Inl (UnsupportedSchema (path @ ''.$ref: invalid JSON Pointer escape''))
         else bindR (pointer_token path r') (\<lambda>t. Inr ((if d = CHR ''0'' then CHR ''~'' else CHR ''/'') # t)))"

definition is_decimal :: "string \<Rightarrow> bool" where
  "is_decimal s \<longleftrightarrow> s \<noteq> [] \<and> list_all is_digit s"

definition pointer_step :: "string \<Rightarrow> json \<Rightarrow> string \<Rightarrow> json res" where
  "pointer_step path current raw =
    bindR (pointer_token path raw) (\<lambda>token.
    case current of
      JDict d \<Rightarrow> (case dget d token of
          None \<Rightarrow> Inl (UnsupportedSchema (path @ ''.$ref: missing local reference target''))
        | Some v \<Rightarrow> Inr v)
    | JList xs \<Rightarrow>
        if is_decimal token \<and> digits_val token < length xs then Inr (xs ! digits_val token)
        else Inl (UnsupportedSchema (path @ ''.$ref: missing local reference target''))
    | _ \<Rightarrow> Inl (UnsupportedSchema (path @ ''.$ref: missing local reference target'')))"

definition pointer_target :: "jdict \<Rightarrow> string \<Rightarrow> string \<Rightarrow> json res" where
  "pointer_target doc pointer path =
    (if pointer = [] then Inr (JDict doc)
     else foldR (pointer_step path) (JDict doc)
       (split_on (CHR ''/'') (if hd pointer = CHR ''/'' then tl pointer else pointer)))"

section \<open>Expansion\<close>

fun mapO :: "('a \<Rightarrow> 'b res option) \<Rightarrow> 'a list \<Rightarrow> 'b list res option" where
  "mapO f [] = Some (Inr [])"
| "mapO f (x # xs) = bindO (f x) (\<lambda>y. bindO (mapO f xs) (\<lambda>ys. Some (Inr (y # ys))))"

lemma mapO_cong [fundef_cong]:
  "xs = ys \<Longrightarrow> (\<And>x. x \<in> set ys \<Longrightarrow> f x = g x) \<Longrightarrow> mapO f xs = mapO g ys"
  by (induction ys arbitrary: xs) auto

lemma mapO_returns: "(\<And>x. x \<in> set xs \<Longrightarrow> f x \<noteq> None) \<Longrightarrow> mapO f xs \<noteq> None"
  by (induction xs) (auto simp: bindO_def split: option.splits sum.splits)

definition ref_siblings :: "string list" where
  "ref_siblings = [''$defs'', ''$ref'', ''default'', ''definitions'', ''description'', ''sensitive'', ''title'']"

definition sorted_names :: "string list \<Rightarrow> string" where
  "sorted_names ks = py_repr (JList (map JStr (sort (remdups ks))))"

text \<open>The reference of a schema object: its pointer, once the object is known to hold nothing else.\<close>

definition reference_pointer :: "jdict \<Rightarrow> string \<Rightarrow> string \<Rightarrow> string list \<Rightarrow> string res" where
  "reference_pointer d r path active =
    (let siblings = filter (\<lambda>k. k \<notin> set ref_siblings) (map fst d) in
     if siblings \<noteq> []
     then Inl (UnsupportedSchema (path @ ''.$ref: unsupported sibling keywords '' @ sorted_names siblings))
     else bindR (local_pointer r path) (\<lambda>p.
       if p \<in> set active
       then Inl (UnsupportedSchema (path @ ''.$ref: cyclic local reference '' @ concat_sep '' -> '' (active @ [p])))
       else Inr p))"

fun dict_items :: "json \<Rightarrow> jdict" where
  "dict_items (JDict d) = d"
| "dict_items v = []"

fun list_items :: "json \<Rightarrow> json list" where
  "list_items (JList xs) = xs"
| "list_items v = []"

fun is_dict :: "json \<Rightarrow> bool" where
  "is_dict (JDict d) = True"
| "is_dict v = False"

fun is_list :: "json \<Rightarrow> bool" where
  "is_list (JList xs) = True"
| "is_list v = False"

lemma pair_size: "(k, v) \<in> set d \<Longrightarrow> size v < Suc (size_list (size_prod (\<lambda>_. 0) size) d)"
  by (induction d) auto

lemma dict_items_size: "(k, v) \<in> set (dict_items w) \<Longrightarrow> size v < size w"
  using pair_size [of k v] by (cases w) auto

lemma elem_size: "x \<in> set xs \<Longrightarrow> size x < Suc (size_list size xs)"
  by (induction xs) auto

lemma list_items_size: "x \<in> set (list_items w) \<Longrightarrow> size x < size w"
  using elem_size [of x] by (cases w) auto

lemma enumerate_items_size: "(i, x) \<in> set (enumerate k (list_items w)) \<Longrightarrow> size x < size w"
  by (rule list_items_size) (auto simp: in_set_enumerate_eq)

text \<open>The entries of a schema object, and those of a reference, that the expansion goes into.\<close>

definition child_entries :: "json \<Rightarrow> jdict" where
  "child_entries v = filter (\<lambda>(k, _). k \<noteq> ''$defs'' \<and> k \<noteq> ''definitions'') (dict_items v)"

definition sibling_entries :: "json \<Rightarrow> jdict" where
  "sibling_entries v = filter (\<lambda>(k, _). k \<noteq> ''$defs'' \<and> k \<noteq> ''$ref'' \<and> k \<noteq> ''definitions'') (dict_items v)"

lemma entries_size:
  "(k, v) \<in> set (child_entries w) \<Longrightarrow> size v < size w"
  "(k, v) \<in> set (sibling_entries w) \<Longrightarrow> size v < size w"
  using dict_items_size by (auto simp: child_entries_def sibling_entries_def)

definition named :: "string \<Rightarrow> json res option \<Rightarrow> (string \<times> json) res option" where
  "named n m = bindO m (\<lambda>v. Some (Inr (n, v)))"

definition as_object :: "jdict res option \<Rightarrow> json res option" where
  "as_object m = bindO m (\<lambda>qs. Some (Inr (JDict qs)))"

definition as_array :: "json list res option \<Rightarrow> json res option" where
  "as_array m = bindO m (\<lambda>ys. Some (Inr (JList ys)))"

function resolve :: "jdict \<Rightarrow> nat \<Rightarrow> json \<Rightarrow> string \<Rightarrow> string list \<Rightarrow> json res option"
  and resolve_ref :: "jdict \<Rightarrow> nat \<Rightarrow> json \<Rightarrow> string \<Rightarrow> string \<Rightarrow> string list \<Rightarrow> json res option"
  and resolve_children :: "jdict \<Rightarrow> nat \<Rightarrow> json \<Rightarrow> string \<Rightarrow> string list \<Rightarrow> json res option" where
  "resolve doc fuel value path active =
    (if \<not> is_dict value then Some (Inr value)
     else case dget_or (dict_items value) ''$ref'' JNull of
         JNull \<Rightarrow> resolve_children doc fuel value path active
       | JStr r \<Rightarrow> resolve_ref doc fuel value r path active
       | _ \<Rightarrow> Some (Inl (UnsupportedSchema (path @ ''.$ref: must be a string''))))"
| "resolve_ref doc fuel value r path active =
    bindO (Some (reference_pointer (dict_items value) r path active)) (\<lambda>p.
    bindO (Some (pointer_target doc p path)) (\<lambda>target.
    case fuel of 0 \<Rightarrow> None | Suc fuel' \<Rightarrow>
    bindO (resolve doc fuel' target (''reference '' @ r) (active @ [p])) (\<lambda>expanded.
    if \<not> is_dict expanded
    then Some (Inl (UnsupportedSchema (path @ ''.$ref: target must be a schema object'')))
    else as_object (bindO
      (mapO (\<lambda>(n, s). named n (resolve doc fuel s (path @ ''.'' @ n) active)) (sibling_entries value))
      (\<lambda>qs. Some (Inr (dmerge (dict_items expanded) qs)))))))"
| "resolve_children doc fuel value path active =
    as_object (mapO (\<lambda>(name, child). named name
      (if name = ''properties'' \<and> is_dict child then
         as_object (mapO (\<lambda>(n, s). named n (resolve doc fuel s (path @ ''.properties.'' @ n) active)) (dict_items child))
       else if name = ''anyOf'' \<and> is_list child then
         as_array (mapO (\<lambda>(i, s). resolve doc fuel s (path @ ''.anyOf['' @ int_str (int i) @ '']'') active)
           (enumerate 0 (list_items child)))
       else if name = ''items'' then resolve doc fuel child (path @ ''.items'') active
       else Some (Inr child)))
     (child_entries value))"
  by pat_completeness auto
termination
  by (relation "measures [\<lambda>x. case x of Inl (doc, fuel, v, p, a) \<Rightarrow> fuel
      | Inr (Inl (doc, fuel, v, r, p, a)) \<Rightarrow> fuel | Inr (Inr (doc, fuel, v, p, a)) \<Rightarrow> fuel,
    \<lambda>x. case x of Inl (doc, fuel, v, p, a) \<Rightarrow> Suc (2 * size v)
      | Inr (Inl (doc, fuel, v, r, p, a)) \<Rightarrow> 2 * size v | Inr (Inr (doc, fuel, v, p, a)) \<Rightarrow> 2 * size v]")
    (auto dest!: dict_items_size enumerate_items_size entries_size)

declare resolve.simps [simp del] resolve_ref.simps [simp del] resolve_children.simps [simp del]

text \<open>Every reference of a document, with repetitions.\<close>

fun ref_names :: "json \<Rightarrow> string list" where
  "ref_names (JDict d) = (case dget d ''$ref'' of Some (JStr r) \<Rightarrow> [r] | _ \<Rightarrow> []) @ concat (map (\<lambda>(k, v). ref_names v) d)"
| "ref_names (JList xs) = concat (map ref_names xs)"
| "ref_names v = []"

definition resolve_local_refs :: "jdict \<Rightarrow> jdict res option" where
  "resolve_local_refs schema =
    bindO (resolve schema (length (ref_names (JDict schema))) (JDict schema) ''$'' []) (\<lambda>resolved.
    Some (if is_dict resolved then Inr (dict_items resolved)
          else Inl (UnsupportedSchema ''schema must resolve to an object'')))"

lemma entry_items_size [termination_simp]:
  assumes "(a, b) \<in> set d"
  shows "(k, v) \<in> set (dict_items b) \<Longrightarrow> size v < Suc (size_list (\<lambda>x. Suc (size (snd x))) d)"
    "x \<in> set (list_items b) \<Longrightarrow> size x < Suc (size_list (\<lambda>x. Suc (size (snd x))) d)"
proof -
  have "size b < Suc (size_list (\<lambda>x. Suc (size (snd x))) d)" using assms by (induction d) auto
  then show "(k, v) \<in> set (dict_items b) \<Longrightarrow> size v < Suc (size_list (\<lambda>x. Suc (size (snd x))) d)"
    "x \<in> set (list_items b) \<Longrightarrow> size x < Suc (size_list (\<lambda>x. Suc (size (snd x))) d)"
    using dict_items_size list_items_size by (meson less_trans)+
qed

text \<open>The scan for reference or definition keywords; its stack becomes the recursion.\<close>

fun schema_has_local_refs :: "json \<Rightarrow> bool" where
  "schema_has_local_refs (JDict d) =
    (dget d ''$ref'' \<noteq> None \<or> dget d ''$defs'' \<noteq> None \<or> dget d ''definitions'' \<noteq> None \<or>
     (\<exists>(k, v) \<in> set d.
        (k = ''properties'' \<and> (\<exists>(n, s) \<in> set (dict_items v). schema_has_local_refs s)) \<or>
        (k = ''anyOf'' \<and> (\<exists>s \<in> set (list_items v). schema_has_local_refs s)) \<or>
        (k = ''items'' \<and> schema_has_local_refs v)))"
| "schema_has_local_refs v = False"

section \<open>The expansion returns\<close>

lemma ref_names_entry: "(k, v) \<in> set d \<Longrightarrow> set (ref_names v) \<subseteq> set (ref_names (JDict d))"
  by fastforce

lemma ref_names_items:
  "(k, v) \<in> set (dict_items w) \<Longrightarrow> set (ref_names v) \<subseteq> set (ref_names w)"
  "x \<in> set (list_items w) \<Longrightarrow> set (ref_names x) \<subseteq> set (ref_names w)"
  by (cases w; fastforce)+

lemma pointer_step_refs: "pointer_step path c raw = Inr v \<Longrightarrow> set (ref_names v) \<subseteq> set (ref_names c)"
proof -
  assume r: "pointer_step path c raw = Inr v"
  consider (dict) d k where "c = JDict d" "(k, v) \<in> set d" | (list) xs where "c = JList xs" "v \<in> set xs"
    using r by (cases c) (auto simp: pointer_step_def bindR_Inr_iff split: option.splits if_splits dest: map_of_SomeD)
  then show ?thesis
    by cases (use ref_names_items(1) [of _ v c] ref_names_items(2) [of v c] in \<open>simp_all del: ref_names.simps\<close>)
qed

lemma pointer_steps_refs: "foldR (pointer_step path) c ts = Inr v \<Longrightarrow> set (ref_names v) \<subseteq> set (ref_names c)"
proof (induction ts arbitrary: c)
  case (Cons t ts)
  then obtain c' where "pointer_step path c t = Inr c'" "foldR (pointer_step path) c' ts = Inr v"
    by (auto simp: bindR_Inr_iff)
  then show ?case using Cons.IH pointer_step_refs by blast
qed simp

lemma pointer_target_refs: "pointer_target doc p path = Inr v \<Longrightarrow> set (ref_names v) \<subseteq> set (ref_names (JDict doc))"
  using pointer_steps_refs [of path "JDict doc" _ v]
  by (auto simp: pointer_target_def simp del: ref_names.simps split: if_splits)

text \<open>The pointers a document's references can name; a path of active pointers repeats none.\<close>

definition pointers :: "jdict \<Rightarrow> string set" where
  "pointers doc = {p. \<exists>r \<in> set (ref_names (JDict doc)). \<exists>path. local_pointer r path = Inr p}"

lemma local_pointer_path: "local_pointer r path = Inr p \<Longrightarrow> local_pointer r path' = Inr p"
  by (auto simp: local_pointer_def split: if_splits option.splits)

lemma pointers_bound: "finite (pointers doc)" "card (pointers doc) \<le> length (ref_names (JDict doc))"
proof -
  let ?R = "set (ref_names (JDict doc))" and ?f = "\<lambda>r. projr (local_pointer r [])"
  have sub: "pointers doc \<subseteq> ?f ` ?R"
  proof
    fix p assume "p \<in> pointers doc"
    then obtain r path where "r \<in> ?R" "local_pointer r path = Inr p" by (auto simp: pointers_def simp del: ref_names.simps)
    then show "p \<in> ?f ` ?R" using local_pointer_path [of r path p "[]"] by (metis image_eqI sum.sel(2))
  qed
  show "finite (pointers doc)" by (rule finite_subset [OF sub]) (simp del: ref_names.simps)
  have "card (pointers doc) \<le> card (?f ` ?R)" by (rule card_mono [OF _ sub]) (simp del: ref_names.simps)
  also have "\<dots> \<le> card ?R" by (rule card_image_le) (simp del: ref_names.simps)
  also have "\<dots> \<le> length (ref_names (JDict doc))" by (rule card_length)
  finally show "card (pointers doc) \<le> length (ref_names (JDict doc))" .
qed

definition enough :: "jdict \<Rightarrow> nat \<Rightarrow> json \<Rightarrow> string list \<Rightarrow> bool" where
  "enough doc fuel v active \<longleftrightarrow> set (ref_names v) \<subseteq> set (ref_names (JDict doc)) \<and> distinct active \<and>
    set active \<subseteq> pointers doc \<and> card (pointers doc) \<le> fuel + length active"

lemma enough_sub: "enough doc fuel w active \<Longrightarrow> set (ref_names v) \<subseteq> set (ref_names w) \<Longrightarrow> enough doc fuel v active"
  unfolding enough_def by blast

lemma bindO_returns: "m \<noteq> None \<Longrightarrow> (\<And>x. m = Some (Inr x) \<Longrightarrow> f x \<noteq> None) \<Longrightarrow> bindO m f \<noteq> None"
  by (auto simp: bindO_def split: sum.splits)

lemma named_returns: "m \<noteq> None \<Longrightarrow> named n m \<noteq> None" "m' \<noteq> None \<Longrightarrow> as_object m' \<noteq> None" "m'' \<noteq> None \<Longrightarrow> as_array m'' \<noteq> None"
  by (auto simp: named_def as_object_def as_array_def bindO_def split: sum.splits)

lemma reference_pointer_new:
  assumes "reference_pointer d r path active = Inr p" "r \<in> set (ref_names (JDict doc))"
  shows "p \<in> pointers doc \<and> p \<notin> set active"
  using assms unfolding pointers_def
  by (auto simp: reference_pointer_def Let_def bindR_Inr_iff simp del: ref_names.simps split: if_splits)

lemma enough_follow:
  assumes e: "enough doc fuel v active" and p: "p \<in> pointers doc" "p \<notin> set active"
    and t: "set (ref_names t) \<subseteq> set (ref_names (JDict doc))"
  shows "\<exists>f. fuel = Suc f \<and> enough doc f t (active @ [p])"
proof -
  have "insert p (set active) \<subseteq> pointers doc" "distinct active" using e p(1) by (auto simp: enough_def)
  then have "card (insert p (set active)) \<le> card (pointers doc)" by (intro card_mono pointers_bound)
  then have "Suc (length active) \<le> card (pointers doc)" using p(2) \<open>distinct active\<close> by (simp add: distinct_card)
  then obtain f where f: "fuel = Suc f" using e by (cases fuel) (auto simp: enough_def)
  then show ?thesis using e p t by (auto simp: enough_def simp del: ref_names.simps)
qed

lemma dict_refs: "is_dict v \<Longrightarrow> dget (dict_items v) ''$ref'' = Some (JStr r) \<Longrightarrow> r \<in> set (ref_names v)"
  by (cases v) auto

lemma entry_refs:
  "(k, c) \<in> set (child_entries v) \<Longrightarrow> set (ref_names c) \<subseteq> set (ref_names v)"
  "(k, c) \<in> set (sibling_entries v) \<Longrightarrow> set (ref_names c) \<subseteq> set (ref_names v)"
  using ref_names_items(1) by (auto simp: child_entries_def sibling_entries_def simp del: ref_names.simps)

lemma resolve_returns:
  "enough doc fuel v active \<Longrightarrow> resolve doc fuel v path active \<noteq> None"
  "enough doc fuel v active \<Longrightarrow> r \<in> set (ref_names (JDict doc)) \<Longrightarrow> resolve_ref doc fuel v r path active \<noteq> None"
  "enough doc fuel v active \<Longrightarrow> resolve_children doc fuel v path active \<noteq> None"
proof (induction doc fuel v path active and doc fuel v r path active
    and doc fuel v path active rule: resolve_resolve_ref_resolve_children.induct)
  case (1 doc fuel v path active)
  show ?case
  proof (cases "is_dict v")
    case d: True
    show ?thesis
    proof (cases "dget_or (dict_items v) ''$ref'' JNull")
      case JNull
      then show ?thesis using 1(1) d 1(3) by (simp add: resolve.simps)
    next
      case (JStr r)
      then have "r \<in> set (ref_names v)"
        using dict_refs [OF d] by (auto simp: dget_or_def split: option.splits)
      then have "r \<in> set (ref_names (JDict doc))" using 1(3) unfolding enough_def by blast
      then show ?thesis using 1(2) d JStr 1(3) by (simp add: resolve.simps)
    qed (simp_all add: resolve.simps)
  qed (simp add: resolve.simps)
next
  case (2 doc fuel v r path active)
  show ?case unfolding resolve_ref.simps
  proof (intro bindO_returns)
    fix p t assume p: "Some (reference_pointer (dict_items v) r path active) = Some (Inr p)"
      and t: "Some (pointer_target doc p path) = Some (Inr t)"
    have p': "p \<in> pointers doc" "p \<notin> set active" using reference_pointer_new [of _ r path active p doc] p 2(4) by auto
    obtain f where f: "fuel = Suc f" "enough doc f t (active @ [p])"
      using enough_follow [OF 2(3) p'] pointer_target_refs t by blast
    have "mapO (\<lambda>(n, s). named n (resolve doc fuel s (path @ ''.'' @ n) active)) (sibling_entries v) \<noteq> None"
    proof (rule mapO_returns)
      fix q assume q: "q \<in> set (sibling_entries v)"
      obtain n s where ns: "q = (n, s)" by (cases q)
      have e: "enough doc fuel s active" using enough_sub [OF 2(3) entry_refs(2)] q ns by blast
      have "resolve doc fuel s (path @ ''.'' @ n) active \<noteq> None"
        by (rule 2(2) [OF f(1) _ q ns [symmetric] e, where xb = "JDict []"]) simp
      then show "(case q of (n, s) \<Rightarrow> named n (resolve doc fuel s (path @ ''.'' @ n) active)) \<noteq> None"
        unfolding ns prod.case by (rule named_returns(1))
    qed
    moreover have "resolve doc f t (''reference '' @ r) (active @ [p]) \<noteq> None"
      using 2(1) [OF f(1)] f(2) by simp
    ultimately show "(case fuel of 0 \<Rightarrow> None | Suc fuel' \<Rightarrow> bindO (resolve doc fuel' t (''reference '' @ r) (active @ [p]))
      (\<lambda>expanded. if \<not> is_dict expanded
        then Some (Inl (UnsupportedSchema (path @ ''.$ref: target must be a schema object'')))
        else as_object (bindO (mapO (\<lambda>(n, s). named n (resolve doc fuel s (path @ ''.'' @ n) active)) (sibling_entries v))
          (\<lambda>qs. Some (Inr (dmerge (dict_items expanded) qs)))))) \<noteq> None"
      unfolding f(1) nat.case by (intro bindO_returns) (auto simp: as_object_def bindO_def split: sum.split)
  qed simp_all
next
  case (3 doc fuel v path active)
  show ?case unfolding resolve_children.simps
  proof (intro named_returns mapO_returns)
    fix q assume q: "q \<in> set (child_entries v)"
    obtain name child where nc: "q = (name, child)" by (cases q)
    have e: "enough doc fuel child active" using enough_sub [OF 3(4) entry_refs(1)] q nc by blast
    note IH = 3(1) [OF q nc [symmetric]] 3(2) [OF q nc [symmetric]] 3(3) [OF q nc [symmetric]]
    show "(case q of (name, child) \<Rightarrow> named name
      (if name = ''properties'' \<and> is_dict child
       then as_object (mapO (\<lambda>(n, s). named n (resolve doc fuel s (path @ ''.properties.'' @ n) active)) (dict_items child))
       else if name = ''anyOf'' \<and> is_list child
         then as_array (mapO (\<lambda>(i, s). resolve doc fuel s (path @ ''.anyOf['' @ int_str (int i) @ '']'') active)
            (enumerate 0 (list_items child)))
       else if name = ''items'' then resolve doc fuel child (path @ ''.items'') active else Some (Inr child))) \<noteq> None"
      unfolding nc prod.case
    proof (rule named_returns(1), split if_split, intro conjI impI, goal_cases)
      case 1
      show ?case
      proof (intro named_returns mapO_returns)
        fix z assume z: "z \<in> set (dict_items child)"
        obtain n s where ns: "z = (n, s)" by (cases z)
        show "(case z of (n, s) \<Rightarrow> named n (resolve doc fuel s (path @ ''.properties.'' @ n) active)) \<noteq> None"
          using IH(1) [OF 1 z ns [symmetric]] enough_sub [OF e ref_names_items(1)] z unfolding ns prod.case by (intro named_returns(1)) blast
      qed
    next
      case 2
      show ?case
      proof (split if_split, intro conjI impI, goal_cases)
        case a: 1
        show ?case
        proof (intro named_returns mapO_returns)
          fix z assume z: "z \<in> set (enumerate 0 (list_items child))"
          obtain i s where zs: "z = (i, s)" by (cases z)
          have "s \<in> set (list_items child)" using z zs by (auto simp: in_set_enumerate_eq)
          then show "(case z of (i, s) \<Rightarrow> resolve doc fuel s (path @ ''.anyOf['' @ int_str (int i) @ '']'') active) \<noteq> None"
            using IH(2) [OF 2 a z zs [symmetric]] enough_sub [OF e ref_names_items(2)] unfolding zs by auto
        qed
      next
        case b: 2
        show ?case using IH(3) [OF 2 b] e by simp
      qed
    qed
  qed
qed

text \<open>
  C33. Expanding the local references of a schema always returns: it never runs out of the bound, the
  number of references in the document, whatever references form a cycle or name what.
\<close>

theorem resolve_local_refs_returns: "resolve_local_refs schema \<noteq> None"
proof -
  have "enough schema (length (ref_names (JDict schema))) (JDict schema) []"
    using pointers_bound by (simp add: enough_def del: ref_names.simps)
  from resolve_returns(1) [OF this, of "''$''"] show ?thesis
    unfolding resolve_local_refs_def by (intro bindO_returns) simp_all
qed

end
