(* ===== verification/Registry.thy ===== *)
theory Registry
  imports Schema
begin

text \<open>
  Versioned action specifications (\<open>registry.py\<close>): the check of a schema when a specification
  is built, the validation of arguments against it, the redaction of sensitive strings, and the
  registry of specifications with its digest.
\<close>

declare bindR_Inr_cong [fundef_cong]

section \<open>Loops that stop at the first answer\<close>

fun anyR :: "('a \<Rightarrow> bool res) \<Rightarrow> 'a list \<Rightarrow> bool res" where
  "anyR f [] = Inr False"
| "anyR f (x # xs) = bindR (f x) (\<lambda>b. if b then Inr True else anyR f xs)"

fun first_finding :: "('a \<Rightarrow> string option res) \<Rightarrow> 'a list \<Rightarrow> string option res" where
  "first_finding f [] = Inr None"
| "first_finding f (x # xs) = bindR (f x) (\<lambda>r. case r of None \<Rightarrow> first_finding f xs | Some m \<Rightarrow> Inr (Some m))"

definition or_else :: "string option res \<Rightarrow> string option res \<Rightarrow> string option res" where
  "or_else a b = bindR a (\<lambda>r. case r of None \<Rightarrow> b | Some m \<Rightarrow> Inr (Some m))"

lemma anyR_cong [fundef_cong]: "xs = ys \<Longrightarrow> (\<And>x. x \<in> set ys \<Longrightarrow> f x = g x) \<Longrightarrow> anyR f xs = anyR g ys"
  by (induction ys arbitrary: xs) (auto intro: bindR_Inr_cong)

lemma first_finding_cong [fundef_cong]:
  "xs = ys \<Longrightarrow> (\<And>x. x \<in> set ys \<Longrightarrow> f x = g x) \<Longrightarrow> first_finding f xs = first_finding g ys"
  by (induction ys arbitrary: xs) (auto intro!: bindR_Inr_cong split: option.split)

lemma mapR_cong [fundef_cong]: "xs = ys \<Longrightarrow> (\<And>x. x \<in> set ys \<Longrightarrow> f x = g x) \<Longrightarrow> mapR f xs = mapR g ys"
  by (induction ys arbitrary: xs) auto

lemma foldR_cong [fundef_cong]:
  "xs = ys \<Longrightarrow> s = t \<Longrightarrow> (\<And>u x. x \<in> set ys \<Longrightarrow> f u x = g u x) \<Longrightarrow> foldR f s xs = foldR g t ys"
  by (induction ys arbitrary: xs s t) (auto intro!: bindR_Inr_cong)

section \<open>Checking a schema\<close>

definition supported_keys :: "string list" where
  "supported_keys = [''type'', ''properties'', ''required'', ''enum'', ''anyOf'', ''items'', ''minimum'', ''maximum'',
    ''exclusiveMinimum'', ''exclusiveMaximum'', ''minLength'', ''maxLength'', ''minItems'', ''maxItems'',
    ''additionalProperties'', ''title'', ''description'', ''default'', ''sensitive'']"

definition supported_types :: "string list" where
  "supported_types = [''object'', ''string'', ''integer'', ''boolean'', ''array'', ''null'']"

definition schema_get :: "json \<Rightarrow> string \<Rightarrow> json" where
  "schema_get s k = dget_or (dict_items s) k JNull"

definition schema_type :: "json \<Rightarrow> json" where
  "schema_type s = schema_get s ''type''"

definition check_head :: "json \<Rightarrow> string \<Rightarrow> unit res" where
  "check_head s path =
    (let unknown = filter (\<lambda>k. k \<notin> set supported_keys) (map fst (dict_items s)) in
     if unknown \<noteq> [] then Inl (UnsupportedSchema (path @ '': unsupported keywords '' @ sorted_names unknown))
     else case schema_type s of
       JNull \<Rightarrow> Inr ()
     | JStr t \<Rightarrow> ensure (t \<in> set supported_types) (UnsupportedSchema (path @ '': unsupported type '' @ py_repr (JStr t)))
     | t \<Rightarrow> Inl (UnsupportedSchema (path @ '': unsupported type '' @ py_repr t)))"

fun is_str :: "json \<Rightarrow> bool" where
  "is_str (JStr s) = True"
| "is_str v = False"

definition check_required :: "json \<Rightarrow> string \<Rightarrow> unit res" where
  "check_required s path = (case schema_get s ''required'' of
      JNull \<Rightarrow> Inr ()
    | JList xs \<Rightarrow> ensure (list_all is_str xs) (UnsupportedSchema (path @ ''.required: must be a list of strings''))
    | _ \<Rightarrow> Inl (UnsupportedSchema (path @ ''.required: must be a list of strings'')))"

definition check_enum :: "json \<Rightarrow> string \<Rightarrow> unit res" where
  "check_enum s path = (case schema_get s ''enum'' of
      JNull \<Rightarrow> Inr ()
    | JList [] \<Rightarrow> Inl (UnsupportedSchema (path @ ''.enum: must be a non-empty list''))
    | JList xs \<Rightarrow> bindR (foldR (\<lambda>encoded item. bindR (canonical_bytes item) (\<lambda>b.
          if b \<in> set encoded then Inl (UnsupportedSchema (path @ ''.enum: values must be unique''))
          else Inr (encoded @ [b]))) [] xs) (\<lambda>_. Inr ())
    | _ \<Rightarrow> Inl (UnsupportedSchema (path @ ''.enum: must be a non-empty list'')))"

definition check_constraint :: "json \<Rightarrow> string \<Rightarrow> string \<Rightarrow> json \<Rightarrow> string \<Rightarrow> bool \<Rightarrow> unit res" where
  "check_constraint v keyword path ty required_type nonnegative =
    (if ty \<noteq> JStr required_type
     then Inl (UnsupportedSchema (path @ ''.'' @ keyword @ '': requires type '' @ py_repr_str required_type))
     else case v of
       JInt i \<Rightarrow> ensure (\<not> (nonnegative \<and> i < 0)) (UnsupportedSchema (path @ ''.'' @ keyword @ '': must be nonnegative''))
     | _ \<Rightarrow> Inl (UnsupportedSchema (path @ ''.'' @ keyword @ '': must be an integer'')))"

definition constraint_rows :: "(string \<times> string \<times> bool) list" where
  "constraint_rows = [(''minimum'', ''integer'', False), (''maximum'', ''integer'', False),
    (''exclusiveMinimum'', ''integer'', False), (''exclusiveMaximum'', ''integer'', False),
    (''minLength'', ''string'', True), (''maxLength'', ''string'', True),
    (''minItems'', ''array'', True), (''maxItems'', ''array'', True)]"

definition check_constraints :: "json \<Rightarrow> string \<Rightarrow> unit res" where
  "check_constraints s path = forR (\<lambda>(keyword, required_type, nonnegative).
     case dget (dict_items s) keyword of None \<Rightarrow> Inr ()
     | Some v \<Rightarrow> check_constraint v keyword path (schema_type s) required_type nonnegative) constraint_rows"

fun branch_types :: "json list \<Rightarrow> string list option" where
  "branch_types [] = Some []"
| "branch_types (c # cs) = (case schema_get c ''type'' of
      JStr t \<Rightarrow> if is_dict c then map_option ((#) t) (branch_types cs) else None
    | _ \<Rightarrow> None)"

definition is_sensitive_string_schema :: "json \<Rightarrow> bool" where
  "is_sensitive_string_schema s =
    (if schema_type s = JStr ''string'' then True
     else case schema_get s ''anyOf'' of
       JList xs \<Rightarrow> xs \<noteq> [] \<and> (case branch_types xs of None \<Rightarrow> False
         | Some ts \<Rightarrow> ''string'' \<in> set ts \<and> set ts \<subseteq> {''string'', ''null''})
     | _ \<Rightarrow> False)"

definition check_annotations :: "json \<Rightarrow> string \<Rightarrow> unit res" where
  "check_annotations s path =
    bindR (case schema_get s ''additionalProperties'' of JNull \<Rightarrow> Inr () | JBool b \<Rightarrow> Inr ()
           | _ \<Rightarrow> Inl (UnsupportedSchema (path @ ''.additionalProperties: must be a boolean''))) (\<lambda>_.
    bindR (forR (\<lambda>annotation. case schema_get s annotation of JNull \<Rightarrow> Inr () | JStr t \<Rightarrow> Inr ()
           | _ \<Rightarrow> Inl (UnsupportedSchema (path @ ''.'' @ annotation @ '': must be a string''))) [''title'', ''description'']) (\<lambda>_.
    bindR (case schema_get s ''sensitive'' of JNull \<Rightarrow> Inr ()
           | JBool b \<Rightarrow> ensure (\<not> b \<or> is_sensitive_string_schema s)
               (UnsupportedSchema (path @ ''.sensitive: only string fields may be sensitive''))
           | _ \<Rightarrow> Inl (UnsupportedSchema (path @ ''.sensitive: must be a boolean''))) (\<lambda>_.
    bindR (canonical_bytes s) (\<lambda>_. Inr ()))))"

lemma schema_get_size: "is_dict s \<Longrightarrow> schema_get s k \<noteq> JNull \<Longrightarrow> size (schema_get s k) < size s"
  using dict_items_size [of k _ s] by (auto simp: schema_get_def dget_or_def dest: map_of_SomeD split: option.splits)

lemma schema_child_size:
  "(n, c) \<in> set (dict_items (schema_get s k)) \<Longrightarrow> size c < size s"
  "x \<in> set (list_items (schema_get s k)) \<Longrightarrow> size x < size s"
  "dget (dict_items s) k = Some v \<Longrightarrow> size v < size s"
proof -
  have d: "schema_get s k = JNull \<or> size (schema_get s k) < size s"
    using schema_get_size [of s k] by (cases s) (auto simp: schema_get_def dget_or_def)
  show "(n, c) \<in> set (dict_items (schema_get s k)) \<Longrightarrow> size c < size s"
    using d dict_items_size [of n c "schema_get s k"] by auto
  show "x \<in> set (list_items (schema_get s k)) \<Longrightarrow> size x < size s"
    using d list_items_size [of x "schema_get s k"] by auto
  show "dget (dict_items s) k = Some v \<Longrightarrow> size v < size s"
    using dict_items_size [of k v s] by (auto dest: map_of_SomeD)
qed

lemma enumerated_child_size: "(i, x) \<in> set (enumerate j (list_items (schema_get s k))) \<Longrightarrow> size x < size s"
  by (rule schema_child_size(2) [of _ s k]) (auto simp: in_set_enumerate_eq)

function check_schema :: "json \<Rightarrow> string \<Rightarrow> unit res" where
  "check_schema s path =
    (if \<not> is_dict s then Inl (UnsupportedSchema (path @ '': schema must be an object''))
     else
       bindR (check_head s path) (\<lambda>_.
       bindR (if schema_get s ''properties'' = JNull then Inr ()
              else if \<not> is_dict (schema_get s ''properties'')
              then Inl (UnsupportedSchema (path @ ''.properties: must be an object''))
              else forR (\<lambda>(name, child). check_schema child (path @ ''.properties.'' @ name))
                     (dict_items (schema_get s ''properties''))) (\<lambda>_.
       bindR (check_required s path) (\<lambda>_.
       bindR (check_enum s path) (\<lambda>_.
       bindR (if schema_get s ''anyOf'' = JNull then Inr ()
              else if \<not> is_list (schema_get s ''anyOf'') \<or> list_items (schema_get s ''anyOf'') = []
              then Inl (UnsupportedSchema (path @ ''.anyOf: must be a non-empty list of schemas''))
              else forR (\<lambda>(i, child). check_schema child (path @ ''.anyOf['' @ int_str (int i) @ '']''))
                     (enumerate 0 (list_items (schema_get s ''anyOf'')))) (\<lambda>_.
       bindR (case dget (dict_items s) ''items'' of None \<Rightarrow> Inr ()
              | Some child \<Rightarrow> check_schema child (path @ ''.items'')) (\<lambda>_.
       bindR (check_constraints s path) (\<lambda>_.
       check_annotations s path))))))))"
  by pat_completeness auto
termination
  by (relation "measure (size \<circ> fst)") (auto dest: schema_child_size enumerated_child_size)

declare check_schema.simps [simp del]

section \<open>Validating a value\<close>

definition matches_type :: "json \<Rightarrow> string \<Rightarrow> bool" where
  "matches_type v expected = (case v of
      JDict d \<Rightarrow> expected = ''object''
    | JStr t \<Rightarrow> expected = ''string''
    | JInt i \<Rightarrow> expected = ''integer''
    | JBool b \<Rightarrow> expected = ''boolean''
    | JList xs \<Rightarrow> expected = ''array''
    | JNull \<Rightarrow> expected = ''null''
    | _ \<Rightarrow> False)"

definition json_equal :: "json \<Rightarrow> json \<Rightarrow> bool res" where
  "json_equal left right =
    bindR (canonical_bytes left) (\<lambda>a. bindR (canonical_bytes right) (\<lambda>b. Inr (a = b)))"

definition bound_finding :: "(int \<Rightarrow> bool) \<Rightarrow> json \<Rightarrow> string \<Rightarrow> string \<Rightarrow> string option res" where
  "bound_finding bad s k message = (case schema_get s k of
      JInt b \<Rightarrow> Inr (if bad b then Some (message @ int_str b) else None) | _ \<Rightarrow> Inr None)"

definition validate_integer_bounds :: "int \<Rightarrow> json \<Rightarrow> string \<Rightarrow> string option res" where
  "validate_integer_bounds i s path =
    or_else (bound_finding (\<lambda>b. i < b) s ''minimum'' (path @ '': value must be at least ''))
    (or_else (bound_finding (\<lambda>b. b < i) s ''maximum'' (path @ '': value must be at most ''))
    (or_else (bound_finding (\<lambda>b. i \<le> b) s ''exclusiveMinimum'' (path @ '': value must be greater than ''))
    (bound_finding (\<lambda>b. b \<le> i) s ''exclusiveMaximum'' (path @ '': value must be less than ''))))"

definition validate_length :: "nat \<Rightarrow> json \<Rightarrow> string \<Rightarrow> string \<Rightarrow> string \<Rightarrow> string \<Rightarrow> string option res" where
  "validate_length n s path minimum_keyword maximum_keyword what =
    or_else (bound_finding (\<lambda>b. int n < b) s minimum_keyword (path @ '': '' @ what @ '' must be at least ''))
      (bound_finding (\<lambda>b. b < int n) s maximum_keyword (path @ '': '' @ what @ '' must be at most ''))"

definition type_finding :: "json \<Rightarrow> json \<Rightarrow> string \<Rightarrow> string option res" where
  "type_finding v s path = (case schema_type s of
      JStr t \<Rightarrow> Inr (if matches_type v t then None else Some (path @ '': expected '' @ t)) | _ \<Rightarrow> Inr None)"

definition enum_finding :: "json \<Rightarrow> json \<Rightarrow> string \<Rightarrow> string option res" where
  "enum_finding v s path = (case schema_get s ''enum'' of
      JList xs \<Rightarrow> bindR (anyR (json_equal v) xs) (\<lambda>b. Inr (if b then None else Some (path @ '': value not in enum'')))
    | _ \<Rightarrow> Inr None)"

definition size_finding :: "json \<Rightarrow> json \<Rightarrow> string \<Rightarrow> string option res" where
  "size_finding v s path =
    (if schema_type s = JStr ''integer'' then (case v of JInt i \<Rightarrow> validate_integer_bounds i s path | _ \<Rightarrow> Inr None)
     else if schema_type s = JStr ''string''
     then (case v of JStr t \<Rightarrow> validate_length (length t) s path ''minLength'' ''maxLength'' ''length'' | _ \<Rightarrow> Inr None)
     else if schema_type s = JStr ''array''
     then (case v of JList xs \<Rightarrow> validate_length (length xs) s path ''minItems'' ''maxItems'' ''item count'' | _ \<Rightarrow> Inr None)
     else Inr None)"

definition wants_object :: "json \<Rightarrow> bool" where
  "wants_object s \<longleftrightarrow> schema_type s = JStr ''object'' \<or>
    (schema_type s = JNull \<and> (\<exists>k \<in> {''properties'', ''required'', ''additionalProperties''}. dget (dict_items s) k \<noteq> None))"

fun missing_required :: "jdict \<Rightarrow> json list \<Rightarrow> string option" where
  "missing_required d [] = None"
| "missing_required d (JStr n # ns) = (if dget d n = None then Some n else missing_required d ns)"
| "missing_required d (_ # ns) = missing_required d ns"

definition required_finding :: "json \<Rightarrow> json \<Rightarrow> string \<Rightarrow> string option res" where
  "required_finding v s path = Inr (map_option (\<lambda>n. path @ '': missing required property '' @ n)
     (missing_required (dict_items v) (list_items (schema_get s ''required''))))"

definition schema_properties :: "json \<Rightarrow> json" where
  "schema_properties s = dget_or (dict_items s) ''properties'' (JDict [])"

definition extra_finding :: "json \<Rightarrow> json \<Rightarrow> string \<Rightarrow> string option res" where
  "extra_finding v s path =
    (let extra = sort (filter (\<lambda>k. k \<notin> set (map fst (dict_items (schema_properties s)))) (map fst (dict_items v))) in
     Inr (if schema_get s ''additionalProperties'' = JBool False \<and> extra \<noteq> []
          then Some (path @ '': unexpected property '' @ hd extra) else None))"

lemma schema_properties_size: "(n, c) \<in> set (dict_items (schema_properties s)) \<Longrightarrow> size c < size s"
  using schema_child_size(1) [of n c s "''properties''"]
  by (auto simp: schema_properties_def schema_get_def dget_or_def split: option.splits)

function validate_value :: "json \<Rightarrow> json \<Rightarrow> string \<Rightarrow> string option res" where
  "validate_value v s path =
    or_else (type_finding v s path)
    (or_else (enum_finding v s path)
    (or_else
      (if is_list (schema_get s ''anyOf'')
       then bindR (anyR (\<lambda>child. if is_dict child
              then bindR (validate_value v child path) (\<lambda>f. Inr (f = None)) else Inr False)
              (list_items (schema_get s ''anyOf''))) (\<lambda>b.
            Inr (if b then None else Some (path @ '': value does not match anyOf'')))
       else Inr None)
    (or_else (size_finding v s path)
    (or_else
      (if \<not> wants_object s then Inr None
       else if \<not> is_dict v then Inr (Some (path @ '': expected object''))
       else or_else (required_finding v s path)
         (if \<not> is_dict (schema_properties s) then Inr None
          else or_else (first_finding (\<lambda>(name, child). case dget (dict_items v) name of
                  None \<Rightarrow> Inr None
                | Some w \<Rightarrow> if is_dict child then validate_value w child (path @ ''.'' @ name) else Inr None)
                (dict_items (schema_properties s)))
            (extra_finding v s path)))
      (if schema_type s \<noteq> JStr ''array'' then Inr None
       else if \<not> is_list v then Inr (Some (path @ '': expected array''))
       else if \<not> is_dict (schema_get s ''items'') then Inr None
       else first_finding (\<lambda>(i, item). validate_value item (schema_get s ''items'') (path @ ''['' @ int_str (int i) @ '']''))
         (enumerate 0 (list_items v)))))))"
  by pat_completeness auto
termination
proof (relation "measure (\<lambda>(v, s, p). size s)", goal_cases)
  case (4 v s path p i item)
  have "is_dict s" using 4(3) by (cases s) (auto simp: schema_get_def dget_or_def)
  moreover have "schema_get s ''items'' \<noteq> JNull" using 4(3) by auto
  ultimately show ?case by (simp add: schema_get_size)
qed (auto dest: schema_child_size schema_properties_size)

declare validate_value.simps [simp del]

section \<open>Redaction\<close>

definition matching_branches :: "json \<Rightarrow> json list \<Rightarrow> json list res" where
  "matching_branches v branches =
    bindR (mapR (\<lambda>b. bindR (validate_value v b ''$'') (\<lambda>f. Inr (f = None, b))) branches) (\<lambda>flags.
    Inr (if map snd (filter fst flags) = [] then branches else map snd (filter fst flags)))"

lemma matching_branches_subset:
  "matching_branches v branches = Inr bs \<Longrightarrow> set bs \<subseteq> set branches"
proof -
  assume "matching_branches v branches = Inr bs"
  then obtain flags where f: "mapR (\<lambda>b. bindR (validate_value v b ''$'') (\<lambda>f. Inr (f = None, b))) branches = Inr flags"
    and bs: "bs = branches \<or> bs = map snd (filter fst flags)"
    by (auto simp: matching_branches_def bindR_Inr_iff split: if_splits)
  have "snd (flags ! i) = branches ! i" if "i < length branches" for i
    using mapR_Inr_nth [OF f that] by (auto simp: bindR_Inr_iff) (metis snd_conv)
  then have "map snd flags = branches" using mapR_Inr_length [OF f] by (intro nth_equalityI) auto
  then show ?thesis using bs by auto
qed

function redact_sensitive :: "json \<Rightarrow> json \<Rightarrow> json res" where
  "redact_sensitive v s =
    (if schema_get s ''sensitive'' = JBool True \<and> is_str v
     then bindR (redact v None) (\<lambda>d. Inr (JDict d))
     else
       bindR (if is_list (schema_get s ''anyOf'')
              then bindR (matching_branches v (filter is_dict (list_items (schema_get s ''anyOf'')))) (\<lambda>bs.
                   foldR redact_sensitive v bs)
              else Inr v) (\<lambda>w.
       if is_dict w then
         (if \<not> is_dict (schema_get s ''properties'') then Inr w
          else bindR (foldR (\<lambda>d (name, child). case dget d name of
                  None \<Rightarrow> Inr d
                | Some x \<Rightarrow> if is_dict child then bindR (redact_sensitive x child) (\<lambda>y. Inr (dset name y d)) else Inr d)
                (dict_items w) (dict_items (schema_get s ''properties''))) (\<lambda>d. Inr (JDict d)))
       else if is_list w \<and> is_dict (schema_get s ''items'')
       then bindR (mapR (\<lambda>item. redact_sensitive item (schema_get s ''items'')) (list_items w)) (\<lambda>ys. Inr (JList ys))
       else Inr w))"
  by pat_completeness auto
termination
proof (relation "measure (\<lambda>(v, s). size s)", goal_cases)
  case (2 v s bs u x)
  then have "x \<in> set (filter is_dict (list_items (schema_get s ''anyOf'')))" using matching_branches_subset by blast
  then show ?case using schema_child_size(2) [of x s] by auto
next
  case (4 v s w y)
  have "is_dict s" using 4(4) by (cases s) (auto simp: schema_get_def dget_or_def)
  moreover have "schema_get s ''items'' \<noteq> JNull" using 4(4) by auto
  ultimately show ?case by (simp add: schema_get_size)
qed (auto dest: schema_child_size)

declare redact_sensitive.simps [simp del]

section \<open>Specifications and the registry\<close>

record action_spec =
  sp_name :: string
  sp_version :: string
  sp_description :: string
  sp_schema :: jdict
  sp_side_effects :: bool
  sp_digest :: string

definition digest_spec :: "string \<Rightarrow> string \<Rightarrow> string \<Rightarrow> jdict \<Rightarrow> bool \<Rightarrow> string res" where
  "digest_spec name version description schema side_effects =
    bindR (canonical_bytes (JDict [(''name'', JStr name), (''version'', JStr version),
      (''description'', JStr description), (''schema'', JDict schema), (''side_effects'', JBool side_effects)])) (\<lambda>b.
    Inr (sha256_hex b))"

definition make_spec :: "string \<Rightarrow> string \<Rightarrow> string \<Rightarrow> jdict \<Rightarrow> bool \<Rightarrow> action_spec res option" where
  "make_spec name version description schema side_effects =
    (if name = [] then Some (Inl (ValueError ''action spec name cannot be empty''))
     else if version = [] then Some (Inl (ValueError ''action spec version cannot be empty''))
     else bindO (if schema_has_local_refs (JDict schema) then resolve_local_refs schema else Some (Inr schema)) (\<lambda>resolved.
       Some (bindR (check_schema (JDict resolved) (''schema for '' @ name)) (\<lambda>_.
         bindR (digest_spec name version description resolved side_effects) (\<lambda>d.
         Inr \<lparr>sp_name = name, sp_version = version, sp_description = description, sp_schema = resolved,
              sp_side_effects = side_effects, sp_digest = d\<rparr>)))))"

definition validate_args :: "action_spec \<Rightarrow> jdict \<Rightarrow> string option res" where
  "validate_args spec args = (case canonical_bytes (JDict args) of
      Inl (TypeError m) \<Rightarrow> Inr (Some m)
    | Inl e \<Rightarrow> Inl e
    | Inr _ \<Rightarrow> validate_value (JDict args) (JDict (sp_schema spec)) ''$'')"

definition redact_args :: "action_spec \<Rightarrow> jdict \<Rightarrow> jdict res" where
  "redact_args spec args =
    bindR (redact_sensitive (JDict args) (JDict (sp_schema spec))) (\<lambda>v.
    if is_dict v then Inr (dict_items v) else Inl (TypeError ''action arguments must redact to an object''))"

record registry =
  rg_specs :: "(string \<times> action_spec) list"
  rg_digest :: string

definition add_spec :: "(string \<times> action_spec) list \<Rightarrow> action_spec \<Rightarrow> (string \<times> action_spec) list res" where
  "add_spec by_name spec =
    (if dget by_name (sp_name spec) \<noteq> None then Inl (ValueError (''duplicate action spec name: '' @ sp_name spec))
     else Inr (dset (sp_name spec) spec by_name))"

definition make_registry :: "action_spec list \<Rightarrow> registry res" where
  "make_registry specs =
    bindR (foldR add_spec [] specs) (\<lambda>by_name.
    bindR (canonical_bytes (JDict [(''spec_digests'', JList (map JStr (sort (map sp_digest specs))))])) (\<lambda>b.
    Inr \<lparr>rg_specs = by_name, rg_digest = sha256_hex b\<rparr>))"

definition registry_get :: "registry \<Rightarrow> string \<Rightarrow> string option \<Rightarrow> action_spec res" where
  "registry_get r name version = (case dget (rg_specs r) name of
      None \<Rightarrow> Inl (KeyError name)
    | Some spec \<Rightarrow>
        if version \<noteq> None \<and> version \<noteq> Some (sp_version spec) then Inl (KeyError (name @ ''@'' @ the version))
        else Inr spec)"

definition registry_contains :: "registry \<Rightarrow> string \<Rightarrow> bool" where
  "registry_contains r name \<longleftrightarrow> dget (rg_specs r) name \<noteq> None"

definition registry_iter :: "registry \<Rightarrow> action_spec list" where
  "registry_iter r = map snd (rg_specs r)"

end
