(* ===== verification/Registry_Facts.thy ===== *)
theory Registry_Facts
  imports Registry
begin

text \<open>
  Validation against a checked schema never raises, sensitive strings are replaced by markers that
  commit to them, and a registry does not depend on the order of its specifications.
\<close>

section \<open>Validation does not raise\<close>

definition answers :: "string option res \<Rightarrow> bool" where
  "answers r \<longleftrightarrow> (\<exists>f. r = Inr f)"

lemma answers_simps [simp]: "answers (Inr f)" "\<not> answers (Inl e)"
  by (simp_all add: answers_def)

lemma answers_or_else [intro]: "answers a \<Longrightarrow> answers b \<Longrightarrow> answers (or_else a b)"
  by (auto simp: answers_def or_else_def split: option.splits)

lemma answers_first_finding [intro]: "(\<And>x. x \<in> set xs \<Longrightarrow> answers (f x)) \<Longrightarrow> answers (first_finding f xs)"
proof (induction xs)
  case (Cons x xs)
  obtain r where "f x = Inr r" using Cons.prems by (auto simp: answers_def)
  then show ?case using Cons by (cases r) auto
qed simp

lemma anyR_answers: "(\<And>x. x \<in> set xs \<Longrightarrow> \<exists>b. f x = Inr b) \<Longrightarrow> \<exists>b. anyR f xs = Inr b"
  by (induction xs) fastforce+

lemma identity_ok_items:
  "identity_ok w \<Longrightarrow> (k, v) \<in> set (dict_items w) \<Longrightarrow> identity_ok v"
  "identity_ok w \<Longrightarrow> x \<in> set (list_items w) \<Longrightarrow> identity_ok x"
  by (cases w; force)+

lemma identity_ok_dget: "identity_ok w \<Longrightarrow> dget (dict_items w) k = Some v \<Longrightarrow> identity_ok v"
  using identity_ok_items(1) by (auto dest: map_of_SomeD)

lemma identity_ok_get: "identity_ok s \<Longrightarrow> identity_ok (schema_get s k)"
  using identity_ok_dget [of s k] by (auto simp: schema_get_def dget_or_def split: option.split)

lemma answers_bound [simp]: "answers (bound_finding bad s k m)"
  by (auto simp: bound_finding_def split: json.split)

lemma answers_size [simp]: "answers (size_finding v s path)"
  by (auto simp: size_finding_def validate_integer_bounds_def validate_length_def intro!: answers_or_else split: json.split)

lemma answers_type [simp]: "answers (type_finding v s path)"
  by (auto simp: type_finding_def split: json.split)

lemma answers_required [simp]: "answers (required_finding v s path)" "answers (extra_finding v s path)"
  by (simp_all add: required_finding_def extra_finding_def Let_def)

lemma answers_enum: "identity_ok v \<Longrightarrow> identity_ok s \<Longrightarrow> answers (enum_finding v s path)"
proof -
  assume ok: "identity_ok v" "identity_ok s"
  have "\<exists>b. anyR (json_equal v) xs = Inr b" if "schema_get s ''enum'' = JList xs" for xs
    using identity_ok_get [OF ok(2), of "''enum''"] ok(1) that by (intro anyR_answers) (simp add: json_equal_def)
  then show ?thesis by (fastforce simp: enum_finding_def split: json.split)
qed

lemma validate_value_answers: "identity_ok v \<Longrightarrow> identity_ok s \<Longrightarrow> answers (validate_value v s path)"
proof (induction v s path rule: validate_value.induct)
  case (1 v s path)
  note ok = 1(4,5)
  have "\<exists>b. anyR (\<lambda>child. if is_dict child then bindR (validate_value v child path) (\<lambda>f. Inr (f = None)) else Inr False)
      (list_items (schema_get s ''anyOf'')) = Inr b" if l: "is_list (schema_get s ''anyOf'')"
  proof (rule anyR_answers)
    fix x assume x: "x \<in> set (list_items (schema_get s ''anyOf''))"
    then have "is_dict x \<Longrightarrow> answers (validate_value v x path)"
      using 1(1) [OF l x] ok identity_ok_items(2) [OF identity_ok_get [OF ok(2)] x] by simp
    then show "\<exists>b. (if is_dict x then bindR (validate_value v x path) (\<lambda>f. Inr (f = None)) else Inr False) = Inr b"
      by (auto simp: answers_def)
  qed
  moreover have "answers (first_finding (\<lambda>(name, child). case dget (dict_items v) name of
        None \<Rightarrow> Inr None
      | Some w \<Rightarrow> if is_dict child then validate_value w child (path @ ''.'' @ name) else Inr None)
      (dict_items (schema_properties s)))" if w: "\<not> \<not> wants_object s" "\<not> \<not> is_dict v" "\<not> \<not> is_dict (schema_properties s)"
  proof (rule answers_first_finding, clarify)
    fix name child assume c: "(name, child) \<in> set (dict_items (schema_properties s))"
    have "identity_ok (schema_properties s)"
      using identity_ok_dget [OF ok(2), of "''properties''"] by (auto simp: schema_properties_def dget_or_def split: option.split)
    then have "identity_ok child" using identity_ok_items(1) c by blast
    then show "answers (case dget (dict_items v) name of None \<Rightarrow> Inr None
        | Some w \<Rightarrow> if is_dict child then validate_value w child (path @ ''.'' @ name) else Inr None)"
      using 1(2) [OF w c refl] identity_ok_dget [OF ok(1), of name] by (auto split: option.split)
  qed
  moreover have "answers (first_finding (\<lambda>(i, item). validate_value item (schema_get s ''items'') (path @ ''['' @ int_str (int i) @ '']''))
      (enumerate 0 (list_items v)))"
    if a: "\<not> schema_type s \<noteq> JStr ''array''" "\<not> \<not> is_list v" "\<not> \<not> is_dict (schema_get s ''items'')"
  proof (rule answers_first_finding, clarify)
    fix i item assume c: "(i, item) \<in> set (enumerate 0 (list_items v))"
    then have "item \<in> set (list_items v)" by (auto simp: in_set_enumerate_eq)
    then show "answers (validate_value item (schema_get s ''items'') (path @ ''['' @ int_str (int i) @ '']''))"
      using 1(3) [OF a c refl] identity_ok_items(2) [OF ok(1)] identity_ok_get [OF ok(2)] by blast
  qed
  ultimately show ?case unfolding validate_value.simps [of v s path]
    by (intro answers_or_else answers_type answers_enum answers_size ok) (auto intro!: answers_or_else)
qed

lemma check_schema_identity: "check_schema s path = Inr u \<Longrightarrow> identity_ok s"
  by (subst (asm) check_schema.simps)
    (auto simp: bindR_Inr_iff check_annotations_def canonical_bytes_Inr split: if_splits)

lemma make_spec_schema:
  assumes "make_spec n v d sc se = Some (Inr spec)" shows "identity_ok (JDict (sp_schema spec))"
proof -
  obtain x where "check_schema (JDict x) (''schema for '' @ n) = Inr ()" "sp_schema spec = x"
    using assms unfolding make_spec_def by (auto simp: bindO_Inr_iff bindR_Inr_iff split: if_splits)
  then show ?thesis using check_schema_identity by blast
qed

text \<open>
  C32. The arguments of an action can always be judged: for a specification that was built without an
  error, \<open>validate_args\<close> returns a finding or none on every argument object, and never raises.
\<close>

theorem validate_args_returns:
  assumes "make_spec name version description schema side_effects = Some (Inr spec)"
  shows "\<exists>f. validate_args spec args = Inr f"
proof (cases "canonical_bytes (JDict args)")
  case (Inl e)
  then obtain m where "e = TypeError m" using canonical_bytes_Inl validate_identity_error by blast
  then show ?thesis using Inl by (simp add: validate_args_def)
next
  case (Inr b)
  then have "identity_ok (JDict args)" by (simp add: canonical_bytes_Inr)
  then have "answers (validate_value (JDict args) (JDict (sp_schema spec)) ''$'')"
    by (rule validate_value_answers) (rule make_spec_schema [OF assms])
  then show ?thesis using Inr by (simp add: validate_args_def answers_def)
qed

lemma demo_spec: "\<exists>spec. make_spec ''search'' ''1'' ''find'' [(''type'', JStr ''object'')] False = Some (Inr spec)"
  by (simp add: make_spec_def check_schema.simps check_head_def check_required_def check_enum_def check_constraints_def
      constraint_rows_def check_annotations_def schema_get_def schema_type_def dget_or_def supported_keys_def
      supported_types_def digest_spec_def)

lemma validate_args_returns_witness:
  "\<exists>spec. make_spec ''search'' ''1'' ''find'' [(''type'', JStr ''object'')] False = Some (Inr spec) \<and>
    (\<exists>f. validate_args spec [(''q'', JFloat (Dec 0 0))] = Inr f)"
  using demo_spec validate_args_returns by blast

section \<open>Redaction\<close>

definition redact_step :: "jdict \<Rightarrow> string \<times> json \<Rightarrow> jdict res" where
  "redact_step d = (\<lambda>(name, child). case dget d name of
      None \<Rightarrow> Inr d
    | Some x \<Rightarrow> if is_dict child then bindR (redact_sensitive x child) (\<lambda>y. Inr (dset name y d)) else Inr d)"

lemma redact_step_keeps: "redact_step d (n, c) = Inr d' \<Longrightarrow> n \<noteq> k \<Longrightarrow> dget d' k = dget d k"
  by (auto simp: redact_step_def bindR_Inr_iff split: option.splits if_splits)

lemma redact_steps_keep: "foldR redact_step d ps = Inr d' \<Longrightarrow> k \<notin> fst ` set ps \<Longrightarrow> dget d' k = dget d k"
proof (induction ps arbitrary: d)
  case (Cons p ps)
  obtain n c where p: "p = (n, c)" by (cases p)
  then obtain d1 where "redact_step d (n, c) = Inr d1" "foldR redact_step d1 ps = Inr d'"
    using Cons.prems(1) by (auto simp: bindR_Inr_iff)
  then show ?case using Cons.IH [of d1] redact_step_keeps [of d n c d1 k] Cons.prems(2) p by auto
qed simp

lemma redact_steps_at:
  assumes "foldR redact_step d ps = Inr d'" "distinct_keys ps" "dget ps k = Some c" "dget d k = Some x" "is_dict c"
  shows "\<exists>y. redact_sensitive x c = Inr y \<and> dget d' k = Some y"
  using assms
proof (induction ps arbitrary: d)
  case (Cons p ps)
  obtain n e where p: "p = (n, e)" by (cases p)
  then obtain d1 where d1: "redact_step d (n, e) = Inr d1" "foldR redact_step d1 ps = Inr d'"
    using Cons.prems(1) by (auto simp: bindR_Inr_iff)
  show ?case
  proof (cases "n = k")
    case True
    then obtain y where "redact_sensitive x c = Inr y" "d1 = dset k y d"
      using d1(1) Cons.prems(3-5) p by (auto simp: redact_step_def bindR_Inr_iff)
    moreover have "k \<notin> fst ` set ps" using Cons.prems(2) True p by simp
    ultimately show ?thesis using redact_steps_keep [OF d1(2)] by simp
  next
    case False
    then show ?thesis using Cons.IH [OF d1(2)] redact_step_keeps [OF d1(1)] Cons.prems(2-5) p by simp
  qed
qed simp

lemma redact_sensitive_string:
  "schema_get c ''sensitive'' = JBool True \<Longrightarrow> redact_sensitive (JStr t) c = bindR (redact (JStr t) None) (\<lambda>d. Inr (JDict d))"
  by (simp add: redact_sensitive.simps)

lemma redact_args_step:
  assumes "redact_args spec args = Inr d" "schema_get (JDict (sp_schema spec)) ''anyOf'' = JNull"
    "schema_get (JDict (sp_schema spec)) ''properties'' = JDict ps"
  shows "foldR redact_step args ps = Inr d"
  using assms by (auto simp: redact_args_def redact_sensitive.simps [of "JDict args"] bindR_Inr_iff
      redact_step_def [abs_def] case_prod_unfold)


definition secret_spec :: action_spec where
  "secret_spec = \<lparr>sp_name = ''login'', sp_version = ''1'', sp_description = [], sp_schema = [(''properties'',
      JDict [(''password'', JDict [(''sensitive'', JBool True)])])], sp_side_effects = True, sp_digest = []\<rparr>"


section \<open>The registry\<close>

lemma add_specs_Inr:
  "foldR add_spec m specs = Inr m' \<longleftrightarrow>
    distinct (map sp_name specs) \<and> (\<forall>s \<in> set specs. dget m (sp_name s) = None) \<and>
    m' = m @ map (\<lambda>s. (sp_name s, s)) specs"
proof (induction specs arbitrary: m)
  case (Cons s specs)
  show ?case
  proof (cases "dget m (sp_name s)")
    case None
    then have "add_spec m s = Inr (m @ [(sp_name s, s)])"
      by (simp add: add_spec_def dset_new map_of_eq_None_iff)
    moreover have "(\<forall>t \<in> set specs. dget (m @ [(sp_name s, s)]) (sp_name t) = None) \<longleftrightarrow>
        sp_name s \<notin> sp_name ` set specs \<and> (\<forall>t \<in> set specs. dget m (sp_name t) = None)"
    proof -
      have "dget (m @ [(sp_name s, s)]) k = None \<longleftrightarrow> dget m k = None \<and> k \<noteq> sp_name s" for k
        by (simp add: map_add_def split: option.split)
      then show ?thesis by (simp only: image_iff) metis
    qed
    ultimately show ?thesis using Cons.IH [of "m @ [(sp_name s, s)]"] None
      by (simp only: foldR.simps bindR_simps list.map distinct.simps list.set_map list.set append_assoc append_Cons append_Nil) (simp, blast)
  next
    case (Some t)
    then show ?thesis by (simp add: add_spec_def)
  qed
qed auto

lemma spec_lookup: "distinct (map sp_name specs) \<Longrightarrow> dget (map (\<lambda>s. (sp_name s, s)) specs) n = Some s \<longleftrightarrow> s \<in> set specs \<and> sp_name s = n"
  by (subst map_of_eq_Some_iff) (auto simp: comp_def)

text \<open>
  C34. A registry depends on its specifications, not on their order: any permutation of an accepted list
  is accepted, with the same digest and the same answer to every lookup; each specification is found
  under its name.
\<close>

theorem registry_order_free:
  assumes r: "make_registry specs = Inr r" and p: "mset specs' = mset specs"
  shows "\<exists>r'. make_registry specs' = Inr r' \<and> rg_digest r' = rg_digest r \<and>
    (\<forall>n v. registry_get r' n v = registry_get r n v) \<and> (\<forall>s \<in> set specs. registry_get r (sp_name s) None = Inr s)"
proof -
  let ?m = "map (\<lambda>s. (sp_name s, s)) specs" and ?m' = "map (\<lambda>s. (sp_name s, s)) specs'"
  have m: "foldR add_spec [] specs = Inr ?m" and d: "distinct (map sp_name specs)" and rm: "rg_specs r = ?m"
    using r by (auto simp: make_registry_def bindR_Inr_iff add_specs_Inr)
  have d': "distinct (map sp_name specs')" using d mset_eq_imp_distinct_iff [of "map sp_name specs'" "map sp_name specs"] p by simp
  have m': "foldR add_spec [] specs' = Inr ?m'" using d' by (simp add: add_specs_Inr)
  have sorted: "sort (map sp_digest specs') = sort (map sp_digest specs)"
    by (rule properties_for_sort) (simp_all add: p)
  obtain b where b: "canonical_bytes (JDict [(''spec_digests'', JList (map JStr (sort (map sp_digest specs))))]) = Inr b"
    "rg_digest r = sha256_hex b" using r by (auto simp: make_registry_def bindR_Inr_iff)
  have r': "make_registry specs' = Inr \<lparr>rg_specs = ?m', rg_digest = sha256_hex b\<rparr>"
    using b(1) by (simp add: make_registry_def m' sorted del: canonical_bytes_ok)
  have "set specs' = set specs" using p by (metis set_mset_mset)
  then have same: "dget ?m' n = Some s \<longleftrightarrow> dget ?m n = Some s" for n s
    by (simp only: spec_lookup [OF d] spec_lookup [OF d'])
  have "dget ?m' n = dget ?m n" for n
  proof (cases "dget ?m n")
    case None
    then show ?thesis using same [of n "the (dget ?m' n)"] by (cases "dget ?m' n") simp_all
  next
    case (Some s)
    then show ?thesis using same [of n s] by simp
  qed
  then have "registry_get \<lparr>rg_specs = ?m', rg_digest = sha256_hex b\<rparr> n v = registry_get r n v" for n v
    by (simp add: registry_get_def rm)
  moreover have "registry_get r (sp_name s) None = Inr s" if "s \<in> set specs" for s
    using spec_lookup [OF d, of "sp_name s" s] that by (simp add: registry_get_def rm)
  ultimately show ?thesis using r' b(2) by (intro exI [of _ "\<lparr>rg_specs = ?m', rg_digest = sha256_hex b\<rparr>"]) simp
qed

lemma registry_order_free_witness:
  "\<exists>r r'. make_registry [secret_spec, secret_spec\<lparr>sp_name := ''out''\<rparr>] = Inr r \<and>
    make_registry [secret_spec\<lparr>sp_name := ''out''\<rparr>, secret_spec] = Inr r' \<and> rg_digest r' = rg_digest r"
proof -
  have "\<exists>r. make_registry [secret_spec, secret_spec\<lparr>sp_name := ''out''\<rparr>] = Inr r"
    by (simp add: make_registry_def add_spec_def secret_spec_def)
  then show ?thesis
    using registry_order_free [of "[secret_spec, secret_spec\<lparr>sp_name := ''out''\<rparr>]" _ "[secret_spec\<lparr>sp_name := ''out''\<rparr>, secret_spec]"]
    by (auto simp: add_mset_commute)
qed

end
