(* ===== verification/Actions.thy ===== *)
theory Actions
  imports Prelude
begin

text \<open>
  Operations that change a state and may raise or run for ever: an action maps a state to
  \<open>None\<close> (it does not return) or to its outcome and the state it leaves, which is there whether the
  outcome is a result or an exception. \<open>keeps R m\<close> says every step of the action respects a
  relation; the rules collected in \<open>keeps\<close> prove it along the structure of an operation.
\<close>

type_synonym ('s, 'a) act = "'s \<Rightarrow> ('a res \<times> 's) option"

definition ret :: "'a \<Rightarrow> ('s, 'a) act" where
  "ret x s = Some (Inr x, s)"

definition failA :: "exc \<Rightarrow> ('s, 'a) act" where
  "failA e s = Some (Inl e, s)"

definition bindA :: "('s, 'a) act \<Rightarrow> ('a \<Rightarrow> ('s, 'b) act) \<Rightarrow> ('s, 'b) act" where
  "bindA m f s = (case m s of
      None \<Rightarrow> None
    | Some (Inl e, s') \<Rightarrow> Some (Inl e, s')
    | Some (Inr x, s') \<Rightarrow> f x s')"

text \<open>A computation that does not touch the state.\<close>

definition liftR :: "'a res \<Rightarrow> ('s, 'a) act" where
  "liftR r s = Some (r, s)"

definition liftO :: "'a res option \<Rightarrow> ('s, 'a) act" where
  "liftO r s = map_option (\<lambda>x. (x, s)) r"

definition getA :: "('s \<Rightarrow> 'a) \<Rightarrow> ('s, 'a) act" where
  "getA f s = Some (Inr (f s), s)"

definition modA :: "('s \<Rightarrow> 's) \<Rightarrow> ('s, unit) act" where
  "modA f s = Some (Inr (), f s)"

text \<open>\<open>try\<close>: the outcome as a value.\<close>

definition tryA :: "('s, 'a) act \<Rightarrow> ('s, 'a res) act" where
  "tryA m s = map_option (\<lambda>(r, s'). (Inr r, s')) (m s)"

fun forA :: "('a \<Rightarrow> ('s, unit) act) \<Rightarrow> 'a list \<Rightarrow> ('s, unit) act" where
  "forA f [] = ret ()"
| "forA f (x # xs) = bindA (f x) (\<lambda>_. forA f xs)"

fun mapA :: "('a \<Rightarrow> ('s, 'b) act) \<Rightarrow> 'a list \<Rightarrow> ('s, 'b list) act" where
  "mapA f [] = ret []"
| "mapA f (x # xs) = bindA (f x) (\<lambda>y. bindA (mapA f xs) (\<lambda>ys. ret (y # ys)))"

definition whenA :: "bool \<Rightarrow> ('s, unit) act \<Rightarrow> ('s, unit) act" where
  "whenA b m = (if b then m else ret ())"

section \<open>What an action respects\<close>

definition keeps :: "('s \<Rightarrow> 's \<Rightarrow> bool) \<Rightarrow> ('s, 'a) act \<Rightarrow> bool" where
  "keeps R m \<longleftrightarrow> (\<forall>s r s'. m s = Some (r, s') \<longrightarrow> R s s')"

definition preorder_rel :: "('s \<Rightarrow> 's \<Rightarrow> bool) \<Rightarrow> bool" where
  "preorder_rel R \<longleftrightarrow> (\<forall>s. R s s) \<and> (\<forall>s t u. R s t \<longrightarrow> R t u \<longrightarrow> R s u)"

named_theorems keeps_rules

lemma keepsD: "keeps R m \<Longrightarrow> m s = Some (r, s') \<Longrightarrow> R s s'"
  by (auto simp: keeps_def)

lemma keeps_pure [keeps_rules]:
  assumes "preorder_rel R"
  shows "keeps R (ret x)" "keeps R (failA e)" "keeps R (liftR r)" "keeps R (liftO q)" "keeps R (getA g)"
  using assms by (auto simp: keeps_def preorder_rel_def ret_def failA_def liftR_def liftO_def getA_def)

lemma keeps_bindA [keeps_rules]:
  assumes "preorder_rel R" "keeps R m" "\<And>x. keeps R (f x)" shows "keeps R (bindA m f)"
proof -
  have "R s s'" if b: "bindA m f s = Some (r, s')" for s r s'
  proof -
    obtain q t where m: "m s = Some (q, t)" using b by (cases "m s") (auto simp: bindA_def)
    then have st: "R s t" using assms(2) by (rule keepsD [rotated])
    show ?thesis
    proof (cases q)
      case (Inl e)
      then show ?thesis using b m st by (auto simp: bindA_def)
    next
      case (Inr x)
      then have "f x t = Some (r, s')" using b m by (simp add: bindA_def)
      then have "R t s'" by (rule keepsD [OF assms(3)])
      then show ?thesis using st assms(1) unfolding preorder_rel_def by blast
    qed
  qed
  then show ?thesis by (simp add: keeps_def)
qed

lemma keeps_modA: "(\<And>s. R s (f s)) \<Longrightarrow> keeps R (modA f)"
  by (simp add: keeps_def modA_def)

lemma keeps_tryA [keeps_rules]: "keeps R m \<Longrightarrow> keeps R (tryA m)"
  by (auto simp: keeps_def tryA_def)

lemma keeps_whenA [keeps_rules]: "preorder_rel R \<Longrightarrow> keeps R m \<Longrightarrow> keeps R (whenA b m)"
  by (auto simp: whenA_def keeps_pure)

lemma keeps_forA [keeps_rules]: "preorder_rel R \<Longrightarrow> (\<And>x. keeps R (f x)) \<Longrightarrow> keeps R (forA f xs)"
  by (induction xs) (auto intro: keeps_rules)

lemma keeps_mapA [keeps_rules]: "preorder_rel R \<Longrightarrow> (\<And>x. keeps R (f x)) \<Longrightarrow> keeps R (mapA f xs)"
  by (induction xs) (auto intro!: keeps_rules)

lemma keeps_if [keeps_rules]: "(b \<Longrightarrow> keeps R m) \<Longrightarrow> (\<not> b \<Longrightarrow> keeps R n) \<Longrightarrow> keeps R (if b then m else n)"
  by simp

lemma keeps_option [keeps_rules]:
  "(x = None \<Longrightarrow> keeps R m) \<Longrightarrow> (\<And>y. x = Some y \<Longrightarrow> keeps R (f y)) \<Longrightarrow> keeps R (case x of None \<Rightarrow> m | Some y \<Rightarrow> f y)"
  by (cases x) auto

lemma keeps_sum [keeps_rules]:
  "(\<And>e. x = Inl e \<Longrightarrow> keeps R (f e)) \<Longrightarrow> (\<And>y. x = Inr y \<Longrightarrow> keeps R (g y)) \<Longrightarrow>
    keeps R (case x of Inl e \<Rightarrow> f e | Inr y \<Rightarrow> g y)"
  by (cases x) auto

lemma keeps_prod [keeps_rules]: "(\<And>a b. x = (a, b) \<Longrightarrow> keeps R (f a b)) \<Longrightarrow> keeps R (case x of (a, b) \<Rightarrow> f a b)"
  by (cases x) auto

lemma keeps_Let [keeps_rules]: "keeps R (f x) \<Longrightarrow> keeps R (let y = x in f y)"
  by simp

section \<open>Evaluation\<close>

lemma bindA_simps [simp]:
  "bindA (ret x) f s = f x s" "bindA (failA e) f s = Some (Inl e, s)"
  "bindA (liftR (Inl e)) f s = Some (Inl e, s)" "bindA (liftR (Inr x)) f s = f x s"
  "bindA (liftO (Some (Inl e))) f s = Some (Inl e, s)" "bindA (liftO (Some (Inr x))) f s = f x s"
  "bindA (getA g) f s = f (g s) s" "bindA (modA g) h s = h () (g s)"
  by (simp_all add: bindA_def ret_def failA_def liftR_def liftO_def getA_def modA_def)

lemma bindA_Some: "m s = Some (Inr x, t) \<Longrightarrow> bindA m f s = f x t" "m s = Some (Inl e, t) \<Longrightarrow> bindA m f s = Some (Inl e, t)"
  by (simp_all add: bindA_def)

lemma bindA_assoc: "bindA (bindA m f) g s = bindA m (\<lambda>x. bindA (f x) g) s"
  by (auto simp: bindA_def split: option.splits prod.splits sum.splits)

lemma bindA_Inr_iff:
  "bindA m f s = Some (Inr y, u) \<longleftrightarrow> (\<exists>x t. m s = Some (Inr x, t) \<and> f x t = Some (Inr y, u))"
  by (auto simp: bindA_def split: option.splits sum.splits)

end
