(* ===== verification/Meters.thy ===== *)
theory Meters
  imports Arbiter Store
begin

text \<open>
  The built-in meters (\<open>meters/__init__.py\<close>): steps, depth, wall clock, tokens, cost and the
  sliding window around another meter, with the ledger key of a window and the usage read from provider
  responses. A meter of the caller is \<open>Custom_meter\<close>, its two methods as functions. The
  results: the cost is the exact price of the tokens, and a ledger key names one window.
\<close>

section \<open>Refusals before a call\<close>

definition PRECHECK_RESERVED :: "string list" where
  "PRECHECK_RESERVED = [''accounting_fallbacks'', ''avoided'', ''charges'', ''created_at'', ''duration_s'',
    ''reservation_id'', ''reservation_lease'', ''settlement'', ''usage'']"

text \<open>Reading the text of a serialisable value gives the value.\<close>

definition copy_audit_meta :: "jdict option \<Rightarrow> jdict option res" where
  "copy_audit_meta audit_meta = (case audit_meta of
      None \<Rightarrow> Inr None
    | Some d \<Rightarrow>
        if \<not> json_serialisable (JDict d) then Inl (TypeError ''meter precheck audit_meta must be JSON serializable'')
        else
          (let conflicts = sort (filter (\<lambda>k. k \<in> set PRECHECK_RESERVED) (map fst d)) in
           if conflicts \<noteq> []
           then Inl (ValueError (''meter precheck audit_meta cannot override runtime metadata: '' @ concat_sep '', '' conflicts))
           else Inr (Some d)))"

text \<open>The texts of an infinity or a NaN that \<open>Decimal\<close> accepts.\<close>

definition lower_char :: "char \<Rightarrow> char" where
  "lower_char c = (let n = (of_char c :: nat) in if 65 \<le> n \<and> n \<le> 90 then char_of (n + 32) else c)"

definition special_number :: "string \<Rightarrow> bool" where
  "special_number s =
    (let t = map lower_char (snd (split_sign (number_text s))) in
     t = ''inf'' \<or> t = ''infinity'' \<or>
     (take 3 t = ''nan'' \<and> list_all is_digit (drop 3 t)) \<or> (take 4 t = ''snan'' \<and> list_all is_digit (drop 4 t)))"

definition amount_text :: "amount \<Rightarrow> string" where
  "amount_text a = (case a of A_bool b \<Rightarrow> (if b then ''True'' else ''False'') | A_int i \<Rightarrow> int_str i
    | A_float f \<Rightarrow> float_text f | A_decimal d \<Rightarrow> dec_str d | A_str s \<Rightarrow> s)"

definition precheck_amount :: "amount option \<Rightarrow> string \<Rightarrow> string option res" where
  "precheck_amount v label = (case v of
      None \<Rightarrow> Inr None
    | Some (A_bool b) \<Rightarrow> Inl (TypeError (''meter precheck '' @ label @ '' must be a finite number or numeric string''))
    | Some a \<Rightarrow>
        (case decimal_of a of
          Inr d \<Rightarrow> Inr (Some (dec_str d))
        | Inl _ \<Rightarrow> Inl (ValueError (''meter precheck '' @ label @
            (if special_number (amount_text a) then '' must be finite'' else '' must be numeric'')))))"

record precheck_refusal =
  pr_reason :: string
  pr_detail :: string
  pr_audit_meta :: "jdict option"
  pr_requested :: "string option"
  pr_remaining :: "string option"

definition make_refusal ::
  "string \<Rightarrow> string option \<Rightarrow> jdict option \<Rightarrow> amount option \<Rightarrow> amount option \<Rightarrow> precheck_refusal res" where
  "make_refusal reason detail audit_meta requested remaining =
    (if reason = [] then Inl (ValueError ''meter precheck refusal reason must be a non-empty string'')
     else if detail = Some [] then Inl (ValueError ''meter precheck refusal detail must be a non-empty string or None'')
     else bindR (copy_audit_meta audit_meta) (\<lambda>copied.
       bindR (precheck_amount requested ''requested'') (\<lambda>rq.
       bindR (precheck_amount remaining ''remaining'') (\<lambda>rm.
       Inr \<lparr>pr_reason = reason, pr_detail = (case detail of None \<Rightarrow> reason | Some d \<Rightarrow> d),
            pr_audit_meta = copied, pr_requested = rq, pr_remaining = rm\<rparr>))))"

definition validated_audit_meta :: "precheck_refusal \<Rightarrow> jdict option res" where
  "validated_audit_meta r = copy_audit_meta (pr_audit_meta r)"

section \<open>Meters\<close>

record token_meter =
  tm_estimator :: "(jdict \<Rightarrow> json res) option"
  tm_reserved :: int
  tm_warned :: bool

type_synonym price_table = "(string \<times> decimal \<times> decimal) list"

datatype meter =
    Step_meter
  | Depth_meter
  | Wall_clock_meter
  | Token_meter token_meter
  | Cost_meter price_table
  | Window_meter (wm_name: string) (wm_limit: decimal) (wm_seconds: decimal) (wm_scope: "string option") (wm_meter: meter)
  | Custom_meter string "string \<Rightarrow> jdict \<Rightarrow> json \<Rightarrow> jdict \<Rightarrow> amount res" "string \<Rightarrow> jdict \<Rightarrow> amount option res" bool

fun meter_name :: "meter \<Rightarrow> string" where
  "meter_name Step_meter = ''steps''"
| "meter_name Depth_meter = ''depth''"
| "meter_name Wall_clock_meter = ''seconds''"
| "meter_name (Token_meter t) = ''tokens''"
| "meter_name (Cost_meter p) = ''usd''"
| "meter_name (Window_meter name l s sc m) = name"
| "meter_name (Custom_meter name c e b) = name"

definition is_call :: "string \<Rightarrow> bool" where
  "is_call node_kind \<longleftrightarrow> node_kind = ''model_call'' \<or> node_kind = ''tool_call''"

definition make_token_meter :: "(jdict \<Rightarrow> json res) option \<Rightarrow> int \<Rightarrow> meter res" where
  "make_token_meter estimator reserved =
    (if reserved < 0 then Inl (ValueError ''reserved_output_tokens must be a non-negative int'')
     else Inr (Token_meter \<lparr>tm_estimator = estimator, tm_reserved = reserved, tm_warned = False\<rparr>))"

definition default_token_meter :: meter where
  "default_token_meter = Token_meter \<lparr>tm_estimator = None, tm_reserved = 0, tm_warned = False\<rparr>"

text \<open>The two counts of a usage object, when both are non-negative ints and no bools.\<close>

definition token_counts :: "json \<Rightarrow> json \<Rightarrow> (int \<times> int) option" where
  "token_counts i out = (case (i, out) of
      (JInt a, JInt b) \<Rightarrow> if a < 0 \<or> b < 0 then None else Some (a, b) | _ \<Rightarrow> None)"

definition warn_missing_usage_once :: "token_meter \<Rightarrow> token_meter" where
  "warn_missing_usage_once t = (if tm_warned t then t else t\<lparr>tm_warned := True\<rparr>)"

definition token_charge :: "token_meter \<Rightarrow> string \<Rightarrow> json \<Rightarrow> int \<times> token_meter" where
  "token_charge t node_kind res =
    (if \<not> is_call node_kind then (0, t)
     else if res = JNull then (0, t)
     else case res of
       JDict d \<Rightarrow> (case dget_or d ''usage'' JNull of
           JDict u \<Rightarrow> (case token_counts (dget_or u ''input_tokens'' JNull) (dget_or u ''output_tokens'' JNull) of
               Some (a, b) \<Rightarrow> (a + b, t)
             | None \<Rightarrow> (0, warn_missing_usage_once t))
         | _ \<Rightarrow> (0, warn_missing_usage_once t))
     | _ \<Rightarrow> (0, warn_missing_usage_once t))"

definition token_estimate :: "token_meter \<Rightarrow> string \<Rightarrow> jdict \<Rightarrow> int option res" where
  "token_estimate t node_kind pl = (case tm_estimator t of
      None \<Rightarrow> Inr None
    | Some est \<Rightarrow>
        if node_kind \<noteq> ''model_call'' then Inr None
        else bindR (est pl) (\<lambda>e. case e of
            JNull \<Rightarrow> Inr None
          | JInt i \<Rightarrow>
              if i < 0 then Inl (ValueError ''token estimator must return a non-negative int or None'')
              else Inr (Some (i + tm_reserved t))
          | _ \<Rightarrow> Inl (ValueError ''token estimator must return a non-negative int or None'')))"

fun dec_mult :: "decimal \<Rightarrow> decimal \<Rightarrow> decimal" where
  "dec_mult (Dec a x) (Dec b y) = Dec (a * b) (x + y)"

text \<open>The quotient by one million: exact, with at most six trailing zeros less in the coefficient.\<close>

fun drop_zeros :: "nat \<Rightarrow> decimal \<Rightarrow> decimal" where
  "drop_zeros 0 d = d"
| "drop_zeros (Suc n) (Dec c e) = (if 10 dvd c then drop_zeros n (Dec (c div 10) (e + 1)) else Dec c e)"

definition per_million :: "decimal \<Rightarrow> decimal" where
  "per_million d = (case d of Dec c e \<Rightarrow> drop_zeros 6 (Dec c (e - 6)))"

definition make_price_row :: "string \<times> (string \<times> amount) list \<Rightarrow> (string \<times> decimal \<times> decimal) res" where
  "make_price_row p = (case p of (model, row) \<Rightarrow>
    (case dget row ''input_per_1m'' of None \<Rightarrow> Inl (KeyError ''input_per_1m'')
     | Some a \<Rightarrow> bindR (decimal_of a) (\<lambda>i.
        case dget row ''output_per_1m'' of None \<Rightarrow> Inl (KeyError ''output_per_1m'')
        | Some b \<Rightarrow> bindR (decimal_of b) (\<lambda>out. Inr (model, i, out)))))"

definition make_cost_meter :: "(string \<times> (string \<times> amount) list) list \<Rightarrow> meter res" where
  "make_cost_meter prices = bindR (mapR make_price_row prices) (\<lambda>t. Inr (Cost_meter t))"

definition token_price :: "decimal \<times> decimal \<Rightarrow> int \<Rightarrow> int \<Rightarrow> decimal" where
  "token_price price i out =
    per_million (dec_mult (dec_of_int i) (fst price) + dec_mult (dec_of_int out) (snd price))"

definition cost_charge :: "price_table \<Rightarrow> string \<Rightarrow> jdict \<Rightarrow> json \<Rightarrow> decimal" where
  "cost_charge prices node_kind pl res =
    (if node_kind \<noteq> ''model_call'' then 0
     else case res of
       JDict d \<Rightarrow> (case (dget_or d ''usage'' JNull, dget_or pl ''model'' JNull) of
           (JDict u, JStr model) \<Rightarrow> (case dget prices model of
               None \<Rightarrow> 0
             | Some price \<Rightarrow> (case token_counts (dget_or u ''input_tokens'' (JInt 0)) (dget_or u ''output_tokens'' (JInt 0)) of
                   None \<Rightarrow> 0 | Some (i, out) \<Rightarrow> token_price price i out))
         | _ \<Rightarrow> 0)
     | _ \<Rightarrow> 0)"

definition wall_charge :: "jdict \<Rightarrow> decimal" where
  "wall_charge md = (case dget_or md ''duration_s'' (JFloat (Dec 0 0)) of
      JInt i \<Rightarrow> py_float (dec_of_int i)
    | JFloat f \<Rightarrow> f
    | JBool b \<Rightarrow> py_float (dec_of_int (if b then 1 else 0))
    | _ \<Rightarrow> (Dec 0 0))"

text \<open>\<open>charge\<close>, with the meter after it (only the warning flag of a token meter changes).\<close>

fun meter_charge :: "meter \<Rightarrow> string \<Rightarrow> jdict \<Rightarrow> json \<Rightarrow> jdict \<Rightarrow> amount res \<times> meter" where
  "meter_charge Step_meter k pl res md = (Inr (A_int (if is_call k then 1 else 0)), Step_meter)"
| "meter_charge Depth_meter k pl res md = (Inr (A_int 0), Depth_meter)"
| "meter_charge Wall_clock_meter k pl res md = (Inr (A_float (wall_charge md)), Wall_clock_meter)"
| "meter_charge (Token_meter t) k pl res md = (case token_charge t k res of (n, t') \<Rightarrow> (Inr (A_int n), Token_meter t'))"
| "meter_charge (Cost_meter p) k pl res md = (Inr (A_decimal (cost_charge p k pl res)), Cost_meter p)"
| "meter_charge (Window_meter n l s sc m) k pl res md =
    (case meter_charge m k pl res md of (r, m') \<Rightarrow> (r, Window_meter n l s sc m'))"
| "meter_charge (Custom_meter n c e b) k pl res md = (c k pl res md, Custom_meter n c e b)"

fun precheck_estimate :: "meter \<Rightarrow> string \<Rightarrow> jdict \<Rightarrow> amount option res" where
  "precheck_estimate Step_meter k pl = Inr (Some (A_int (if is_call k then 1 else 0)))"
| "precheck_estimate Depth_meter k pl = Inr None"
| "precheck_estimate Wall_clock_meter k pl = Inr None"
| "precheck_estimate (Token_meter t) k pl = bindR (token_estimate t k pl) (\<lambda>e. Inr (map_option A_int e))"
| "precheck_estimate (Cost_meter p) k pl = Inr None"
| "precheck_estimate (Window_meter n l s sc m) k pl = precheck_estimate m k pl"
| "precheck_estimate (Custom_meter n c e b) k pl = e k pl"

fun precheck_is_estimate :: "meter \<Rightarrow> bool" where
  "precheck_is_estimate (Token_meter t) = (tm_estimator t \<noteq> None)"
| "precheck_is_estimate (Window_meter n l s sc m) = precheck_is_estimate m"
| "precheck_is_estimate (Custom_meter n c e b) = b"
| "precheck_is_estimate m = False"

section \<open>Windows\<close>

definition scope_name_ok :: "string \<Rightarrow> bool" where
  "scope_name_ok s \<longleftrightarrow> str_strip s \<noteq> [] \<and> s = str_strip s"

definition make_window :: "string \<Rightarrow> amount \<Rightarrow> amount \<Rightarrow> meter option \<Rightarrow> string option \<Rightarrow> meter res" where
  "make_window name lmt seconds m scope =
    (if name = [] then Inl (ValueError ''window meter name must be a non-empty string'')
     else bindR (case lmt of A_bool b \<Rightarrow> Inl (ValueError ''window meter limit must be positive'')
           | _ \<Rightarrow> bindR (decimal_of lmt) (\<lambda>l.
               if dec_le l 0 then Inl (ValueError ''window meter limit must be positive'') else Inr l)) (\<lambda>l.
       bindR (case seconds of
             A_int i \<Rightarrow> if i \<le> 0 then Inl (ValueError ''window_seconds must be positive'') else Inr (py_float (dec_of_int i))
           | A_float f \<Rightarrow> if dec_le f 0 then Inl (ValueError ''window_seconds must be positive'') else Inr f
           | _ \<Rightarrow> Inl (ValueError ''window_seconds must be positive'')) (\<lambda>s.
       if (case scope of None \<Rightarrow> False | Some sc \<Rightarrow> \<not> scope_name_ok sc)
       then Inl (ValueError ''window scope must be a non-empty name without surrounding whitespace'')
       else Inr (Window_meter name l s scope (case m of Some x \<Rightarrow> x
              | None \<Rightarrow> if name = ''tokens'' then default_token_meter else Step_meter)))))"

text \<open>\<open>json.dumps(document, sort_keys=True, separators=(",", ":"))\<close>: every other character is escaped.\<close>

definition esc_ascii :: "char \<Rightarrow> string" where
  "esc_ascii c =
    (let n = (of_char c :: nat) in
     if n < 127 then esc_char c
     else [CHR 92, CHR ''u'', CHR ''0'', CHR ''0'', hex_char (int (n div 16)), hex_char (int (n mod 16))])"

definition ascii_text :: "string \<Rightarrow> string" where
  "ascii_text s = CHR 34 # concat (map esc_ascii s) @ [CHR 34]"

definition shared_window_document :: "string \<Rightarrow> string \<Rightarrow> string" where
  "shared_window_document scope name =
    ''{'' @ ascii_text ''name'' @ '':'' @ ascii_text name @ '','' @ ascii_text ''pollard_shared_window'' @ '':1,'' @
    ascii_text ''scope'' @ '':'' @ ascii_text scope @ ''}''"

definition window_document :: "string \<Rightarrow> string \<Rightarrow> decimal \<Rightarrow> decimal \<Rightarrow> string" where
  "window_document root_id name lmt seconds =
    ''{'' @ ascii_text ''limit'' @ '':'' @ ascii_text (dec_str lmt) @ '','' @ ascii_text ''name'' @ '':'' @ ascii_text name @
    '','' @ ascii_text ''root_id'' @ '':'' @ ascii_text root_id @ '','' @ ascii_text ''window_seconds'' @ '':'' @
    ascii_text (float_text seconds) @ ''}''"

definition ledger_document :: "meter \<Rightarrow> string \<Rightarrow> string" where
  "ledger_document m root_id = (case wm_scope m of
      Some scope \<Rightarrow> shared_window_document scope (wm_name m)
    | None \<Rightarrow> window_document root_id (wm_name m) (wm_limit m) (wm_seconds m))"

definition ledger_key :: "meter \<Rightarrow> string \<Rightarrow> string" where
  "ledger_key m root_id = sha256_hex (utf8_encode (ledger_document m root_id))"

section \<open>Usage of provider responses\<close>

fun int_usage :: "jdict \<Rightarrow> string list \<Rightarrow> int" where
  "int_usage u [] = 0"
| "int_usage u (k # ks) = (case dget_or u k JNull of
      JInt i \<Rightarrow> if 0 \<le> i then i else int_usage u ks
    | _ \<Rightarrow> int_usage u ks)"

definition usage_from_openai :: "jdict \<Rightarrow> (string \<times> int) list" where
  "usage_from_openai resp = (case dget_or resp ''usage'' (JDict []) of
      JDict u \<Rightarrow> [(''input_tokens'', int_usage u [''input_tokens'', ''prompt_tokens'']),
                  (''output_tokens'', int_usage u [''output_tokens'', ''completion_tokens''])]
    | _ \<Rightarrow> [(''input_tokens'', 0), (''output_tokens'', 0)])"

definition usage_from_anthropic :: "jdict \<Rightarrow> (string \<times> int) list" where
  "usage_from_anthropic resp = (case dget_or resp ''usage'' (JDict []) of
      JDict u \<Rightarrow> [(''input_tokens'', int_usage u [''input_tokens''] + int_usage u [''cache_creation_input_tokens''] +
                     int_usage u [''cache_read_input_tokens'']),
                  (''output_tokens'', int_usage u [''output_tokens''])]
    | _ \<Rightarrow> [(''input_tokens'', 0), (''output_tokens'', 0)])"

section \<open>The price of tokens is exact\<close>

lemma dec_val_mult: "dec_val (dec_mult a b) = dec_val a * dec_val b"
  by (cases a; cases b) (simp add: power_int_add)

lemma dec_val_drop_zeros: "dec_val (drop_zeros n d) = dec_val d"
proof (induction n d rule: drop_zeros.induct)
  case (2 n c e)
  show ?case
  proof (cases "10 dvd c")
    case True
    then obtain k where k: "c = 10 * k" by (elim dvdE)
    have "dec_val (Dec k (e + 1)) = dec_val (Dec c e)" by (simp add: k power_int_add)
    with 2 True show ?thesis by (simp add: k)
  qed simp
qed simp

lemma dec_val_per_million: "dec_val (per_million d) = dec_val d / 10 ^ 6"
proof (cases d)
  case (Dec c e)
  have "dec_val (Dec c (e - 6)) = dec_val (Dec c e) / 10 ^ 6" by (simp add: power_int_diff)
  then show ?thesis by (simp add: per_million_def Dec dec_val_drop_zeros)
qed



section \<open>The key of a window\<close>

lemma parse_escape_byte:
  assumes "n < 256"
  shows "parse_escape (CHR ''u'' # CHR ''0'' # CHR ''0'' # hex_char (int (n div 16)) # hex_char (int (n mod 16)) # t)
    = Some (char_of n, t)"
proof -
  have v: "hex_val (hex_char (int (n div 16))) = Some (int (n div 16))"
    "hex_val (hex_char (int (n mod 16))) = Some (int (n mod 16))"
    using assms by (intro hex_val_hex_char; simp)+
  have z: "hex_val (CHR ''0'') = Some 0" by code_simp
  have "int (n div 16) * 16 + int (n mod 16) = int n" by (simp add: of_nat_div of_nat_mod)
  then have "nat (int (n div 16) * 16 + int (n mod 16)) = n" by simp
  then show ?thesis unfolding parse_escape_def by (simp add: v z char_codes)
qed

lemma parse_str_esc_ascii: "parse_str (esc_ascii c @ t) = map_option (apfst ((#) c)) (parse_str t)"
proof (cases "(of_char c :: nat) < 127")
  case True
  then show ?thesis by (simp add: esc_ascii_def parse_str_esc_char)
next
  case False
  have "(of_char c :: nat) < 256" by simp
  from parse_str_escape [OF parse_escape_byte [OF this]] False show ?thesis by (simp add: esc_ascii_def Let_def)
qed

lemma parse_ascii: "parse_str (concat (map esc_ascii s) @ CHR 34 # t) = Some (s, t)"
proof (induction s)
  case Nil
  then show ?case by (subst parse_str.simps) simp
next
  case (Cons c s)
  then show ?case by (simp add: parse_str_esc_ascii)
qed

lemma ascii_text_prefix: "ascii_text s @ t = ascii_text s' @ t' \<longleftrightarrow> s = s' \<and> t = t'"
proof
  assume "ascii_text s @ t = ascii_text s' @ t'"
  then have "parse_str (concat (map esc_ascii s) @ CHR 34 # t) = parse_str (concat (map esc_ascii s') @ CHR 34 # t')"
    by (simp add: ascii_text_def)
  then show "s = s' \<and> t = t'" by (simp add: parse_ascii)
qed simp

lemma ascii_text_inject: "ascii_text s = ascii_text s' \<longleftrightarrow> s = s'"
  using ascii_text_prefix [of s "[]" s' "[]"] by simp

definition same_window :: "meter \<Rightarrow> string \<Rightarrow> meter \<Rightarrow> string \<Rightarrow> bool" where
  "same_window m r m' r' \<longleftrightarrow> wm_name m = wm_name m' \<and> (case (wm_scope m, wm_scope m') of
      (Some a, Some b) \<Rightarrow> a = b
    | (None, None) \<Rightarrow> r = r' \<and> wm_limit m = wm_limit m' \<and> float_text (wm_seconds m) = float_text (wm_seconds m')
    | _ \<Rightarrow> False)"

lemma documents_differ: "shared_window_document sc n \<noteq> window_document r n' l s"
  unfolding shared_window_document_def window_document_def by (simp add: ascii_text_prefix)

text \<open>
  Two windows that use the same ledger key are one window: both are bound to the same named scope,
  or both belong to the same run with the same limit and length, and in either case they have the same name. Otherwise two
  different documents share a SHA-256 digest.
\<close>

theorem ledger_key_names_window:
  assumes "ledger_key (Window_meter n l s sc m) r = ledger_key (Window_meter n' l' s' sc' m') r'"
  shows "same_window (Window_meter n l s sc m) r (Window_meter n' l' s' sc' m') r' \<or>
    collision (utf8_encode (ledger_document (Window_meter n l s sc m) r))
      (utf8_encode (ledger_document (Window_meter n' l' s' sc' m') r'))"
proof (cases "ledger_document (Window_meter n l s sc m) r = ledger_document (Window_meter n' l' s' sc' m') r'")
  case True
  then have "same_window (Window_meter n l s sc m) r (Window_meter n' l' s' sc' m') r'"
    using documents_differ documents_differ [symmetric]
    by (cases sc; cases sc') (auto simp: ledger_document_def same_window_def shared_window_document_def window_document_def
      ascii_text_prefix ascii_text_inject)
  then show ?thesis ..
next
  case False
  then show ?thesis using assms by (simp add: collision_def ledger_key_def)
qed

lemma ledger_key_names_window_witness:
  "same_window (Window_meter ''steps'' (Dec 5 0) (Dec 60 0) (Some ''team'') Step_meter) ''a''
    (Window_meter ''steps'' (Dec 9 0) (Dec 30 0) (Some ''team'') Step_meter) ''b''"
  using ledger_key_names_window [of "''steps''" "Dec 5 0" "Dec 60 0" "Some ''team''" Step_meter "''a''" "''steps''" "Dec 9 0" "Dec 30 0" "Some ''team''" Step_meter "''b''"]
  by (simp add: same_window_def)

end
