(* ===== verification/Replay.thy ===== *)
theory Replay
  imports Meters Store_Facts
begin

text \<open>
  Record and replay modes (\<open>replay.py\<close>): when a recorded node stands for a call, when its absence
  or presence is an error, and the savings a replay adds up in the node's metadata. The result on a
  consistent store: strict replay answers exactly with the recorded node, or refuses.
\<close>

datatype replay_mode = RECORD | HYBRID | REPLAY

definition mode_value :: "replay_mode \<Rightarrow> string" where
  "mode_value m = (case m of RECORD \<Rightarrow> ''record'' | HYBRID \<Rightarrow> ''hybrid'' | REPLAY \<Rightarrow> ''replay'')"

definition normalize_mode :: "string \<Rightarrow> replay_mode res" where
  "normalize_mode s = (case filter (\<lambda>m. mode_value m = s) [RECORD, HYBRID, REPLAY] of
      m # _ \<Rightarrow> Inr m
    | [] \<Rightarrow> Inl (ValueError (''mode must be one of: '' @ concat_sep '', '' (map mode_value [RECORD, HYBRID, REPLAY]))))"

section \<open>Errors that name a call\<close>

definition summary_part :: "jdict \<Rightarrow> string \<Rightarrow> string \<Rightarrow> node_kind \<Rightarrow> string \<Rightarrow> string list" where
  "summary_part pl k kd nk label = (case dget_or pl k JNull of
      JStr s \<Rightarrow> if kd = kind_value nk then [label @ ''='' @ s] else []
    | _ \<Rightarrow> [])"

definition tool_label :: "jdict \<Rightarrow> string \<Rightarrow> string list" where
  "tool_label pl kd = (case dget_or pl ''tool'' JNull of
      JStr tool \<Rightarrow>
        if kd \<noteq> kind_value TOOL_CALL then []
        else [''tool='' @ (case dget_or pl ''version'' JNull of JStr v \<Rightarrow> tool @ ''@'' @ v | _ \<Rightarrow> tool)]
    | _ \<Rightarrow> [])"

definition payload_summary :: "string \<Rightarrow> jdict \<Rightarrow> string res" where
  "payload_summary kd pl =
    bindR (digest_payload (JDict pl)) (\<lambda>d.
    Inr (concat_sep '' '' ([kd] @ summary_part pl ''run'' kd ROOT ''run'' @ summary_part pl ''model'' kd MODEL_CALL ''model'' @
      tool_label pl kd @ [''digest='' @ d])))"

definition raise_missing :: "node \<Rightarrow> string \<Rightarrow> jdict \<Rightarrow> 'a res" where
  "raise_missing candidate kd pl =
    bindR (payload_summary kd pl) (\<lambda>summary.
    Inl (MissingRecording (''missing recording for '' @ summary @ '': '' @ nid candidate) (nid candidate) summary))"

definition raise_duplicate :: "node \<Rightarrow> string \<Rightarrow> jdict \<Rightarrow> 'a res" where
  "raise_duplicate candidate kd pl =
    bindR (payload_summary kd pl) (\<lambda>summary.
    Inl (DuplicateRecording
      (''recording already exists for '' @ summary @ '' at attempt='' @ int_str (attempt candidate) @ '': '' @ nid candidate @
       ''; use a new attempt for a distinct retry or mode='' @ [CHR 39] @ ''hybrid'' @ [CHR 39] @ '' to reuse the recording'' @
       (if kd = kind_value MODEL_CALL
        then '', or use the revalidation API for a deliberate live model observation'' else []))
      (nid candidate) summary (attempt candidate)))"

section \<open>Recorded nodes\<close>

definition verify_recording :: "'st store_ops \<Rightarrow> 'st \<Rightarrow> string \<Rightarrow> unit res option" where
  "verify_recording ops st i =
    bindO (verify ops st i) (\<lambda>report.
    Some (if vr_ok report then Inr ()
      else Inl (IntegrityError (''recording integrity check failed: '' @
        concat_sep ''; '' (map (\<lambda>f. vf_node_id f @ '': '' @ vf_message f) (vr_findings report))))))"

definition recorded_node_or_missing ::
  "replay_mode \<Rightarrow> 'st store_ops \<Rightarrow> 'st \<Rightarrow> node_kind \<Rightarrow> string \<Rightarrow> jdict \<Rightarrow> int \<Rightarrow> bool \<Rightarrow> node option res option" where
  "recorded_node_or_missing mode ops st nk parent_id pl att refuse_duplicates =
    (if mode = RECORD \<and> \<not> refuse_duplicates then Some (Inr None)
     else bindO (Some (make_node (kind_value nk) (Some parent_id) pl att JNull [])) (\<lambda>candidate.
       if mode = RECORD then
         Some (if s_exists ops st (nid candidate) then raise_duplicate candidate (kind_value nk) pl else Inr None)
       else if \<not> s_exists ops st (nid candidate) then
         Some (if mode = REPLAY then raise_missing candidate (kind_value nk) pl else Inr None)
       else bindO (Some (s_get ops st (nid candidate))) (\<lambda>n.
         if result_text n = None then
           Some (if mode = REPLAY then raise_missing candidate (kind_value nk) pl else Inr None)
         else if mode = REPLAY then bindO (verify_recording ops st (nid n)) (\<lambda>_. Some (Inr (Some n)))
         else Some (Inr (Some n)))))"

definition replay_node_or_missing :: "'st store_ops \<Rightarrow> 'st \<Rightarrow> node \<Rightarrow> node res option" where
  "replay_node_or_missing ops st candidate =
    (if \<not> s_exists ops st (nid candidate) then Some (raise_missing candidate (kind candidate) (payload candidate))
     else bindO (Some (s_get ops st (nid candidate))) (\<lambda>n.
       bindO (verify_recording ops st (nid n)) (\<lambda>_. Some (Inr n))))"

section \<open>Savings\<close>

text \<open>The charges, and the meters after they were asked.\<close>

definition avoided_step :: "string \<Rightarrow> jdict \<Rightarrow> node \<Rightarrow> jdict \<times> meter list \<Rightarrow> meter \<Rightarrow> (jdict \<times> meter list) res" where
  "avoided_step kd pl n acc m = (case meter_charge m kd pl (result n) (meta n) of (r, m') \<Rightarrow>
     bindR r (\<lambda>a. bindR (charge_to_decimal a) (\<lambda>d.
     Inr (if dec_eq0 d then fst acc else dset (meter_name m) (charge_to_json d) (fst acc), snd acc @ [m']))))"

definition avoided_charges :: "meter list \<Rightarrow> string \<Rightarrow> jdict \<Rightarrow> node \<Rightarrow> (jdict \<times> meter list) res" where
  "avoided_charges ms kd pl n = foldR (avoided_step kd pl n) ([], []) ms"

text \<open>A JSON value as the argument of \<open>charge_to_decimal\<close>.\<close>

definition json_amount :: "json \<Rightarrow> amount" where
  "json_amount v = (case v of JInt i \<Rightarrow> A_int i | JFloat f \<Rightarrow> A_float f | JBool b \<Rightarrow> A_bool b | _ \<Rightarrow> A_str (py_str v))"

definition add_avoided :: "jdict \<Rightarrow> string \<times> json \<Rightarrow> jdict res" where
  "add_avoided totals p = (case p of (name, amount) \<Rightarrow>
    bindR (charge_to_decimal (json_amount (dget_or totals name (JInt 0)))) (\<lambda>a.
    bindR (charge_to_decimal (json_amount amount)) (\<lambda>b.
    Inr (dset name (charge_to_json (a + b)) totals))))"

definition record_avoided_charges :: "'st store_ops \<Rightarrow> string \<Rightarrow> jdict \<Rightarrow> 'st \<Rightarrow> 'st res" where
  "record_avoided_charges ops i charges st =
    (if charges = [] then Inr st
     else bindR (s_get ops st i) (\<lambda>n.
       bindR (foldR add_avoided (case dget_or (meta n) ''avoided'' (JDict []) of JDict d \<Rightarrow> d | _ \<Rightarrow> []) charges) (\<lambda>totals.
       s_update_meta ops i [(''avoided'', JDict totals)] st)))"

section \<open>Strict replay\<close>

context store_contract
begin

lemma verify_clean: "inv st \<Longrightarrow> i \<in> dom (nodes st) \<Longrightarrow> verify ops st i = Some (Inr \<lparr>vr_ok = True, vr_findings = []\<rparr>)"
  using verify_loop_clean [of st i "[]"] by (simp add: verify_def)

lemma recording_clean: "inv st \<Longrightarrow> i \<in> dom (nodes st) \<Longrightarrow> verify_recording ops st i = Some (Inr ())"
  by (simp add: verify_recording_def verify_clean)

lemma strict_replay:
  assumes inv: "inv st" and c: "make_node (kind_value nk) (Some p) pl att JNull [] = Inr c"
  shows "recorded_node_or_missing REPLAY ops st nk p pl att ref = Some (case nodes st (nid c) of
      Some n \<Rightarrow> if result_text n \<noteq> None then Inr (Some n) else raise_missing c (kind_value nk) pl
    | None \<Rightarrow> raise_missing c (kind_value nk) pl)"
proof (cases "nodes st (nid c)")
  case None
  then show ?thesis using c by (simp add: recorded_node_or_missing_def exists_nodes inv)
next
  case (Some n)
  then have "nid n = nid c" using nodes_forest [OF inv] by (simp add: forest_def)
  then have v: "verify_recording ops st (nid n) = Some (Inr ())" using Some by (intro recording_clean [OF inv]) auto
  show ?thesis using c Some v by (auto simp: recorded_node_or_missing_def exists_nodes get_nodes inv)
qed

end

text \<open>
  C18. Strict replay on a consistent \<open>MemoryStore\<close> always returns, and never makes a result up: it
  answers with the node stored under the id of the call, when that node has a result, and raises
  \<open>MissingRecording\<close> with that id otherwise.
\<close>

theorem strict_replay_exact:
  assumes "mem_inv s" "make_node (kind_value nk) (Some p) pl att JNull [] = Inr c"
  shows "(\<exists>n. mem_nodes s (nid c) = Some n \<and> result_text n \<noteq> None \<and>
      recorded_node_or_missing REPLAY mem_ops s nk p pl att ref = Some (Inr (Some n))) \<or>
    ((\<forall>n. mem_nodes s (nid c) = Some n \<longrightarrow> result_text n = None) \<and>
      (\<exists>m t. recorded_node_or_missing REPLAY mem_ops s nk p pl att ref = Some (Inl (MissingRecording m (nid c) t))))"
proof -
  have "identity_ok (JDict pl)" using assms(2)
    by (auto simp: make_node_def bindR_Inr_iff node_id_Inr identity_dict_def)
  then obtain d where "digest_payload (JDict pl) = Inr d" by (simp add: digest_payload_def del: identity_ok.simps)
  then have "\<exists>m t. raise_missing c (kind_value nk) pl = Inl (MissingRecording m (nid c) t)"
    by (simp add: raise_missing_def payload_summary_def)
  then show ?thesis using mem.strict_replay [OF assms, of ref]
    by (cases "mem_nodes s (nid c)"; cases "result_text (the (mem_nodes s (nid c)))") auto
qed

lemma strict_replay_exact_witness:
  "\<exists>m i t. recorded_node_or_missing REPLAY mem_ops mem_empty TOOL_CALL demo_root_id [] 0 False = Some (Inl (MissingRecording m i t))"
proof -
  obtain c where "make_node (kind_value TOOL_CALL) (Some demo_root_id) [] 0 JNull [] = Inr c"
    using make_node_ok [of "kind_value TOOL_CALL" "Some demo_root_id" 0 "[]" JNull "[]"] by (auto simp: node_kinds_def kind_value_def)
  from strict_replay_exact [OF mem_inv_empty this, of False] show ?thesis
    by (auto simp: mem_nodes_def mem_empty_def)
qed

end
