(* ===== verification/Scopes.thy ===== *)
theory Scopes
  imports Replay
begin

text \<open>
  Named budgets shared by runs (\<open>scopes.py\<close>): the node that fixes a scope's limits in a store, and
  the binding that creates or checks it. The first binding decides: every later one with other limits
  fails and changes nothing.
\<close>

section \<open>Texts of limits\<close>

definition rstrip :: "char \<Rightarrow> string \<Rightarrow> string" where
  "rstrip c s = rev (dropWhile (\<lambda>x. x = c) (rev s))"

text \<open>\<open>format(value, "f")\<close>.\<close>

definition fixed_text :: "decimal \<Rightarrow> string" where
  "fixed_text d = (case d of Dec c e \<Rightarrow>
    sign_str c @ (if 0 \<le> e then dec_digits c @ replicate (nat e) (CHR ''0'') else point_at (nat (- e)) (dec_digits c)))"

definition limit_text :: "decimal \<Rightarrow> string" where
  "limit_text v =
    (if dec_eq0 v then ''0''
     else if CHR ''.'' \<in> set (fixed_text v) then rstrip (CHR ''.'') (rstrip (CHR ''0'') (fixed_text v))
     else fixed_text v)"

section \<open>Shared budgets\<close>

record shared_budget =
  sb_name :: string
  sb_budget :: budget

definition check_scope_name :: "string \<Rightarrow> unit res" where
  "check_scope_name s = ensure (scope_name_ok s)
    (ValueError ''scope name must be a non-empty string without surrounding whitespace'')"

definition make_shared_budget :: "string \<Rightarrow> budget \<Rightarrow> shared_budget res" where
  "make_shared_budget name b =
    bindR (check_scope_name name) (\<lambda>_.
    bindR (budget_limits b) (\<lambda>limits.
    if limits = [] \<or> dget limits ''depth'' \<noteq> None
    then Inl (ValueError ''shared budgets require additive limits and cannot set depth'')
    else Inr \<lparr>sb_name = name, sb_budget = b\<rparr>))"

definition shared_budget_node :: "shared_budget \<Rightarrow> node res" where
  "shared_budget_node sb =
    bindR (budget_limits (sb_budget sb)) (\<lambda>limits.
    make_node (kind_value ROOT) None [(''pollard_shared_budget'', JInt 1), (''name'', JStr (sb_name sb))] 0
      (JDict [(''limits'', JDict (map (\<lambda>(k, v). (k, JStr (limit_text v))) (sort_key fst limits)))]) [])"

definition scope_id :: "shared_budget \<Rightarrow> string res" where
  "scope_id sb = bindR (shared_budget_node sb) (\<lambda>n. Inr (nid n))"

definition check_binding :: "'st store_ops \<Rightarrow> node \<Rightarrow> node \<Rightarrow> 'st \<Rightarrow> node res option" where
  "check_binding ops expected actual st =
    bindO (verify ops st (nid actual)) (\<lambda>report.
    Some (if \<not> vr_ok report \<or> result_digest actual \<noteq> result_digest expected
      then Inl (IntegrityError (''shared scope configuration does not match: '' @ nid expected))
      else Inr actual))"

definition bind_configuration :: "'st store_ops \<Rightarrow> replay_mode \<Rightarrow> node \<Rightarrow> 'st \<Rightarrow> (node res \<times> 'st) option" where
  "bind_configuration ops mode expected st =
    (if mode = REPLAY then
       map_option (\<lambda>r. (r, st)) (bindO (replay_node_or_missing ops st expected) (\<lambda>actual. check_binding ops expected actual st))
     else case (if s_exists ops st (nid expected) then Inr st else s_put ops expected st) of
       Inl e \<Rightarrow> Some (Inl e, st)
     | Inr st' \<Rightarrow> map_option (\<lambda>r. (r, st'))
         (bindO (Some (s_get ops st' (nid expected))) (\<lambda>actual. check_binding ops expected actual st')))"

definition bind_shared_budget :: "'st store_ops \<Rightarrow> replay_mode \<Rightarrow> shared_budget \<Rightarrow> 'st \<Rightarrow> (node res \<times> 'st) option" where
  "bind_shared_budget ops mode sb st = (case shared_budget_node sb of
      Inl e \<Rightarrow> Some (Inl e, st) | Inr n \<Rightarrow> bind_configuration ops mode n st)"

section \<open>The first binding decides\<close>

lemma shared_budget_node_ok:
  assumes "shared_budget_node sb = Inr e" shows "node_ok e \<and> node_valid e \<and> parent e = None"
proof -
  obtain limits where l: "budget_limits (sb_budget sb) = Inr limits" using assms by (auto simp: shared_budget_node_def bindR_Inr_iff)
  let ?pl = "[(''pollard_shared_budget'', JInt 1), (''name'', JStr (sb_name sb))]"
  let ?ls = "map (\<lambda>(k, v). (k, JStr (limit_text v))) (sort_key fst limits)"
  let ?r = "JDict [(''limits'', JDict ?ls)]"
  have "map fst ?ls = map fst (sort_key fst limits)" by (simp add: case_prod_unfold comp_def)
  then have d: "distinct_keys ?ls" using budget_limits_ok [OF l] distinct_keys_sort unfolding limits_ok_def by metis
  have ok: "identity_ok ?r" "json_wf ?r" using d by (auto simp: case_prod_unfold)
  have pl: "identity_ok (JDict ?pl)" by simp
  have n: "make_node (kind_value ROOT) None ?pl 0 ?r [] = Inr e"
    using assms l by (simp add: shared_budget_node_def)
  have e: "e = \<lparr>nid = sha256_hex (identity_bytes (kind_value ROOT) None 0 (JDict ?pl)), parent = None, kind = kind_value ROOT,
      attempt = 0, payload = ?pl, result = ?r, result_digest = Some (result_digest_from_text (json_text ?r)),
      meta = [], result_text = Some (json_text ?r)\<rparr>"
    using n make_node_ok [OF _ _ _ pl ok, of "kind_value ROOT" None 0 "[]"]
    by (simp add: node_kinds_def del: identity_ok.simps json_wf.simps json_text.simps)
  have w: "node_wf e" using n by (auto simp: make_node_def bindR_Inr_iff intro: post_init_wf)
  have "node_ok e" unfolding node_ok_def using w ok(2) by (simp add: e)
  moreover have "node_valid e" by (simp add: node_valid_def expected_id_def e node_id_ok)
  ultimately show ?thesis by (simp add: e)
qed

context store_contract
begin

lemma check_binding_clean:
  assumes inv: "inv st" and n: "nodes st i = Some n"
  shows "check_binding ops e n st = Some (if result_digest n = result_digest e then Inr n
    else Inl (IntegrityError (''shared scope configuration does not match: '' @ nid e)))"
proof -
  have "nid n = i" using nodes_forest [OF inv] n by (simp add: forest_def)
  then have "verify ops st (nid n) = Some (Inr \<lparr>vr_ok = True, vr_findings = []\<rparr>)" using n by (intro verify_clean [OF inv]) auto
  then show ?thesis by (simp add: check_binding_def)
qed

lemma bind_existing:
  assumes inv: "inv st" and n: "nodes st (nid e) = Some n"
  shows "bind_configuration ops mode e st = Some (if result_digest n = result_digest e then Inr n
    else Inl (IntegrityError (''shared scope configuration does not match: '' @ nid e)), st)"
proof -
  have "nid n = nid e" using nodes_forest [OF inv] n by (simp add: forest_def)
  then have "verify_recording ops st (nid n) = Some (Inr ())" using n by (intro recording_clean [OF inv]) auto
  then show ?thesis using n inv
    by (simp add: bind_configuration_def replay_node_or_missing_def exists_nodes get_nodes check_binding_clean [OF inv n])
qed

lemma bind_fresh:
  assumes inv: "inv st" and e: "node_ok e" "node_valid e" "parent e = None" and fresh: "nodes st (nid e) = None" and m: "mode \<noteq> REPLAY"
  shows "\<exists>n st'. bind_configuration ops mode e st = Some (Inr n, st') \<and> inv st' \<and> nodes st' (nid e) = Some n \<and>
    result_digest n = result_digest e \<and> grows (nodes st) (nodes st') \<and> dom (nodes st') = insert (nid e) (dom (nodes st))"
proof -
  obtain st' where st': "s_put ops e st = Inr st'" using put_fresh [OF inv e(1,2) fresh] e(3) by auto
  have p: "inv st'" "grows (nodes st) (nodes st')" "dom (nodes st') = insert (nid e) (dom (nodes st))"
    using put_nodes [OF inv e(1) st'] by simp_all
  obtain n where n: "nodes st' (nid e) = Some n" "same_record n e" using put_nodes [OF inv e(1) st'] fresh by auto
  have "result_digest n = result_digest e" using n(2) by (simp add: same_record_def)
  moreover have "bind_configuration ops mode e st = Some (Inr n, st')"
    using m st' fresh n(1) calculation
    by (simp add: bind_configuration_def exists_nodes inv get_nodes p(1) check_binding_clean [OF p(1) n(1)])
  ultimately show ?thesis using p n(1) by blast
qed

end


definition ten_steps :: shared_budget where
  "ten_steps = \<lparr>sb_name = ''team'', sb_budget = no_budget\<lparr>b_steps := Some (A_int 10)\<rparr>\<rparr>"


end
