(* ===== verification/Team_Context.thy ===== *)
theory Team_Context
  imports Scopes
begin

text \<open>
  Immutable identities and transport records of governed teams (\<open>team_context.py\<close>): the agent's
  identity with its tool ceiling, the budget and delegation contexts, and the checkpoint. Values that come
  from outside are \<open>json\<close> and every constructor validates them. The result: what an identity's
  transport form says is exactly the identity.
\<close>

section \<open>Validation\<close>

definition validate_name :: "json \<Rightarrow> string \<Rightarrow> string res" where
  "validate_name v field = (case v of
      JStr s \<Rightarrow>
        if s = [] \<or> s \<noteq> str_strip s \<or> 256 < length s
        then Inl (ValueError (field @ '' must be a nonempty name of at most 256 characters''))
        else if \<exists>c \<in> set s. (of_char c :: nat) < 32 \<or> (of_char c :: nat) = 127
        then Inl (ValueError (field @ '' cannot contain control characters''))
        else Inr s
    | _ \<Rightarrow> Inl (TypeError (field @ '' must be a string'')))"

definition validate_tools :: "json list option \<Rightarrow> string list option res" where
  "validate_tools v = (case v of
      None \<Rightarrow> Inr None
    | Some tools \<Rightarrow>
        bindR (mapR (\<lambda>t. validate_name t ''tool name'') tools) (\<lambda>names.
        if distinct names then Inr (Some (sort names))
        else Inl (ValueError ''allowed_tools cannot contain duplicates'')))"

definition hex_digit :: "char \<Rightarrow> bool" where
  "hex_digit c \<longleftrightarrow> c \<in> set ''0123456789abcdef''"

definition context_node_id :: "json \<Rightarrow> string \<Rightarrow> string res" where
  "context_node_id v field =
    (let bad = Inl (ValueError (field @ '' must be a lowercase 64-character node ID'')) in
     case v of JStr s \<Rightarrow> (if length s = 64 \<and> list_all hex_digit s then Inr s else bad) | _ \<Rightarrow> bad)"

definition context_fields :: "json \<Rightarrow> string list \<Rightarrow> string \<Rightarrow> jdict res" where
  "context_fields v names label =
    (let bad = Inl (ValueError (''invalid '' @ label @ '' fields'')) in
     case v of JDict d \<Rightarrow> (if set (map fst d) = set names then Inr d else bad) | _ \<Rightarrow> bad)"

section \<open>Agents\<close>

record agent_identity =
  ai_team_id :: string
  ai_agent_id :: string
  ai_task_id :: string
  ai_role :: "string option"
  ai_allowed_tools :: "string list option"

definition make_identity :: "json \<Rightarrow> json \<Rightarrow> json \<Rightarrow> json \<Rightarrow> json list option \<Rightarrow> agent_identity res" where
  "make_identity team agent task role tools =
    bindR (validate_name team ''team_id'') (\<lambda>team.
    bindR (validate_name agent ''agent_id'') (\<lambda>agent.
    bindR (validate_name task ''task_id'') (\<lambda>task.
    bindR (if role = JNull then Inr None else bindR (validate_name role ''role'') (\<lambda>r. Inr (Some r))) (\<lambda>role.
    bindR (validate_tools tools) (\<lambda>tools.
    Inr \<lparr>ai_team_id = team, ai_agent_id = agent, ai_task_id = task, ai_role = role, ai_allowed_tools = tools\<rparr>)))))"

definition role_json :: "string option \<Rightarrow> json" where
  "role_json v = (case v of None \<Rightarrow> JNull | Some s \<Rightarrow> JStr s)"

definition identity_to_dict :: "agent_identity \<Rightarrow> jdict" where
  "identity_to_dict a =
    [(''team_id'', JStr (ai_team_id a)), (''agent_id'', JStr (ai_agent_id a)), (''task_id'', JStr (ai_task_id a)),
     (''role'', role_json (ai_role a)),
     (''allowed_tools'', case ai_allowed_tools a of None \<Rightarrow> JNull | Some ts \<Rightarrow> JList (map JStr ts))]"

definition identity_from_dict :: "json \<Rightarrow> agent_identity res" where
  "identity_from_dict v =
    bindR (context_fields v [''team_id'', ''agent_id'', ''task_id'', ''role'', ''allowed_tools''] ''agent identity'') (\<lambda>d.
    bindR (case dget_or d ''allowed_tools'' JNull of
        JNull \<Rightarrow> Inr None
      | JList ts \<Rightarrow> Inr (Some ts)
      | _ \<Rightarrow> Inl (TypeError ''transported allowed_tools must be a list or None'')) (\<lambda>tools.
    make_identity (dget_or d ''team_id'' JNull) (dget_or d ''agent_id'' JNull) (dget_or d ''task_id'' JNull)
      (dget_or d ''role'' JNull) tools))"

section \<open>Budgets and delegations\<close>

record budget_context =
  bx_anchor_id :: string
  bx_limits :: "(string \<times> string) list"

definition add_context_limit :: "(string \<times> string) list \<Rightarrow> string \<times> json \<Rightarrow> (string \<times> string) list res" where
  "add_context_limit acc item = (case item of (name, amount) \<Rightarrow>
    bindR (validate_name (JStr name) ''meter name'') (\<lambda>name.
    case amount of
      JStr t \<Rightarrow>
        if name \<in> set (map fst acc) then Inl (ValueError ''invalid or duplicate budget meter'')
        else (case parse_decimal t of
            None \<Rightarrow> Inl (ValueError ''budget limits must be finite nonnegative decimals'')
          | Some number \<Rightarrow>
              if dec_less number 0 then Inl (ValueError ''budget limits must be finite nonnegative decimals'')
              else Inr (acc @ [(name, limit_text number)]))
    | _ \<Rightarrow> Inl (ValueError ''invalid or duplicate budget meter'')))"

definition make_budget_context :: "json \<Rightarrow> (string \<times> json) list \<Rightarrow> budget_context res" where
  "make_budget_context anchor limits =
    bindR (context_node_id anchor ''budget anchor'') (\<lambda>anchor.
    bindR (foldR add_context_limit [] limits) (\<lambda>normalized.
    Inr \<lparr>bx_anchor_id = anchor, bx_limits = sort normalized\<rparr>))"

definition budget_context_to_dict :: "budget_context \<Rightarrow> jdict" where
  "budget_context_to_dict b = [(''anchor_id'', JStr (bx_anchor_id b)),
    (''limits'', JDict (map (\<lambda>(k, v). (k, JStr v)) (bx_limits b)))]"

definition budget_context_from_dict :: "json \<Rightarrow> budget_context res" where
  "budget_context_from_dict v =
    bindR (context_fields v [''anchor_id'', ''limits''] ''budget context'') (\<lambda>d.
    case dget_or d ''limits'' JNull of
      JDict limits \<Rightarrow> make_budget_context (dget_or d ''anchor_id'' JNull) limits
    | _ \<Rightarrow> Inl (ValueError ''budget limits must be an object''))"

record delegation_context =
  dx_root_id :: string
  dx_manifest_id :: string
  dx_delegation_id :: string
  dx_cursor_id :: string
  dx_identity :: agent_identity
  dx_scopes :: "budget_context list"
  dx_config_digest :: string

definition make_delegation_context ::
  "json \<Rightarrow> json \<Rightarrow> json \<Rightarrow> json \<Rightarrow> agent_identity \<Rightarrow> budget_context list \<Rightarrow> json \<Rightarrow> delegation_context res" where
  "make_delegation_context root_v manifest_v delegation_v cursor_v identity scopes digest_v =
    bindR (context_node_id root_v ''root_id'') (\<lambda>root_i.
    bindR (context_node_id manifest_v ''manifest_id'') (\<lambda>manifest.
    bindR (context_node_id delegation_v ''delegation_id'') (\<lambda>delegation.
    bindR (context_node_id cursor_v ''cursor_id'') (\<lambda>cursor.
    bindR (context_node_id digest_v ''config_digest'') (\<lambda>digest.
    bindR (ensure (distinct (map bx_anchor_id scopes)) (ValueError ''duplicate budget scope anchors'')) (\<lambda>_.
    Inr \<lparr>dx_root_id = root_i, dx_manifest_id = manifest, dx_delegation_id = delegation, dx_cursor_id = cursor,
         dx_identity = identity, dx_scopes = scopes, dx_config_digest = digest\<rparr>))))))"

definition delegation_to_dict :: "delegation_context \<Rightarrow> jdict" where
  "delegation_to_dict c =
    [(''version'', JInt 1), (''root_id'', JStr (dx_root_id c)), (''manifest_id'', JStr (dx_manifest_id c)),
     (''delegation_id'', JStr (dx_delegation_id c)), (''cursor_id'', JStr (dx_cursor_id c)),
     (''identity'', JDict (identity_to_dict (dx_identity c))),
     (''scopes'', JList (map (\<lambda>s. JDict (budget_context_to_dict s)) (dx_scopes c))),
     (''config_digest'', JStr (dx_config_digest c))]"

definition delegation_from_dict :: "json \<Rightarrow> delegation_context res" where
  "delegation_from_dict v =
    bindR (context_fields v [''version'', ''root_id'', ''manifest_id'', ''delegation_id'', ''cursor_id'', ''identity'',
        ''scopes'', ''config_digest''] ''delegation context'') (\<lambda>d.
    if dget_or d ''version'' JNull \<noteq> JInt 1 then Inl (ValueError ''unsupported delegation context version'')
    else case dget_or d ''scopes'' JNull of
      JList items \<Rightarrow>
        bindR (identity_from_dict (dget_or d ''identity'' JNull)) (\<lambda>identity.
        bindR (mapR budget_context_from_dict items) (\<lambda>scopes.
        make_delegation_context (dget_or d ''root_id'' JNull) (dget_or d ''manifest_id'' JNull)
          (dget_or d ''delegation_id'' JNull) (dget_or d ''cursor_id'' JNull) identity scopes
          (dget_or d ''config_digest'' JNull)))
    | _ \<Rightarrow> Inl (ValueError ''transported scopes must be a list''))"

record agent_checkpoint =
  ck_checkpoint_id :: string
  ck_context :: delegation_context

definition make_checkpoint :: "json \<Rightarrow> delegation_context \<Rightarrow> agent_checkpoint res" where
  "make_checkpoint i c = bindR (context_node_id i ''checkpoint_id'') (\<lambda>i.
    Inr \<lparr>ck_checkpoint_id = i, ck_context = c\<rparr>)"

definition checkpoint_to_dict :: "agent_checkpoint \<Rightarrow> jdict" where
  "checkpoint_to_dict c = [(''version'', JInt 1), (''checkpoint_id'', JStr (ck_checkpoint_id c)),
    (''context'', JDict (delegation_to_dict (ck_context c)))]"

definition checkpoint_from_dict :: "json \<Rightarrow> agent_checkpoint res" where
  "checkpoint_from_dict v =
    bindR (context_fields v [''version'', ''checkpoint_id'', ''context''] ''agent checkpoint'') (\<lambda>d.
    if dget_or d ''version'' JNull \<noteq> JInt 1 then Inl (ValueError ''unsupported checkpoint version'')
    else bindR (delegation_from_dict (dget_or d ''context'' JNull)) (\<lambda>c.
      make_checkpoint (dget_or d ''checkpoint_id'' JNull) c))"

section \<open>Transport\<close>

lemma validate_name_Inr: "validate_name v f = Inr s \<Longrightarrow> v = JStr s \<and> validate_name (JStr s) g = Inr s"
  by (cases v) (auto simp: validate_name_def split: if_splits)

lemma validate_names_Inr: "mapR (\<lambda>t. validate_name t f) ts = Inr ns \<Longrightarrow> \<forall>n \<in> set ns. validate_name (JStr n) f = Inr n"
  by (induction ts arbitrary: ns) (auto simp: bindR_Inr_iff dest: validate_name_Inr)

lemma validate_tools_again:
  assumes "validate_tools v = Inr (Some ns)" shows "validate_tools (Some (map JStr ns)) = Inr (Some ns)"
proof -
  obtain ts ms where "v = Some ts" and ms: "mapR (\<lambda>t. validate_name t ''tool name'') ts = Inr ms" "distinct ms" "ns = sort ms"
    using assms by (auto simp: validate_tools_def bindR_Inr_iff split: option.splits if_splits)
  have "mapR (\<lambda>t. validate_name t ''tool name'') (map JStr ns) = Inr ns" if "\<forall>n \<in> set ns. validate_name (JStr n) ''tool name'' = Inr n" for ns
    using that by (induction ns) auto
  then show ?thesis using validate_names_Inr [OF ms(1)] ms(2,3) by (simp add: validate_tools_def sort_key_sorted)
qed

text \<open>
  C40. Delegated authority travels unchanged: reading the transport form of an agent identity gives back that
  identity, the same names, role and tool ceiling, and the ceiling is sorted and names no tool twice.
\<close>

theorem identity_round_trip:
  assumes "make_identity team agent task role tools = Inr a"
  shows "identity_from_dict (JDict (identity_to_dict a)) = Inr a \<and>
    (\<forall>ts. ai_allowed_tools a = Some ts \<longrightarrow> sorted ts \<and> distinct ts)"
proof -
  obtain t g k r ts where n: "validate_name team ''team_id'' = Inr t" "validate_name agent ''agent_id'' = Inr g"
      "validate_name task ''task_id'' = Inr k" "validate_tools tools = Inr ts"
      "if role = JNull then r = None else \<exists>s. validate_name role ''role'' = Inr s \<and> r = Some s"
    and a: "a = \<lparr>ai_team_id = t, ai_agent_id = g, ai_task_id = k, ai_role = r, ai_allowed_tools = ts\<rparr>"
    using assms by (auto simp: make_identity_def bindR_Inr_iff split: if_splits)
  have names: "validate_name (JStr t) ''team_id'' = Inr t" "validate_name (JStr g) ''agent_id'' = Inr g"
      "validate_name (JStr k) ''task_id'' = Inr k" "\<And>s. r = Some s \<Longrightarrow> validate_name (JStr s) ''role'' = Inr s"
    using n by (auto dest: validate_name_Inr split: if_splits)
  have tools: "validate_tools (Some (map JStr us)) = Inr (Some us)" if "ts = Some us" for us
    using n(4) that by (auto intro: validate_tools_again)
  have "identity_from_dict (JDict (identity_to_dict a)) = Inr a"
    using names tools unfolding a identity_to_dict_def identity_from_dict_def context_fields_def make_identity_def role_json_def
    by (cases r; cases ts) (simp_all add: dget_or_def validate_tools_def insert_commute)
  moreover have "sorted us \<and> distinct us" if "ts = Some us" for us
    using n(4) that by (auto simp: validate_tools_def bindR_Inr_iff split: option.splits if_splits)
  ultimately show ?thesis by (simp add: a)
qed

definition demo_identity :: agent_identity where
  "demo_identity = \<lparr>ai_team_id = ''team'', ai_agent_id = ''reader'', ai_task_id = ''task'', ai_role = None,
     ai_allowed_tools = Some [''fetch'', ''search'']\<rparr>"

lemma identity_round_trip_witness: "identity_from_dict (JDict (identity_to_dict demo_identity)) = Inr demo_identity"
proof -
  have "make_identity (JStr ''team'') (JStr ''reader'') (JStr ''task'') JNull (Some [JStr ''search'', JStr ''fetch'']) = Inr demo_identity"
    by code_simp
  from identity_round_trip [OF this] show ?thesis by blast
qed

end
