(* ===== verification/Revalidation.thy ===== *)
theory Revalidation
  imports Schema Canon
begin

text \<open>
  Live revalidation of a recorded model result (\<open>revalidation.py\<close>): the contract that
  fingerprints an execution, the value-free comparison of two results, and the payloads of its notes. The
  result: a comparison matches exactly when the two values are the same, types included.
\<close>

section \<open>Contracts\<close>

definition REPLAY_CONTRACT_FORMAT :: string where
  "REPLAY_CONTRACT_FORMAT = ''pollard/replay-contract/v1''"

definition REVALIDATION_FORMAT :: string where
  "REVALIDATION_FORMAT = ''pollard/revalidation/v1''"

definition MAX_DIFFERENCE_PATHS :: nat where
  "MAX_DIFFERENCE_PATHS = 100"

definition require_nonempty :: "string \<Rightarrow> string \<Rightarrow> unit res" where
  "require_nonempty name v = ensure (str_strip v \<noteq> []) (ValueError (name @ '' must be a non-empty string''))"

record replay_contract =
  ct_provider :: string
  ct_model_revision :: "string option"
  ct_api_version :: "string option"
  ct_adapter :: "string option"
  ct_adapter_version :: "string option"
  ct_sdk :: "string option"
  ct_sdk_version :: "string option"
  ct_application_revision :: "string option"
  ct_environment :: jdict

definition contract_fields :: "replay_contract \<Rightarrow> (string \<times> string option) list" where
  "contract_fields c = [(''model_revision'', ct_model_revision c), (''api_version'', ct_api_version c),
    (''adapter'', ct_adapter c), (''adapter_version'', ct_adapter_version c), (''sdk'', ct_sdk c),
    (''sdk_version'', ct_sdk_version c), (''application_revision'', ct_application_revision c)]"

definition make_contract :: "replay_contract \<Rightarrow> replay_contract res" where
  "make_contract c =
    bindR (require_nonempty ''provider'' (ct_provider c)) (\<lambda>_.
    bindR (forR (\<lambda>(name, v). case v of None \<Rightarrow> Inr () | Some s \<Rightarrow> require_nonempty name s) (contract_fields c)) (\<lambda>_.
    bindR (canonical_bytes (JDict (ct_environment c))) (\<lambda>_. Inr c)))"

definition contract_dict :: "replay_contract \<Rightarrow> jdict" where
  "contract_dict c =
    [(''format'', JStr REPLAY_CONTRACT_FORMAT), (''provider'', JStr (ct_provider c))] @
    concat (map (\<lambda>(name, v). case v of None \<Rightarrow> [] | Some s \<Rightarrow> [(name, JStr s)]) (contract_fields c)) @
    (if ct_environment c = [] then [] else [(''environment'', JDict (ct_environment c))])"

text \<open>The metadata under \<open>_pollard\<close> in a payload.\<close>

definition reserved_metadata :: "jdict \<Rightarrow> jdict res" where
  "reserved_metadata pl = (case dget_or pl ''_pollard'' JNull of
      JNull \<Rightarrow> Inr []
    | JDict d \<Rightarrow> Inr d
    | _ \<Rightarrow> Inl (TypeError ''payload _pollard field must be an object''))"

definition bind_contract :: "replay_contract \<Rightarrow> jdict \<Rightarrow> jdict res" where
  "bind_contract c pl =
    bindR (canonical_bytes (JDict pl)) (\<lambda>_.
    bindR (reserved_metadata pl) (\<lambda>md.
    let existing = dget_or md ''replay_contract'' JNull in
    if existing \<noteq> JNull \<and> \<not> py_eq existing (JDict (contract_dict c))
    then Inl (ValueError ''payload is already bound to a different replay contract'')
    else Inr (dset ''_pollard'' (JDict (dset ''replay_contract'' (JDict (contract_dict c)) md)) pl)))"

definition extract_replay_contract :: "jdict \<Rightarrow> jdict option res" where
  "extract_replay_contract pl = (case dget_or pl ''_pollard'' JNull of
      JDict md \<Rightarrow> (case dget md ''replay_contract'' of
          None \<Rightarrow> Inr None
        | Some (JDict c) \<Rightarrow> bindR (canonical_bytes (JDict c)) (\<lambda>_. Inr (Some c))
        | Some _ \<Rightarrow> Inl (ValueError ''recorded _pollard.replay_contract must be an object''))
    | _ \<Rightarrow> Inr None)"

section \<open>Comparisons\<close>

record comparison =
  cp_matched :: bool
  cp_paths :: "string list"
  cp_truncated :: bool

definition make_comparison :: "bool \<Rightarrow> string list \<Rightarrow> bool \<Rightarrow> comparison res" where
  "make_comparison matched paths truncated =
    (if length paths > MAX_DIFFERENCE_PATHS then Inl (ValueError ''difference paths cannot exceed 100 entries'')
     else if \<exists>p \<in> set paths. take 1 p \<noteq> ''/'' then Inl (ValueError ''difference paths must be JSON pointers'')
     else if matched \<and> (paths \<noteq> [] \<or> truncated)
     then Inl (ValueError ''a matched comparison cannot contain differences'')
     else Inr \<lparr>cp_matched = matched, cp_paths = paths, cp_truncated = truncated\<rparr>)"

definition comparison_dict :: "comparison \<Rightarrow> json" where
  "comparison_dict c = JDict [(''matched'', JBool (cp_matched c)),
    (''difference_paths'', JList (map JStr (cp_paths c))), (''truncated'', JBool (cp_truncated c))]"

definition escape_token :: "string \<Rightarrow> string" where
  "escape_token s = concat (map (\<lambda>c. if c = CHR ''~'' then ''~0'' else if c = CHR ''/'' then ''~1'' else [c]) s)"

text \<open>\<open>type(left) is type(right)\<close>.\<close>

fun same_type :: "json \<Rightarrow> json \<Rightarrow> bool" where
  "same_type JNull JNull = True"
| "same_type (JBool _) (JBool _) = True"
| "same_type (JInt _) (JInt _) = True"
| "same_type (JFloat _) (JFloat _) = True"
| "same_type (JStr _) (JStr _) = True"
| "same_type (JBytes _) (JBytes _) = True"
| "same_type (JList _) (JList _) = True"
| "same_type (JDict _) (JDict _) = True"
| "same_type (JOther s) (JOther t) = (s = t)"
| "same_type _ _ = False"

text \<open>The paths found so far and whether the bound was reached: the two variables \<open>visit\<close> shares.\<close>

definition add_path :: "nat \<Rightarrow> string \<Rightarrow> string list \<times> bool \<Rightarrow> string list \<times> bool" where
  "add_path limit path acc = (case acc of (paths, truncated) \<Rightarrow>
    if limit \<le> length paths then (paths, True) else (paths @ [if path = [] then ''/'' else path], truncated))"

definition index_path :: "string \<Rightarrow> nat \<Rightarrow> string" where
  "index_path path i = path @ ''/'' @ int_str (int i)"

definition key_path :: "string \<Rightarrow> string \<Rightarrow> string" where
  "key_path path k = path @ ''/'' @ escape_token k"

text \<open>The pairs an object comparison goes through, in the order of their keys.\<close>

definition key_pairs :: "jdict \<Rightarrow> jdict \<Rightarrow> (string \<times> json option \<times> json option) list" where
  "key_pairs d e = map (\<lambda>k. (k, dget d k, dget e k)) (sort (remdups (map fst d @ map fst e)))"

lemma fold_pair_cong [fundef_cong]:
  "xs = ys \<Longrightarrow> a = b \<Longrightarrow> (\<And>x acc. x \<in> set ys \<Longrightarrow> f x acc = g x acc) \<Longrightarrow> fold f xs a = fold g ys b"
  by (induction ys arbitrary: xs a b) auto

lemma key_pairs_size: "(k, Some v, w) \<in> set (key_pairs (dict_items l) e) \<Longrightarrow> size v < size l"
  using dict_items_size [of k v l] by (auto simp: key_pairs_def dest: map_of_SomeD [OF sym])

lemma zip_items_size: "(i, x, y) \<in> set (enumerate n (zip (list_items l) ys)) \<Longrightarrow> size x < size l"
  by (rule list_items_size) (auto simp: in_set_enumerate_eq)

function visit :: "nat \<Rightarrow> json \<Rightarrow> json \<Rightarrow> string \<Rightarrow> string list \<times> bool \<Rightarrow> string list \<times> bool" where
  "visit limit left right path acc =
    (if snd acc then acc
     else if \<not> same_type left right then add_path limit path acc
     else if is_dict left then
       fold (\<lambda>(k, v, w) acc. case (v, w) of
           (Some x, Some y) \<Rightarrow> visit limit x y (key_path path k) acc
         | _ \<Rightarrow> add_path limit (key_path path k) acc) (key_pairs (dict_items left) (dict_items right)) acc
     else if is_list left then
       fold (\<lambda>i acc. add_path limit (index_path path i) acc)
         [min (length (list_items left)) (length (list_items right)) ..< max (length (list_items left)) (length (list_items right))]
         (fold (\<lambda>(i, x, y) acc. visit limit x y (index_path path i) acc)
           (enumerate 0 (zip (list_items left) (list_items right))) acc)
     else if \<not> py_eq left right then add_path limit path acc else acc)"
  by pat_completeness auto
termination
  by (relation "measure (\<lambda>(limit, left, right, path, acc). size left)") (auto dest: key_pairs_size zip_items_size)

declare visit.simps [simp del]

definition difference_paths :: "json \<Rightarrow> json \<Rightarrow> string list \<times> bool" where
  "difference_paths recorded live = visit MAX_DIFFERENCE_PATHS recorded live [] ([], False)"

definition exact_compare :: "jdict \<Rightarrow> jdict \<Rightarrow> comparison res" where
  "exact_compare recorded live = (case difference_paths (JDict recorded) (JDict live) of
     (paths, truncated) \<Rightarrow> make_comparison (paths = [] \<and> \<not> truncated) paths truncated)"

section \<open>Model semantics\<close>

definition parse_json_text :: "string \<Rightarrow> json" where
  "parse_json_text s = (case json_loads s of Inr v \<Rightarrow> v | Inl _ \<Rightarrow> JStr s)"

definition normalize_function :: "jdict \<Rightarrow> json" where
  "normalize_function f = (case dget_or f ''arguments'' JNull of
      JStr s \<Rightarrow> JDict (dset ''arguments'' (parse_json_text s) f) | _ \<Rightarrow> JDict f)"

definition normalize_entry :: "string \<times> json \<Rightarrow> (string \<times> json) list" where
  "normalize_entry p = (case p of (k, v) \<Rightarrow>
    if k \<in> {''id'', ''call_id'', ''toolUseId'', ''index''} then []
    else if k = ''function'' \<and> is_dict v then [(k, normalize_function (dict_items v))]
    else case v of
      JStr s \<Rightarrow> [(k, if k = ''arguments'' \<or> k = ''input_json'' then parse_json_text s else v)]
    | _ \<Rightarrow> [(k, v)])"

definition normalize_tool_call :: "json \<Rightarrow> json" where
  "normalize_tool_call v = (case v of JDict d \<Rightarrow> JDict (concat (map normalize_entry d)) | _ \<Rightarrow> v)"

definition normalize_tool_calls :: "json \<Rightarrow> json" where
  "normalize_tool_calls v = (case v of JList xs \<Rightarrow> JList (map normalize_tool_call xs) | _ \<Rightarrow> v)"

definition semantic_names :: "string list" where
  "semantic_names = [''text'', ''tool_calls'', ''refusal'', ''structured_output'']"

definition model_semantics :: "jdict \<Rightarrow> jdict" where
  "model_semantics res =
    (if \<exists>n \<in> set semantic_names. dget res n \<noteq> None
     then concat (map (\<lambda>n. case dget res n of None \<Rightarrow> []
            | Some v \<Rightarrow> [(n, if n = ''tool_calls'' then normalize_tool_calls v else v)]) semantic_names)
     else filter (\<lambda>(k, _). k \<notin> {''usage'', ''provider_usage'', ''chunks''}) res)"

definition normalized_compare :: "jdict \<Rightarrow> jdict \<Rightarrow> comparison res" where
  "normalized_compare recorded live = exact_compare (model_semantics recorded) (model_semantics live)"

section \<open>Payloads of the notes\<close>

definition make_revalidation_payload ::
  "jdict \<Rightarrow> string \<Rightarrow> string \<Rightarrow> string \<Rightarrow> replay_contract \<Rightarrow> string \<Rightarrow> jdict res" where
  "make_revalidation_payload pl observation_id recorded_id recorded_digest contract comparator =
    bindR (require_nonempty ''observation_id'' observation_id) (\<lambda>_.
    bindR (require_nonempty ''comparator name'' comparator) (\<lambda>_.
    bindR (reserved_metadata pl) (\<lambda>md.
    if dget md ''revalidation'' \<noteq> None
    then Inl (ValueError ''payload already contains reserved _pollard.revalidation metadata'')
    else
      let marked = dset ''_pollard'' (JDict (dset ''revalidation'' (JDict
            [(''format'', JStr REVALIDATION_FORMAT), (''observation_id'', JStr observation_id),
             (''recorded_node_id'', JStr recorded_id), (''recorded_result_digest'', JStr recorded_digest),
             (''live_contract'', JDict (contract_dict contract)), (''comparator'', JStr comparator)]) md)) pl in
      bindR (canonical_bytes (JDict marked)) (\<lambda>_. Inr marked))))"

definition evidence_head :: "string \<Rightarrow> string \<Rightarrow> string \<Rightarrow> string \<Rightarrow> string \<Rightarrow> string \<Rightarrow> string \<Rightarrow> jdict" where
  "evidence_head event observation_id recorded_id live_id recorded_digest live_digest comparator =
    [(''event'', JStr event), (''format'', JStr REVALIDATION_FORMAT), (''observation_id'', JStr observation_id),
     (''recorded_node_id'', JStr recorded_id), (''live_node_id'', JStr live_id),
     (''recorded_result_digest'', JStr recorded_digest), (''live_result_digest'', JStr live_digest),
     (''comparator'', JStr comparator)]"

definition make_revalidation_evidence ::
  "string \<Rightarrow> string \<Rightarrow> string \<Rightarrow> string \<Rightarrow> string \<Rightarrow> string \<Rightarrow> comparison \<Rightarrow> bool \<Rightarrow> jdict option \<Rightarrow> jdict \<Rightarrow> jdict res" where
  "make_revalidation_evidence observation_id recorded_id live_id recorded_digest live_digest comparator comparison
      exact_match recorded_contract live_contract =
    (let pl = evidence_head ''model_revalidation'' observation_id recorded_id live_id recorded_digest live_digest comparator @
       [(''comparison'', comparison_dict comparison), (''exact_match'', JBool exact_match),
        (''live_contract'', JDict live_contract)] @
       (case recorded_contract of None \<Rightarrow> [] | Some c \<Rightarrow> [(''recorded_contract'', JDict c)]) in
     bindR (canonical_bytes (JDict pl)) (\<lambda>_. Inr pl))"

definition make_failure_evidence ::
  "string \<Rightarrow> string \<Rightarrow> string \<Rightarrow> string \<Rightarrow> string \<Rightarrow> string \<Rightarrow> string \<Rightarrow> jdict res" where
  "make_failure_evidence observation_id recorded_id live_id recorded_digest live_digest comparator error_type =
    (let pl = evidence_head ''model_revalidation_comparison_failed'' observation_id recorded_id live_id recorded_digest
       live_digest comparator @ [(''error_type'', JStr error_type)] in
     bindR (canonical_bytes (JDict pl)) (\<lambda>_. Inr pl))"

section \<open>The report\<close>

record revalidation_report =
  rr_observation_id :: string
  rr_recorded_node_id :: string
  rr_live_node_id :: string
  rr_evidence_node_id :: string
  rr_comparator :: string
  rr_matched :: bool
  rr_exact_match :: bool
  rr_recorded_result_digest :: string
  rr_live_result_digest :: string
  rr_difference_paths :: "string list"
  rr_differences_truncated :: bool
  rr_recorded_contract :: "jdict option"
  rr_live_contract :: jdict
  rr_charges :: jdict

definition report_dict :: "revalidation_report \<Rightarrow> jdict" where
  "report_dict r =
    [(''observation_id'', JStr (rr_observation_id r)), (''recorded_node_id'', JStr (rr_recorded_node_id r)),
     (''live_node_id'', JStr (rr_live_node_id r)), (''evidence_node_id'', JStr (rr_evidence_node_id r)),
     (''comparator'', JStr (rr_comparator r)), (''matched'', JBool (rr_matched r)),
     (''exact_match'', JBool (rr_exact_match r)), (''recorded_result_digest'', JStr (rr_recorded_result_digest r)),
     (''live_result_digest'', JStr (rr_live_result_digest r)),
     (''difference_paths'', JList (map JStr (rr_difference_paths r))),
     (''differences_truncated'', JBool (rr_differences_truncated r)),
     (''recorded_contract'', case rr_recorded_contract r of None \<Rightarrow> JNull | Some c \<Rightarrow> JDict c),
     (''live_contract'', JDict (rr_live_contract r)), (''charges'', JDict (rr_charges r))]"

section \<open>What a match means\<close>

lemma dget_size [termination_simp]: "dget d k = Some v \<Longrightarrow> size v < Suc (size_list (\<lambda>x. Suc (size (snd x))) d)"
  by (induction d) (auto split: if_splits)

text \<open>The same JSON value: the same types throughout, equal scalars, objects up to the order of their keys.\<close>

fun same_value :: "json \<Rightarrow> json \<Rightarrow> bool" where
  "same_value (JDict d) w = (is_dict w \<and> (\<forall>k \<in> set (map fst d @ map fst (dict_items w)).
      case dget d k of None \<Rightarrow> False
      | Some v \<Rightarrow> (case dget (dict_items w) k of None \<Rightarrow> False | Some v' \<Rightarrow> same_value v v')))"
| "same_value (JList xs) w = (is_list w \<and> list_all2 same_value xs (list_items w))"
| "same_value v w = (same_type v w \<and> py_eq v w)"

definition paths_ok :: "nat \<Rightarrow> string list \<times> bool \<Rightarrow> bool" where
  "paths_ok limit acc \<longleftrightarrow> (snd acc \<longrightarrow> limit \<le> length (fst acc)) \<and> length (fst acc) \<le> limit \<and>
    (\<forall>p \<in> set (fst acc). take 1 p = ''/'')"

definition found :: "string list \<times> bool \<Rightarrow> nat" where
  "found acc = length (fst acc) + (if snd acc then 1 else 0)"

text \<open>A step of the comparison that reports something exactly when its values differ.\<close>

definition reports :: "nat \<Rightarrow> (string list \<times> bool \<Rightarrow> string list \<times> bool) \<Rightarrow> bool \<Rightarrow> bool" where
  "reports limit f same \<longleftrightarrow> (\<forall>acc. paths_ok limit acc \<longrightarrow> paths_ok limit (f acc) \<and> found acc \<le> found (f acc) \<and>
    (snd acc \<longrightarrow> f acc = acc) \<and> (if same then f acc = acc else \<not> snd acc \<longrightarrow> found acc < found (f acc)))"

lemma reports_id: "reports limit (\<lambda>acc. acc) True"
  by (simp add: reports_def)

lemma reports_add: "path = [] \<or> take 1 path = ''/'' \<Longrightarrow> reports limit (add_path limit path) False"
  by (auto simp: reports_def paths_ok_def found_def add_path_def split: prod.splits)

lemma reports_comp: "reports limit f a \<Longrightarrow> reports limit g b \<Longrightarrow> reports limit (\<lambda>acc. g (f acc)) (a \<and> b)"
  unfolding reports_def by (smt (verit, best) le_trans less_le_trans order_le_less_trans)

lemma reports_fold: "(\<And>x. x \<in> set xs \<Longrightarrow> reports limit (f x) (b x)) \<Longrightarrow> reports limit (fold f xs) (\<forall>x \<in> set xs. b x)"
proof (induction xs)
  case Nil
  then show ?case using reports_id [of limit] by (simp add: id_def)
next
  case (Cons x xs)
  have "reports limit (\<lambda>acc. fold f xs (f x acc)) (b x \<and> (\<forall>y \<in> set xs. b y))"
    using Cons by (intro reports_comp) auto
  then show ?case by (simp add: comp_def)
qed

lemma reports_cong: "reports limit f a \<Longrightarrow> a = b \<Longrightarrow> (\<And>acc. snd acc \<or> f acc = g acc) \<Longrightarrow> (\<And>acc. snd acc \<Longrightarrow> g acc = acc) \<Longrightarrow> reports limit g b"
  unfolding reports_def by (smt (verit))

lemma path_starts: "path = [] \<or> take 1 path = ''/'' \<Longrightarrow> take 1 (key_path path k) = ''/''"
  "path = [] \<or> take 1 path = ''/'' \<Longrightarrow> take 1 (index_path path i) = ''/''"
  by (cases path; simp add: key_path_def index_path_def)+

lemma key_pairs_same:
  "same_value (JDict d) (JDict e) \<longleftrightarrow> (\<forall>(k, v, w) \<in> set (key_pairs d e). case (v, w) of
     (Some x, Some y) \<Rightarrow> same_value x y | _ \<Rightarrow> False)"
proof -
  have "(case dget d k of None \<Rightarrow> False | Some v \<Rightarrow> (case dget e k of None \<Rightarrow> False | Some v' \<Rightarrow> same_value v v')) \<longleftrightarrow>
    (case (dget d k, dget e k) of (Some x, Some y) \<Rightarrow> same_value x y | _ \<Rightarrow> False)" for k
    by (simp split: option.split)
  then show ?thesis
    by (simp only: key_pairs_def list.set_map set_sort set_remdups ball_simps prod.case same_value.simps is_dict.simps
        dict_items.simps simp_thms)
qed

lemma list_pairs_same:
  "same_value (JList xs) (JList ys) \<longleftrightarrow> (\<forall>i \<in> set [min (length xs) (length ys) ..< max (length xs) (length ys)]. False) \<and>
    (\<forall>(i, x, y) \<in> set (enumerate 0 (zip xs ys)). same_value x y)"
proof -
  have "(\<forall>(i, x, y) \<in> set (enumerate 0 (zip xs ys)). same_value x y) \<longleftrightarrow> (\<forall>q \<in> snd ` set (enumerate 0 (zip xs ys)). same_value (fst q) (snd q))"
    by (simp add: case_prod_unfold)
  also have "snd ` set (enumerate 0 (zip xs ys)) = set (zip xs ys)" by (metis map_snd_enumerate set_map)
  finally show ?thesis by (auto simp: list_all2_iff case_prod_unfold)
qed

lemma same_value_scalar: "same_type v w \<Longrightarrow> \<not> is_dict v \<Longrightarrow> \<not> is_list v \<Longrightarrow> same_value v w \<longleftrightarrow> py_eq v w"
  by (cases v) (simp_all only: same_value.simps is_dict.simps is_list.simps simp_thms)

lemma same_type_cases: "same_type (JDict d) w = is_dict w" "same_type (JList xs) w = is_list w"
  by (cases w; simp)+

lemma same_value_type: "same_value v w \<Longrightarrow> same_type v w"
  by (cases v) (simp_all only: same_value.simps same_type_cases simp_thms)

lemma visit_stopped: "snd acc \<Longrightarrow> visit limit left right path acc = acc"
  by (subst visit.simps) simp

lemma reports_visit:
  assumes "reports limit f b" "\<And>acc. \<not> snd acc \<Longrightarrow> visit limit left right path acc = f acc"
  shows "reports limit (visit limit left right path) b"
proof (rule reports_cong [OF assms(1)])
  show "snd acc \<or> f acc = visit limit left right path acc" for acc by (cases "snd acc") (simp_all add: assms(2))
  show "visit limit left right path acc = acc" if "snd acc" for acc using that by (rule visit_stopped)
qed simp

lemma visit_type: "\<not> snd acc \<Longrightarrow> \<not> same_type left right \<Longrightarrow> visit limit left right path acc = add_path limit path acc"
  by (subst visit.simps) simp

lemma visit_dict: "\<not> snd acc \<Longrightarrow> visit limit (JDict d) (JDict e) path acc =
    fold (\<lambda>(k, v, w) acc. case (v, w) of (Some x, Some y) \<Rightarrow> visit limit x y (key_path path k) acc
         | _ \<Rightarrow> add_path limit (key_path path k) acc) (key_pairs d e) acc"
  by (subst visit.simps) (simp only: is_dict.simps dict_items.simps same_type.simps if_False if_True simp_thms json.inject ex_simps)

lemma visit_list: "\<not> snd acc \<Longrightarrow> visit limit (JList xs) (JList ys) path acc =
    fold (\<lambda>i acc. add_path limit (index_path path i) acc) [min (length xs) (length ys) ..< max (length xs) (length ys)]
      (fold (\<lambda>(i, x, y) acc. visit limit x y (index_path path i) acc) (enumerate 0 (zip xs ys)) acc)"
  by (subst visit.simps) (simp only: is_dict.simps is_list.simps list_items.simps same_type.simps if_False if_True simp_thms json.inject ex_simps)

lemma visit_scalar: "\<not> snd acc \<Longrightarrow> same_type left right \<Longrightarrow> \<not> is_dict left \<Longrightarrow> \<not> is_list left \<Longrightarrow>
    visit limit left right path acc = (if \<not> py_eq left right then add_path limit path acc else acc)"
  by (subst visit.simps) simp

lemma visit_reports: "path = [] \<or> take 1 path = ''/'' \<Longrightarrow> reports limit (visit limit left right path) (same_value left right)"
proof (induction "size left" arbitrary: left right path rule: less_induct)
  case less
  note p = path_starts [OF less.prems]
  consider (type) "\<not> same_type left right"
    | (dict) d e where "left = JDict d" "right = JDict e"
    | (list) xs ys where "left = JList xs" "right = JList ys"
    | (scalar) "same_type left right" "\<not> is_dict left" "\<not> is_list left"
    by (cases left; cases right) auto
  then show ?case
  proof cases
    case type
    then have "\<not> same_value left right" using same_value_type by blast
    then show ?thesis using type
      using reports_visit [OF reports_add [OF less.prems] visit_type] by simp
  next
    case dict
    let ?f = "\<lambda>(k, v, w) acc. case (v, w) of (Some x, Some y) \<Rightarrow> visit limit x y (key_path path k) acc
         | _ \<Rightarrow> add_path limit (key_path path k) acc"
    have "reports limit (?f q) (case q of (k, v, w) \<Rightarrow> case (v, w) of (Some x, Some y) \<Rightarrow> same_value x y | _ \<Rightarrow> False)"
      if q: "q \<in> set (key_pairs d e)" for q
    proof -
      obtain k v w where [simp]: "q = (k, v, w)" by (cases q) auto
      have "\<exists>x y. v = Some x \<and> w = Some y \<and> size x < size left \<or> v = None \<or> w = None"
        using q key_pairs_size [of k _ w left e] dict by (cases v; cases w) auto
      then show ?thesis using less.hyps p(1) [of k] reports_add [of "key_path path k" limit]
        by (auto split: option.splits)
    qed
    then have "reports limit (fold ?f (key_pairs d e)) (\<forall>q \<in> set (key_pairs d e).
        case q of (k, v, w) \<Rightarrow> case (v, w) of (Some x, Some y) \<Rightarrow> same_value x y | _ \<Rightarrow> False)"
      by (rule reports_fold)
    then show ?thesis unfolding dict key_pairs_same by (rule reports_visit) (rule visit_dict)
  next
    case list
    let ?g = "\<lambda>i acc. add_path limit (index_path path i) acc" and ?f = "\<lambda>(i, x, y) acc. visit limit x y (index_path path i) acc"
    let ?is = "[min (length xs) (length ys) ..< max (length xs) (length ys)]" and ?ps = "enumerate 0 (zip xs ys)"
    have "reports limit (?f q) (case q of (i, x, y) \<Rightarrow> same_value x y)" if q: "q \<in> set ?ps" for q
    proof -
      obtain i x y where [simp]: "q = (i, x, y)" by (cases q) auto
      have "size x < size left" using q zip_items_size [of i x y 0 left ys] list by simp
      then show ?thesis using less.hyps p(2) [of i] by simp
    qed
    then have "reports limit (fold ?f ?ps) (\<forall>q \<in> set ?ps. case q of (i, x, y) \<Rightarrow> same_value x y)" by (rule reports_fold)
    moreover have "reports limit (fold ?g ?is) (\<forall>i \<in> set ?is. False)"
      using p(2) by (intro reports_fold reports_add) simp
    ultimately have "reports limit (\<lambda>acc. fold ?g ?is (fold ?f ?ps acc))
      ((\<forall>q \<in> set ?ps. case q of (i, x, y) \<Rightarrow> same_value x y) \<and> (\<forall>i \<in> set ?is. False))" by (rule reports_comp)
    then have "reports limit (visit limit (JList xs) (JList ys) path)
      ((\<forall>q \<in> set ?ps. case q of (i, x, y) \<Rightarrow> same_value x y) \<and> (\<forall>i \<in> set ?is. False))"
      by (rule reports_visit) (rule visit_list)
    then show ?thesis unfolding list list_pairs_same by (simp only: conj_commute)
  next
    case scalar
    show ?thesis
    proof (cases "py_eq left right")
      case True
      with scalar show ?thesis using reports_visit [OF reports_id, where left = left and right = right and path = path and limit = limit]
        by (simp add: same_value_scalar visit_scalar)
    next
      case False
      with scalar show ?thesis using reports_visit [OF reports_add [OF less.prems], where left = left and right = right and limit = limit]
        by (simp add: same_value_scalar visit_scalar)
    qed
  qed
qed

lemma reports_start_aux: "reports limit f same \<Longrightarrow> paths_ok limit ([], False) \<Longrightarrow> paths_ok limit (f ([], False)) \<and>
    (if same then f ([], False) = ([], False) else found ([], False) < found (f ([], False)))"
  unfolding reports_def by (metis snd_conv)

lemma reports_start: "reports limit f same \<Longrightarrow> paths_ok limit (f ([], False)) \<and> (if same then f ([], False) = ([], False) else 0 < found (f ([], False)))"
  using reports_start_aux [of limit f same] by (auto simp: paths_ok_def found_def simp del: One_nat_def)

text \<open>
  C39. An exact comparison of two results never fails, and it matches exactly when the results are the
  same JSON value: the same types throughout, equal scalars, objects up to the order of their keys. A
  mismatch names at least one path.
\<close>

theorem exact_compare_exact:
  "\<exists>c. exact_compare recorded live = Inr c \<and> (cp_matched c \<longleftrightarrow> same_value (JDict recorded) (JDict live)) \<and>
    (cp_matched c \<longleftrightarrow> cp_paths c = [])"
proof -
  let ?r = "visit MAX_DIFFERENCE_PATHS (JDict recorded) (JDict live) [] ([], False)"
  have v: "reports MAX_DIFFERENCE_PATHS (visit MAX_DIFFERENCE_PATHS (JDict recorded) (JDict live) []) (same_value (JDict recorded) (JDict live))"
    by (rule visit_reports) simp
  have r: "paths_ok MAX_DIFFERENCE_PATHS ?r"
    "if same_value (JDict recorded) (JDict live) then ?r = ([], False) else 0 < found ?r"
    using reports_start [OF v] by (simp_all del: same_value.simps)
  obtain paths truncated where pt: "?r = (paths, truncated)" by (cases ?r)
  have ok: "truncated \<longrightarrow> paths \<noteq> []" "length paths \<le> MAX_DIFFERENCE_PATHS" "\<not> (\<exists>p \<in> set paths. take 1 p \<noteq> ''/'')"
  proof -
    have p: "paths_ok MAX_DIFFERENCE_PATHS (paths, truncated)" using r(1) by (simp only: pt)
    show "length paths \<le> MAX_DIFFERENCE_PATHS" using p by (simp add: paths_ok_def)
    show "truncated \<longrightarrow> paths \<noteq> []" using p by (cases paths) (simp_all add: paths_ok_def MAX_DIFFERENCE_PATHS_def)
    show "\<not> (\<exists>p \<in> set paths. take 1 p \<noteq> ''/'')" using p by (simp add: paths_ok_def)
  qed
  have c: "exact_compare recorded live = Inr \<lparr>cp_matched = (paths = [] \<and> \<not> truncated), cp_paths = paths, cp_truncated = truncated\<rparr>"
    unfolding exact_compare_def difference_paths_def pt prod.case make_comparison_def using ok by auto
  have "paths = [] \<and> \<not> truncated \<longleftrightarrow> same_value (JDict recorded) (JDict live)"
    using r(2) unfolding pt found_def by (simp split: if_splits)
  with c ok(1) show ?thesis by (auto simp del: same_value.simps)
qed

end
