(* ===== verification/Streams.thy ===== *)
theory Streams
  imports Team_Context Revalidation
begin

text \<open>
  What a step function returns and how the runtime reads it (\<open>_consume_step_result\<close>,
  \<open>_merge_stream_value\<close> and \<open>_reemit_chunks\<close> of \<open>runtime.py\<close>, the marks of
  \<open>errors.py\<close>). A stream of chunks is merged into one result in place: an object of a chunk can
  become part of the result and is then changed by later chunks. The objects are therefore kept in an
  explicit heap, one cell per Python \<open>dict\<close>; only objects reached through objects are cells,
  because nothing inside a list is ever changed.
\<close>

section \<open>Unknown outcomes\<close>

text \<open>An exception whose class refuses attributes is wrapped, every other one is marked.\<close>

definition mark_unknown :: "exc \<Rightarrow> exc" where
  "mark_unknown e = (case e of Foreign cls refuses \<Rightarrow> if refuses then PostDispatchOutcomeUnknown e else Marked e
     | _ \<Rightarrow> Marked e)"

definition is_unknown :: "exc \<Rightarrow> bool" where
  "is_unknown e = (case e of PostDispatchOutcomeUnknown e' \<Rightarrow> True | Marked e' \<Rightarrow> True | _ \<Rightarrow> False)"

text \<open>\<open>type(error).__name__\<close>.\<close>

fun exc_name :: "exc \<Rightarrow> string" where
  "exc_name (KeyError k) = ''KeyError''"
| "exc_name (TypeError m) = ''TypeError''"
| "exc_name (ValueError m) = ''ValueError''"
| "exc_name (RuntimeErr m) = ''RuntimeError''"
| "exc_name AssertionError = ''AssertionError''"
| "exc_name (IntegrityError m) = ''IntegrityError''"
| "exc_name (UnsupportedSchema m) = ''UnsupportedSchema''"
| "exc_name (BudgetExceeded m i) = ''BudgetExceeded''"
| "exc_name (PolicyViolation m i) = ''PolicyViolation''"
| "exc_name (ConfirmationRequired m i) = ''ConfirmationRequired''"
| "exc_name (MissingRecording m i s) = ''MissingRecording''"
| "exc_name (DuplicateRecording m i s a) = ''DuplicateRecording''"
| "exc_name (PostDispatchOutcomeUnknown e) = ''PostDispatchOutcomeUnknown''"
| "exc_name (CallCleanupError es) = ''CallCleanupError''"
| "exc_name (ReservationLeaseLost m i n d) = ''ReservationLeaseLost''"
| "exc_name (ReservationUncertain m i) = ''ReservationUncertain''"
| "exc_name (SettlementUncertain m i) = ''SettlementUncertain''"
| "exc_name (Foreign cls refuses) = cls"
| "exc_name (Marked e) = exc_name e"

section \<open>Objects on a heap\<close>

text \<open>A value held by an object: an address, or a value that is no object.\<close>

datatype hval = HObj nat | HVal json

type_synonym heap = "(string \<times> hval) list list"

fun alloc :: "json \<Rightarrow> heap \<Rightarrow> hval \<times> heap" and alloc_items :: "jdict \<Rightarrow> heap \<Rightarrow> (string \<times> hval) list \<times> heap" where
  "alloc (JDict d) h = (case alloc_items d (h @ [[]]) of (es, h') \<Rightarrow> (HObj (length h), h'[length h := es]))"
| "alloc v h = (HVal v, h)"
| "alloc_items [] h = ([], h)"
| "alloc_items ((k, v) # d) h = (case alloc v h of (x, h1) \<Rightarrow> case alloc_items d h1 of (es, h2) \<Rightarrow> ((k, x) # es, h2))"

text \<open>The value at an address, to a depth.\<close>

fun read_val :: "nat \<Rightarrow> heap \<Rightarrow> hval \<Rightarrow> json" where
  "read_val n h (HVal v) = v"
| "read_val 0 h (HObj a) = JDict []"
| "read_val (Suc n) h (HObj a) = JDict (map (\<lambda>(k, v). (k, read_val n h v)) (h ! a))"

definition read_obj :: "heap \<Rightarrow> nat \<Rightarrow> json" where
  "read_obj h a = read_val (length h) h (HObj a)"

text \<open>\<open>target[key] = value\<close>.\<close>

definition set_item :: "nat \<Rightarrow> string \<Rightarrow> hval \<Rightarrow> heap \<Rightarrow> heap" where
  "set_item t k v h = h[t := dset k v (h ! t)]"

fun merge_stream_value :: "nat \<Rightarrow> nat \<Rightarrow> nat \<Rightarrow> heap \<Rightarrow> heap" where
  "merge_stream_value 0 t d h = h"
| "merge_stream_value (Suc n) t d h =
    fold (\<lambda>(k, v) h. case (dget (h ! t) k, v) of
        (Some (HObj c), HObj a) \<Rightarrow> merge_stream_value n c a h
      | (Some (HVal (JStr s)), HVal (JStr s')) \<Rightarrow> set_item t k (HVal (JStr (s @ s'))) h
      | (Some (HVal (JList xs)), HVal (JList ys)) \<Rightarrow> set_item t k (HVal (JList (xs @ ys))) h
      | _ \<Rightarrow> set_item t k v h) (h ! d) h"

section \<open>Step results\<close>

text \<open>What an iterator does when it is asked for the next chunk, and what a step function returns.\<close>

datatype stream_event = Item json | Raises exc

datatype step_value = Whole jdict | Stream "stream_event list" | Not_a_result

text \<open>The loop's variables: the heap, the chunks, the result object, and what \<open>on_delta\<close> was given.\<close>

record stream_state =
  ss_heap :: heap
  ss_chunks :: "nat list"
  ss_result :: nat
  ss_deltas :: "json list"

definition stream_start :: stream_state where
  "stream_start = \<lparr>ss_heap = [[]], ss_chunks = [], ss_result = 0, ss_deltas = []\<rparr>"

type_synonym delta_callback = "(json \<Rightarrow> exc option) option"

definition merge_chunk :: "nat \<Rightarrow> stream_state \<Rightarrow> unit res \<times> stream_state" where
  "merge_chunk a s =
    (let h = ss_heap s; complete = dget (h ! a) ''result''; delta = dget (h ! a) ''delta'' in
     if complete \<noteq> None \<and> complete \<noteq> Some (HVal JNull)
     then (case the complete of
         HObj c \<Rightarrow> (Inr (), s\<lparr>ss_heap := h @ [h ! c], ss_result := length h\<rparr>)
       | HVal v \<Rightarrow> (Inl (TypeError ''a stream chunk result must be a dict''), s))
     else if delta \<noteq> None \<and> delta \<noteq> Some (HVal JNull)
     then (case the delta of
         HObj d \<Rightarrow> (Inr (), s\<lparr>ss_heap := merge_stream_value (length h) (ss_result s) d h\<rparr>)
       | HVal v \<Rightarrow> (Inl (TypeError ''a stream chunk delta must be a dict''), s))
     else (Inr (), s\<lparr>ss_heap := merge_stream_value (length h) (ss_result s) a h\<rparr>))"

definition take_chunk :: "delta_callback \<Rightarrow> json \<Rightarrow> stream_state \<Rightarrow> unit res \<times> stream_state" where
  "take_chunk on_delta item s =
    (if \<not> is_dict item then (Inl (TypeError ''stream chunks must be dicts''), s)
     else case alloc item (ss_heap s) of
       (HObj a, h) \<Rightarrow>
         (let s1 = s\<lparr>ss_heap := h, ss_chunks := ss_chunks s @ [a]\<rparr> in
          case on_delta of
            None \<Rightarrow> merge_chunk a s1
          | Some f \<Rightarrow>
              (let s2 = s1\<lparr>ss_deltas := ss_deltas s @ [item]\<rparr> in
               case f item of Some e \<Rightarrow> (Inl e, s2) | None \<Rightarrow> merge_chunk a s2))
     | (HVal v, h) \<Rightarrow> (Inr (), s))"

fun take_events :: "delta_callback \<Rightarrow> bool \<Rightarrow> stream_event list \<Rightarrow> stream_state \<Rightarrow> unit res \<times> stream_state" where
  "take_events on_delta received [] s = (Inr (), s)"
| "take_events on_delta received (Raises e # es) s = (Inl (if \<not> received \<or> is_unknown e then e else mark_unknown e), s)"
| "take_events on_delta received (Item item # es) s = (case take_chunk on_delta item s of
      (Inl e, s') \<Rightarrow> (Inl (if is_unknown e then e else mark_unknown e), s')
    | (Inr _, s') \<Rightarrow> take_events on_delta True es s')"

definition stream_result :: "bool \<Rightarrow> stream_state \<Rightarrow> jdict" where
  "stream_result keep_chunks s =
    (let res = dict_items (read_obj (ss_heap s) (ss_result s)) in
     if keep_chunks then dset ''chunks'' (JList (map (read_obj (ss_heap s)) (ss_chunks s))) res else res)"

text \<open>The result, and the chunks \<open>on_delta\<close> was given.\<close>

definition consume_step_result :: "delta_callback \<Rightarrow> bool \<Rightarrow> step_value \<Rightarrow> jdict res \<times> json list" where
  "consume_step_result on_delta keep_chunks v = (case v of
      Whole d \<Rightarrow> (Inr d, [])
    | Not_a_result \<Rightarrow> (Inl (TypeError ''step function must return a dict or an iterator of chunk dicts''), [])
    | Stream es \<Rightarrow> (case take_events on_delta False es stream_start of
          (Inl e, s) \<Rightarrow> (Inl e, ss_deltas s)
        | (Inr _, s) \<Rightarrow> (Inr (stream_result keep_chunks s), ss_deltas s)))"

text \<open>Handing the kept chunks of a recorded node to \<open>on_delta\<close> again.\<close>

fun emit_chunks :: "(json \<Rightarrow> exc option) \<Rightarrow> json list \<Rightarrow> unit res \<times> json list" where
  "emit_chunks f [] = (Inr (), [])"
| "emit_chunks f (c # cs) =
    (if is_dict c then (case f c of
        Some e \<Rightarrow> (Inl e, [c])
      | None \<Rightarrow> (case emit_chunks f cs of (r, given) \<Rightarrow> (r, c # given)))
     else emit_chunks f cs)"

definition reemit_chunks :: "delta_callback \<Rightarrow> node \<Rightarrow> unit res \<times> json list" where
  "reemit_chunks on_delta n = (case on_delta of
      None \<Rightarrow> (Inr (), [])
    | Some f \<Rightarrow> (case result n of
        JDict d \<Rightarrow> (case dget_or d ''chunks'' JNull of JList cs \<Rightarrow> emit_chunks f cs | _ \<Rightarrow> (Inr (), []))
      | _ \<Rightarrow> (Inr (), [])))"


definition fragment :: "string \<Rightarrow> json" where
  "fragment s = JDict [(''delta'', JDict [(''message'', JDict [(''text'', JStr s)])])]"

lemma kept_chunk_changed:
  "consume_step_result (Some (\<lambda>_. None)) True (Stream [Item (fragment ''a''), Item (fragment ''b'')]) =
    (Inr [(''message'', JDict [(''text'', JStr ''ab'')]), (''chunks'', JList [fragment ''ab'', fragment ''b''])],
     [fragment ''a'', fragment ''b''])"
  by code_simp

end
