(* ===== verification/Run_State.thy ===== *)
theory Run_State
  imports Actions Registry Streams
begin

text \<open>
  The state of a run and what every step of it uses (\<open>runtime.py\<close>): the records, the cursor and its
  checks, storing a node, refusals, the precheck that reserves budget before a call and the settlement
  after it. Inputs of the surroundings (the clock, a fresh UUID, the reservation heartbeat, the measurements
  of the caller's meters) come with each operation as a \<open>moment\<close>.
\<close>

section \<open>Records\<close>

record budget_scope =
  sc_budget :: budget
  sc_anchor :: string
  sc_exhausted :: "string list"

record pending_tool_call =
  pc_parent :: string
  pc_payload :: jdict
  pc_args :: jdict
  pc_spec :: action_spec
  pc_attempt :: int

record reservation =
  re_id :: "string option"
  re_estimates :: decimals

datatype decision = ALLOW | DENY | CONFIRM

record policy_context =
  cx_spec :: action_spec
  cx_args :: jdict
  cx_cursor_id :: string
  cx_run_label :: string
  cx_counters :: decimals
  cx_identity :: "agent_identity option"
  cx_registry_digest :: "string option"

text \<open>A policy answers with a decision, or (\<open>None\<close>) with a value outside the enum.\<close>

record 'st run_policy =
  po_durable :: bool
  po_decide :: "'st \<Rightarrow> policy_context \<Rightarrow> decision option res"

type_synonym step_fn = "jdict \<Rightarrow> step_value res"

text \<open>What a registered handler returns: a step value, or something to await.\<close>

datatype handler_value = Returned step_value | Awaitable

text \<open>\<open>TransactionalArbiter\<close>.\<close>

record 'st arbiter_ops =
  ar_reserve :: "string \<Rightarrow> budget_reservation list \<Rightarrow> window_reservation list \<Rightarrow> decimal \<Rightarrow> 'st \<Rightarrow> reservation_check res \<times> 'st"
  ar_settle :: "string \<Rightarrow> decimals \<Rightarrow> 'st \<Rightarrow> unit res \<times> 'st"
  ar_release :: "string \<Rightarrow> 'st \<Rightarrow> unit res \<times> 'st"

text \<open>
  A runtime: the operations of its store, the arbiter if the store is one (and whether it renews leases), the
  handlers of the registered actions, and the hooks a meter of the caller may have: the refusal its precheck
  raises, the reason for falling back to an estimate, and the description of a wrapped meter.
\<close>

record 'st runtime =
  rt_ops :: "'st store_ops"
  rt_arbiter :: "'st arbiter_ops option"
  rt_renewable :: bool
  rt_registry :: "registry option"
  rt_handlers :: "(string \<times> (jdict \<Rightarrow> handler_value res)) list"
  rt_policies :: "'st run_policy list"
  rt_dry_run :: bool
  rt_mode :: replay_mode
  rt_refuse_duplicates :: bool
  rt_lease_seconds :: decimal
  rt_shared :: "shared_budget list"
  rt_refusal :: "string \<Rightarrow> string \<Rightarrow> jdict \<Rightarrow> precheck_refusal option"
  rt_fallback :: "string \<Rightarrow> string \<Rightarrow> jdict \<Rightarrow> json \<Rightarrow> jdict \<Rightarrow> string option"
  rt_describe :: "meter \<Rightarrow> json res"

text \<open>A run, with the store and the meters of its runtime and what \<open>on_delta\<close> was given.\<close>

record 'st run =
  rn_store :: 'st
  rn_meters :: "meter list"
  rn_root :: string
  rn_cursor :: string
  rn_label :: string
  rn_scopes :: "budget_scope list"
  rn_avoided :: decimals
  rn_pending :: "(string \<times> pending_tool_call) list"
  rn_identity :: "agent_identity option"
  rn_anchor :: "string option"
  rn_validator :: "'st \<Rightarrow> unit res"
  rn_ceiling :: "string list option"
  rn_deltas :: "json list"

record moment =
  mo_now :: string
  mo_uuid :: string
  mo_duration :: decimal
  mo_lease :: "string option \<times> exc option"
  mo_start :: "exc option"
  mo_stop :: "exc option"
  mo_readings :: "jdict res list"

text \<open>The checks of \<open>Runtime.__init__\<close>, and its default meters.\<close>

definition default_meters :: "meter list" where
  "default_meters = [Step_meter, Depth_meter, Wall_clock_meter, default_token_meter]"

definition check_runtime :: "'st runtime \<Rightarrow> unit res" where
  "check_runtime rt =
    bindR (ensure (dec_less 0 (rt_lease_seconds rt)) (ValueError ''reservation_lease_seconds must be positive'')) (\<lambda>_.
    ensure (distinct (map sb_name (rt_shared rt))) (ValueError ''shared budget names must be unique''))"

section \<open>Nodes and cursors\<close>

definition store_put :: "'st runtime \<Rightarrow> node \<Rightarrow> ('st run, unit) act" where
  "store_put rt n s = (case s_put (rt_ops rt) n (rn_store s) of
      Inl e \<Rightarrow> Some (Inl e, s) | Inr st \<Rightarrow> Some (Inr (), s\<lparr>rn_store := st\<rparr>))"

definition store_get :: "'st runtime \<Rightarrow> string \<Rightarrow> ('st run, node) act" where
  "store_get rt i s = Some (s_get (rt_ops rt) (rn_store s) i, s)"

definition store_update_meta :: "'st runtime \<Rightarrow> string \<Rightarrow> jdict \<Rightarrow> ('st run, unit) act" where
  "store_update_meta rt i patch s = (case s_update_meta (rt_ops rt) i patch (rn_store s) of
      Inl e \<Rightarrow> Some (Inl e, s) | Inr st \<Rightarrow> Some (Inr (), s\<lparr>rn_store := st\<rparr>))"

definition set_cursor :: "string \<Rightarrow> ('st run, unit) act" where
  "set_cursor i = modA (\<lambda>s. s\<lparr>rn_cursor := i\<rparr>)"

definition put_node :: "'st runtime \<Rightarrow> node \<Rightarrow> ('st run, node) act" where
  "put_node rt n =
    (if rt_mode rt = REPLAY then (\<lambda>s. liftO (replay_node_or_missing (rt_ops rt) (rn_store s) n) s)
     else bindA (store_put rt n) (\<lambda>_. store_get rt (nid n)))"

definition put_at_cursor :: "'st runtime \<Rightarrow> node \<Rightarrow> ('st run, node) act" where
  "put_at_cursor rt n = bindA (put_node rt n) (\<lambda>m. bindA (set_cursor (nid m)) (\<lambda>_. ret m))"

definition node_at_cursor :: "node_kind \<Rightarrow> jdict \<Rightarrow> int \<Rightarrow> json \<Rightarrow> jdict \<Rightarrow> ('st run, node) act" where
  "node_at_cursor k pl att res md s = Some (make_node (kind_value k) (Some (rn_cursor s)) pl att res md, s)"

partial_function (option) depth_loop :: "(string \<Rightarrow> node res) \<Rightarrow> string option \<Rightarrow> nat \<Rightarrow> nat res option" where
  "depth_loop get current d = (case current of
      None \<Rightarrow> Some (Inr d)
    | Some i \<Rightarrow> (case get i of Inl e \<Rightarrow> Some (Inl e) | Inr n \<Rightarrow> depth_loop get (parent n) (Suc d)))"

definition node_depth :: "(string \<Rightarrow> node res) \<Rightarrow> string \<Rightarrow> nat res option" where
  "node_depth get i = (case get i of Inl e \<Rightarrow> Some (Inl e) | Inr n \<Rightarrow> depth_loop get (parent n) 0)"

text \<open>The delegation recorded in a node, if it has one.\<close>

definition team_event :: "node \<Rightarrow> json option" where
  "team_event n = (case dget_or (payload n) ''_pollard'' JNull of JDict w \<Rightarrow> dget w ''team_agent'' | _ \<Rightarrow> None)"

partial_function (option) agent_cursor_loop ::
  "(string \<Rightarrow> node res) \<Rightarrow> string \<Rightarrow> json \<Rightarrow> string option \<Rightarrow> string list \<Rightarrow> unit res option" where
  "agent_cursor_loop get anchor expected current seen = (case current of
      None \<Rightarrow> Some (Inl (IntegrityError ''agent cursor is outside its delegated subtree''))
    | Some i \<Rightarrow>
        if i \<in> set seen then Some (Inl (IntegrityError ''agent cursor is outside its delegated subtree''))
        else (case get i of
            Inl e \<Rightarrow> Some (Inl e)
          | Inr n \<Rightarrow>
              if (case team_event n of None \<Rightarrow> False | Some event \<Rightarrow>
                    i \<noteq> anchor \<or> \<not> is_dict event \<or> \<not> py_eq (dget_or (dict_items event) ''identity'' JNull) expected)
              then Some (Inl (IntegrityError ''agent cursor crosses another delegation''))
              else if i = anchor then Some (Inr ())
              else agent_cursor_loop get anchor expected (parent n) (i # seen)))"

definition validate_agent_cursor :: "'st runtime \<Rightarrow> ('st run, unit) act" where
  "validate_agent_cursor rt =
    bindA (\<lambda>s. liftR (rn_validator s (rn_store s)) s) (\<lambda>_ s. case rn_anchor s of
      None \<Rightarrow> ret () s
    | Some anchor \<Rightarrow> liftO (agent_cursor_loop (s_get (rt_ops rt) (rn_store s)) anchor
        (case rn_identity s of None \<Rightarrow> JNull | Some a \<Rightarrow> JDict (identity_to_dict a)) (Some (rn_cursor s)) []) s)"

partial_function (option) ancestor_loop ::
  "(string \<Rightarrow> node res) \<Rightarrow> string option \<Rightarrow> string option \<Rightarrow> string \<Rightarrow> unit res option" where
  "ancestor_loop get anchor current target = (case current of
      None \<Rightarrow> Some (Inl (ValueError (target @ '' is not an ancestor of the cursor'')))
    | Some i \<Rightarrow>
        if i = target then Some (Inr ())
        else if Some i = anchor then Some (Inl (ValueError (target @ '' is not an ancestor of the cursor'')))
        else (case get i of Inl e \<Rightarrow> Some (Inl e) | Inr n \<Rightarrow> ancestor_loop get anchor (parent n) target))"

definition ensure_ancestor :: "'st runtime \<Rightarrow> string \<Rightarrow> ('st run, unit) act" where
  "ensure_ancestor rt target =
    bindA (validate_agent_cursor rt) (\<lambda>_ s.
    liftO (ancestor_loop (s_get (rt_ops rt) (rn_store s)) (rn_anchor s) (Some (rn_cursor s)) target) s)"

section \<open>Refusals\<close>

definition refuse_node :: "'st runtime \<Rightarrow> jdict \<Rightarrow> jdict \<Rightarrow> (string \<Rightarrow> exc) \<Rightarrow> ('st run, 'a) act" where
  "refuse_node rt pl md e =
    bindA (node_at_cursor REFUSAL pl 0 JNull md) (\<lambda>n.
    bindA (put_at_cursor rt n) (\<lambda>m. failA (e (nid m))))"

definition refuse_policy :: "'st runtime \<Rightarrow> moment \<Rightarrow> string \<Rightarrow> jdict \<Rightarrow> ('st run, 'a) act" where
  "refuse_policy rt mo detail blocked =
    bindA (liftR (digest_payload (JDict blocked))) (\<lambda>d.
    refuse_node rt
      ([(''reason'', JStr ''policy''), (''detail'', JStr detail), (''blocked_kind'', JStr ''tool_call''),
        (''blocked_payload_digest'', JStr d)] @
       (case rt_registry rt of None \<Rightarrow> [] | Some r \<Rightarrow> [(''registry_digest'', JStr (rg_digest r))]))
      [(''created_at'', JStr (mo_now mo))] (PolicyViolation detail))"

definition opt_entry :: "string \<Rightarrow> string option \<Rightarrow> jdict" where
  "opt_entry k v = (case v of None \<Rightarrow> [] | Some s \<Rightarrow> [(k, JStr s)])"

definition window_seconds_json :: "decimal \<Rightarrow> json" where
  "window_seconds_json w = (if dec_integral w then JInt (dec_to_int w) else JStr (float_text w))"

definition refuse_budget :: "'st runtime \<Rightarrow> moment \<Rightarrow> budget_check \<Rightarrow> string \<Rightarrow> jdict \<Rightarrow> bool \<Rightarrow> string \<Rightarrow> decimal option \<Rightarrow> ('st run, 'a) act" where
  "refuse_budget rt mo check kd blocked estimated reason window_seconds =
    (let meter = (case bc_meter check of None \<Rightarrow> ''unknown'' | Some m \<Rightarrow> if m = [] then ''unknown'' else m) in
     bindA (liftR (digest_payload (JDict blocked))) (\<lambda>d.
     refuse_node rt
       ([(''reason'', JStr reason), (''meter'', JStr meter), (''blocked_kind'', JStr kd), (''blocked_payload_digest'', JStr d),
         (''requested'', JStr (dec_str (bc_requested check))), (''remaining'', JStr (dec_str (bc_remaining check)))] @
        (if estimated then [(''estimated'', JStr ''true'')] else []) @
        (case window_seconds of None \<Rightarrow> [] | Some w \<Rightarrow> [(''window_seconds'', window_seconds_json w)]))
       [(''created_at'', JStr (mo_now mo))] (BudgetExceeded (''budget exceeded for '' @ meter))))"

definition refuse_meter :: "'st runtime \<Rightarrow> moment \<Rightarrow> string \<Rightarrow> precheck_refusal \<Rightarrow> string \<Rightarrow> jdict \<Rightarrow> ('st run, 'a) act" where
  "refuse_meter rt mo name refusal kd blocked =
    (let meter = (if name = [] then ''unknown'' else name) in
     bindA (liftR (validated_audit_meta refusal)) (\<lambda>audit.
     bindA (liftR (digest_payload (JDict blocked))) (\<lambda>d.
     refuse_node rt
       ([(''reason'', JStr (pr_reason refusal)), (''meter'', JStr meter), (''blocked_kind'', JStr kd),
         (''blocked_payload_digest'', JStr d)] @
        opt_entry ''requested'' (pr_requested refusal) @ opt_entry ''remaining'' (pr_remaining refusal) @
        [(''detail'', JStr (pr_detail refusal))])
       (dmerge [(''created_at'', JStr (mo_now mo))] (case audit of None \<Rightarrow> [] | Some a \<Rightarrow> a))
       (BudgetExceeded (pr_detail refusal)))))"

section \<open>Shared configuration\<close>

definition bind_window :: "'st runtime \<Rightarrow> meter \<Rightarrow> 'st \<Rightarrow> (node res \<times> 'st) option" where
  "bind_window rt m st = (case m of
      Window_meter name l secs (Some sc) wrapped \<Rightarrow>
        (case bindR (rt_describe rt wrapped) (\<lambda>desc.
            make_node (kind_value ROOT) None
              [(''pollard_shared_window'', JInt 1), (''name'', JStr name), (''scope'', JStr sc)] 0
              (JDict [(''limit'', JStr (limit_text l)), (''window_seconds'', JStr (float_text secs)), (''meter'', desc)]) []) of
          Inl e \<Rightarrow> Some (Inl e, st)
        | Inr n \<Rightarrow> bind_configuration (rt_ops rt) (rt_mode rt) n st)
    | _ \<Rightarrow> Some (Inl (ValueError ''window has no named scope''), st))"

text \<open>A store operation that leaves a store, whatever its outcome.\<close>

definition on_store :: "('st \<Rightarrow> ('a res \<times> 'st) option) \<Rightarrow> ('st run, 'a) act" where
  "on_store f s = map_option (\<lambda>(r, st). (r, s\<lparr>rn_store := st\<rparr>)) (f (rn_store s))"

definition scoped_windows :: "meter list \<Rightarrow> meter list" where
  "scoped_windows ms = filter (\<lambda>m. case m of Window_meter n l secs sc w \<Rightarrow> sc \<noteq> None | _ \<Rightarrow> False) ms"

definition validate_shared :: "'st runtime \<Rightarrow> ('st run, unit) act" where
  "validate_shared rt s =
    (let windows = scoped_windows (rn_meters s) in
     if rt_shared rt = [] \<and> windows = [] then ret () s
     else if rt_mode rt \<noteq> REPLAY \<and> rt_arbiter rt = None
     then failA (TypeError ''named budgets and windows require a transactional store'') s
     else bindA (forA (\<lambda>sb. bindA (on_store (bind_shared_budget (rt_ops rt) (rt_mode rt) sb)) (\<lambda>_. ret ())) (rt_shared rt)) (\<lambda>_.
       forA (\<lambda>w. bindA (on_store (bind_window rt w)) (\<lambda>_. ret ())) windows) s)"

end
