(* ===== verification/Precheck.thy ===== *)
theory Precheck
  imports Run_State
begin

text \<open>
  Budget before and after a call (\<open>_estimates\<close>, \<open>_precheck\<close>, \<open>_charges\<close>,
  \<open>_settle_scopes\<close> and the reservation functions of \<open>runtime.py\<close>): what a step is estimated to
  cost, the check of every scope, the reservation with the arbiter, the charges measured after the call and
  their settlement.
\<close>

section \<open>Before a call\<close>

text \<open>The estimates and the meters whose estimate is approximate.\<close>

definition estimate_step ::
  "'st runtime \<Rightarrow> moment \<Rightarrow> string \<Rightarrow> jdict \<Rightarrow> decimals \<times> string list \<Rightarrow> meter \<Rightarrow> ('st run, decimals \<times> string list) act" where
  "estimate_step rt mo kd pl acc m = (case rt_refusal rt (meter_name m) kd pl of
      Some refusal \<Rightarrow> refuse_meter rt mo (meter_name m) refusal kd pl
    | None \<Rightarrow>
        bindA (liftR (precheck_estimate m kd pl)) (\<lambda>e. case e of
            None \<Rightarrow> ret acc
          | Some a \<Rightarrow>
              bindA (liftR (charge_to_decimal a)) (\<lambda>d.
              ret (dset (meter_name m) d (fst acc),
                   if precheck_is_estimate m then meter_name m # snd acc else snd acc))))"

fun estimate_meters ::
  "'st runtime \<Rightarrow> moment \<Rightarrow> string \<Rightarrow> jdict \<Rightarrow> decimals \<times> string list \<Rightarrow> meter list \<Rightarrow> ('st run, decimals \<times> string list) act" where
  "estimate_meters rt mo kd pl acc [] = ret acc"
| "estimate_meters rt mo kd pl acc (m # ms) =
    bindA (estimate_step rt mo kd pl acc m) (\<lambda>acc'. estimate_meters rt mo kd pl acc' ms)"

definition estimates :: "'st runtime \<Rightarrow> moment \<Rightarrow> string \<Rightarrow> jdict \<Rightarrow> ('st run, decimals \<times> string list) act" where
  "estimates rt mo kd pl =
    bindA (getA rn_meters) (\<lambda>ms.
    bindA (estimate_meters rt mo kd pl ([], []) ms) (\<lambda>(est, approximate).
    bindA (\<lambda>s. liftO (node_depth (s_get (rt_ops rt) (rn_store s)) (rn_cursor s)) s) (\<lambda>d.
    ret (dset ''depth'' (dec_of_int (int d + 1)) est, approximate))))"

definition scope_spent :: "'st runtime \<Rightarrow> budget_scope \<Rightarrow> ('st run, decimals) act" where
  "scope_spent rt sc s = liftO (spent_decimal (rt_ops rt) (rn_store s) (sc_anchor sc)) s"

definition is_approximate :: "string option \<Rightarrow> string list \<Rightarrow> bool" where
  "is_approximate m approximate = (case m of None \<Rightarrow> False | Some x \<Rightarrow> x \<in> set approximate)"

definition check_scope ::
  "'st runtime \<Rightarrow> moment \<Rightarrow> string \<Rightarrow> jdict \<Rightarrow> decimals \<Rightarrow> string list \<Rightarrow> budget_scope \<Rightarrow> ('st run, unit) act" where
  "check_scope rt mo kd pl est approximate sc =
    bindA (scope_spent rt sc) (\<lambda>spent.
    bindA (liftR (check_budget (Some (sc_budget sc)) spent est (sc_exhausted sc))) (\<lambda>check.
    if bc_ok check then ret ()
    else refuse_budget rt mo check kd pl (is_approximate (bc_meter check) approximate) ''budget'' None))"

definition budget_request :: "'st runtime \<Rightarrow> decimals \<Rightarrow> budget_scope \<Rightarrow> ('st run, budget_reservation) act" where
  "budget_request rt est sc =
    bindA (liftR (budget_limits (sc_budget sc))) (\<lambda>limits.
    bindA (scope_spent rt sc) (\<lambda>spent.
    ret \<lparr>br_scope_id = sc_anchor sc, br_limits = limits, br_baseline = spent, br_estimates = est\<rparr>))"

definition is_window :: "meter \<Rightarrow> bool" where
  "is_window m = (case m of Window_meter n l secs sc w \<Rightarrow> True | _ \<Rightarrow> False)"

definition window_request :: "string \<Rightarrow> string \<Rightarrow> jdict \<Rightarrow> meter \<Rightarrow> ('st run, window_reservation) act" where
  "window_request root_id kd pl m =
    bindA (liftR (precheck_estimate m kd pl)) (\<lambda>e.
    bindA (liftR (case e of None \<Rightarrow> Inr 0 | Some a \<Rightarrow> charge_to_decimal a)) (\<lambda>amount.
    ret \<lparr>wr_ledger_key = ledger_key m root_id, wr_meter = meter_name m, wr_limit = wm_limit m, wr_amount = amount,
         wr_seconds = wm_seconds m\<rparr>))"

definition refuse_reservation ::
  "'st runtime \<Rightarrow> moment \<Rightarrow> string \<Rightarrow> jdict \<Rightarrow> string list \<Rightarrow> reservation_check \<Rightarrow> ('st run, 'a) act" where
  "refuse_reservation rt mo kd pl approximate c =
    refuse_budget rt mo \<lparr>bc_ok = False, bc_meter = rc_meter c, bc_requested = rc_requested c, bc_remaining = rc_remaining c\<rparr>
      kd pl (is_approximate (rc_meter c) approximate) (rc_reason c) (rc_window_seconds c)"

text \<open>The reservation; \<open>on_store\<close> keeps what the arbiter wrote whatever it answers.\<close>

definition precheck :: "'st runtime \<Rightarrow> moment \<Rightarrow> string \<Rightarrow> jdict \<Rightarrow> ('st run, reservation option) act" where
  "precheck rt mo kd pl =
    bindA (validate_agent_cursor rt) (\<lambda>_.
    bindA (validate_shared rt) (\<lambda>_.
    bindA (estimates rt mo kd pl) (\<lambda>(est, approximate).
    bindA (getA rn_scopes) (\<lambda>scopes.
    bindA (forA (check_scope rt mo kd pl est approximate) scopes) (\<lambda>_.
    if \<not> is_call kd then ret None
    else case rt_arbiter rt of
      None \<Rightarrow> ret (Some \<lparr>re_id = None, re_estimates = est\<rparr>)
    | Some ar \<Rightarrow>
        bindA (mapA (budget_request rt est) scopes) (\<lambda>budgets.
        bindA (\<lambda>s. mapA (window_request (rn_root s) kd pl) (filter is_window (rn_meters s)) s) (\<lambda>windows.
        if budgets = [] \<and> windows = [] then ret (Some \<lparr>re_id = None, re_estimates = est\<rparr>)
        else bindA (on_store (\<lambda>st. Some (ar_reserve ar (mo_uuid mo) budgets windows (rt_lease_seconds rt) st))) (\<lambda>c.
          if rc_ok c then ret (Some \<lparr>re_id = Some (mo_uuid mo), re_estimates = est\<rparr>)
          else refuse_reservation rt mo kd pl approximate c))))))))"

section \<open>After a call\<close>

definition reservation_id :: "reservation option \<Rightarrow> string option" where
  "reservation_id resv = (case resv of None \<Rightarrow> None | Some r \<Rightarrow> re_id r)"

definition settle_reservation :: "'st runtime \<Rightarrow> reservation option \<Rightarrow> jdict \<Rightarrow> ('st run, unit) act" where
  "settle_reservation rt resv charges = (case (reservation_id resv, rt_arbiter rt) of
      (Some i, Some ar) \<Rightarrow>
        bindA (liftR (mapR (\<lambda>(k, v). bindR (charge_to_decimal (json_amount v)) (\<lambda>d. Inr (k, d))) charges)) (\<lambda>amounts.
        on_store (\<lambda>st. Some (ar_settle ar i amounts st)))
    | _ \<Rightarrow> ret ())"

definition release_reservation :: "'st runtime \<Rightarrow> reservation option \<Rightarrow> ('st run, unit) act" where
  "release_reservation rt resv = (case (reservation_id resv, rt_arbiter rt) of
      (Some i, Some ar) \<Rightarrow> on_store (\<lambda>st. Some (ar_release ar i st))
    | _ \<Rightarrow> ret ())"

definition settle_scope :: "'st runtime \<Rightarrow> budget_scope \<Rightarrow> ('st run, budget_scope) act" where
  "settle_scope rt sc =
    bindA (scope_spent rt sc) (\<lambda>spent.
    bindA (liftR (exhausted_after_settle (Some (sc_budget sc)) spent)) (\<lambda>ex.
    ret (sc\<lparr>sc_exhausted := remdups (sc_exhausted sc @ ex)\<rparr>)))"

text \<open>The scopes are updated one after the other: an exception leaves the rest as they were.\<close>

fun settle_scopes_from :: "'st runtime \<Rightarrow> nat \<Rightarrow> budget_scope list \<Rightarrow> ('st run, unit) act" where
  "settle_scopes_from rt i [] = ret ()"
| "settle_scopes_from rt i (sc # scs) =
    bindA (settle_scope rt sc) (\<lambda>sc'.
    bindA (modA (\<lambda>s. s\<lparr>rn_scopes := (rn_scopes s)[i := sc']\<rparr>)) (\<lambda>_.
    settle_scopes_from rt (Suc i) scs))"

definition settle_scopes :: "'st runtime \<Rightarrow> ('st run, unit) act" where
  "settle_scopes rt = bindA (getA rn_scopes) (settle_scopes_from rt 0)"

definition has_compatible_usage :: "jdict \<Rightarrow> bool" where
  "has_compatible_usage res = (case dget_or res ''usage'' JNull of
      JDict u \<Rightarrow> token_counts (dget_or u ''input_tokens'' JNull) (dget_or u ''output_tokens'' JNull) \<noteq> None
    | _ \<Rightarrow> False)"

text \<open>Why the estimate stands in for a charge of zero, if it does.\<close>

definition fallback_reason ::
  "'st runtime \<Rightarrow> meter \<Rightarrow> string \<Rightarrow> jdict \<Rightarrow> jdict \<Rightarrow> jdict \<Rightarrow> decimal \<Rightarrow> decimal option \<Rightarrow> string option" where
  "fallback_reason rt m kd pl res md amount estimate =
    (if dec_eq0 amount \<and> estimate \<noteq> None \<and> precheck_is_estimate m then
       (if \<not> has_compatible_usage res then Some ''missing_or_invalid_provider_usage''
        else (case rt_fallback rt (meter_name m) kd pl (JDict res) md of
            Some r \<Rightarrow> if r = [] then None else Some r | None \<Rightarrow> None))
     else None)"

text \<open>One meter's entry in the charges and the fallbacks.\<close>

definition charge_entry ::
  "'st runtime \<Rightarrow> string \<Rightarrow> jdict \<Rightarrow> jdict \<Rightarrow> jdict \<Rightarrow> decimals \<Rightarrow> meter \<Rightarrow> decimal \<Rightarrow> jdict \<times> jdict \<Rightarrow> jdict \<times> jdict" where
  "charge_entry rt kd pl res md est m amount acc =
    (let name = meter_name m; estimate = dget est name;
         reason = fallback_reason rt m kd pl res md amount estimate;
         final = (if reason = None then amount else the estimate)
     in (if dec_eq0 final then fst acc else dset name (charge_to_json final) (fst acc),
         case reason of None \<Rightarrow> snd acc
         | Some r \<Rightarrow> dset name (JDict [(''reason'', JStr r), (''source'', JStr ''precheck_estimate'')]) (snd acc)))"

fun charge_meters ::
  "'st runtime \<Rightarrow> string \<Rightarrow> jdict \<Rightarrow> jdict \<Rightarrow> jdict \<Rightarrow> decimals \<Rightarrow> nat \<Rightarrow> meter list \<Rightarrow> jdict \<times> jdict \<Rightarrow> ('st run, jdict \<times> jdict) act" where
  "charge_meters rt kd pl res md est i [] acc = ret acc"
| "charge_meters rt kd pl res md est i (m # ms) acc =
    (case meter_charge m kd pl (JDict res) md of (r, m') \<Rightarrow>
      bindA (modA (\<lambda>s. s\<lparr>rn_meters := (rn_meters s)[i := m']\<rparr>)) (\<lambda>_.
      bindA (liftR (bindR r charge_to_decimal)) (\<lambda>amount.
      charge_meters rt kd pl res md est (Suc i) ms (charge_entry rt kd pl res md est m' amount acc))))"

text \<open>The charges, and the metadata with the fallbacks.\<close>

definition call_charges ::
  "'st runtime \<Rightarrow> string \<Rightarrow> jdict \<Rightarrow> jdict \<Rightarrow> jdict \<Rightarrow> reservation option \<Rightarrow> ('st run, jdict \<times> jdict) act" where
  "call_charges rt kd pl res md resv =
    bindA (getA rn_meters) (\<lambda>ms.
    bindA (charge_meters rt kd pl res md (case resv of None \<Rightarrow> [] | Some r \<Rightarrow> re_estimates r) 0 ms ([], [])) (\<lambda>(charges, fallbacks).
    ret (charges, if fallbacks = [] then md else dset ''accounting_fallbacks'' (JDict fallbacks) md)))"

definition estimated_charges :: "reservation option \<Rightarrow> jdict" where
  "estimated_charges resv = (case resv of
      None \<Rightarrow> []
    | Some r \<Rightarrow> map (\<lambda>(k, d). (k, charge_to_json d))
        (filter (\<lambda>(k, d). k \<noteq> ''depth'' \<and> \<not> dec_eq0 d) (sort_key fst (re_estimates r))))"

end
