(* ===== verification/Runtime.thy ===== *)
theory Runtime
  imports Precheck
begin

text \<open>
  The synchronous runtime (\<open>runtime.py\<close>): opening and resuming a run, recording calls, tools behind a
  registry and policies, notes, branches, rollback, and the live revalidation of a recorded call. Each method
  of \<open>Run\<close> is an action on the state of the run.
\<close>

section \<open>Recorded calls\<close>

definition snapshot_payload :: "jdict \<Rightarrow> jdict res" where
  "snapshot_payload pl =
    bindR (canonical_bytes (JDict pl)) (\<lambda>b.
    bindR (json_loads_bytes b) (\<lambda>v.
    if is_dict v then Inr (dict_items v) else Inl (TypeError ''identity payload must be an object'')))"

definition add_run_avoided :: "jdict \<Rightarrow> ('st run, unit) act" where
  "add_run_avoided charges =
    forA (\<lambda>(name, amount).
      bindA (\<lambda>s. liftR (charge_to_decimal (A_float (dget_or (rn_avoided s) name (Dec 0 0)))) s) (\<lambda>a.
      bindA (liftR (charge_to_decimal (json_amount amount))) (\<lambda>b.
      modA (\<lambda>s. s\<lparr>rn_avoided := dset name (py_float (a + b)) (rn_avoided s)\<rparr>)))) charges"

definition deliver :: "unit res \<times> json list \<Rightarrow> ('st run, unit) act" where
  "deliver p = bindA (modA (\<lambda>s. s\<lparr>rn_deltas := rn_deltas s @ snd p\<rparr>)) (\<lambda>_. liftR (fst p))"

definition recorded_node :: "'st runtime \<Rightarrow> node_kind \<Rightarrow> jdict \<Rightarrow> int \<Rightarrow> delta_callback \<Rightarrow> ('st run, node option) act" where
  "recorded_node rt k pl att on_delta =
    bindA (validate_agent_cursor rt) (\<lambda>_.
    bindA (\<lambda>s. liftO (recorded_node_or_missing (rt_mode rt) (rt_ops rt) (rn_store s) k (rn_cursor s) pl att
        (rt_refuse_duplicates rt)) s) (\<lambda>found. case found of
      None \<Rightarrow> ret None
    | Some n \<Rightarrow>
        bindA (\<lambda>s. liftR (avoided_charges (rn_meters s) (kind_value k) pl n) s) (\<lambda>(charges, ms).
        bindA (modA (\<lambda>s. s\<lparr>rn_meters := ms\<rparr>)) (\<lambda>_.
        bindA (add_run_avoided charges) (\<lambda>_.
        bindA (whenA (rt_mode rt = HYBRID) (on_store (\<lambda>st. case record_avoided_charges (rt_ops rt) (nid n) charges st of
            Inl e \<Rightarrow> Some (Inl e, st) | Inr st' \<Rightarrow> Some (Inr (), st')))) (\<lambda>_.
        bindA (set_cursor (nid n)) (\<lambda>_.
        bindA (deliver (reemit_chunks on_delta n)) (\<lambda>_.
        ret (Some n)))))))))"

section \<open>A call\<close>

definition lease_outcome :: "'st runtime \<Rightarrow> moment \<Rightarrow> reservation option \<Rightarrow> string option \<times> exc option" where
  "lease_outcome rt mo resv = (if reservation_id resv \<noteq> None \<and> rt_renewable rt then mo_lease mo else (None, None))"

definition lost_entry :: "string option \<Rightarrow> jdict" where
  "lost_entry lost = (case lost of None \<Rightarrow> []
    | Some d \<Rightarrow> [(''reservation_lease'', JDict [(''status'', JStr ''lost''), (''detail'', JStr d)])])"

text \<open>
  The note that stands for a call whose result was not recorded. What fails here is only attached to the
  exception of the call as its cause.
\<close>

record unknown_call =
  uc_event :: string
  uc_outcome :: string
  uc_phase :: string

definition call_outcome_unknown :: unknown_call where
  "call_outcome_unknown = \<lparr>uc_event = ''call_outcome_unknown'', uc_outcome = ''unknown'', uc_phase = ''post_dispatch''\<rparr>"

definition call_recording_failed :: unknown_call where
  "call_recording_failed = \<lparr>uc_event = ''call_recording_failed'', uc_outcome = ''completed_unrecorded'',
     uc_phase = ''post_result_processing''\<rparr>"

definition record_unknown_outcome ::
  "'st runtime \<Rightarrow> moment \<Rightarrow> node_kind \<Rightarrow> jdict \<Rightarrow> int \<Rightarrow> reservation option \<Rightarrow> exc \<Rightarrow> string option \<Rightarrow> unknown_call \<Rightarrow> ('st run, unit) act" where
  "record_unknown_outcome rt mo k pl att resv e lost u =
    (let charges = estimated_charges resv;
         md = [(''created_at'', JStr (mo_now mo)), (''duration_s'', JFloat (mo_duration mo)), (''charges'', JDict charges),
           (''failure'', JDict [(''outcome'', JStr (uc_outcome u)), (''phase'', JStr (uc_phase u)),
             (''error_type'', JStr (exc_name e))])] @ opt_entry ''reservation_id'' (reservation_id resv) @ lost_entry lost in
     bindA (tryA (settle_reservation rt resv charges)) (\<lambda>settled.
     bindA (liftR (digest_payload (JDict pl))) (\<lambda>d.
     bindA (node_at_cursor NOTE
         [(''event'', JStr (uc_event u)),
          (''event_id'', JStr (case reservation_id resv of None \<Rightarrow> mo_uuid mo | Some i \<Rightarrow> i)),
          (''blocked_kind'', JStr (kind_value k)), (''blocked_payload_digest'', JStr d)] att JNull
         (md @ (case settled of Inr _ \<Rightarrow> []
           | Inl e' \<Rightarrow> [(''settlement'', JDict [(''status'', JStr ''uncertain''), (''error_type'', JStr (exc_name e'))])]))) (\<lambda>n.
     bindA (tryA (bindA (put_at_cursor rt n) (\<lambda>_. settle_scopes rt))) (\<lambda>_. ret ())))))"

text \<open>Measurements start, the step function runs and its result is read, measurements stop.\<close>

definition dispatch :: "moment \<Rightarrow> step_fn \<Rightarrow> jdict \<Rightarrow> delta_callback \<Rightarrow> bool \<Rightarrow> ('st run, exc option \<times> jdict option) act" where
  "dispatch mo fn pl on_delta keep_chunks = (case mo_start mo of
      Some e \<Rightarrow> ret (Some e, None)
    | None \<Rightarrow> (case (case fn pl of Inl e \<Rightarrow> (Inl e, []) | Inr v \<Rightarrow> consume_step_result on_delta keep_chunks v) of
        (r, deltas) \<Rightarrow>
          bindA (modA (\<lambda>s. s\<lparr>rn_deltas := rn_deltas s @ deltas\<rparr>)) (\<lambda>_. ret (case r of
              Inl e \<Rightarrow> (Some e, None)
            | Inr res \<Rightarrow> (mo_stop mo, Some res)))))"

definition original_error :: "exc \<Rightarrow> exc" where
  "original_error e = (case e of PostDispatchOutcomeUnknown e' \<Rightarrow> e' | _ \<Rightarrow> e)"

definition call_failed ::
  "'st runtime \<Rightarrow> moment \<Rightarrow> node_kind \<Rightarrow> jdict \<Rightarrow> int \<Rightarrow> reservation option \<Rightarrow> exc \<Rightarrow> jdict option \<Rightarrow> ('st run, node) act" where
  "call_failed rt mo k pl att resv e res =
    (let lost = fst (lease_outcome rt mo resv) in
     if is_unknown e then
       bindA (record_unknown_outcome rt mo k pl att resv (original_error e) lost call_outcome_unknown) (\<lambda>_.
       failA (original_error e))
     else if res \<noteq> None then
       bindA (record_unknown_outcome rt mo k pl att resv e lost call_recording_failed) (\<lambda>_. failA e)
     else bindA (tryA (release_reservation rt resv)) (\<lambda>_. failA e))"

text \<open>The node of a completed call, and its charges.\<close>

definition completed_node ::
  "'st runtime \<Rightarrow> moment \<Rightarrow> node_kind \<Rightarrow> jdict \<Rightarrow> jdict \<Rightarrow> int \<Rightarrow> reservation option \<Rightarrow> jdict \<Rightarrow> string option \<Rightarrow> ('st run, jdict \<times> node) act" where
  "completed_node rt mo k pl meter_pl att resv res lost =
    bindA (liftR (foldR (\<lambda>md r. bindR r (\<lambda>d. Inr (dmerge md d)))
        [(''created_at'', JStr (mo_now mo)), (''duration_s'', JFloat (mo_duration mo))] (mo_readings mo))) (\<lambda>md.
    bindA (call_charges rt (kind_value k) meter_pl res md resv) (\<lambda>(charges, md).
    let md1 = dset ''charges'' (JDict charges) md;
        md2 = (case dget_or res ''usage'' JNull of JDict u \<Rightarrow> dset ''usage'' (JDict u) md1 | _ \<Rightarrow> md1);
        md3 = dmerge md2 (lost_entry lost)
    in bindA (node_at_cursor k pl att (JDict res) md3) (\<lambda>n. ret (charges, n))))"

definition call_completed ::
  "'st runtime \<Rightarrow> moment \<Rightarrow> node_kind \<Rightarrow> jdict \<Rightarrow> jdict \<Rightarrow> int \<Rightarrow> reservation option \<Rightarrow> jdict \<Rightarrow> ('st run, node) act" where
  "call_completed rt mo k pl meter_pl att resv res = (case lease_outcome rt mo resv of (lost, lease_error) \<Rightarrow>
    (case lease_error of
      Some e \<Rightarrow> bindA (record_unknown_outcome rt mo k pl att resv e lost call_recording_failed) (\<lambda>_. failA e)
    | None \<Rightarrow>
        bindA (tryA (completed_node rt mo k pl meter_pl att resv res lost)) (\<lambda>made. case made of
            Inl e \<Rightarrow> bindA (record_unknown_outcome rt mo k pl att resv e lost call_recording_failed) (\<lambda>_. failA e)
          | Inr (charges, n) \<Rightarrow>
              bindA (settle_reservation rt resv charges) (\<lambda>_.
              bindA (put_at_cursor rt n) (\<lambda>m.
              bindA (settle_scopes rt) (\<lambda>_.
              case (lost, reservation_id resv) of
                (Some d, Some i) \<Rightarrow> failA (ReservationLeaseLost
                  ''shared reservation lease was lost while the call was running'' i (nid m) (Some d))
              | _ \<Rightarrow> ret m))))))"

definition run_call ::
  "'st runtime \<Rightarrow> moment \<Rightarrow> node_kind \<Rightarrow> jdict \<Rightarrow> step_fn \<Rightarrow> int \<Rightarrow> delta_callback \<Rightarrow> bool \<Rightarrow> jdict option \<Rightarrow> ('st run, node) act" where
  "run_call rt mo k pl fn att on_delta keep_chunks meter_payload =
    bindA (liftR (snapshot_payload pl)) (\<lambda>identity.
    bindA (liftR (case meter_payload of None \<Rightarrow> Inr identity | Some p \<Rightarrow> snapshot_payload p)) (\<lambda>meter_pl.
    bindA (recorded_node rt k identity att on_delta) (\<lambda>recorded. case recorded of
      Some n \<Rightarrow> ret n
    | None \<Rightarrow>
        bindA (precheck rt mo (kind_value k) meter_pl) (\<lambda>resv.
        bindA (dispatch mo fn pl on_delta keep_chunks) (\<lambda>(primary, res). case (primary, res) of
            (None, Some r) \<Rightarrow> call_completed rt mo k identity meter_pl att resv r
          | (Some e, _) \<Rightarrow> call_failed rt mo k identity att resv e res
          | (None, None) \<Rightarrow> failA AssertionError)))))"

definition model_call :: "'st runtime \<Rightarrow> moment \<Rightarrow> jdict \<Rightarrow> step_fn \<Rightarrow> int \<Rightarrow> delta_callback \<Rightarrow> bool \<Rightarrow> ('st run, node) act" where
  "model_call rt mo pl fn att on_delta keep_chunks = run_call rt mo MODEL_CALL pl fn att on_delta keep_chunks None"

section \<open>Tools\<close>

definition permitted_tools :: "'st run \<Rightarrow> string list option" where
  "permitted_tools s = (case rn_identity s of
      None \<Rightarrow> rn_ceiling s
    | Some a \<Rightarrow> (case ai_allowed_tools a of
          None \<Rightarrow> rn_ceiling s
        | Some tools \<Rightarrow> Some (case rn_ceiling s of None \<Rightarrow> tools | Some c \<Rightarrow> filter (\<lambda>t. t \<in> set c) tools)))"

definition check_tool_authority :: "'st runtime \<Rightarrow> moment \<Rightarrow> string \<Rightarrow> ('st run, unit) act" where
  "check_tool_authority rt mo name =
    bindA (validate_agent_cursor rt) (\<lambda>_ s. case permitted_tools s of
      None \<Rightarrow> ret () s
    | Some allowed \<Rightarrow>
        if rt_registry rt = None
        then refuse_policy rt mo ''tool permissions require a registry'' [(''tool'', JStr name)] s
        else if name \<in> set allowed then ret () s
        else (case rn_identity s of
            None \<Rightarrow> refuse_policy rt mo ''tool is outside team permissions'' [(''tool'', JStr name)] s
          | Some a \<Rightarrow> refuse_policy rt mo ''tool is outside delegated permissions''
              [(''tool'', JStr name), (''agent_id'', JStr (ai_agent_id a)), (''task_id'', JStr (ai_task_id a))] s))"

definition run_spent :: "'st runtime \<Rightarrow> ('st run, decimals) act" where
  "run_spent rt s = liftO (recompute_charges (rt_ops rt) (rn_store s) (rn_root s)) s"

definition run_report :: "'st runtime \<Rightarrow> ('st run, decimals \<times> decimals) act" where
  "run_report rt = bindA (run_spent rt) (\<lambda>spent s. ret (spent, rn_avoided s) s)"

text \<open>Asking one policy.\<close>

definition ask_policy :: "'st runtime \<Rightarrow> 'st run_policy \<Rightarrow> action_spec \<Rightarrow> jdict \<Rightarrow> ('st run, decision option) act" where
  "ask_policy rt po spec args =
    bindA (run_spent rt) (\<lambda>spent s. liftR (po_decide po (rn_store s)
      \<lparr>cx_spec = spec, cx_args = args, cx_cursor_id = rn_cursor s, cx_run_label = rn_label s, cx_counters = spent,
       cx_identity = rn_identity s, cx_registry_digest = map_option rg_digest (rt_registry rt)\<rparr>) s)"

definition check_durable_approvals :: "'st runtime \<Rightarrow> moment \<Rightarrow> action_spec \<Rightarrow> jdict \<Rightarrow> ('st run, unit) act" where
  "check_durable_approvals rt mo spec args =
    whenA (rt_mode rt \<noteq> REPLAY) (forA (\<lambda>po.
      bindA (ask_policy rt po spec args) (\<lambda>d.
      if d = Some ALLOW then ret ()
      else bindA (liftR (redact_args spec args)) (\<lambda>shown.
        refuse_policy rt mo ''durable approval is required for this action''
          [(''tool'', JStr (sp_name spec)), (''version'', JStr (sp_version spec)), (''args'', JDict shown)])))
      (filter po_durable (rt_policies rt)))"

definition registered_handler :: "(jdict \<Rightarrow> handler_value res) \<Rightarrow> jdict \<Rightarrow> step_fn" where
  "registered_handler h args pl = bindR (h args) (\<lambda>v. case v of
      Returned x \<Rightarrow> Inr x
    | Awaitable \<Rightarrow> Inl (TypeError ''async registered handler requires AsyncRuntime''))"

text \<open>Running the handler of an action, or refusing an action that has none.\<close>

definition call_handler :: "'st runtime \<Rightarrow> moment \<Rightarrow> action_spec \<Rightarrow> jdict \<Rightarrow> jdict \<Rightarrow> int \<Rightarrow> ('st run, node) act" where
  "call_handler rt mo spec pl args att = (case dget (rt_handlers rt) (sp_name spec) of
      None \<Rightarrow> refuse_policy rt mo ''registered action has no handler'' pl
    | Some h \<Rightarrow> run_call rt mo TOOL_CALL pl (registered_handler h args) att None False None)"

definition park_call :: "jdict \<Rightarrow> jdict \<Rightarrow> action_spec \<Rightarrow> int \<Rightarrow> ('st run, unit) act" where
  "park_call pl args spec att =
    bindA (node_at_cursor TOOL_CALL pl att JNull []) (\<lambda>n.
    bindA (modA (\<lambda>s. s\<lparr>rn_pending := dset (nid n)
      \<lparr>pc_parent = rn_cursor s, pc_payload = pl, pc_args = args, pc_spec = spec, pc_attempt = att\<rparr> (rn_pending s)\<rparr>)) (\<lambda>_.
    failA (ConfirmationRequired ''confirmation required by policy'' (nid n))))"

definition ask_other_policies ::
  "'st runtime \<Rightarrow> moment \<Rightarrow> action_spec \<Rightarrow> jdict \<Rightarrow> jdict \<Rightarrow> int \<Rightarrow> ('st run, unit) act" where
  "ask_other_policies rt mo spec args pl att =
    forA (\<lambda>po. bindA (ask_policy rt po spec args) (\<lambda>d. case d of
        Some DENY \<Rightarrow> refuse_policy rt mo ''denied by policy'' pl
      | Some CONFIRM \<Rightarrow> park_call pl args spec att
      | _ \<Rightarrow> ret ())) (filter (\<lambda>po. \<not> po_durable po) (rt_policies rt))"

definition dry_run_call :: "'st runtime \<Rightarrow> moment \<Rightarrow> jdict \<Rightarrow> int \<Rightarrow> ('st run, node) act" where
  "dry_run_call rt mo pl att =
    bindA (precheck rt mo (kind_value TOOL_CALL) pl) (\<lambda>resv.
    let charges = [(''steps'', JInt 1)] in
    bindA (settle_reservation rt resv charges) (\<lambda>_.
    bindA (node_at_cursor TOOL_CALL pl att JNull
      [(''created_at'', JStr (mo_now mo)), (''dry_run'', JBool True), (''charges'', JDict charges)]) (\<lambda>n.
    bindA (put_at_cursor rt n) (\<lambda>m.
    bindA (settle_scopes rt) (\<lambda>_. ret m)))))"

definition must_be_recorded :: "node option \<Rightarrow> ('st run, node) act" where
  "must_be_recorded r = (case r of None \<Rightarrow> failA AssertionError | Some n \<Rightarrow> ret n)"

definition allowed_tool_call ::
  "'st runtime \<Rightarrow> moment \<Rightarrow> action_spec \<Rightarrow> jdict \<Rightarrow> jdict \<Rightarrow> int \<Rightarrow> ('st run, node) act" where
  "allowed_tool_call rt mo spec args pl att =
    (if rt_mode rt = REPLAY then bindA (recorded_node rt TOOL_CALL pl att None) must_be_recorded
     else bindA (if rt_mode rt = RECORD \<and> rt_refuse_duplicates rt
         then bindA (recorded_node rt TOOL_CALL pl att None) (\<lambda>found. if found = None then ret () else failA AssertionError)
         else ret ()) (\<lambda>_.
       bindA (check_durable_approvals rt mo spec args) (\<lambda>_.
       bindA (ask_other_policies rt mo spec args pl att) (\<lambda>_.
       bindA (recorded_node rt TOOL_CALL pl att None) (\<lambda>found. case found of
           Some n \<Rightarrow> ret n
         | None \<Rightarrow>
             if rt_dry_run rt \<and> sp_side_effects spec then dry_run_call rt mo pl att
             else call_handler rt mo spec pl args att)))))"

definition tool_payload :: "registry \<Rightarrow> action_spec \<Rightarrow> jdict \<Rightarrow> jdict" where
  "tool_payload reg spec audit_args =
    [(''tool'', JStr (sp_name spec)), (''version'', JStr (sp_version spec)), (''args'', JDict audit_args),
     (''spec_digest'', JStr (sp_digest spec)), (''registry_digest'', JStr (rg_digest reg))]"

definition validated_tool_call ::
  "'st runtime \<Rightarrow> moment \<Rightarrow> registry \<Rightarrow> action_spec \<Rightarrow> jdict \<Rightarrow> jdict \<Rightarrow> jdict \<Rightarrow> int \<Rightarrow> ('st run, node) act" where
  "validated_tool_call rt mo reg spec args audit_args blocked att =
    bindA (liftR (validate_args spec args)) (\<lambda>found. case found of
        Some m \<Rightarrow> refuse_policy rt mo (''schema validation failed: '' @ m) blocked
      | None \<Rightarrow> allowed_tool_call rt mo spec args (tool_payload reg spec audit_args) att)"

definition registered_tool_call ::
  "'st runtime \<Rightarrow> moment \<Rightarrow> registry \<Rightarrow> string \<Rightarrow> jdict \<Rightarrow> string option \<Rightarrow> int \<Rightarrow> ('st run, node) act" where
  "registered_tool_call rt mo reg name args version att = (case registry_get reg name None of
      Inl e \<Rightarrow> refuse_policy rt mo
        (''unknown registered action: '' @ (case version of None \<Rightarrow> name | Some v \<Rightarrow> name @ ''@'' @ v))
        [(''tool'', JStr name), (''args'', JDict args)]
    | Inr spec \<Rightarrow>
        bindA (liftR (redact_args spec args)) (\<lambda>audit_args.
        let blocked = [(''tool'', JStr name), (''args'', JDict audit_args)] in
        case version of
          Some v \<Rightarrow>
            if v \<noteq> sp_version spec then refuse_policy rt mo (''unknown registered action: '' @ name @ ''@'' @ v) blocked
            else validated_tool_call rt mo reg spec args audit_args blocked att
        | None \<Rightarrow> validated_tool_call rt mo reg spec args audit_args blocked att))"

definition tool_call ::
  "'st runtime \<Rightarrow> moment \<Rightarrow> string \<Rightarrow> jdict \<Rightarrow> step_fn option \<Rightarrow> string option \<Rightarrow> int \<Rightarrow> ('st run, node) act" where
  "tool_call rt mo name args fn version att =
    bindA (check_tool_authority rt mo name) (\<lambda>_. case rt_registry rt of
      Some reg \<Rightarrow> registered_tool_call rt mo reg name args version att
    | None \<Rightarrow> (case fn of
        None \<Rightarrow> failA (TypeError ''unfenced tool_call requires fn'')
      | Some f \<Rightarrow> run_call rt mo TOOL_CALL [(''tool'', JStr name), (''args'', JDict args)] f att None False None))"

definition confirm :: "'st runtime \<Rightarrow> moment \<Rightarrow> string \<Rightarrow> ('st run, node) act" where
  "confirm rt mo token s = (case dget (rn_pending s) token of
      None \<Rightarrow> failA (KeyError token) s
    | Some p \<Rightarrow>
        bindA (modA (\<lambda>s. s\<lparr>rn_pending := AList.delete token (rn_pending s)\<rparr>)) (\<lambda>_.
        bindA (check_tool_authority rt mo (sp_name (pc_spec p))) (\<lambda>_.
        bindA (\<lambda>s. liftR (ensure (rn_cursor s = pc_parent p) (ValueError ''cannot confirm after cursor moved'')) s) (\<lambda>_.
        bindA (check_durable_approvals rt mo (pc_spec p) (pc_args p)) (\<lambda>_.
        call_handler rt mo (pc_spec p) (pc_payload p) (pc_args p) (pc_attempt p))))) s)"

section \<open>Notes, branches and the cursor\<close>

definition stamp :: "moment \<Rightarrow> jdict" where
  "stamp mo = [(''created_at'', JStr (mo_now mo))]"

definition prepare_note :: "'st runtime \<Rightarrow> moment \<Rightarrow> jdict \<Rightarrow> int \<Rightarrow> ('st run, node) act" where
  "prepare_note rt mo pl att =
    bindA (node_at_cursor NOTE pl att JNull (stamp mo)) (\<lambda>n.
    bindA (whenA (rt_mode rt \<noteq> REPLAY) (bindA (precheck rt mo (kind_value NOTE) pl) (\<lambda>_. ret ()))) (\<lambda>_.
    put_node rt n))"

definition note_call :: "'st runtime \<Rightarrow> moment \<Rightarrow> jdict \<Rightarrow> int \<Rightarrow> ('st run, node) act" where
  "note_call rt mo pl att =
    bindA (prepare_note rt mo pl att) (\<lambda>n. bindA (set_cursor (nid n)) (\<lambda>_. ret n))"

text \<open>The child run of a branch: it starts at the anchor note and works on the same store.\<close>

definition branch_run :: "'st runtime \<Rightarrow> moment \<Rightarrow> int \<Rightarrow> budget option \<Rightarrow> ('st run, 'st run) act" where
  "branch_run rt mo att b =
    bindA (prepare_note rt mo [(''branch'', JBool True)] att) (\<lambda>anchor s.
    ret (s\<lparr>rn_cursor := nid anchor,
           rn_scopes := rn_scopes s @ (case b of None \<Rightarrow> []
             | Some bud \<Rightarrow> [\<lparr>sc_budget = bud, sc_anchor = nid anchor, sc_exhausted = []\<rparr>]),
           rn_anchor := (case rn_anchor s of Some a \<Rightarrow> Some a
             | None \<Rightarrow> if rn_identity s = None then None else Some (nid anchor)),
           rn_avoided := [], rn_pending := [], rn_deltas := []\<rparr>) s)"

fun parent_steps :: "(string \<Rightarrow> node res) \<Rightarrow> nat \<Rightarrow> string \<Rightarrow> string res" where
  "parent_steps get 0 i = Inr i"
| "parent_steps get (Suc k) i = bindR (get i) (\<lambda>n. case parent n of None \<Rightarrow> Inr i | Some p \<Rightarrow> parent_steps get k p)"

definition rollback :: "'st runtime \<Rightarrow> string option \<Rightarrow> int \<Rightarrow> ('st run, node) act" where
  "rollback rt target steps =
    bindA (\<lambda>s. liftR (case target of Some i \<Rightarrow> Inr i
        | None \<Rightarrow> parent_steps (s_get (rt_ops rt) (rn_store s)) (nat steps) (rn_cursor s)) s) (\<lambda>i.
    bindA (ensure_ancestor rt i) (\<lambda>_.
    bindA (set_cursor i) (\<lambda>_. store_get rt i)))"

definition prune_cursor :: "'st runtime \<Rightarrow> ('st run, unit) act" where
  "prune_cursor rt =
    (if rt_mode rt = REPLAY then failA (RuntimeErr ''replay mode is read-only'')
     else (\<lambda>s. store_update_meta rt (rn_cursor s) [(''pruned'', JBool True)] s))"

section \<open>Opening a run\<close>

definition bind_registry :: "'st runtime \<Rightarrow> string \<Rightarrow> ('st run, unit) act" where
  "bind_registry rt root_id = (case rt_registry rt of
      None \<Rightarrow> ret ()
    | Some reg \<Rightarrow>
        bindA (store_get rt root_id) (\<lambda>n.
        let existing = dget_or (meta n) ''registry_digest'' JNull in
        if existing \<noteq> JNull \<and> existing \<noteq> JStr (rg_digest reg)
        then failA (IntegrityError ''run root is already bound to a different registry'')
        else if existing \<noteq> JNull then ret ()
        else if rt_mode rt = REPLAY
        then failA (IntegrityError ''replay run root is not bound to the current registry'')
        else store_update_meta rt root_id [(''registry_digest'', JStr (rg_digest reg))]))"

definition run_scopes :: "'st runtime \<Rightarrow> string \<Rightarrow> budget option \<Rightarrow> ('st run, budget_scope list) act" where
  "run_scopes rt root_id b =
    bindA (validate_shared rt) (\<lambda>_.
    bindA (liftR (mapR (\<lambda>sb. bindR (scope_id sb) (\<lambda>i.
      Inr \<lparr>sc_budget = sb_budget sb, sc_anchor = i, sc_exhausted = []\<rparr>)) (rt_shared rt))) (\<lambda>scopes.
    ret (scopes @ (case b of None \<Rightarrow> [] | Some bud \<Rightarrow> [\<lparr>sc_budget = bud, sc_anchor = root_id, sc_exhausted = []\<rparr>]))))"

definition root_node :: "string \<Rightarrow> int \<Rightarrow> node res" where
  "root_node label att = make_node (kind_value ROOT) None [(''run'', JStr label)] att JNull []"

text \<open>The fields of a new \<open>Run\<close>; the state before holds the store and the meters of the runtime.\<close>

definition new_run :: "string \<Rightarrow> string \<Rightarrow> string \<Rightarrow> budget_scope list \<Rightarrow> ('st run, unit) act" where
  "new_run root_id cursor label scopes = modA (\<lambda>s. s\<lparr>rn_root := root_id, rn_cursor := cursor, rn_label := label,
     rn_scopes := scopes, rn_avoided := [], rn_pending := [], rn_identity := None, rn_anchor := None,
     rn_validator := (\<lambda>_. Inr ()), rn_ceiling := None, rn_deltas := []\<rparr>)"

definition open_run :: "'st runtime \<Rightarrow> string \<Rightarrow> budget option \<Rightarrow> int \<Rightarrow> ('st run, unit) act" where
  "open_run rt label b att =
    bindA (liftR (root_node label att)) (\<lambda>n.
    bindA (\<lambda>s. (if rt_mode rt = REPLAY \<or> \<not> s_exists (rt_ops rt) (rn_store s) (nid n) then put_node rt n
         else store_get rt (nid n)) s) (\<lambda>root_n.
    bindA (bind_registry rt (nid root_n)) (\<lambda>_.
    bindA (run_scopes rt (nid root_n) b) (\<lambda>scopes.
    new_run (nid root_n) (nid root_n) label scopes))))"

definition marked_pruned :: "node \<Rightarrow> bool" where
  "marked_pruned n \<longleftrightarrow> dget_or (meta n) ''pruned'' JNull = JBool True"

text \<open>One node of the walk: the best leaf so far and its depth.\<close>

definition better_leaf ::
  "'st store_ops \<Rightarrow> 'st \<Rightarrow> (string \<times> nat) \<Rightarrow> node \<Rightarrow> (string \<times> nat) res option" where
  "better_leaf ops st best n =
    (if marked_pruned n then Some (Inr best)
     else bindO (Some (bindR (s_children ops st (nid n)) (mapR (\<lambda>c. bindR (s_get ops st c) (\<lambda>m. Inr (marked_pruned m)))))) (\<lambda>pruned.
       if False \<in> set pruned then Some (Inr best)
       else bindO (node_depth (s_get ops st) (nid n)) (\<lambda>d.
         Some (Inr (if snd best < d \<or> (d = snd best \<and> nid n < fst best) then (nid n, d) else best)))))"

definition deepest_non_pruned_leaf :: "'st store_ops \<Rightarrow> 'st \<Rightarrow> string \<Rightarrow> string res option" where
  "deepest_non_pruned_leaf ops st root_id = (case s_walk ops st root_id of
      None \<Rightarrow> None
    | Some (ns, e) \<Rightarrow> bindO (foldO (better_leaf ops st) (root_id, 0) ns) (\<lambda>best.
        Some (case e of Some x \<Rightarrow> Inl x | None \<Rightarrow> Inr (fst best))))"

definition resume_run :: "'st runtime \<Rightarrow> string \<Rightarrow> budget option \<Rightarrow> int \<Rightarrow> ('st run, unit) act" where
  "resume_run rt label b att =
    bindA (liftR (root_node label att)) (\<lambda>n.
    bindA (if rt_mode rt = REPLAY then put_node rt n else store_get rt (nid n)) (\<lambda>root_n.
    bindA (bind_registry rt (nid root_n)) (\<lambda>_.
    bindA (run_scopes rt (nid root_n) b) (\<lambda>scopes.
    bindA (\<lambda>s. liftO (deepest_non_pruned_leaf (rt_ops rt) (rn_store s) (nid root_n)) s) (\<lambda>leaf.
    new_run (nid root_n) leaf label scopes)))))"

section \<open>Live revalidation\<close>

record comparator =
  cmp_name :: string
  cmp_compare :: "jdict \<Rightarrow> jdict \<Rightarrow> comparison res"

definition normalized_comparator :: comparator where
  "normalized_comparator = \<lparr>cmp_name = ''normalized-model/v1'', cmp_compare = normalized_compare\<rparr>"

record prepared_revalidation =
  pv_recorded :: node
  pv_observation_payload :: jdict
  pv_live_payload :: jdict
  pv_observation_id :: string
  pv_comparator :: comparator
  pv_recorded_contract :: "jdict option"
  pv_live_contract :: jdict

definition value_to_integrity :: "'a res \<Rightarrow> 'a res" where
  "value_to_integrity r = (case r of Inl (ValueError m) \<Rightarrow> Inl (IntegrityError m) | _ \<Rightarrow> r)"

definition same_contract :: "jdict \<Rightarrow> jdict option \<Rightarrow> bool" where
  "same_contract live bound = (case bound of None \<Rightarrow> True | Some c \<Rightarrow> py_eq (JDict c) (JDict live))"

definition prepare_revalidation ::
  "'st runtime \<Rightarrow> moment \<Rightarrow> jdict \<Rightarrow> replay_contract \<Rightarrow> comparator option \<Rightarrow> jdict option \<Rightarrow> int \<Rightarrow> string option \<Rightarrow>
    ('st run, prepared_revalidation) act" where
  "prepare_revalidation rt mo pl contract cmp live_payload att observation_id =
    (let selected = (case cmp of None \<Rightarrow> normalized_comparator | Some c \<Rightarrow> c);
         live_contract = contract_dict contract;
         source = (case live_payload of None \<Rightarrow> pl | Some p \<Rightarrow> p);
         observation = (case observation_id of None \<Rightarrow> mo_uuid mo | Some i \<Rightarrow> i) in
     if rt_mode rt \<noteq> RECORD then failA (RuntimeErr ''live revalidation requires record mode'')
     else if rt_dry_run rt then failA (RuntimeErr ''live revalidation is unavailable in dry-run mode'')
     else if str_strip (cmp_name selected) = []
     then failA (TypeError ''comparator must expose a non-empty name and compare method'')
     else bindA (liftR (snapshot_payload pl)) (\<lambda>identity.
       bindA (\<lambda>s. liftO (recorded_node_or_missing REPLAY (rt_ops rt) (rn_store s) MODEL_CALL (rn_cursor s) identity att False) s) (\<lambda>r.
       case r of
         None \<Rightarrow> failA AssertionError
       | Some recorded \<Rightarrow>
           if \<not> is_dict (result recorded) \<or> result_digest recorded = None
           then failA (IntegrityError ''recorded model result is not a replayable object'')
           else bindA (liftR (value_to_integrity (extract_replay_contract (payload recorded)))) (\<lambda>recorded_contract.
             bindA (liftR (snapshot_payload source)) (\<lambda>live_identity.
             bindA (liftR (if live_payload = None then Inr None else extract_replay_contract live_identity)) (\<lambda>bound.
             bindA (liftR (ensure (same_contract live_contract bound)
               (ValueError ''live payload replay contract does not match the live contract''))) (\<lambda>_.
             bindA (liftR (make_revalidation_payload live_identity observation (nid recorded) (the (result_digest recorded))
               contract (cmp_name selected))) (\<lambda>observed.
             bindA (node_at_cursor MODEL_CALL observed 0 JNull []) (\<lambda>candidate s.
             if s_exists (rt_ops rt) (rn_store s) (nid candidate)
             then failA (IntegrityError (''revalidation observation already exists: '' @ observation)) s
             else ret \<lparr>pv_recorded = recorded, pv_observation_payload = observed, pv_live_payload = source,
               pv_observation_id = observation, pv_comparator = selected, pv_recorded_contract = recorded_contract,
               pv_live_contract = live_contract\<rparr> s)))))))))"

definition text_object :: "string \<Rightarrow> jdict res" where
  "text_object t = bindR (json_loads t) (\<lambda>v. if is_dict v then Inr (dict_items v)
     else Inl (IntegrityError ''revalidation result text must contain objects''))"

definition put_note_below :: "'st runtime \<Rightarrow> moment \<Rightarrow> string \<Rightarrow> jdict \<Rightarrow> ('st run, node) act" where
  "put_note_below rt mo parent_id pl =
    bindA (liftR (make_node (kind_value NOTE) (Some parent_id) pl 0 JNull (stamp mo))) (put_node rt)"

definition record_evidence ::
  "'st runtime \<Rightarrow> moment \<Rightarrow> prepared_revalidation \<Rightarrow> node \<Rightarrow> ('st run, revalidation_report) act" where
  "record_evidence rt mo p live =
    (let recorded = pv_recorded p; name = cmp_name (pv_comparator p);
         rd = the (result_digest recorded); ld = the (result_digest live);
         rt_text = the (result_text recorded); lt = the (result_text live) in
     bindA (liftR (bindR (json_loads rt_text) (\<lambda>_. bindR (json_loads lt) (\<lambda>_. Inr ())))) (\<lambda>_.
     bindA (liftR (bindR (text_object rt_text) (\<lambda>r. bindR (text_object lt) (\<lambda>l.
       cmp_compare (pv_comparator p) r l)))) (\<lambda>c.
     bindA (liftR (make_revalidation_evidence (pv_observation_id p) (nid recorded) (nid live) rd ld name c (rt_text = lt)
       (pv_recorded_contract p) (pv_live_contract p))) (\<lambda>pl.
     bindA (put_note_below rt mo (nid live) pl) (\<lambda>evidence.
     ret \<lparr>rr_observation_id = pv_observation_id p, rr_recorded_node_id = nid recorded, rr_live_node_id = nid live,
       rr_evidence_node_id = nid evidence, rr_comparator = name, rr_matched = cp_matched c, rr_exact_match = (rt_text = lt),
       rr_recorded_result_digest = rd, rr_live_result_digest = ld, rr_difference_paths = cp_paths c,
       rr_differences_truncated = cp_truncated c, rr_recorded_contract = pv_recorded_contract p,
       rr_live_contract = pv_live_contract p,
       rr_charges = (case dget_or (meta live) ''charges'' JNull of JDict d \<Rightarrow> d | _ \<Rightarrow> [])\<rparr>)))))"

definition record_failed_comparison ::
  "'st runtime \<Rightarrow> moment \<Rightarrow> prepared_revalidation \<Rightarrow> node \<Rightarrow> exc \<Rightarrow> ('st run, node) act" where
  "record_failed_comparison rt mo p live e =
    bindA (liftR (make_failure_evidence (pv_observation_id p) (nid (pv_recorded p)) (nid live)
      (the (result_digest (pv_recorded p))) (the (result_digest live)) (cmp_name (pv_comparator p)) (exc_name e)))
    (put_note_below rt mo (nid live))"

definition replayable :: "node \<Rightarrow> bool" where
  "replayable n \<longleftrightarrow> is_dict (result n) \<and> result_digest n \<noteq> None \<and> result_text n \<noteq> None"

definition finish_revalidation ::
  "'st runtime \<Rightarrow> moment \<Rightarrow> prepared_revalidation \<Rightarrow> node \<Rightarrow> ('st run, revalidation_report) act" where
  "finish_revalidation rt mo p live =
    (if \<not> replayable (pv_recorded p) \<or> \<not> replayable live
     then failA (IntegrityError ''revalidation requires recorded and live result objects'')
     else bindA (tryA (record_evidence rt mo p live)) (\<lambda>outcome.
       bindA (case outcome of Inr _ \<Rightarrow> ret ()
         | Inl e \<Rightarrow> bindA (tryA (record_failed_comparison rt mo p live e)) (\<lambda>_. ret ())) (\<lambda>_.
       bindA (set_cursor (nid (pv_recorded p))) (\<lambda>_. liftR outcome))))"

definition revalidate_model_call ::
  "'st runtime \<Rightarrow> moment \<Rightarrow> moment \<Rightarrow> jdict \<Rightarrow> step_fn \<Rightarrow> replay_contract \<Rightarrow> comparator option \<Rightarrow> jdict option \<Rightarrow> int \<Rightarrow>
    string option \<Rightarrow> delta_callback \<Rightarrow> bool \<Rightarrow> ('st run, revalidation_report) act" where
  "revalidate_model_call rt mo mo' pl fn contract cmp live_payload att observation_id on_delta keep_chunks =
    bindA (prepare_revalidation rt mo' pl contract cmp live_payload att observation_id) (\<lambda>p.
    bindA (run_call rt mo MODEL_CALL (pv_observation_payload p) (\<lambda>_. fn (pv_live_payload p)) 0 on_delta keep_chunks
      (Some (pv_live_payload p))) (\<lambda>live.
    finish_revalidation rt mo' p live))"

end
