(* ===== verification/Stream_Facts.thy ===== *)
theory Stream_Facts
  imports Streams
begin

text \<open>
  What reading a stream gives. \<open>heap_wf\<close>: every object has distinct keys and holds values of the model
  and addresses of the heap. A step result read from chunks with distinct keys has distinct keys.
\<close>

definition hval_wf :: "nat \<Rightarrow> hval \<Rightarrow> bool" where
  "hval_wf n v = (case v of HObj a \<Rightarrow> a < n | HVal j \<Rightarrow> json_wf j)"

lemma hval_wf_simps [simp]: "hval_wf n (HObj a) \<longleftrightarrow> a < n" "hval_wf n (HVal j) \<longleftrightarrow> json_wf j"
  by (simp_all add: hval_wf_def)

lemma hval_wf_mono: "hval_wf n v \<Longrightarrow> n \<le> m \<Longrightarrow> hval_wf m v"
  by (cases v) auto

definition obj_wf :: "nat \<Rightarrow> (string \<times> hval) list \<Rightarrow> bool" where
  "obj_wf n es \<longleftrightarrow> distinct_keys es \<and> (\<forall>p \<in> set es. hval_wf n (snd p))"

definition heap_wf :: "heap \<Rightarrow> bool" where
  "heap_wf h \<longleftrightarrow> (\<forall>es \<in> set h. obj_wf (length h) es)"

lemma obj_wf_mono: "obj_wf n es \<Longrightarrow> n \<le> m \<Longrightarrow> obj_wf m es"
  by (auto simp: obj_wf_def intro: hval_wf_mono)

lemma heap_wf_nth: "heap_wf h \<Longrightarrow> a < length h \<Longrightarrow> obj_wf (length h) (h ! a)"
  unfolding heap_wf_def by (meson nth_mem)

lemma heap_wf_get: "heap_wf h \<Longrightarrow> t < length h \<Longrightarrow> dget (h ! t) k = Some v \<Longrightarrow> hval_wf (length h) v"
  using heap_wf_nth [of h t] by (auto simp: obj_wf_def dest: map_of_SomeD)

lemma heap_wf_snoc: "heap_wf h \<Longrightarrow> obj_wf (Suc (length h)) es \<Longrightarrow> heap_wf (h @ [es])"
  unfolding heap_wf_def by (auto intro: obj_wf_mono)

lemma heap_wf_update: "heap_wf h \<Longrightarrow> obj_wf (length h) es \<Longrightarrow> heap_wf (h[t := es])"
  using set_update_subset_insert [of h t es] unfolding heap_wf_def by auto

lemma alloc_wf:
  "alloc v h = (x, h') \<Longrightarrow> json_wf v \<Longrightarrow> heap_wf h \<Longrightarrow> hval_wf (length h') x \<and> heap_wf h' \<and> length h \<le> length h'"
  "alloc_items d h = (es, h') \<Longrightarrow> \<forall>p \<in> set d. json_wf (snd p) \<Longrightarrow> heap_wf h \<Longrightarrow>
    map fst es = map fst d \<and> (\<forall>p \<in> set es. hval_wf (length h') (snd p)) \<and> heap_wf h' \<and> length h \<le> length h'"
proof (induction v h and d h arbitrary: x h' and es h' rule: alloc_alloc_items.induct)
  case (1 d h)
  obtain es h2 where a: "alloc_items d (h @ [[]]) = (es, h2)" by (cases "alloc_items d (h @ [[]])")
  have "map fst es = map fst d \<and> (\<forall>p \<in> set es. hval_wf (length h2) (snd p)) \<and> heap_wf h2 \<and> length (h @ [[]]) \<le> length h2"
    using 1(3,4) by (intro 1(1) [OF a]) (auto intro!: heap_wf_snoc simp: obj_wf_def)
  moreover have "distinct_keys d" using 1(3) by simp
  ultimately show ?case using 1(2) a by (auto intro!: heap_wf_update simp: obj_wf_def)
next
  case (4 k v d h)
  obtain x h1 where v: "alloc v h = (x, h1)" by (cases "alloc v h")
  obtain es' h2 where d: "alloc_items d h1 = (es', h2)" by (cases "alloc_items d h1")
  have x: "hval_wf (length h1) x \<and> heap_wf h1 \<and> length h \<le> length h1" using 4(4,5) by (intro 4(1) [OF v]) auto
  then have "map fst es' = map fst d \<and> (\<forall>p \<in> set es'. hval_wf (length h2) (snd p)) \<and> heap_wf h2 \<and> length h1 \<le> length h2"
    using 4(4) by (intro 4(2) [OF v [symmetric] d]) auto
  then show ?case using 4(3) v d x hval_wf_mono by auto
qed auto

lemma set_item_wf: "heap_wf h \<Longrightarrow> hval_wf (length h) v \<Longrightarrow> heap_wf (set_item t k v h)"
proof (cases "t < length h")
  case True
  assume "heap_wf h" "hval_wf (length h) v"
  then show ?thesis using heap_wf_nth [OF _ True] set_dset_subset [of k v "h ! t"]
    unfolding set_item_def by (intro heap_wf_update) (auto simp: obj_wf_def)
qed (simp add: set_item_def list_update_beyond)

lemma length_set_item [simp]: "length (set_item t k v h) = length h"
  by (simp add: set_item_def)

lemma merge_stream_value_wf:
  "heap_wf h \<Longrightarrow> t < length h \<Longrightarrow> d < length h \<Longrightarrow>
    heap_wf (merge_stream_value n t d h) \<and> length (merge_stream_value n t d h) = length h"
proof (induction n arbitrary: t d h)
  case (Suc n)
  have "heap_wf (fold f ps h) \<and> length (fold f ps h) = length h"
    if "\<forall>p \<in> set ps. hval_wf (length h) (snd p)" "heap_wf h" "t < length h"
      "f = (\<lambda>(k, v) h. case (dget (h ! t) k, v) of
        (Some (HObj c), HObj a) \<Rightarrow> merge_stream_value n c a h
      | (Some (HVal (JStr s)), HVal (JStr s')) \<Rightarrow> set_item t k (HVal (JStr (s @ s'))) h
      | (Some (HVal (JList xs)), HVal (JList ys)) \<Rightarrow> set_item t k (HVal (JList (xs @ ys))) h
      | _ \<Rightarrow> set_item t k v h)" for f ps h
    using that(1-3)
  proof (induction ps arbitrary: h)
    case (Cons p ps)
    obtain k v where p: "p = (k, v)" by (cases p)
    have v: "hval_wf (length h) v" using Cons.prems(1) p by simp
    have g: "hval_wf (length h) w" if "dget (h ! t) k = Some w" for w using heap_wf_get [OF Cons.prems(2,3) that] .
    have "heap_wf (f p h) \<and> length (f p h) = length h"
      using v g Cons.prems(2,3) Suc.IH unfolding that(4) p
      by (auto intro!: set_item_wf split: option.split hval.split json.split)
    then show ?case using Cons by simp
  qed simp
  from this [OF _ Suc.prems(1,2) refl] show ?case
    using heap_wf_nth [OF Suc.prems(1,3)] by (simp add: obj_wf_def)
qed simp

lemma read_val_wf: "heap_wf h \<Longrightarrow> hval_wf (length h) v \<Longrightarrow> json_wf (read_val n h v)"
proof (induction n h v rule: read_val.induct)
  case (3 n h a)
  then have "obj_wf (length h) (h ! a)" using heap_wf_nth by simp
  then show ?case using 3 by (auto simp: obj_wf_def comp_def case_prod_unfold)
qed auto

section \<open>The loop\<close>

definition stream_wf :: "stream_state \<Rightarrow> bool" where
  "stream_wf s \<longleftrightarrow> heap_wf (ss_heap s) \<and> ss_result s < length (ss_heap s) \<and> (\<forall>a \<in> set (ss_chunks s). a < length (ss_heap s))"

lemma stream_start_wf: "stream_wf stream_start"
  by (simp add: stream_wf_def stream_start_def heap_wf_def obj_wf_def)

lemma merge_chunk_wf:
  assumes "stream_wf s" "a < length (ss_heap s)" "merge_chunk a s = (r, s')" shows "stream_wf s'"
proof -
  have get: "hval_wf (length (ss_heap s)) v" if "dget (ss_heap s ! a) k = Some v" for k v
    using assms(1,2) that by (auto simp: stream_wf_def intro: heap_wf_get)
  have snoc: "heap_wf (ss_heap s @ [ss_heap s ! c])" if "c < length (ss_heap s)" for c
    using assms(1) that by (intro heap_wf_snoc obj_wf_mono [OF heap_wf_nth]) (auto simp: stream_wf_def)
  have merge: "stream_wf (s\<lparr>ss_heap := merge_stream_value n (ss_result s) c (ss_heap s)\<rparr>)" if "c < length (ss_heap s)" for c n
    using assms(1) that merge_stream_value_wf [of "ss_heap s" "ss_result s" c n] by (simp add: stream_wf_def)
  show ?thesis
  proof (cases "dget (ss_heap s ! a) ''result'' \<noteq> None \<and> dget (ss_heap s ! a) ''result'' \<noteq> Some (HVal JNull)")
    case True
    then obtain v where v: "dget (ss_heap s ! a) ''result'' = Some v" by blast
    show ?thesis
    proof (cases v)
      case (HObj c)
      then have c: "c < length (ss_heap s)" using get [OF v] by simp
      then have "s' = s\<lparr>ss_heap := ss_heap s @ [ss_heap s ! c], ss_result := length (ss_heap s)\<rparr>"
        using assms(3) True v HObj by (simp add: merge_chunk_def Let_def)
      then show ?thesis using assms(1) snoc [OF c] by (auto simp: stream_wf_def)
    qed (use assms(1,3) True v in \<open>auto simp: merge_chunk_def Let_def\<close>)
  next
    case F: False
    show ?thesis
    proof (cases "dget (ss_heap s ! a) ''delta'' \<noteq> None \<and> dget (ss_heap s ! a) ''delta'' \<noteq> Some (HVal JNull)")
      case True
      then obtain v where v: "dget (ss_heap s ! a) ''delta'' = Some v" by blast
      show ?thesis
      proof (cases v)
        case (HObj c)
        then show ?thesis using assms(3) F True v merge [of c] get [OF v] by (auto simp: merge_chunk_def Let_def)
      qed (use assms(1,3) F True v in \<open>auto simp: merge_chunk_def Let_def\<close>)
    next
      case False
      then show ?thesis using assms(3) F merge [OF assms(2)] by (auto simp: merge_chunk_def Let_def)
    qed
  qed
qed

lemma take_chunk_wf:
  assumes "stream_wf s" "json_wf item" "take_chunk f item s = (r, s')" shows "stream_wf s'"
proof (cases "is_dict item")
  case True
  then obtain d where d: "item = JDict d" by (cases item) auto
  obtain x h where a: "alloc item (ss_heap s) = (x, h)" by (cases "alloc item (ss_heap s)")
  have h: "hval_wf (length h) x" "heap_wf h" "length (ss_heap s) \<le> length h"
    using alloc_wf(1) [OF a assms(2)] assms(1) by (simp_all add: stream_wf_def)
  obtain i where x: "x = HObj i" using a d by (auto split: prod.splits)
  then have s1: "stream_wf (s\<lparr>ss_heap := h, ss_chunks := ss_chunks s @ [i]\<rparr>)" "i < length h"
    using h assms(1) by (auto simp: stream_wf_def)
  then have s2: "stream_wf (s\<lparr>ss_heap := h, ss_chunks := ss_chunks s @ [i], ss_deltas := ds\<rparr>)" for ds
    by (simp add: stream_wf_def)
  show ?thesis using assms(3) True a x s1 s2 merge_chunk_wf [OF s1(1)] merge_chunk_wf [OF s2]
    by (auto simp: take_chunk_def Let_def split: option.splits)
qed (use assms in \<open>simp add: take_chunk_def\<close>)

lemma take_events_wf:
  "stream_wf s \<Longrightarrow> \<forall>j. Item j \<in> set es \<longrightarrow> json_wf j \<Longrightarrow> take_events f b es s = (r, s') \<Longrightarrow> stream_wf s'"
proof (induction f b es s rule: take_events.induct)
  case (3 f b item es s)
  obtain q t where t: "take_chunk f item s = (q, t)" by (cases "take_chunk f item s")
  have "stream_wf t" using take_chunk_wf [OF 3(2) _ t] 3(3) by simp
  then show ?case using 3 t by (cases q) auto
qed auto

definition step_wf :: "step_value \<Rightarrow> bool" where
  "step_wf v = (case v of Whole d \<Rightarrow> json_wf (JDict d) | Stream es \<Rightarrow> \<forall>j. Item j \<in> set es \<longrightarrow> json_wf j | Not_a_result \<Rightarrow> True)"

lemma read_obj_wf: "heap_wf h \<Longrightarrow> a < length h \<Longrightarrow> json_wf (read_obj h a)"
  unfolding read_obj_def by (rule read_val_wf) simp_all

lemma stream_result_wf:
  assumes "stream_wf s" shows "json_wf (JDict (stream_result keep s))"
proof -
  have h: "heap_wf (ss_heap s)" "ss_result s < length (ss_heap s)" "\<forall>a \<in> set (ss_chunks s). a < length (ss_heap s)"
    using assms by (simp_all add: stream_wf_def)
  obtain d where d: "read_obj (ss_heap s) (ss_result s) = JDict d"
    using h(2) by (cases "length (ss_heap s)") (auto simp: read_obj_def)
  then have "json_wf (JDict d)" using read_obj_wf [OF h(1,2)] by simp
  moreover have "json_wf (JList (map (read_obj (ss_heap s)) (ss_chunks s)))" using h(3) read_obj_wf [OF h(1)] by simp
  ultimately have "json_wf (JDict (dset ''chunks'' (JList (map (read_obj (ss_heap s)) (ss_chunks s))) d))" by (rule json_wf_dset)
  then show ?thesis using d \<open>json_wf (JDict d)\<close> by (simp add: stream_result_def Let_def del: json_wf.simps)
qed

lemma consume_wf:
  assumes "step_wf v" "consume_step_result f keep v = (Inr res, ds)" shows "json_wf (JDict res)"
proof (cases v)
  case (Stream es)
  obtain r s where s: "take_events f False es stream_start = (r, s)" by (cases "take_events f False es stream_start")
  have "stream_wf s" using take_events_wf [OF stream_start_wf _ s] assms(1) Stream by (simp add: step_wf_def)
  from stream_result_wf [OF this, of keep] show ?thesis using assms(2) Stream s
    by (cases r) (auto simp: consume_step_result_def)
qed (use assms in \<open>auto simp: consume_step_result_def step_wf_def\<close>)

end
