(* ===== verification/Runtime_Facts.thy ===== *)
theory Runtime_Facts
  imports Json_Reads Registry_Facts Runtime Stream_Facts
begin

text \<open>
  What no operation of a run can break. The locale \<open>runtime_steps\<close> collects what a relation between
  stores needs for every action of the runtime to respect it; it is interpreted with equality of stores for a
  runtime in replay mode, and with the growth of a valid tree for a runtime on a \<open>MemoryStore\<close>.
\<close>

definition jd_wf :: "jdict \<Rightarrow> bool" where
  "jd_wf d \<longleftrightarrow> json_wf (JDict d)"

lemma jd_wf_simps [simp]: "jd_wf []" "jd_wf ((k, v) # d) \<longleftrightarrow> k \<notin> fst ` set d \<and> json_wf v \<and> jd_wf d"
  by (auto simp: jd_wf_def)

lemma jd_wf_JDict [simp]: "json_wf (JDict d) \<longleftrightarrow> jd_wf d"
  by (simp add: jd_wf_def)

declare json_wf.simps(2) [simp del]

lemma jd_wf_iff: "jd_wf d \<longleftrightarrow> distinct_keys d \<and> (\<forall>p \<in> set d. json_wf (snd p))"
  unfolding jd_wf_def json_wf.simps by (simp add: case_prod_unfold)

lemma jd_wf_dset: "jd_wf d \<Longrightarrow> json_wf v \<Longrightarrow> jd_wf (dset k v d)"
  using json_wf_dset [of d v k] by simp

lemma jd_wf_dmerge: "jd_wf d \<Longrightarrow> jd_wf e \<Longrightarrow> jd_wf (dmerge d e)"
  using json_wf_dmerge [of d e] by simp

lemma jd_wf_dget: "jd_wf d \<Longrightarrow> dget d k = Some v \<Longrightarrow> json_wf v"
  by (auto simp: jd_wf_iff dest: map_of_SomeD)

lemma jd_wf_append: "jd_wf (d @ e) \<longleftrightarrow> jd_wf d \<and> jd_wf e \<and> fst ` set d \<inter> fst ` set e = {}"
  by (auto simp: jd_wf_iff)

lemma jd_wf_opt_entry [simp]: "jd_wf (opt_entry k v)" "fst ` set (opt_entry k v) \<subseteq> {k}"
  by (auto simp: opt_entry_def split: option.splits)

lemma jd_wf_lost_entry [simp]: "jd_wf (lost_entry l)"
  by (auto simp: lost_entry_def split: option.splits)

lemma charge_to_json_wf [simp]: "json_wf (charge_to_json d)"
  by (simp add: charge_to_json_def)

lemma shared_budget_node_made:
  assumes "shared_budget_node sb = Inr e"
  shows "\<exists>pl res. make_node (kind_value ROOT) None pl 0 res [] = Inr e \<and> jd_wf pl \<and> json_wf res"
proof -
  obtain limits where l: "budget_limits (sb_budget sb) = Inr limits" using assms by (auto simp: shared_budget_node_def bindR_Inr_iff)
  let ?ls = "map (\<lambda>(k, v). (k, JStr (limit_text v))) (sort_key fst limits)"
  have "map fst ?ls = map fst (sort_key fst limits)" by (simp add: case_prod_unfold comp_def)
  then have "distinct_keys ?ls" using budget_limits_ok [OF l] distinct_keys_sort unfolding limits_ok_def by metis
  then have "jd_wf ?ls" by (auto simp: jd_wf_iff)
  then show ?thesis using assms l
    by (intro exI [of _ "[(''pollard_shared_budget'', JInt 1), (''name'', JStr (sb_name sb))]"] exI [of _ "JDict [(''limits'', JDict ?ls)]"])
      (simp add: shared_budget_node_def)
qed

section \<open>What an action returns\<close>

definition yields :: "('a \<Rightarrow> bool) \<Rightarrow> ('s, 'a) act \<Rightarrow> bool" where
  "yields Q m \<longleftrightarrow> (\<forall>s x s'. m s = Some (Inr x, s') \<longrightarrow> Q x)"

lemma yieldsD: "yields Q m \<Longrightarrow> m s = Some (Inr x, s') \<Longrightarrow> Q x"
  by (auto simp: yields_def)

lemma yields_simps [simp]:
  "yields Q (ret x) \<longleftrightarrow> Q x" "yields Q (failA e)" "yields Q (liftR r) \<longleftrightarrow> (\<forall>x. r = Inr x \<longrightarrow> Q x)"
  by (auto simp: yields_def ret_def failA_def liftR_def)

lemma yields_reader: "(\<And>s x. f s = Inr x \<Longrightarrow> Q x) \<Longrightarrow> yields Q (\<lambda>s. liftR (f s) s)"
  "(\<And>s x. g s = Some (Inr x) \<Longrightarrow> Q x) \<Longrightarrow> yields Q (\<lambda>s. liftO (g s) s)"
  by (auto simp: yields_def liftR_def liftO_def)

lemma yields_bindA: "yields P m \<Longrightarrow> (\<And>x. P x \<Longrightarrow> yields Q (f x)) \<Longrightarrow> yields Q (bindA m f)"
  unfolding yields_def bindA_Inr_iff by blast

lemma yields_any [simp]: "yields (\<lambda>_. True) m"
  by (simp add: yields_def)

lemma keeps_bind_yields:
  assumes "preorder_rel R" "keeps R m" "yields Q m" "\<And>x. Q x \<Longrightarrow> keeps R (f x)" shows "keeps R (bindA m f)"
proof -
  have "R s s'" if b: "bindA m f s = Some (r, s')" for s r s'
  proof -
    obtain q t where m: "m s = Some (q, t)" using b by (cases "m s") (auto simp: bindA_def)
    then have st: "R s t" using assms(2) by (rule keepsD [rotated])
    show ?thesis
    proof (cases q)
      case (Inl e)
      then show ?thesis using b m st by (auto simp: bindA_def)
    next
      case (Inr x)
      then have "f x t = Some (r, s')" "Q x" using b m yieldsD [OF assms(3)] by (simp_all add: bindA_def)
      then have "R t s'" using keepsD [OF assms(4)] by blast
      then show ?thesis using st assms(1) unfolding preorder_rel_def by blast
    qed
  qed
  then show ?thesis by (simp add: keeps_def)
qed

text \<open>
  Inputs whose objects have distinct keys and whose floats are floats, as every Python value's are: readings of
  a moment, results of a step function, and answers of a comparator.
\<close>

definition moment_ok :: "moment \<Rightarrow> bool" where
  "moment_ok mo \<longleftrightarrow> py_float (mo_duration mo) = mo_duration mo \<and> (\<forall>d. Inr d \<in> set (mo_readings mo) \<longrightarrow> jd_wf d)"

definition fn_ok :: "step_fn \<Rightarrow> bool" where
  "fn_ok fn \<longleftrightarrow> (\<forall>pl v. fn pl = Inr v \<longrightarrow> step_wf v)"

lemma snapshot_payload_wf: "snapshot_payload pl = Inr d \<Longrightarrow> jd_wf d"
proof -
  assume "snapshot_payload pl = Inr d"
  then obtain b v where v: "json_loads_bytes b = Inr v" "is_dict v" "d = dict_items v"
    by (auto simp: snapshot_payload_def bindR_Inr_iff split: if_splits)
  then have "json_wf v" by (auto simp: json_loads_bytes_def dest: json_loads_wf split: option.splits)
  then show "jd_wf d" using v by (cases v) auto
qed

lemma charge_entry_wf:
  assumes "charge_entry rt kd pl res md est m amount acc = acc'" "jd_wf (fst acc)" "jd_wf (snd acc)"
  shows "jd_wf (fst acc') \<and> jd_wf (snd acc')"
  using assms by (auto simp: charge_entry_def Let_def intro!: jd_wf_dset split: option.splits)

lemma charge_metersQ:
  "jd_wf (fst acc) \<Longrightarrow> jd_wf (snd acc) \<Longrightarrow>
    yields (\<lambda>p. jd_wf (fst p) \<and> jd_wf (snd p)) (charge_meters rt kd pl res md est i ms acc)"
proof (induction ms arbitrary: i acc)
  case Nil
  then show ?case by (simp add: yields_def ret_def)
next
  case (Cons m ms)
  have "yields (\<lambda>p. jd_wf (fst p) \<and> jd_wf (snd p)) (charge_meters rt kd pl res md est j ms (charge_entry rt kd pl res md est m' a acc))" for j m' a
    by (rule Cons.IH) (rule charge_entry_wf [OF refl Cons.prems, THEN conjunct1] charge_entry_wf [OF refl Cons.prems, THEN conjunct2])+
  then show ?case by (auto intro!: yields_bindA [where P = "\<lambda>_. True"] split: prod.split)
qed

lemma call_chargesQ: "jd_wf md \<Longrightarrow> yields (\<lambda>p. jd_wf (fst p) \<and> jd_wf (snd p)) (call_charges rt kd pl res md resv)"
  unfolding call_charges_def
  by (rule yields_bindA [where P = "\<lambda>_. True"], simp, rule yields_bindA [OF charge_metersQ])
    (auto simp: jd_wf_dset)

definition resv_ok :: "reservation option \<Rightarrow> bool" where
  "resv_ok resv \<longleftrightarrow> (case resv of None \<Rightarrow> True | Some r \<Rightarrow> distinct_keys (re_estimates r))"

lemma estimated_charges_wf: "resv_ok resv \<Longrightarrow> jd_wf (estimated_charges resv)"
proof (cases resv)
  case (Some r)
  assume "resv_ok resv"
  then have "distinct_keys (filter f (sort_key fst (re_estimates r)))" for f
    by (simp add: Some resv_ok_def distinct_map_filter)
  then show ?thesis by (simp add: Some estimated_charges_def jd_wf_iff case_prod_unfold comp_def)
qed (simp add: estimated_charges_def)

section \<open>Redacted arguments\<close>

lemma foldR_inv:
  "foldR f s xs = Inr t \<Longrightarrow> P s \<Longrightarrow> (\<And>s x s'. x \<in> set xs \<Longrightarrow> P s \<Longrightarrow> f s x = Inr s' \<Longrightarrow> P s') \<Longrightarrow> P t"
  by (induction xs arbitrary: s) (auto simp: bindR_Inr_iff)

lemma redact_wf: "redact v hint = Inr d \<Longrightarrow> jd_wf d"
  by (auto simp: redact_def bindR_Inr_iff REDACTION_KEY_def split: option.splits)

lemma mapR_wf: "mapR f xs = Inr ys \<Longrightarrow> (\<And>x y. x \<in> set xs \<Longrightarrow> f x = Inr y \<Longrightarrow> json_wf y) \<Longrightarrow> \<forall>y \<in> set ys. json_wf y"
proof (induction xs arbitrary: ys)
  case (Cons x xs)
  then obtain z zs where z: "f x = Inr z" "mapR f xs = Inr zs" "ys = z # zs" by (auto simp: bindR_Inr_iff)
  have "json_wf z" using Cons.prems(2) [OF _ z(1)] by simp
  moreover have "\<forall>y \<in> set zs. json_wf y" by (rule Cons.IH [OF z(2)]) (rule Cons.prems(2), auto)
  ultimately show ?case using z(3) by simp
qed simp

lemma redact_sensitive_wf: "redact_sensitive v s = Inr w \<Longrightarrow> json_wf v \<Longrightarrow> json_wf w"
proof (induction "size s" arbitrary: v s w rule: less_induct)
  case less
  show ?case
  proof (cases "schema_get s ''sensitive'' = JBool True \<and> is_str v")
    case True
    then show ?thesis using less.prems by (auto simp: redact_sensitive.simps [of v s] bindR_Inr_iff dest: redact_wf)
  next
    case False
    obtain u where u: "(if is_list (schema_get s ''anyOf'')
        then bindR (matching_branches v (filter is_dict (list_items (schema_get s ''anyOf'')))) (\<lambda>bs. foldR redact_sensitive v bs)
        else Inr v) = Inr u"
      and w: "(if is_dict u then
         (if \<not> is_dict (schema_get s ''properties'') then Inr u
          else bindR (foldR (\<lambda>d (name, child). case dget d name of
                  None \<Rightarrow> Inr d
                | Some x \<Rightarrow> if is_dict child then bindR (redact_sensitive x child) (\<lambda>y. Inr (dset name y d)) else Inr d)
                (dict_items u) (dict_items (schema_get s ''properties''))) (\<lambda>d. Inr (JDict d)))
       else if is_list u \<and> is_dict (schema_get s ''items'')
       then bindR (mapR (\<lambda>item. redact_sensitive item (schema_get s ''items'')) (list_items u)) (\<lambda>ys. Inr (JList ys))
       else Inr u) = Inr w"
      using less.prems(1) False by (auto simp: redact_sensitive.simps [of v s] bindR_Inr_iff)
    have uw: "json_wf u"
    proof (cases "is_list (schema_get s ''anyOf'')")
      case True
      then obtain bs where bs: "matching_branches v (filter is_dict (list_items (schema_get s ''anyOf''))) = Inr bs" "foldR redact_sensitive v bs = Inr u"
        using u by (auto simp: bindR_Inr_iff)
      show ?thesis
      proof (rule foldR_inv [where P = json_wf, OF bs(2) less.prems(2)])
        fix a x b assume x: "x \<in> set bs" "json_wf a" "redact_sensitive a x = Inr b"
        then have "x \<in> set (filter is_dict (list_items (schema_get s ''anyOf'')))" using matching_branches_subset [OF bs(1)] by blast
        then have "size x < size s" using schema_child_size(2) [of x s] by auto
        from less.hyps [OF this x(3,2)] show "json_wf b" .
      qed
    qed (use u less.prems(2) in simp)
    show ?thesis
    proof (cases "is_dict u")
      case True
      then obtain d where d: "u = JDict d" by (cases u) auto
      show ?thesis
      proof (cases "is_dict (schema_get s ''properties'')")
        case T: True
        then obtain d' where d': "foldR (\<lambda>d (name, child). case dget d name of
                  None \<Rightarrow> Inr d
                | Some x \<Rightarrow> if is_dict child then bindR (redact_sensitive x child) (\<lambda>y. Inr (dset name y d)) else Inr d)
                d (dict_items (schema_get s ''properties'')) = Inr d'" "w = JDict d'"
          using w d by (auto simp: bindR_Inr_iff)
        have "jd_wf d" using uw d by simp
        have "jd_wf d'"
        proof (rule foldR_inv [where P = jd_wf, OF d'(1) \<open>jd_wf d\<close>])
          fix e p e' assume p: "p \<in> set (dict_items (schema_get s ''properties''))" "jd_wf e"
            and e': "(case p of (name, child) \<Rightarrow> case dget e name of None \<Rightarrow> Inr e
                | Some x \<Rightarrow> if is_dict child then bindR (redact_sensitive x child) (\<lambda>y. Inr (dset name y e)) else Inr e) = Inr e'"
          obtain name child where nc: "p = (name, child)" by (cases p)
          have "size child < size s" using p(1) nc schema_child_size(1) [of name child s] by auto
          then show "jd_wf e'" using e' nc p(2) less.hyps [of child]
            by (auto simp: bindR_Inr_iff dest: jd_wf_dget intro!: jd_wf_dset split: option.splits if_splits)
        qed
        then show ?thesis using d'(2) by simp
      qed (use w uw True in simp)
    next
      case F: False
      show ?thesis
      proof (cases "is_list u \<and> is_dict (schema_get s ''items'')")
        case True
        then obtain xs ys where u': "u = JList xs" and ys: "mapR (\<lambda>item. redact_sensitive item (schema_get s ''items'')) xs = Inr ys" "w = JList ys"
          using w F by (cases u) (auto simp: bindR_Inr_iff)
        have "is_dict s" using True by (cases s) (auto simp: schema_get_def dget_or_def)
        moreover have "schema_get s ''items'' \<noteq> JNull" using True by auto
        ultimately have sz: "size (schema_get s ''items'') < size s" by (simp add: schema_get_size)
        have "\<forall>y \<in> set ys. json_wf y" using less.hyps [OF sz] uw u' by (intro mapR_wf [OF ys(1)]) auto
        then show ?thesis using ys(2) by simp
      qed (use w uw F in \<open>simp split: if_splits\<close>)
    qed
  qed
qed

lemma redact_args_wf: "redact_args spec args = Inr a \<Longrightarrow> jd_wf args \<Longrightarrow> jd_wf a"
proof -
  assume r: "redact_args spec args = Inr a" and "jd_wf args"
  then obtain v where v: "redact_sensitive (JDict args) (JDict (sp_schema spec)) = Inr v" "is_dict v" "a = dict_items v"
    by (auto simp: redact_args_def bindR_Inr_iff split: if_splits)
  then have "json_wf v" using redact_sensitive_wf [OF v(1)] \<open>jd_wf args\<close> by simp
  then show ?thesis using v by (cases v) auto
qed

text \<open>What the hooks and handlers of a runtime return, likewise.\<close>

definition hooks_ok :: "'st runtime \<Rightarrow> bool" where
  "hooks_ok rt \<longleftrightarrow>
    (\<forall>name k pl r a. rt_refusal rt name k pl = Some r \<longrightarrow> pr_audit_meta r = Some a \<longrightarrow> jd_wf a) \<and>
    (\<forall>m v. rt_describe rt m = Inr v \<longrightarrow> json_wf v) \<and>
    (\<forall>name h args v. dget (rt_handlers rt) name = Some h \<longrightarrow> h args = Inr (Returned v) \<longrightarrow> step_wf v)"

lemma hooks_okD:
  assumes "hooks_ok rt"
  shows "rt_refusal rt name k pl = Some r \<Longrightarrow> pr_audit_meta r = Some a \<Longrightarrow> jd_wf a"
    and "rt_describe rt m = Inr v \<Longrightarrow> json_wf v"
    and "dget (rt_handlers rt) action = Some h \<Longrightarrow> h args = Inr (Returned sv) \<Longrightarrow> step_wf sv"
  using assms unfolding hooks_ok_def by blast+

locale runtime_steps =
  fixes rt :: "'st runtime" and R :: "'st \<Rightarrow> 'st \<Rightarrow> bool" and good :: "node \<Rightarrow> bool"
  assumes R_refl: "R st st" and R_trans: "R st su \<Longrightarrow> R su sv \<Longrightarrow> R st sv"
    and made: "make_node k p pl att res md = Inr n \<Longrightarrow> jd_wf pl \<Longrightarrow> json_wf res \<Longrightarrow> jd_wf md \<Longrightarrow> good n"
    and put: "rt_mode rt \<noteq> REPLAY \<Longrightarrow> good n \<Longrightarrow> s_put (rt_ops rt) n st = Inr st' \<Longrightarrow> R st st'"
    and update: "rt_mode rt \<noteq> REPLAY \<Longrightarrow> jd_wf patch \<Longrightarrow> s_update_meta (rt_ops rt) i patch st = Inr st' \<Longrightarrow> R st st'"
    and avoided: "rt_mode rt \<noteq> REPLAY \<Longrightarrow> jd_wf charges \<Longrightarrow> record_avoided_charges (rt_ops rt) i charges st = Inr st' \<Longrightarrow> R st st'"
    and arbiter: "rt_mode rt \<noteq> REPLAY \<Longrightarrow> rt_arbiter rt = Some ar \<Longrightarrow>
      R st (snd (ar_reserve ar r bs ws l st)) \<and> R st (snd (ar_settle ar r cs st)) \<and> R st (snd (ar_release ar r st))"
begin

definition RR :: "'st run \<Rightarrow> 'st run \<Rightarrow> bool" where
  "RR s s' \<longleftrightarrow> R (rn_store s) (rn_store s')"

lemma RR_preorder [intro!]: "preorder_rel RR"
  using R_refl R_trans unfolding preorder_rel_def RR_def by blast

lemma frame: "rn_store s' = rn_store s \<Longrightarrow> RR s s'"
  by (simp add: RR_def R_refl)

lemmas pure = keeps_pure [OF RR_preorder]
lemmas bind = keeps_bindA [OF RR_preorder]
lemmas bindQ = keeps_bind_yields [OF RR_preorder]
lemmas forK = keeps_forA [OF RR_preorder]
lemmas mapK = keeps_mapA [OF RR_preorder]
lemmas whenK = keeps_whenA [OF RR_preorder]
lemmas cases_keep = keeps_if keeps_option keeps_sum keeps_prod keeps_Let

lemma reader: "keeps RR (\<lambda>s. liftO (f s) s)" "keeps RR (\<lambda>s. liftR (g s) s)" "keeps RR (\<lambda>s. ret (h s) s)" "keeps RR (\<lambda>s. Some (r s, s))"
  by (auto simp: keeps_def liftO_def liftR_def ret_def frame)

lemma modK: "(\<And>s. rn_store (f s) = rn_store s) \<Longrightarrow> keeps RR (modA f)"
  by (rule keeps_modA) (simp add: frame)

lemma storeK: "(\<And>st r st'. f st = Some (r, st') \<Longrightarrow> R st st') \<Longrightarrow> keeps RR (on_store f)"
  by (auto simp: keeps_def on_store_def RR_def)

lemmas keep = pure reader cases_keep forK mapK whenK keeps_tryA

lemma set_cursorK: "keeps RR (set_cursor i)"
  unfolding set_cursor_def by (rule modK) simp

lemma store_getK: "keeps RR (store_get rt i)"
  unfolding store_get_def [abs_def] by (rule reader)

lemma node_at_cursorK: "keeps RR (node_at_cursor k pl att res md)"
  unfolding node_at_cursor_def [abs_def] by (rule reader)

lemma node_at_cursorQ: "jd_wf pl \<Longrightarrow> json_wf res \<Longrightarrow> jd_wf md \<Longrightarrow> yields good (node_at_cursor k pl att res md)"
  by (auto simp: yields_def node_at_cursor_def dest: made)

lemma put_nodeK: "good n \<Longrightarrow> keeps RR (put_node rt n)"
  unfolding put_node_def
  by (intro keep bind store_getK) (auto simp: keeps_def store_put_def RR_def R_refl intro: put split: sum.splits)

lemma put_at_cursorK: "good n \<Longrightarrow> keeps RR (put_at_cursor rt n)"
  unfolding put_at_cursor_def by (intro bind keep put_nodeK set_cursorK)

lemma update_metaK: "rt_mode rt \<noteq> REPLAY \<Longrightarrow> jd_wf patch \<Longrightarrow> keeps RR (store_update_meta rt i patch)"
  by (auto simp: keeps_def store_update_meta_def RR_def R_refl intro: update split: sum.splits)

lemma validate_agent_cursorK: "keeps RR (validate_agent_cursor rt)"
proof -
  have "keeps RR (\<lambda>s. case rn_anchor s of None \<Rightarrow> ret () s | Some anchor \<Rightarrow> liftO (f anchor s) s)" for f
    by (auto simp: keeps_def liftO_def ret_def frame split: option.splits)
  then show ?thesis unfolding validate_agent_cursor_def by (intro bind reader)
qed

lemma refuse_nodeK: "jd_wf pl \<Longrightarrow> jd_wf md \<Longrightarrow> keeps RR (refuse_node rt pl md e)"
  unfolding refuse_node_def
  by (rule bindQ [OF node_at_cursorK node_at_cursorQ]) (auto intro!: bind keep put_at_cursorK)

lemma refuse_policyK: "keeps RR (refuse_policy rt mo detail blocked)"
  unfolding refuse_policy_def by (intro bind keep refuse_nodeK) (auto split: option.splits)

lemma refuse_budgetK: "keeps RR (refuse_budget rt mo check kd blocked b reason w)"
  unfolding refuse_budget_def by (intro bind keep refuse_nodeK) (auto simp: window_seconds_json_def split: option.splits)

lemma refuse_meterK:
  assumes hooks: "hooks_ok rt" and "rt_refusal rt name' kd' pl' = Some r" shows "keeps RR (refuse_meter rt mo name r kd blocked)"
proof -
  have "jd_wf a" if "validated_audit_meta r = Inr (Some a)" for a
    using that hooks_okD(1) [OF hooks assms(2)]
    by (auto simp: validated_audit_meta_def copy_audit_meta_def Let_def split: option.splits if_splits)
  then have "yields (\<lambda>audit. jd_wf (case audit of None \<Rightarrow> [] | Some a \<Rightarrow> a)) (liftR (validated_audit_meta r))"
    by (auto split: option.split)
  then show ?thesis unfolding refuse_meter_def Let_def
    by (rule bindQ [OF pure(3)])
      (auto intro!: bind keep refuse_nodeK jd_wf_dmerge simp: opt_entry_def jd_wf_append split: option.splits)
qed

lemma bind_configurationK: "good e \<Longrightarrow> bind_configuration (rt_ops rt) (rt_mode rt) e st = Some (r, st') \<Longrightarrow> R st st'"
  by (auto simp: bind_configuration_def R_refl intro: put split: if_splits sum.splits)

lemma bind_shared_budgetK: "keeps RR (on_store (bind_shared_budget (rt_ops rt) (rt_mode rt) sb))"
proof (rule storeK)
  fix st r st' assume b: "bind_shared_budget (rt_ops rt) (rt_mode rt) sb st = Some (r, st')"
  show "R st st'"
  proof (cases "shared_budget_node sb")
    case (Inr n)
    from shared_budget_node_made [OF this] obtain pl res where
      "make_node (kind_value ROOT) None pl 0 res [] = Inr n" "jd_wf pl" "json_wf res" by blast
    then have "good n" by (rule made) simp
    then show ?thesis using b Inr by (auto simp: bind_shared_budget_def intro: bind_configurationK)
  qed (use b in \<open>auto simp: bind_shared_budget_def R_refl\<close>)
qed

lemma bind_windowK:
  assumes hooks: "hooks_ok rt" shows "keeps RR (on_store (bind_window rt m))"
proof (rule storeK)
  fix st r st' assume b: "bind_window rt m st = Some (r, st')"
  show "R st st'"
  proof (cases "\<exists>name l secs sc w. m = Window_meter name l secs (Some sc) w")
    case True
    then obtain name l secs sc w where m: "m = Window_meter name l secs (Some sc) w" by blast
    show ?thesis
    proof (cases "rt_describe rt w")
      case (Inr v)
      then have v: "json_wf v" by (rule hooks_okD(2) [OF hooks])
      show ?thesis using b Inr v unfolding m bind_window_def
        by (auto simp: R_refl split: sum.splits intro!: bind_configurationK made)
    qed (use b m in \<open>auto simp: bind_window_def R_refl\<close>)
  next
    case False
    then have "bind_window rt m st = Some (Inl (ValueError ''window has no named scope''), st)"
      by (cases m) (auto simp: bind_window_def split: option.splits)
    then show ?thesis using b by (simp add: R_refl)
  qed
qed

lemma validate_sharedK:
  assumes hooks: "hooks_ok rt" shows "keeps RR (validate_shared rt)"
proof -
  have "keeps RR (bindA (forA (\<lambda>sb. bindA (on_store (bind_shared_budget (rt_ops rt) (rt_mode rt) sb)) (\<lambda>_. ret ())) (rt_shared rt)) (\<lambda>_.
       forA (\<lambda>w. bindA (on_store (bind_window rt w)) (\<lambda>_. ret ())) ws))" for ws
    by (intro bind keep bind_shared_budgetK bind_windowK [OF hooks])
  then show ?thesis
    by (auto simp: keeps_def validate_shared_def Let_def ret_def failA_def frame split: if_splits)
qed

lemma estimate_stepK: "hooks_ok rt \<Longrightarrow> keeps RR (estimate_step rt mo kd pl acc m)"
  unfolding estimate_step_def by (intro keep bind refuse_meterK)

lemma estimate_metersK: "hooks_ok rt \<Longrightarrow> keeps RR (estimate_meters rt mo kd pl acc ms)"
  by (induction ms arbitrary: acc) (auto intro: keep bind estimate_stepK)

lemma estimatesK: "hooks_ok rt \<Longrightarrow> keeps RR (estimates rt mo kd pl)"
  unfolding estimates_def by (intro bind keep estimate_metersK)

lemma scope_spentK: "keeps RR (scope_spent rt sc)"
  unfolding scope_spent_def [abs_def] by (rule reader)

lemma check_scopeK: "keeps RR (check_scope rt mo kd pl est ap sc)"
  unfolding check_scope_def by (intro bind keep scope_spentK refuse_budgetK)

lemma budget_requestK: "keeps RR (budget_request rt est sc)"
  unfolding budget_request_def by (intro bind keep scope_spentK)

lemma window_requestK: "keeps RR (window_request i kd pl m)"
  unfolding window_request_def by (intro bind keep)

lemma run_windowsK: "keeps RR (\<lambda>s. mapA (window_request (rn_root s) kd pl) (filter is_window (rn_meters s)) s)"
  unfolding keeps_def by (intro allI impI) (rule keepsD [OF mapK [OF window_requestK]])

lemma reserveK: "rt_mode rt \<noteq> REPLAY \<Longrightarrow> rt_arbiter rt = Some ar \<Longrightarrow>
    keeps RR (on_store (\<lambda>st. Some (ar_reserve ar i bs ws l st)))"
  "rt_mode rt \<noteq> REPLAY \<Longrightarrow> rt_arbiter rt = Some ar \<Longrightarrow> keeps RR (on_store (\<lambda>st. Some (ar_settle ar i cs st)))"
  "rt_mode rt \<noteq> REPLAY \<Longrightarrow> rt_arbiter rt = Some ar \<Longrightarrow> keeps RR (on_store (\<lambda>st. Some (ar_release ar i st)))"
  using arbiter by (auto simp: keeps_def on_store_def RR_def prod_eq_iff case_prod_unfold)

lemma precheckK: "hooks_ok rt \<Longrightarrow> rt_mode rt \<noteq> REPLAY \<Longrightarrow> keeps RR (precheck rt mo kd pl)"
  unfolding precheck_def refuse_reservation_def
  by (intro bind keep validate_agent_cursorK validate_sharedK estimatesK check_scopeK budget_requestK run_windowsK
      reserveK refuse_budgetK)

lemma settle_reservationK: "rt_mode rt \<noteq> REPLAY \<Longrightarrow> keeps RR (settle_reservation rt resv charges)"
  unfolding settle_reservation_def by (intro keep bind reserveK) auto

lemma release_reservationK: "rt_mode rt \<noteq> REPLAY \<Longrightarrow> keeps RR (release_reservation rt resv)"
  unfolding release_reservation_def by (intro keep bind reserveK) auto

lemma settle_scopeK: "keeps RR (settle_scope rt sc)"
  unfolding settle_scope_def by (intro keep bind scope_spentK)

lemma settle_scopes_fromK: "keeps RR (settle_scopes_from rt i scs)"
  by (induction scs arbitrary: i) (auto intro!: keep bind settle_scopeK modK)

lemma settle_scopesK: "keeps RR (settle_scopes rt)"
  unfolding settle_scopes_def by (intro keep bind settle_scopes_fromK)

lemma charge_metersK: "keeps RR (charge_meters rt kd pl res md est i ms acc)"
proof (induction ms arbitrary: i acc)
  case Nil
  then show ?case by (simp add: pure)
next
  case (Cons m ms)
  show ?case unfolding charge_meters.simps by (intro keep bind modK Cons) simp
qed

lemma call_chargesK: "keeps RR (call_charges rt kd pl res md resv)"
  unfolding call_charges_def by (intro keep bind charge_metersK)

lemma estimate_stepQ:
  "distinct_keys (fst acc) \<Longrightarrow> yields (\<lambda>p. distinct_keys (fst p)) (estimate_step rt mo kd pl acc m)"
proof (cases "rt_refusal rt (meter_name m) kd pl")
  case None
  assume "distinct_keys (fst acc)"
  then show ?thesis using None unfolding estimate_step_def
    by (auto intro!: yields_bindA [where P = "\<lambda>_. True"] split: option.split)
next
  case (Some r)
  have "yields Q (refuse_meter rt mo (meter_name m) r kd pl)" for Q :: "'b \<Rightarrow> bool"
    unfolding refuse_meter_def refuse_node_def Let_def by (intro yields_bindA [where P = "\<lambda>_. True"]) simp_all
  then show ?thesis using Some by (simp add: estimate_step_def)
qed

lemma estimate_metersQ:
  "distinct_keys (fst acc) \<Longrightarrow> yields (\<lambda>p. distinct_keys (fst p)) (estimate_meters rt mo kd pl acc ms)"
  by (induction ms arbitrary: acc) (auto intro!: yields_bindA [OF estimate_stepQ])

lemma estimatesQ: "yields (\<lambda>p. distinct_keys (fst p)) (estimates rt mo kd pl)"
  unfolding estimates_def
  by (rule yields_bindA [where P = "\<lambda>_. True"], simp, rule yields_bindA [OF estimate_metersQ])
    (auto intro!: yields_bindA [where P = "\<lambda>_. True"])

lemma refuse_budgetQ: "yields Q (refuse_budget rt mo check kd blocked b reason w)"
  unfolding refuse_budget_def refuse_node_def Let_def by (intro yields_bindA [where P = "\<lambda>_. True"]) simp_all

lemma precheckQ: "yields resv_ok (precheck rt mo kd pl)"
  unfolding precheck_def
proof (rule yields_bindA [where P = "\<lambda>_. True"], simp, rule yields_bindA [where P = "\<lambda>_. True"], simp,
    rule yields_bindA [OF estimatesQ], clarsimp)
  fix est :: decimals and ap assume d: "distinct_keys est"
  then have r: "resv_ok None" "resv_ok (Some \<lparr>re_id = i, re_estimates = est\<rparr>)" for i by (simp_all add: resv_ok_def)
  show "yields resv_ok (bindA (getA rn_scopes) (\<lambda>scopes. bindA (forA (check_scope rt mo kd pl est ap) scopes) (\<lambda>_.
    if \<not> is_call kd then ret None
    else case rt_arbiter rt of
      None \<Rightarrow> ret (Some \<lparr>re_id = None, re_estimates = est\<rparr>)
    | Some ar \<Rightarrow>
        bindA (mapA (budget_request rt est) scopes) (\<lambda>budgets.
        bindA (\<lambda>s. mapA (window_request (rn_root s) kd pl) (filter is_window (rn_meters s)) s) (\<lambda>windows.
        if budgets = [] \<and> windows = [] then ret (Some \<lparr>re_id = None, re_estimates = est\<rparr>)
        else bindA (on_store (\<lambda>st. Some (ar_reserve ar (mo_uuid mo) budgets windows (rt_lease_seconds rt) st))) (\<lambda>c.
          if rc_ok c then ret (Some \<lparr>re_id = Some (mo_uuid mo), re_estimates = est\<rparr>)
          else refuse_reservation rt mo kd pl ap c))))))"
    using r by (auto intro!: yields_bindA [where P = "\<lambda>_. True"] refuse_budgetQ simp: refuse_reservation_def split: option.split)
qed

lemma record_unknown_outcomeK:
  assumes "rt_mode rt \<noteq> REPLAY" "moment_ok mo" "resv_ok resv"
  shows "keeps RR (record_unknown_outcome rt mo k pl att resv e lost u)"
proof -
  have md: "jd_wf (([(''created_at'', JStr (mo_now mo)), (''duration_s'', JFloat (mo_duration mo)),
      (''charges'', JDict (estimated_charges resv)), (''failure'', JDict [(''outcome'', JStr (uc_outcome u)),
        (''phase'', JStr (uc_phase u)), (''error_type'', JStr (exc_name e))])] @
      opt_entry ''reservation_id'' (reservation_id resv) @ lost_entry lost) @ (case settled of Inr _ \<Rightarrow> []
      | Inl e' \<Rightarrow> [(''settlement'', JDict [(''status'', JStr ''uncertain''), (''error_type'', JStr (exc_name e'))])]))" for settled :: "unit res"
    using assms(2) estimated_charges_wf [OF assms(3)]
    by (auto simp: jd_wf_append moment_ok_def opt_entry_def lost_entry_def split: sum.split option.split)
  show ?thesis unfolding record_unknown_outcome_def Let_def
    by (rule bind [OF keeps_tryA [OF settle_reservationK [OF assms(1)]]], rule bind [OF pure(3)],
        rule bindQ [OF node_at_cursorK node_at_cursorQ], simp, simp, rule md,
        intro bind keep put_at_cursorK settle_scopesK)
qed

lemma dispatchK: "keeps RR (dispatch mo fn pl f keep_chunks)"
  unfolding dispatch_def by (intro keep bind modK) simp

lemma dispatchQ: "fn_ok fn \<Longrightarrow> yields (\<lambda>p. \<forall>res. snd p = Some res \<longrightarrow> jd_wf res) (dispatch mo fn pl f keep_chunks)"
proof -
  assume fn: "fn_ok fn"
  have c: "jd_wf res" if "fn pl = Inr v" "consume_step_result f keep_chunks v = (Inr res, ds)" for v res ds
    using consume_wf [OF _ that(2)] fn that(1) by (auto simp: fn_ok_def)
  show ?thesis
  proof (cases "mo_start mo")
    case None
    obtain r ds where r: "(case fn pl of Inl e \<Rightarrow> (Inl e, []) | Inr v \<Rightarrow> consume_step_result f keep_chunks v) = (r, ds)"
      by (cases "case fn pl of Inl e \<Rightarrow> (Inl e, []) | Inr v \<Rightarrow> consume_step_result f keep_chunks v")
    have "jd_wf res" if "r = Inr res" for res using r that c by (cases "fn pl") auto
    then show ?thesis unfolding dispatch_def None option.case r prod.case
      by (intro yields_bindA [where P = "\<lambda>_. True"]) (auto split: sum.split)
  qed (simp add: dispatch_def)
qed

lemma completed_nodeK: "keeps RR (completed_node rt mo k pl mpl att resv res lost)"
  unfolding completed_node_def by (intro bind keep call_chargesK node_at_cursorK)

lemma readings_wf: "foldR (\<lambda>md r. bindR r (\<lambda>d. Inr (dmerge md d))) md rs = Inr md' \<Longrightarrow> jd_wf md \<Longrightarrow>
    \<forall>d. Inr d \<in> set rs \<longrightarrow> jd_wf d \<Longrightarrow> jd_wf md'"
proof (induction rs arbitrary: md)
  case (Cons r rs)
  then obtain d where r: "r = Inr d" by (cases r) auto
  then have "jd_wf (dmerge md d)" using Cons.prems(2,3) by (intro jd_wf_dmerge) simp_all
  from Cons.IH [OF _ this] show ?case using Cons.prems r by simp
qed simp

lemma completed_nodeQ:
  assumes "moment_ok mo" "jd_wf pl" "jd_wf res"
  shows "yields (\<lambda>p. good (snd p)) (completed_node rt mo k pl mpl att resv res lost)"
proof -
  have md: "jd_wf md" if "foldR (\<lambda>md r. bindR r (\<lambda>d. Inr (dmerge md d)))
      [(''created_at'', JStr (mo_now mo)), (''duration_s'', JFloat (mo_duration mo))] (mo_readings mo) = Inr md" for md
    using readings_wf [OF that] assms(1) by (simp add: moment_ok_def)
  have u: "jd_wf u" if "dget_or res ''usage'' JNull = JDict u" for u
    using that assms(3) jd_wf_dget [of res "''usage''" "JDict u"] by (auto simp: dget_or_def split: option.splits)
  have final: "jd_wf (dmerge (case dget_or res ''usage'' JNull of JDict u \<Rightarrow> dset ''usage'' (JDict u) m | _ \<Rightarrow> m) (lost_entry lost))"
    if "jd_wf m" for m
    using that u by (intro jd_wf_dmerge) (auto intro: jd_wf_dset split: json.split)
  show ?thesis unfolding completed_node_def Let_def
  proof (rule yields_bindA [where P = jd_wf])
    fix md assume "jd_wf md"
    then show "yields (\<lambda>p. good (snd p)) (bindA (call_charges rt (kind_value k) mpl res md resv) (\<lambda>(charges, md).
        bindA (node_at_cursor k pl att (JDict res) (dmerge (case dget_or res ''usage'' JNull of
            JDict u \<Rightarrow> dset ''usage'' (JDict u) (dset ''charges'' (JDict charges) md)
          | _ \<Rightarrow> dset ''charges'' (JDict charges) md) (lost_entry lost))) (\<lambda>n. ret (charges, n))))"
      by (rule yields_bindA [OF call_chargesQ])
        (auto intro!: yields_bindA [OF node_at_cursorQ] final jd_wf_dset assms)
  qed (use md in simp)
qed

lemma call_failedK:
  "rt_mode rt \<noteq> REPLAY \<Longrightarrow> moment_ok mo \<Longrightarrow> resv_ok resv \<Longrightarrow> keeps RR (call_failed rt mo k pl att resv e res)"
  unfolding call_failed_def by (intro keep bind record_unknown_outcomeK release_reservationK)

lemma call_completedK:
  assumes "rt_mode rt \<noteq> REPLAY" "moment_ok mo" "resv_ok resv" "jd_wf pl" "jd_wf res"
  shows "keeps RR (call_completed rt mo k pl mpl att resv res)"
proof -
  have q: "yields (\<lambda>made. \<forall>p. made = Inr p \<longrightarrow> good (snd p)) (tryA (completed_node rt mo k pl mpl att resv res lost))" for lost
    using yieldsD [OF completed_nodeQ [OF assms(2,4,5)]] by (fastforce simp: yields_def tryA_def)
  show ?thesis unfolding call_completed_def
    by (rule keeps_prod, rule keeps_option, rule bindQ [OF keeps_tryA [OF completed_nodeK] q])
      (auto intro!: bind keep record_unknown_outcomeK settle_reservationK put_at_cursorK settle_scopesK assms
        split: prod.split option.split)
qed

section \<open>Recorded calls\<close>

lemma add_run_avoidedK: "keeps RR (add_run_avoided charges)"
  unfolding add_run_avoided_def by (intro bind keep modK) simp

lemma deliverK: "keeps RR (deliver p)"
  unfolding deliver_def by (intro bind keep modK) simp

lemma recorded_nodeK: "keeps RR (recorded_node rt k pl att f)"
proof -
  have step: "jd_wf (fst acc) \<Longrightarrow> avoided_step kd pl n acc m = Inr acc' \<Longrightarrow> jd_wf (fst acc')" for kd pl n acc m acc'
    by (auto simp: avoided_step_def bindR_Inr_iff intro!: jd_wf_dset split: prod.splits if_splits)
  have charges: "jd_wf (fst p)" if "foldR (avoided_step kd pl n) acc ms = Inr p" "jd_wf (fst acc)" for kd pl n acc ms p
    using that by (induction ms arbitrary: acc) (auto simp: bindR_Inr_iff dest: step)
  have av: "R st st'" if "rt_mode rt = HYBRID" "jd_wf cs"
      "(case record_avoided_charges (rt_ops rt) i cs st of Inl e \<Rightarrow> Some (Inl e, st) | Inr st' \<Rightarrow> Some (Inr (), st')) = Some (r, st')"
    for i cs st r st'
    using that avoided [of cs i st] by (auto simp: R_refl split: sum.splits)
  have q: "yields (\<lambda>p. jd_wf (fst p)) (\<lambda>s. liftR (avoided_charges (rn_meters s) kd pl n) s)" for kd n
    by (rule yields_reader) (auto simp: avoided_charges_def dest: charges)
  show ?thesis unfolding recorded_node_def
    by (rule bind [OF validate_agent_cursorK], rule bind [OF reader(1)], rule keeps_option, rule pure(1), rule bindQ [OF reader(2) q])
      (auto intro!: bind keep modK add_run_avoidedK storeK set_cursorK deliverK av simp: whenA_def)
qed

lemma recorded_node_replay: "rt_mode rt = REPLAY \<Longrightarrow> yields (\<lambda>r. r \<noteq> None) (recorded_node rt k pl att f)"
proof -
  assume m: "rt_mode rt = REPLAY"
  have n: "recorded_node_or_missing REPLAY ops st k p pl att b \<noteq> Some (Inr None)" for ops :: "'st store_ops" and st p b
    by (auto simp: recorded_node_or_missing_def raise_missing_def bindR_def bindO_def split: sum.splits option.splits if_splits)
  have q: "yields (\<lambda>r. r \<noteq> None) (\<lambda>s. liftO (recorded_node_or_missing REPLAY (rt_ops rt) (rn_store s) k (rn_cursor s) pl att b) s)" for b
  proof (rule yields_reader(2))
    fix s x assume "recorded_node_or_missing REPLAY (rt_ops rt) (rn_store s) k (rn_cursor s) pl att b = Some (Inr x)"
    then show "x \<noteq> None" using n [of "rt_ops rt" "rn_store s" "rn_cursor s" b] by (cases x) simp_all
  qed
  show ?thesis unfolding recorded_node_def m
    by (rule yields_bindA [where P = "\<lambda>_. True"], simp, rule yields_bindA [OF q])
      (auto intro!: yields_bindA [where P = "\<lambda>_. True"])
qed

lemma run_call_recordK:
  assumes hooks: "hooks_ok rt" and "rt_mode rt \<noteq> REPLAY" "moment_ok mo" "fn_ok fn"
  shows "keeps RR (run_call rt mo k pl fn att f keep_chunks mpl)"
proof -
  have q: "yields jd_wf (liftR (snapshot_payload pl))" using snapshot_payload_wf by simp
  show ?thesis unfolding run_call_def
    by (rule bindQ [OF pure(3) q], rule bind [OF pure(3)], rule bind [OF recorded_nodeK], rule keeps_option,
        rule bindQ [OF precheckK [OF hooks assms(2)] precheckQ], rule bindQ [OF dispatchK dispatchQ [OF assms(4)]])
      (auto intro!: keep call_completedK call_failedK assms split: option.split)
qed

lemma run_callK:
  assumes hooks: "hooks_ok rt" and "moment_ok mo" "fn_ok fn" shows "keeps RR (run_call rt mo k pl fn att f keep_chunks mpl)"
proof (cases "rt_mode rt = REPLAY")
  case True
  show ?thesis unfolding run_call_def
    by (rule bind [OF pure(3)], rule bind [OF pure(3)], rule bindQ [OF recorded_nodeK recorded_node_replay [OF True]])
      (auto intro: keep)
qed (rule run_call_recordK [OF hooks _ assms(2,3)])

section \<open>Tools\<close>

lemma check_tool_authorityK: "keeps RR (check_tool_authority rt mo name)"
proof -
  have "RR s s'" if "(case permitted_tools s of
      None \<Rightarrow> ret () s
    | Some allowed \<Rightarrow>
        if rt_registry rt = None
        then refuse_policy rt mo ''tool permissions require a registry'' [(''tool'', JStr name)] s
        else if name \<in> set allowed then ret () s
        else (case rn_identity s of
            None \<Rightarrow> refuse_policy rt mo ''tool is outside team permissions'' [(''tool'', JStr name)] s
          | Some a \<Rightarrow> refuse_policy rt mo ''tool is outside delegated permissions''
              [(''tool'', JStr name), (''agent_id'', JStr (ai_agent_id a)), (''task_id'', JStr (ai_task_id a))] s)) = Some (r, s')"
    for s s' r
    using that by (auto simp: ret_def frame intro: keepsD [OF refuse_policyK] split: option.splits if_splits)
  then show ?thesis unfolding check_tool_authority_def by (intro bind validate_agent_cursorK) (simp add: keeps_def)
qed

lemma ask_policyK: "keeps RR (ask_policy rt po spec args)"
  unfolding ask_policy_def run_spent_def [abs_def] by (intro bind reader)

lemma check_durable_approvalsK: "keeps RR (check_durable_approvals rt mo spec args)"
  unfolding check_durable_approvals_def by (intro keep bind ask_policyK refuse_policyK)

lemma registered_handler_ok:
  assumes hooks: "hooks_ok rt" shows "dget (rt_handlers rt) action = Some h \<Longrightarrow> fn_ok (registered_handler h args)"
proof -
  have "h args = Inr (Returned v)" if "registered_handler h args pl = Inr v" for pl v
    using that by (cases "h args") (auto simp: registered_handler_def split: handler_value.splits)
  then show "dget (rt_handlers rt) action = Some h \<Longrightarrow> fn_ok (registered_handler h args)"
    unfolding fn_ok_def using hooks_okD(3) [OF hooks] by blast
qed

lemma call_handlerK: "hooks_ok rt \<Longrightarrow> moment_ok mo \<Longrightarrow> keeps RR (call_handler rt mo spec pl args att)"
  unfolding call_handler_def by (intro keep refuse_policyK run_callK registered_handler_ok)

lemma park_callK: "keeps RR (park_call pl args spec att)"
  unfolding park_call_def by (intro bind node_at_cursorK modK keep) simp

lemma ask_other_policiesK: "keeps RR (ask_other_policies rt mo spec args pl att)"
  unfolding ask_other_policies_def
  by (intro keep bind ask_policyK) (auto intro: refuse_policyK park_callK pure split: decision.split)

lemma dry_run_callK: "hooks_ok rt \<Longrightarrow> rt_mode rt \<noteq> REPLAY \<Longrightarrow> jd_wf pl \<Longrightarrow> keeps RR (dry_run_call rt mo pl att)"
  unfolding dry_run_call_def Let_def
  by (rule bind [OF precheckK], assumption, assumption, rule bind [OF settle_reservationK], assumption,
      rule bindQ [OF node_at_cursorK node_at_cursorQ])
    (auto intro!: bind keep put_at_cursorK settle_scopesK)

lemma allowed_tool_callK: "hooks_ok rt \<Longrightarrow> moment_ok mo \<Longrightarrow> jd_wf pl \<Longrightarrow> keeps RR (allowed_tool_call rt mo spec args pl att)"
  unfolding allowed_tool_call_def must_be_recorded_def
  by (intro keep bind recorded_nodeK check_durable_approvalsK ask_other_policiesK dry_run_callK call_handlerK)

lemma validated_tool_callK:
  "hooks_ok rt \<Longrightarrow> moment_ok mo \<Longrightarrow> jd_wf audit \<Longrightarrow> keeps RR (validated_tool_call rt mo reg spec args audit blocked att)"
  unfolding validated_tool_call_def by (intro keep bind refuse_policyK allowed_tool_callK) (simp_all add: tool_payload_def)

lemma registered_tool_callK:
  assumes hooks: "hooks_ok rt" and "moment_ok mo" "jd_wf args" shows "keeps RR (registered_tool_call rt mo reg name args version att)"
proof -
  have q: "yields jd_wf (liftR (redact_args spec args))" for spec using redact_args_wf assms(3) by auto
  have "keeps RR (bindA (liftR (redact_args spec args)) (\<lambda>audit_args.
        let blocked = [(''tool'', JStr name), (''args'', JDict audit_args)] in
        case version of
          Some v \<Rightarrow>
            if v \<noteq> sp_version spec then refuse_policy rt mo (''unknown registered action: '' @ name @ ''@'' @ v) blocked
            else validated_tool_call rt mo reg spec args audit_args blocked att
        | None \<Rightarrow> validated_tool_call rt mo reg spec args audit_args blocked att))" for spec
    by (rule bindQ [OF pure(3) q]) (auto simp: Let_def intro!: refuse_policyK validated_tool_callK assms split: option.split)
  then show ?thesis unfolding registered_tool_call_def by (intro keeps_sum refuse_policyK)
qed

lemma tool_callK:
  "hooks_ok rt \<Longrightarrow> moment_ok mo \<Longrightarrow> jd_wf args \<Longrightarrow> (\<And>f. fn = Some f \<Longrightarrow> fn_ok f) \<Longrightarrow> keeps RR (tool_call rt mo name args fn version att)"
  unfolding tool_call_def by (intro bind keep check_tool_authorityK registered_tool_callK run_callK)

lemma confirmK: "hooks_ok rt \<Longrightarrow> moment_ok mo \<Longrightarrow> keeps RR (confirm rt mo token)"
proof -
  assume "hooks_ok rt" "moment_ok mo"
  then have "keeps RR (bindA (modA (\<lambda>s. s\<lparr>rn_pending := AList.delete token (rn_pending s)\<rparr>)) (\<lambda>_.
        bindA (check_tool_authority rt mo (sp_name (pc_spec p))) (\<lambda>_.
        bindA (\<lambda>s. liftR (ensure (rn_cursor s = pc_parent p) (ValueError ''cannot confirm after cursor moved'')) s) (\<lambda>_.
        bindA (check_durable_approvals rt mo (pc_spec p) (pc_args p)) (\<lambda>_.
        call_handler rt mo (pc_spec p) (pc_payload p) (pc_args p) (pc_attempt p))))))" for p
    by (intro bind modK reader check_tool_authorityK check_durable_approvalsK call_handlerK) simp_all
  then show ?thesis unfolding keeps_def confirm_def by (auto simp: failA_def frame split: option.splits)
qed

section \<open>Notes, branches, opening and revalidation\<close>

lemma prepare_noteK: "hooks_ok rt \<Longrightarrow> jd_wf pl \<Longrightarrow> keeps RR (prepare_note rt mo pl att)"
  unfolding prepare_note_def
  by (rule bindQ [OF node_at_cursorK node_at_cursorQ])
    (auto simp: stamp_def whenA_def intro!: bind keep precheckK put_nodeK)

lemma note_callK: "hooks_ok rt \<Longrightarrow> jd_wf pl \<Longrightarrow> keeps RR (note_call rt mo pl att)"
  unfolding note_call_def by (intro bind keep prepare_noteK set_cursorK)

lemma branch_runK: "hooks_ok rt \<Longrightarrow> keeps RR (branch_run rt mo att b)"
  unfolding branch_run_def by (rule bind [OF prepare_noteK]) (auto intro: reader)

lemma ensure_ancestorK: "keeps RR (ensure_ancestor rt i)"
  unfolding ensure_ancestor_def by (intro bind validate_agent_cursorK reader)

lemma rollbackK: "keeps RR (rollback rt target steps)"
  unfolding rollback_def by (intro bind reader ensure_ancestorK set_cursorK store_getK)

lemma prune_cursorK: "keeps RR (prune_cursor rt)"
proof (cases "rt_mode rt = REPLAY")
  case False
  then have "keeps RR (store_update_meta rt i [(''pruned'', JBool True)])" for i by (intro update_metaK) simp_all
  then show ?thesis using False by (auto simp: prune_cursor_def keeps_def)
qed (simp add: prune_cursor_def pure)

lemma bind_registryK: "keeps RR (bind_registry rt i)"
  unfolding bind_registry_def Let_def by (intro keep bind store_getK update_metaK) simp_all

lemma run_scopesK: "hooks_ok rt \<Longrightarrow> keeps RR (run_scopes rt i b)"
  unfolding run_scopes_def by (intro bind keep validate_sharedK)

lemma new_runK: "keeps RR (new_run i c l scs)"
  unfolding new_run_def by (intro modK) simp

lemma root_node_good: "root_node label att = Inr n \<Longrightarrow> good n"
  unfolding root_node_def by (erule made) simp_all

lemma open_runK:
  assumes hooks: "hooks_ok rt" shows "keeps RR (open_run rt label b att)"
proof -
  have q: "yields good (liftR (root_node label att))" using root_node_good by simp
  have p: "keeps RR (\<lambda>s. (if c s then put_node rt n else store_get rt i) s)" if "good n" for c n i
    using put_nodeK [OF that] store_getK [of i] by (auto simp: keeps_def)
  show ?thesis unfolding open_run_def
    by (rule bindQ [OF pure(3) q]) (intro bind p bind_registryK run_scopesK [OF hooks] new_runK)
qed

lemma resume_runK:
  assumes hooks: "hooks_ok rt" shows "keeps RR (resume_run rt label b att)"
proof -
  have q: "yields good (liftR (root_node label att))" using root_node_good by simp
  show ?thesis unfolding resume_run_def
    by (rule bindQ [OF pure(3) q]) (intro bind keep put_nodeK store_getK bind_registryK run_scopesK [OF hooks] new_runK)
qed

end

section \<open>Strict replay is read-only\<close>

definition replaying :: "'st runtime \<Rightarrow> 'st runtime" where
  "replaying rt = rt\<lparr>rt_mode := REPLAY\<rparr>"

interpretation replay: runtime_steps "replaying rt" "(=)" "\<lambda>_. True" for rt :: "'st runtime"
  by unfold_locales (simp_all add: replaying_def)

section \<open>A run on a MemoryStore only grows its tree\<close>

definition tree_grows :: "mem_store \<Rightarrow> mem_store \<Rightarrow> bool" where
  "tree_grows s s' \<longleftrightarrow> (mem_inv s \<longrightarrow> mem_inv s' \<and> grows (mem_nodes s) (mem_nodes s'))"

definition on_memory :: "mem_store runtime \<Rightarrow> mem_store runtime" where
  "on_memory rt = rt\<lparr>rt_ops := mem_ops, rt_arbiter := None\<rparr>"

lemma made_node_ok:
  assumes "make_node k p pl att res md = Inr n" "jd_wf pl" "json_wf res" "jd_wf md" shows "node_ok n"
proof -
  obtain t dg i where n: "post_init \<lparr>nid = i, parent = p, kind = k, attempt = att, payload = pl, result = res,
      result_digest = dg, meta = md, result_text = t\<rparr> = Inr n"
    using assms(1) by (auto simp: make_node_def bindR_Inr_iff)
  from post_init_core [OF n] have "payload n = pl" "result n = res" "meta n = md" by (simp_all add: node_core_def)
  then show ?thesis using post_init_wf [OF n] assms(2-4) by (simp add: node_ok_def)
qed

lemma avoided_totals_wf: "foldR add_avoided totals charges = Inr t \<Longrightarrow> jd_wf totals \<Longrightarrow> jd_wf t"
  by (erule foldR_inv) (auto simp: add_avoided_def bindR_Inr_iff intro!: jd_wf_dset)

context store_contract
begin

lemma record_avoided_grows:
  assumes inv: "inv st" and r: "record_avoided_charges ops i charges st = Inr st'"
  shows "inv st' \<and> grows (nodes st) (nodes st')"
proof (cases "charges = []")
  case False
  then obtain n t where n: "s_get ops st i = Inr n"
    and t: "foldR add_avoided (case dget_or (meta n) ''avoided'' (JDict []) of JDict d \<Rightarrow> d | _ \<Rightarrow> []) charges = Inr t"
    and u: "s_update_meta ops i [(''avoided'', JDict t)] st = Inr st'"
    using r by (auto simp: record_avoided_charges_def bindR_Inr_iff)
  have "jd_wf (meta n)" using get_valid [OF inv n] by (simp add: node_ok_def)
  then have "json_wf (dget_or (meta n) ''avoided'' (JDict []))"
    by (auto simp: dget_or_def dest: jd_wf_dget split: option.split)
  then have "jd_wf (case dget_or (meta n) ''avoided'' (JDict []) of JDict d \<Rightarrow> d | _ \<Rightarrow> [])"
    by (auto split: json.split)
  then have "jd_wf t" by (rule avoided_totals_wf [OF t])
  then show ?thesis using update_meta_nodes [OF inv _ u] by simp
qed (use assms in \<open>simp add: record_avoided_charges_def\<close>)

end

interpretation memory: runtime_steps "on_memory rt" tree_grows node_ok for rt
proof
  show "tree_grows st st" for st by (simp add: tree_grows_def)
  show "tree_grows st sv" if "tree_grows st su" "tree_grows su sv" for st su sv
    using that grows_trans by (auto simp: tree_grows_def)
  show "make_node k p pl att res md = Inr n \<Longrightarrow> jd_wf pl \<Longrightarrow> json_wf res \<Longrightarrow> jd_wf md \<Longrightarrow> node_ok n" for k p pl att res md n
    by (rule made_node_ok)
  show "tree_grows st st'" if "node_ok n" "s_put (rt_ops (on_memory rt)) n st = Inr st'" for n st st'
    using mem.put_nodes [of st n st'] that by (simp add: tree_grows_def on_memory_def)
  show "tree_grows st st'" if "jd_wf patch" "s_update_meta (rt_ops (on_memory rt)) i patch st = Inr st'" for patch i st st'
    using mem.update_meta_nodes [of st patch i st'] that by (simp add: tree_grows_def on_memory_def)
  show "tree_grows st st'" if "record_avoided_charges (rt_ops (on_memory rt)) i charges st = Inr st'" for i charges st st'
    using mem.record_avoided_grows [of st i charges st'] that by (simp add: tree_grows_def on_memory_def)
qed (simp_all add: on_memory_def)

section \<open>Runs as sequences of requests\<close>

text \<open>What a caller may ask a run for, and how a request changes it, whether it returns or raises.\<close>

datatype request =
    Open string "budget option" int
  | Resume string "budget option" int
  | Model_call jdict step_fn int delta_callback bool
  | Tool_call string jdict "step_fn option" "string option" int
  | Confirm string
  | Note jdict int
  | Branch int "budget option"
  | Rollback "string option" int
  | Prune

definition ignoring :: "('s, 'a) act \<Rightarrow> ('s, unit) act" where
  "ignoring m = bindA m (\<lambda>_. ret ())"

definition perform :: "'st runtime \<Rightarrow> moment \<Rightarrow> request \<Rightarrow> ('st run, unit) act" where
  "perform rt mo q = (case q of
      Open label b att \<Rightarrow> open_run rt label b att
    | Resume label b att \<Rightarrow> resume_run rt label b att
    | Model_call pl fn att f keep_chunks \<Rightarrow> ignoring (model_call rt mo pl fn att f keep_chunks)
    | Tool_call name args fn version att \<Rightarrow> ignoring (tool_call rt mo name args fn version att)
    | Confirm token \<Rightarrow> ignoring (confirm rt mo token)
    | Note pl att \<Rightarrow> ignoring (note_call rt mo pl att)
    | Branch att b \<Rightarrow> ignoring (branch_run rt mo att b)
    | Rollback target steps \<Rightarrow> ignoring (rollback rt target steps)
    | Prune \<Rightarrow> prune_cursor rt)"

definition request_ok :: "request \<Rightarrow> bool" where
  "request_ok q = (case q of
      Model_call pl fn att f keep_chunks \<Rightarrow> fn_ok fn
    | Tool_call name args fn version att \<Rightarrow> jd_wf args \<and> (\<forall>f. fn = Some f \<longrightarrow> fn_ok f)
    | Note pl att \<Rightarrow> jd_wf pl
    | _ \<Rightarrow> True)"

text \<open>One step: a request to the run, or going on in the child run of a branch.\<close>

inductive run_step :: "'st runtime \<Rightarrow> 'st run \<Rightarrow> 'st run \<Rightarrow> bool" for rt where
  asked: "moment_ok mo \<Longrightarrow> request_ok q \<Longrightarrow> perform rt mo q s = Some (r, s') \<Longrightarrow> run_step rt s s'"
| entered: "moment_ok mo \<Longrightarrow> branch_run rt mo att b s = Some (Inr child, s') \<Longrightarrow> run_step rt s child"

context runtime_steps
begin

lemma performK: "hooks_ok rt \<Longrightarrow> moment_ok mo \<Longrightarrow> request_ok q \<Longrightarrow> keeps RR (perform rt mo q)"
  by (cases q) (auto simp: perform_def ignoring_def model_call_def request_ok_def
      intro!: bind pure open_runK resume_runK run_callK tool_callK confirmK note_callK branch_runK rollbackK prune_cursorK)

lemma branch_child: "branch_run rt mo att b s = Some (Inr child, s') \<Longrightarrow> rn_store child = rn_store s'"
  by (auto simp: branch_run_def bindA_Inr_iff ret_def)

lemma run_stepR: "run_step rt s s' \<Longrightarrow> hooks_ok rt \<Longrightarrow> RR s s'"
proof (induction rule: run_step.induct)
  case (asked mo q s r s')
  then show ?case using keepsD [OF performK] by blast
next
  case (entered mo att b s child s')
  then show ?case using keepsD [OF branch_runK entered(2)] branch_child [OF entered(2)] by (simp add: RR_def)
qed

lemma run_stepsR: "(run_step rt)\<^sup>*\<^sup>* s s' \<Longrightarrow> hooks_ok rt \<Longrightarrow> R (rn_store s) (rn_store s')"
proof (induction rule: rtranclp_induct)
  case (step t u)
  then show ?case using R_trans run_stepR [OF step(2)] by (simp add: RR_def)
qed (rule R_refl)

end

lemma hooks_ok_cong [simp]: "hooks_ok (replaying rt) = hooks_ok rt" "hooks_ok (on_memory mrt) = hooks_ok mrt"
  by (simp_all add: hooks_ok_def replaying_def on_memory_def)

text \<open>
  C2. Strict replay is read-only: whatever sequence of requests a run in replay mode is given (calls, tool calls,
  confirmations, notes, branches, rollbacks, prunes, opening and resuming runs), and whether they return or
  raise, the store at the end is the store at the start.
\<close>

theorem replay_read_only:
  assumes "hooks_ok rt" "(run_step (replaying rt))\<^sup>*\<^sup>* s s'"
  shows "rn_store s' = rn_store s"
  using replay.run_stepsR [OF assms(2)] assms(1) by simp

definition demo_runtime :: "mem_store runtime" where
  "demo_runtime = \<lparr>rt_ops = mem_ops, rt_arbiter = None, rt_renewable = False, rt_registry = None, rt_handlers = [],
     rt_policies = [], rt_dry_run = False, rt_mode = RECORD, rt_refuse_duplicates = False, rt_lease_seconds = Dec 60 0,
     rt_shared = [], rt_refusal = (\<lambda>_ _ _. None), rt_fallback = (\<lambda>_ _ _ _ _. None),
     rt_describe = (\<lambda>_. Inl (TypeError ''no description''))\<rparr>"

definition demo_run :: "mem_store run" where
  "demo_run = \<lparr>rn_store = demo_store, rn_meters = default_meters, rn_root = demo_root_id, rn_cursor = demo_note_id,
     rn_label = ''demo'', rn_scopes = [], rn_avoided = [], rn_pending = [], rn_identity = None, rn_anchor = None,
     rn_validator = (\<lambda>_. Inr ()), rn_ceiling = None, rn_deltas = []\<rparr>"

definition demo_moment :: moment where
  "demo_moment = \<lparr>mo_now = ''2026-01-01T00:00:00Z'', mo_uuid = ''u1'', mo_duration = Dec 0 0, mo_lease = (None, None),
     mo_start = None, mo_stop = None, mo_readings = []\<rparr>"

lemma demo_inputs_ok: "hooks_ok demo_runtime" "moment_ok demo_moment"
proof -
  show "hooks_ok demo_runtime" by (simp add: hooks_ok_def demo_runtime_def)
  have "py_float (Dec 0 0) = Dec 0 0" by code_simp
  then show "moment_ok demo_moment" by (simp add: moment_ok_def demo_moment_def)
qed

lemma replay_read_only_witness:
  "\<exists>e s'. perform (replaying demo_runtime) demo_moment Prune demo_run = Some (Inl e, s') \<and> rn_store s' = demo_store"
proof -
  have p: "perform (replaying demo_runtime) demo_moment Prune demo_run = Some (Inl (RuntimeErr ''replay mode is read-only''), demo_run)"
    by (simp add: perform_def prune_cursor_def replaying_def failA_def)
  have "run_step (replaying demo_runtime) demo_run demo_run"
    by (rule asked [OF demo_inputs_ok(2) _ p]) (simp add: request_ok_def)
  then have "rn_store demo_run = rn_store demo_run"
    by (intro replay_read_only [OF demo_inputs_ok(1)]) (rule r_into_rtranclp)
  then show ?thesis using p by (auto simp: demo_run_def)
qed

text \<open>
  C6. A run on a \<open>MemoryStore\<close> only ever adds to a valid tree: after any sequence of requests, in any mode
  and with any budgets, policies, registry and step functions, the store keeps its invariant and every node that was
  in it is still there with the same identity, result and digest.
\<close>

theorem run_grows_tree:
  assumes "hooks_ok rt" "(run_step (on_memory rt))\<^sup>*\<^sup>* s s'" "mem_inv (rn_store s)"
  shows "mem_inv (rn_store s') \<and> grows (mem_nodes (rn_store s)) (mem_nodes (rn_store s'))"
  using memory.run_stepsR [OF assms(2)] assms(1,3) by (simp add: tree_grows_def)

lemma run_grows_tree_witness:
  "\<exists>s'. perform (on_memory demo_runtime) demo_moment Prune demo_run = Some (Inr (), s') \<and> mem_inv (rn_store s') \<and>
    grows (mem_nodes demo_store) (mem_nodes (rn_store s'))"
proof -
  have n: "mem_nodes demo_store demo_note_id = Some demo_note" by (simp add: mem_nodes_def demo_store_def)
  obtain st' where st': "s_update_meta mem_ops demo_note_id [(''pruned'', JBool True)] demo_store = Inr st'"
    using mem.update_meta_ok [OF demo_inv n, of "[(''pruned'', JBool True)]"] by auto
  have p: "perform (on_memory demo_runtime) demo_moment Prune demo_run = Some (Inr (), demo_run\<lparr>rn_store := st'\<rparr>)"
    using st' by (simp add: perform_def prune_cursor_def store_update_meta_def on_memory_def demo_runtime_def demo_run_def)
  have "run_step (on_memory demo_runtime) demo_run (demo_run\<lparr>rn_store := st'\<rparr>)"
    by (rule asked [OF demo_inputs_ok(2) _ p]) (simp add: request_ok_def)
  then have "(run_step (on_memory demo_runtime))\<^sup>*\<^sup>* demo_run (demo_run\<lparr>rn_store := st'\<rparr>)" by (rule r_into_rtranclp)
  from run_grows_tree [OF demo_inputs_ok(1) this] show ?thesis using p demo_inv by (auto simp: demo_run_def)
qed

end
