(* ===== verification/Precheck_Facts.thy ===== *)
theory Precheck_Facts
  imports Runtime_Facts
begin

text \<open>
  What a successful precheck guarantees, and what a completed call leaves. \<open>returns R m\<close> says that an
  action that returns (rather than raises) respects a relation between the states before and after.
\<close>

definition returns :: "('s \<Rightarrow> 's \<Rightarrow> bool) \<Rightarrow> ('s, 'a) act \<Rightarrow> bool" where
  "returns R m \<longleftrightarrow> (\<forall>s x s'. m s = Some (Inr x, s') \<longrightarrow> R s s')"

lemma returnsD: "returns R m \<Longrightarrow> m s = Some (Inr x, s') \<Longrightarrow> R s s'"
  by (auto simp: returns_def)

lemma returns_pure:
  assumes "preorder_rel R"
  shows "returns R (ret x)" "returns R (failA e)" "returns R (liftR r)" "returns R (liftO q)" "returns R (getA g)"
    "returns R (\<lambda>s. liftR (f s) s)" "returns R (\<lambda>s. liftO (h s) s)"
  using assms by (auto simp: returns_def preorder_rel_def ret_def failA_def liftR_def liftO_def getA_def)

lemma returns_bindA: "preorder_rel R \<Longrightarrow> returns R m \<Longrightarrow> (\<And>x. returns R (f x)) \<Longrightarrow> returns R (bindA m f)"
  unfolding returns_def preorder_rel_def bindA_Inr_iff by blast

lemma returns_forA: "preorder_rel R \<Longrightarrow> (\<And>x. returns R (f x)) \<Longrightarrow> returns R (forA f xs)"
  by (induction xs) (auto intro!: returns_pure returns_bindA)

lemma returns_mapA: "preorder_rel R \<Longrightarrow> (\<And>x. returns R (f x)) \<Longrightarrow> returns R (mapA f xs)"
  by (induction xs) (auto intro!: returns_pure returns_bindA)

lemma returns_cases:
  "(b \<Longrightarrow> returns R m) \<Longrightarrow> (\<not> b \<Longrightarrow> returns R n) \<Longrightarrow> returns R (if b then m else n)"
  "(x = None \<Longrightarrow> returns R m1) \<Longrightarrow> (\<And>y. x = Some y \<Longrightarrow> returns R (g y)) \<Longrightarrow> returns R (case x of None \<Rightarrow> m1 | Some y \<Rightarrow> g y)"
  "(\<And>a b. p = (a, b) \<Longrightarrow> returns R (f a b)) \<Longrightarrow> returns R (case p of (a, b) \<Rightarrow> f a b)"
  by (cases b; cases x; cases p; simp)+

lemma eq_preorder: "preorder_rel (=)"
  by (simp add: preorder_rel_def)

lemmas silent = returns_pure [OF eq_preorder] returns_cases returns_bindA [OF eq_preorder] returns_forA [OF eq_preorder]
  returns_mapA [OF eq_preorder]

text \<open>A refusal never returns.\<close>

lemma refuse_node_raises: "refuse_node rt pl md e s \<noteq> Some (Inr x, s')"
  by (auto simp: refuse_node_def bindA_Inr_iff failA_def)

lemma refusals_raise:
  "returns R (refuse_node rt pl md e)" "returns R (refuse_policy rt mo detail blocked)"
  "returns R (refuse_budget rt mo check kd blocked b reason w)" "returns R (refuse_meter rt mo name r kd blocked)"
  by (auto simp: returns_def refuse_node_raises refuse_policy_def refuse_budget_def refuse_meter_def bindA_Inr_iff Let_def)

lemma validate_agent_cursor_silent: "returns (=) (validate_agent_cursor rt)"
  unfolding validate_agent_cursor_def
  by (intro silent) (auto simp: returns_def ret_def liftO_def split: option.splits)

lemma estimate_step_silent: "returns (=) (estimate_step rt mo kd pl acc m)"
  unfolding estimate_step_def by (intro silent refusals_raise)

lemma estimate_meters_silent: "returns (=) (estimate_meters rt mo kd pl acc ms)"
  by (induction ms arbitrary: acc) (auto intro!: silent estimate_step_silent)

lemma estimates_silent: "returns (=) (estimates rt mo kd pl)"
  unfolding estimates_def by (intro silent estimate_meters_silent)

lemma scope_spent_silent: "returns (=) (scope_spent rt sc)"
  unfolding scope_spent_def [abs_def] by (rule returns_pure [OF eq_preorder])

lemma check_scope_silent: "returns (=) (check_scope rt mo kd pl est ap sc)"
  unfolding check_scope_def by (intro silent scope_spent_silent refusals_raise)

lemma forA_each:
  assumes "forA f xs s = Some (Inr (), s')" "\<And>x. returns (=) (f x)" "x \<in> set xs"
  shows "f x s = Some (Inr (), s)"
  using assms(1,3)
proof (induction xs)
  case (Cons y ys)
  then obtain t where t: "f y s = Some (Inr (), t)" "forA f ys t = Some (Inr (), s')" by (auto simp: bindA_Inr_iff)
  then have "t = s" using returnsD [OF assms(2)] by blast
  then show ?case using Cons t by auto
qed simp

lemma check_scope_passed:
  assumes "check_scope rt mo kd pl est ap sc s = Some (Inr (), s')" "budget_limits (sc_budget sc) = Inr L"
  shows "\<exists>spent. spent_decimal (rt_ops rt) (rn_store s) (sc_anchor sc) = Some (Inr spent) \<and>
    (\<forall>m \<in> set (sc_exhausted sc). dget L m = None) \<and>
    (\<forall>(m, a) \<in> set est. \<forall>l. dget L m = Some l \<longrightarrow> dec_val (dget_or spent m 0) + dec_val a \<le> dec_val l)"
proof -
  obtain spent t check where t: "scope_spent rt sc s = Some (Inr spent, t)"
    and c: "check_budget (Some (sc_budget sc)) spent est (sc_exhausted sc) = Inr check"
    and ok: "(if bc_ok check then ret ()
      else refuse_budget rt mo check kd pl (is_approximate (bc_meter check) ap) ''budget'' None) t = Some (Inr (), s')"
    using assms(1) by (auto simp: check_scope_def bindA_Inr_iff liftR_def)
  have "bc_ok check"
    using ok refusals_raise(3) by (auto simp: refuse_budget_def bindA_Inr_iff Let_def refuse_node_raises split: if_splits)
  moreover have "spent_decimal (rt_ops rt) (rn_store s) (sc_anchor sc) = Some (Inr spent)"
    using t by (auto simp: scope_spent_def liftO_def)
  ultimately show ?thesis using check_budget_iff [OF assms(2) c] by blast
qed

lemma precheck_passed:
  assumes "precheck rt mo kd pl s = Some (Inr (Some r), s')" "rt_shared rt = []" "scoped_windows (rn_meters s) = []"
    "sc \<in> set (rn_scopes s)" "budget_limits (sc_budget sc) = Inr L"
  shows "\<exists>spent. spent_decimal (rt_ops rt) (rn_store s) (sc_anchor sc) = Some (Inr spent) \<and>
    (\<forall>m \<in> set (sc_exhausted sc). dget L m = None) \<and>
    (\<forall>(m, a) \<in> set (re_estimates r). \<forall>l. dget L m = Some l \<longrightarrow> dec_val (dget_or spent m 0) + dec_val a \<le> dec_val l)"
proof -
  let ?rest = "\<lambda>est ap scopes. if \<not> is_call kd then ret None
    else case rt_arbiter rt of
      None \<Rightarrow> ret (Some \<lparr>re_id = None, re_estimates = est\<rparr>)
    | Some ar \<Rightarrow>
        bindA (mapA (budget_request rt est) scopes) (\<lambda>budgets.
        bindA (\<lambda>s. mapA (window_request (rn_root s) kd pl) (filter is_window (rn_meters s)) s) (\<lambda>windows.
        if budgets = [] \<and> windows = [] then ret (Some \<lparr>re_id = None, re_estimates = est\<rparr>)
        else bindA (on_store (\<lambda>st. Some (ar_reserve ar (mo_uuid mo) budgets windows (rt_lease_seconds rt) st))) (\<lambda>c.
          if rc_ok c then ret (Some \<lparr>re_id = Some (mo_uuid mo), re_estimates = est\<rparr>)
          else refuse_reservation rt mo kd pl ap c)))"
  obtain t0 t1 est ap t2 t3 where st: "validate_agent_cursor rt s = Some (Inr (), t0)" "validate_shared rt t0 = Some (Inr (), t1)"
      "estimates rt mo kd pl t1 = Some (Inr (est, ap), t2)"
      "forA (check_scope rt mo kd pl est ap) (rn_scopes t2) t2 = Some (Inr (), t3)"
    and rest: "?rest est ap (rn_scopes t2) t3 = Some (Inr (Some r), s')"
    using assms(1) unfolding precheck_def by (auto simp: bindA_Inr_iff getA_def)
  have "t0 = s" using returnsD [OF validate_agent_cursor_silent st(1)] by simp
  moreover have "t1 = t0" using st(2) assms(2,3) \<open>t0 = s\<close> by (simp add: validate_shared_def Let_def ret_def)
  moreover have "t2 = t1" using returnsD [OF estimates_silent st(3)] by simp
  ultimately have eq: "t2 = s" by simp
  have "re_estimates r = est"
    using rest
    by (auto simp: ret_def bindA_Inr_iff refuse_reservation_def refuse_budget_def Let_def refuse_node_raises
        split: if_splits option.splits)
  moreover have "check_scope rt mo kd pl est ap sc s = Some (Inr (), s)"
    using forA_each [OF st(4) check_scope_silent, of sc] assms(4) unfolding eq by simp
  ultimately show ?thesis using check_scope_passed [OF _ assms(5)] by simp
qed


definition ten_more_steps :: budget_scope where
  "ten_more_steps = \<lparr>sc_budget = no_budget\<lparr>b_steps := Some (A_int 10)\<rparr>, sc_anchor = demo_note_id, sc_exhausted = []\<rparr>"

lemma demo_gets: "mem_get demo_store demo_note_id = Inr demo_note" "mem_get demo_store demo_root_id = Inr demo_root"
    "mem_children demo_store demo_note_id = Inr []"
  by (simp_all add: mem_get_def mem_lookup_def demo_store_def mem_children_def dget_or_def)

lemma demo_depth: "node_depth (mem_get demo_store) demo_note_id = Some (Inr 1)"
  by (simp add: node_depth_def demo_gets depth_loop.simps demo_note_def demo_root_def)

lemma demo_spent: "spent_decimal mem_ops demo_store demo_note_id = Some (Inr [])"
  by (simp add: spent_decimal_def recompute_charges_def mem_ops_def mem_walk_def demo_gets add_node_charges_def
      dget_or_def demo_note_def)

lemma ten_limits: "budget_limits (sc_budget ten_more_steps) = Inr [(''steps'', Dec 10 0)]"
  by (simp add: budget_limits_def ten_more_steps_def no_budget_def add_limit_def dec_of_int_def dec_less_iff)

lemma demo_precheck:
  "precheck demo_runtime demo_moment ''model_call'' [] (demo_run\<lparr>rn_scopes := [ten_more_steps]\<rparr>) =
    Some (Inr (Some \<lparr>re_id = None, re_estimates = [(''steps'', Dec 1 0), (''depth'', Dec 2 0)]\<rparr>),
      demo_run\<lparr>rn_scopes := [ten_more_steps]\<rparr>)"
proof -
  let ?s = "demo_run\<lparr>rn_scopes := [ten_more_steps]\<rparr>"
  have v: "validate_agent_cursor demo_runtime ?s = Some (Inr (), ?s)"
    by (simp add: validate_agent_cursor_def bindA_def liftR_def demo_run_def ret_def)
  have sh: "validate_shared demo_runtime ?s = Some (Inr (), ?s)"
    by (simp add: validate_shared_def demo_runtime_def demo_run_def default_meters_def scoped_windows_def ret_def
        default_token_meter_def)
  have e: "estimates demo_runtime demo_moment ''model_call'' [] ?s =
      Some (Inr ([(''steps'', Dec 1 0), (''depth'', Dec 2 0)], []), ?s)"
    by (simp add: estimates_def demo_run_def default_meters_def default_token_meter_def estimate_step_def demo_runtime_def
        is_call_def charge_to_decimal_def token_estimate_def bindA_def ret_def liftR_def liftO_def getA_def mem_ops_def
        demo_depth dec_of_int_def)
  let ?est = "[(''steps'', Dec 1 0), (''depth'', Dec 2 0)]"
  have cb: "check_budget (Some (sc_budget ten_more_steps)) [] ?est [] = Inr check_passed"
    by (simp add: check_budget_def ten_limits dget_or_def dec_less_iff)
  have sp: "scope_spent demo_runtime ten_more_steps ?s = Some (Inr [], ?s)"
    by (simp add: scope_spent_def liftO_def demo_runtime_def ten_more_steps_def demo_spent demo_run_def)
  have ex: "sc_exhausted ten_more_steps = []" by (simp add: ten_more_steps_def)
  have c: "check_scope demo_runtime demo_moment ''model_call'' [] ?est [] ten_more_steps ?s = Some (Inr (), ?s)"
    by (simp add: check_scope_def bindA_def sp ex cb liftR_def check_passed_def ret_def)
  have all: "forA (check_scope demo_runtime demo_moment ''model_call'' [] ?est []) [ten_more_steps] ?s = Some (Inr (), ?s)"
    by (simp add: bindA_def c ret_def)
  have sh2: "rt_arbiter demo_runtime = None" by (simp add: demo_runtime_def)
  show ?thesis
    by (simp add: precheck_def bindA_def v sh e getA_def c sh2 ret_def is_call_def)
qed


end
