(* ===== verification/Store_Refinement.thy ===== *)
theory Store_Refinement
  imports Kv_Retry
begin

text \<open>
  One abstract specification for the stores: a log of immutable records, which a put extends and nothing
  else changes. The extended contract \<open>log_store\<close> relates the puts and metadata updates of a store to
  the log; MemoryStore and the key/value store both meet it, so a sequence of requests has the same answers
  and leaves the same records in either.
\<close>

section \<open>The log\<close>

text \<open>The part of a node that is kept as it was written, with the keys of the payload sorted.\<close>

definition entry :: "node \<Rightarrow> node" where
  "entry n = n\<lparr>payload := norm_dict (payload n), result := JNull, meta := []\<rparr>"

definition log_of :: "node_map \<Rightarrow> node_map" where
  "log_of M = (\<lambda>i. map_option entry (M i))"

definition log_put :: "node \<Rightarrow> node_map \<Rightarrow> node_map res" where
  "log_put n A =
    bindR (validate_for_put n) (\<lambda>_.
    bindR (case parent n of None \<Rightarrow> Inr () | Some p \<Rightarrow> ensure (A p \<noteq> None) (KeyError p)) (\<lambda>_.
    case A (nid n) of
      None \<Rightarrow> Inr (A(nid n \<mapsto> entry n))
    | Some e \<Rightarrow> if identity_eq e n then Inr A else Inl (IntegrityError (''node id collision for '' @ nid n))))"

definition log_patch :: "string \<Rightarrow> node_map \<Rightarrow> node_map res" where
  "log_patch i A = (if A i = None then Inl (KeyError i) else Inr A)"

datatype store_request = Put node | Patch string jdict

fun log_serve :: "store_request \<Rightarrow> node_map \<Rightarrow> node_map res" where
  "log_serve (Put n) A = log_put n A"
| "log_serve (Patch i p) A = log_patch i A"

fun store_serve :: "'st store_ops \<Rightarrow> store_request \<Rightarrow> 'st \<Rightarrow> 'st res" where
  "store_serve ops (Put n) st = s_put ops n st"
| "store_serve ops (Patch i p) st = s_update_meta ops i p st"

text \<open>A client that goes on after an exception: the answers, and the state at the end.\<close>

fun serve_all :: "(store_request \<Rightarrow> 'st \<Rightarrow> 'st res) \<Rightarrow> store_request list \<Rightarrow> 'st \<Rightarrow> unit res list \<times> 'st" where
  "serve_all f [] st = ([], st)"
| "serve_all f (r # rs) st = (case f r st of
      Inl e \<Rightarrow> (case serve_all f rs st of (outs, st') \<Rightarrow> (Inl e # outs, st'))
    | Inr st1 \<Rightarrow> (case serve_all f rs st1 of (outs, st') \<Rightarrow> (Inr () # outs, st')))"

section \<open>Requests\<close>

definition conflicts_listed :: "jdict \<Rightarrow> bool" where
  "conflicts_listed d \<longleftrightarrow> (case dget d ''result_conflicts'' of None \<Rightarrow> True
    | Some (JList xs) \<Rightarrow> True | Some v \<Rightarrow> False)"

definition all_listed :: "node_map \<Rightarrow> bool" where
  "all_listed M \<longleftrightarrow> (\<forall>i n. M i = Some n \<longrightarrow> conflicts_listed (meta n))"

fun request_ok :: "store_request \<Rightarrow> bool" where
  "request_ok (Put n) \<longleftrightarrow> node_ok n \<and> json_serialisable (result n) \<and> conflicts_listed (meta n)"
| "request_ok (Patch i p) \<longleftrightarrow> json_wf (JDict p) \<and> json_serialisable (JDict p) \<and> conflicts_listed p"

lemma conflicts_listed_norm:
  assumes "conflicts_listed d" "distinct_keys d" shows "conflicts_listed (norm_dict d)"
proof (cases "dget d ''result_conflicts''")
  case (Some v)
  then obtain xs where "v = JList xs" using assms(1) by (cases v) (simp_all add: conflicts_listed_def)
  with Some show ?thesis by (simp add: conflicts_listed_def dget_norm_dict [OF assms(2)])
qed (simp add: conflicts_listed_def dget_norm_dict [OF assms(2)])

lemma conflicts_listed_dmerge:
  "conflicts_listed d \<Longrightarrow> conflicts_listed p \<Longrightarrow> distinct_keys p \<Longrightarrow> conflicts_listed (dmerge d p)"
  by (cases "dget p ''result_conflicts''") (simp_all add: conflicts_listed_def map_of_dmerge map_add_def)

lemma conflicts_listed_dset: "conflicts_listed (dset ''result_conflicts'' (JList xs) d)"
  by (simp add: conflicts_listed_def)

lemma listed_conflicts:
  assumes "conflicts_listed d" obtains xs where "py_list (dget_or d ''result_conflicts'' (JList [])) = Inr xs"
    "dget_or d ''result_conflicts'' (JList []) = JList xs"
proof (cases "dget d ''result_conflicts''")
  case (Some v)
  then obtain ys where "v = JList ys" using assms by (cases v) (simp_all add: conflicts_listed_def)
  with Some that show thesis by (simp add: dget_or_def py_list_def)
qed (use that in \<open>simp add: dget_or_def py_list_def\<close>)

section \<open>The entries\<close>

lemma entry_same: "same_record m n \<Longrightarrow> entry m = entry n"
  by (cases m; cases n) (simp add: same_record_def entry_def)

lemma log_grows: "grows M M' \<Longrightarrow> dom M' = dom M \<Longrightarrow> log_of M' = log_of M"
proof (rule ext)
  fix i assume g: "grows M M'" "dom M' = dom M"
  show "log_of M' i = log_of M i"
  proof (cases "M i")
    case None
    then have "M' i = None" using g(2) by blast
    with None show ?thesis by (simp add: log_of_def)
  next
    case (Some n)
    then obtain n' where "M' i = Some n'" "same_record n' n" using g(1) unfolding grows_def by blast
    with Some show ?thesis by (simp add: log_of_def entry_same)
  qed
qed

lemma log_new:
  assumes "grows M M'" "dom M' = insert i (dom M)" "M i = None" "M' i = Some m" "same_record m n"
  shows "log_of M' = (log_of M)(i \<mapsto> entry n)"
proof -
  have "grows M (M'(i := None))" using assms(1,3) unfolding grows_def by fastforce
  moreover have "dom (M'(i := None)) = dom M" using assms(2,3) by auto
  ultimately have "log_of (M'(i := None)) = log_of M" by (rule log_grows)
  then have "log_of M' j = log_of M j" if "j \<noteq> i" for j using that by (metis (mono_tags, lifting) fun_upd_other log_of_def)
  then show ?thesis using assms(4,5) by (auto simp: log_of_def entry_same)
qed

lemma identity_eq_entry:
  assumes "node_ok e" shows "identity_eq (entry e) n = identity_eq e n"
proof -
  have "json_wf (JDict (norm_dict (payload e)))"
    using json_wf_norm [OF node_ok_parts(3) [OF assms]] by (simp only: json_norm_JDict)
  moreover have "json_norm (JDict (norm_dict (payload e))) = json_norm (JDict (payload e))" by simp
  ultimately have "py_eq (JDict (norm_dict (payload e))) (JDict (payload n)) = py_eq (JDict (payload e)) (JDict (payload n))"
    using node_ok_parts(3) [OF assms] py_eq_norm_left by metis
  then show ?thesis by (simp add: identity_eq_def entry_def del: py_eq.simps)
qed

section \<open>The extended contract\<close>

locale log_store = store_contract ops inv nodes
  for ops :: "'st store_ops" and inv :: "'st \<Rightarrow> bool" and nodes :: "'st \<Rightarrow> node_map" +
  assumes put_answer: "inv st \<Longrightarrow> all_listed (nodes st) \<Longrightarrow> request_ok (Put n) \<Longrightarrow>
      (case s_put ops n st of Inl e \<Rightarrow> log_put n (log_of (nodes st)) = Inl e
       | Inr st' \<Rightarrow> all_listed (nodes st') \<and> (\<exists>A. log_put n (log_of (nodes st)) = Inr A))"
    and patch_answer: "inv st \<Longrightarrow> all_listed (nodes st) \<Longrightarrow> request_ok (Patch i patch) \<Longrightarrow>
      (case s_update_meta ops i patch st of Inl e \<Rightarrow> nodes st i = None \<and> e = KeyError i
       | Inr st' \<Rightarrow> all_listed (nodes st') \<and> nodes st i \<noteq> None)"
begin

lemma put_refines:
  assumes "inv st" "all_listed (nodes st)" "request_ok (Put n)" "s_put ops n st = Inr st'"
  shows "log_put n (log_of (nodes st)) = Inr (log_of (nodes st'))"
proof -
  have n: "node_ok n" using assms(3) by simp
  note step = put_nodes [OF assms(1) n assms(4)]
  obtain A where A: "log_put n (log_of (nodes st)) = Inr A" using put_answer [OF assms(1-3)] assms(4) by auto
  show ?thesis
  proof (cases "nodes st (nid n)")
    case None
    then obtain m where "nodes st' (nid n) = Some m" "same_record m n" using step by blast
    then have "log_of (nodes st') = (log_of (nodes st))(nid n \<mapsto> entry n)"
      using log_new [of "nodes st" "nodes st'" "nid n" m n] step None by blast
    moreover have "log_of (nodes st) (nid n) = None" using None by (simp add: log_of_def)
    then have "A = (log_of (nodes st))(nid n \<mapsto> entry n)" using A by (simp add: log_put_def bindR_Inr_iff)
    ultimately show ?thesis using A by simp
  next
    case (Some e)
    have "nid n \<in> dom (nodes st)" using Some by blast
    then have "dom (nodes st') = dom (nodes st)" using step by (simp add: insert_absorb)
    then have same: "log_of (nodes st') = log_of (nodes st)" using step log_grows by blast
    have "log_of (nodes st) (nid n) = Some (entry e)" using Some by (simp add: log_of_def)
    then have "A = log_of (nodes st)" using A by (simp add: log_put_def bindR_Inr_iff split: if_splits)
    with A same show ?thesis by simp
  qed
qed

lemma serve_refines:
  assumes "inv st" "all_listed (nodes st)" "request_ok r"
  shows "case store_serve ops r st of Inl e \<Rightarrow> log_serve r (log_of (nodes st)) = Inl e
    | Inr st' \<Rightarrow> inv st' \<and> all_listed (nodes st') \<and> log_serve r (log_of (nodes st)) = Inr (log_of (nodes st'))"
proof (cases r)
  case (Put n)
  then have n: "request_ok (Put n)" "node_ok n" using assms(3) by simp_all
  show ?thesis
  proof (cases "s_put ops n st")
    case (Inl e)
    then show ?thesis using put_answer [OF assms(1,2) n(1)] by (simp add: Put)
  next
    case (Inr st')
    then show ?thesis
      using put_answer [OF assms(1,2) n(1)] put_refines [OF assms(1,2) n(1)] put_nodes [OF assms(1) n(2)] by (simp add: Put)
  qed
next
  case (Patch i p)
  then have p: "request_ok (Patch i p)" "json_wf (JDict p)" using assms(3) by simp_all
  have "log_of (nodes st') = log_of (nodes st) \<and> inv st'" if "s_update_meta ops i p st = Inr st'" for st'
    using update_meta_nodes [OF assms(1) p(2) that] by (blast intro: log_grows)
  then show ?thesis using patch_answer [OF assms(1,2) p(1)]
    by (auto simp: Patch log_patch_def log_of_def split: sum.splits)
qed

lemma serve_all_refines:
  assumes "inv st" "all_listed (nodes st)" "\<forall>r \<in> set rs. request_ok r" "serve_all (store_serve ops) rs st = (outs, st')"
  shows "serve_all log_serve rs (log_of (nodes st)) = (outs, log_of (nodes st')) \<and> inv st'"
  using assms
proof (induction rs arbitrary: st outs)
  case (Cons r rs)
  have r: "request_ok r" "\<forall>r \<in> set rs. request_ok r" using Cons.prems(3) by simp_all
  note step = serve_refines [OF Cons.prems(1,2) r(1)]
  show ?case
  proof (cases "store_serve ops r st")
    case (Inl e)
    then obtain os where os: "serve_all (store_serve ops) rs st = (os, st')" "outs = Inl e # os"
      using Cons.prems(4) by (auto split: prod.splits)
    from Cons.IH [OF Cons.prems(1,2) r(2) os(1)] step Inl os(2) show ?thesis by simp
  next
    case (Inr st1)
    then obtain os where os: "serve_all (store_serve ops) rs st1 = (os, st')" "outs = Inr () # os"
      using Cons.prems(4) by (auto split: prod.splits)
    have "inv st1" "all_listed (nodes st1)" using step Inr by simp_all
    from Cons.IH [OF this r(2) os(1)] step Inr os(2) show ?thesis by simp
  qed
qed simp

end

section \<open>MemoryStore\<close>

lemma conflict_record_ok: "json_serialisable (result n) \<Longrightarrow> json_serialisable (conflict_record n)"
  by (simp add: conflict_record_def split: option.split)

text \<open>The metadata with one more conflict.\<close>

lemma conflict_meta_ok:
  assumes "node_ok e" "node_ok n" "json_serialisable (result n)" "conflicts_listed (meta e)"
    "py_list (dget_or (meta e) ''result_conflicts'' (JList [])) = Inr xs"
  shows "json_wf (JDict (dset ''result_conflicts'' (JList (xs @ [conflict_record n])) (meta e)))"
    "json_serialisable (JDict (dset ''result_conflicts'' (JList (xs @ [conflict_record n])) (meta e)))"
proof -
  show "json_wf (JDict (dset ''result_conflicts'' (JList (xs @ [conflict_record n])) (meta e)))"
    by (rule conflicts_wf [OF assms(1,2,5)])
  have m: "json_serialisable (JDict (meta e))" by (rule node_ok_parts(4) [OF assms(1)])
  have "\<forall>x \<in> set xs. json_serialisable x"
  proof (cases "dget (meta e) ''result_conflicts''")
    case None
    then show ?thesis using assms(5) by (simp add: dget_or_def py_list_def)
  next
    case (Some v)
    then have "v = JList xs" using assms(4,5) by (cases v) (simp_all add: conflicts_listed_def dget_or_def py_list_def)
    then show ?thesis using m map_of_SomeD [OF Some] by auto
  qed
  then have "json_serialisable (JList (xs @ [conflict_record n]))" using conflict_record_ok [OF assms(3)] by auto
  then show "json_serialisable (JDict (dset ''result_conflicts'' (JList (xs @ [conflict_record n])) (meta e)))"
    using m set_dset_subset [of "''result_conflicts''" "JList (xs @ [conflict_record n])" "meta e"]
    by (auto simp del: json_serialisable.simps(1))
qed

text \<open>What the log answers, as the code finds it out: the parent, then the node.\<close>

lemma log_put_cases:
  assumes "\<And>i e. M i = Some e \<Longrightarrow> node_ok e"
  shows "log_put n (log_of M) = bindR (validate_for_put n) (\<lambda>_.
    bindR (case parent n of None \<Rightarrow> Inr () | Some p \<Rightarrow> ensure (M p \<noteq> None) (KeyError p)) (\<lambda>_.
    case M (nid n) of None \<Rightarrow> Inr ((log_of M)(nid n \<mapsto> entry n))
    | Some e \<Rightarrow> if identity_eq e n then Inr (log_of M) else Inl (IntegrityError (''node id collision for '' @ nid n))))"
proof -
  have p: "(log_of M p \<noteq> None) = (M p \<noteq> None)" for p by (simp add: log_of_def)
  have "log_of M (nid n) = map_option entry (M (nid n))" by (simp add: log_of_def)
  moreover have "identity_eq (entry e) n = identity_eq e n" if "M (nid n) = Some e" for e
    using assms [OF that] by (rule identity_eq_entry)
  ultimately show ?thesis unfolding log_put_def p by (cases "M (nid n)") simp_all
qed

lemma mem_put_answer:
  assumes inv: "mem_inv s" and l: "all_listed (mem_nodes s)" and n: "request_ok (Put n)"
  shows "case mem_put n s of Inl e \<Rightarrow> log_put n (log_of (mem_nodes s)) = Inl e
    | Inr s' \<Rightarrow> all_listed (mem_nodes s') \<and> (\<exists>A. log_put n (log_of (mem_nodes s)) = Inr A)"
proof -
  have ok: "\<And>i e. mem_nodes s i = Some e \<Longrightarrow> node_ok e" using mem_inv_node [OF inv] by blast
  note spec = log_put_cases [OF ok, where M = "mem_nodes s"]
  show ?thesis
  proof (cases "validate_for_put n")
    case (Inl e)
    then show ?thesis by (simp add: spec mem_put_def)
  next
    case (Inr u)
    show ?thesis
    proof (cases "\<exists>p. parent n = Some p \<and> mem_nodes s p = None")
      case True
      then obtain p where p: "parent n = Some p" "mem_nodes s p = None" by blast
      have "mem_put n s = Inl (KeyError p)" using Inr p by (simp add: mem_put_def mem_nodes_def ensure_def)
      moreover have "log_put n (log_of (mem_nodes s)) = Inl (KeyError p)" using Inr p by (simp add: spec ensure_def)
      ultimately show ?thesis by simp
    next
      case False
      then have par: "(case parent n of None \<Rightarrow> Inr () | Some p \<Rightarrow> ensure (mem_nodes s p \<noteq> None) (KeyError p)) = Inr ()"
        by (cases "parent n") (auto simp: ensure_def)
      have m: "mem_put n s = (case mem_nodes s (nid n) of Some e \<Rightarrow> mem_handle_existing e n s
        | None \<Rightarrow> Inr \<lparr>ms_nodes = dset (nid n) n (ms_nodes s), ms_children = add_child (nid n) (parent n) (ms_children s)\<rparr>)"
        using Inr par unfolding mem_put_def mem_nodes_def by simp
      have a: "log_put n (log_of (mem_nodes s)) = (case mem_nodes s (nid n) of None \<Rightarrow> Inr ((log_of (mem_nodes s))(nid n \<mapsto> entry n))
        | Some e \<Rightarrow> if identity_eq e n then Inr (log_of (mem_nodes s)) else Inl (IntegrityError (''node id collision for '' @ nid n)))"
        using Inr par by (simp add: spec)
      show ?thesis
      proof (cases "mem_nodes s (nid n)")
        case None
        then show ?thesis using l n by (simp add: m a) (simp add: all_listed_def mem_nodes_def)
      next
        case (Some e)
        have e: "node_ok e" "conflicts_listed (meta e)" "nid e = nid n"
          using ok [OF Some] l Some mem_inv_node [OF inv Some] by (simp_all add: all_listed_def)
        obtain xs where xs: "py_list (dget_or (meta e) ''result_conflicts'' (JList [])) = Inr xs"
          using listed_conflicts [OF e(2)] by blast
        have md: "json_serialisable (JDict (dset ''result_conflicts'' (JList (xs @ [conflict_record n])) (meta e)))"
          using conflict_meta_ok(2) [OF e(1) _ _ e(2) xs, of n] n by (simp del: json_serialisable.simps)
        have "set_meta (dset ''result_conflicts'' (JList (xs @ [conflict_record n])) (meta e)) e =
            Inr (e\<lparr>meta := dset ''result_conflicts'' (JList (xs @ [conflict_record n])) (meta e)\<rparr>)"
          using set_meta_wf md e(1) by (simp add: node_ok_def del: json_serialisable.simps json_wf.simps)
        then have h: "mem_handle_existing e n s = (if \<not> identity_eq e n then Inl (IntegrityError (''node id collision for '' @ nid n))
            else if result_text n = None \<or> result_text n = result_text e then Inr s
            else Inr (s\<lparr>ms_nodes := dset (nid n) (e\<lparr>meta := dset ''result_conflicts'' (JList (xs @ [conflict_record n])) (meta e)\<rparr>) (ms_nodes s)\<rparr>))"
          using xs e(3) by (simp add: mem_handle_existing_def)
        show ?thesis using l unfolding m a Some h option.case
          by (auto simp: all_listed_def mem_nodes_def conflicts_listed_dset)
      qed
    qed
  qed
qed

lemma mem_patch_answer:
  assumes inv: "mem_inv s" and l: "all_listed (mem_nodes s)" and p: "request_ok (Patch i patch)"
  shows "case mem_update_meta i patch s of Inl e \<Rightarrow> mem_nodes s i = None \<and> e = KeyError i
    | Inr s' \<Rightarrow> all_listed (mem_nodes s') \<and> mem_nodes s i \<noteq> None"
proof (cases "mem_nodes s i")
  case None
  then show ?thesis by (simp add: mem_update_meta_def mem_lookup_def mem_nodes_def)
next
  case (Some n)
  have pk: "json_wf (JDict patch)" "json_serialisable (JDict patch)" "conflicts_listed patch" using p by simp_all
  obtain s' where s': "mem_update_meta i patch s = Inr s'" using mem_update_meta_ok [OF inv Some pk(2)] by blast
  obtain m where "mem_nodes s i = Some m" "mem_nodes s' = (mem_nodes s)(i \<mapsto> m\<lparr>meta := dmerge (meta m) patch\<rparr>)"
    using mem_update_meta_inv [OF inv pk(1) s'] by blast
  moreover have "conflicts_listed (dmerge (meta n) patch)"
    using l Some pk by (intro conflicts_listed_dmerge) (simp_all add: all_listed_def)
  ultimately show ?thesis using s' Some l by (auto simp: all_listed_def)
qed

interpretation mem_log: log_store mem_ops mem_inv mem_nodes
  by unfold_locales (use mem_put_answer mem_patch_answer in \<open>simp_all add: mem_ops_def del: request_ok.simps\<close>)

section \<open>The key/value store\<close>

lemma kv_rewrite_listed:
  assumes "kv_inv st" "kv_nodes st i = Some n" "json_wf (JDict md)" "kv_rewrite i n md st = Inr (u, st')"
    "conflicts_listed md" "all_listed (kv_nodes st)"
  shows "all_listed (kv_nodes st')"
proof -
  obtain n' where "kv_nodes st' = (kv_nodes st)(i \<mapsto> n')" "meta n' = norm_dict md"
    using kv_rewrite_ok [OF assms(1-4)] by blast
  moreover have "distinct_keys md" using assms(3) by simp
  ultimately show ?thesis using conflicts_listed_norm [OF assms(5)] assms(6) by (auto simp: all_listed_def)
qed

lemma kv_put_steady: "s_put kv_ops n st = (case validate_for_put n of Inl e \<Rightarrow> Inl e
    | Inr _ \<Rightarrow> map_sum id snd (kv_put_transaction n 0 st))"
  by (auto simp: kv_ops_def kv_put_node_def kv_reconnecting_def kv_transact_def steady_def Let_def split: sum.splits)

lemma kv_put_answer:
  assumes inv: "kv_inv st" and l: "all_listed (kv_nodes st)" and n: "request_ok (Put n)"
  shows "case s_put kv_ops n st of Inl e \<Rightarrow> log_put n (log_of (kv_nodes st)) = Inl e
    | Inr st' \<Rightarrow> all_listed (kv_nodes st') \<and> (\<exists>A. log_put n (log_of (kv_nodes st)) = Inr A)"
proof -
  have ok: "\<And>i e. kv_nodes st i = Some e \<Longrightarrow> node_ok e" using kv_inv_row [OF inv] by blast
  note spec = log_put_cases [OF ok, where M = "kv_nodes st"]
  have nok: "node_ok n" "json_serialisable (result n)" "conflicts_listed (meta n)" using n by simp_all
  have dom: "(kv_get st NODE_BUCKET p \<noteq> None) = (kv_nodes st p \<noteq> None)" for p by (simp add: kv_nodes_get)
  show ?thesis
  proof (cases "validate_for_put n")
    case (Inl e)
    then show ?thesis by (simp add: spec kv_put_steady)
  next
    case (Inr u)
    then have valid: "node_valid n" by (simp add: validate_for_put_iff)
    show ?thesis
    proof (cases "\<exists>p. parent n = Some p \<and> kv_nodes st p = None")
      case True
      then obtain p where p: "parent n = Some p" "kv_nodes st p = None" by blast
      have "kv_put_transaction n 0 st = Inl (KeyError p)" using p unfolding kv_put_transaction_def dom by (simp add: ensure_def)
      moreover have "log_put n (log_of (kv_nodes st)) = Inl (KeyError p)" using Inr p by (simp add: spec ensure_def)
      ultimately show ?thesis using Inr by (simp add: kv_put_steady)
    next
      case False
      then have par: "(case parent n of None \<Rightarrow> Inr () | Some p \<Rightarrow> ensure (kv_nodes st p \<noteq> None) (KeyError p)) = Inr ()"
        by (cases "parent n") (auto simp: ensure_def)
      have a: "log_put n (log_of (kv_nodes st)) = (case kv_nodes st (nid n) of None \<Rightarrow> Inr ((log_of (kv_nodes st))(nid n \<mapsto> entry n))
        | Some e \<Rightarrow> if identity_eq e n then Inr (log_of (kv_nodes st)) else Inl (IntegrityError (''node id collision for '' @ nid n)))"
        using Inr par by (simp add: spec)
      show ?thesis
      proof (cases "kv_nodes st (nid n)")
        case None
        have p: "\<forall>p. parent n = Some p \<longrightarrow> kv_nodes st p \<noteq> None" using False by simp
        then have "kv_put_transaction n 0 st = Inr ((), kv_put NODE_BUCKET (nid n) (row_text n) st)"
          using kv_put_transaction_fresh [OF inv nok(1) None] by blast
        moreover have "all_listed (kv_nodes (kv_put NODE_BUCKET (nid n) (row_text n) st))"
          using kv_add_row(2) [OF inv nok(1) valid None p] l conflicts_listed_norm [OF nok(3)] node_ok_parts(5) [OF nok(1)]
          by (simp add: all_listed_def)
        ultimately show ?thesis using Inr None by (simp add: kv_put_steady a)
      next
        case (Some e)
        have e: "node_ok e" "conflicts_listed (meta e)" "nid e = nid n"
          using ok [OF Some] l Some kv_inv_row [OF inv Some] by (simp_all add: all_listed_def)
        obtain t where t: "kv_get st NODE_BUCKET (nid n) = Some t" using Some by (auto simp: kv_nodes_get)
        then have "kv_node_from_text t = Inr e" using kv_read_node_nodes [OF inv, of "nid n"] Some by (simp add: kv_read_node_def)
        then have m: "kv_put_transaction n 0 st = kv_existing e n st"
          using par t unfolding kv_put_transaction_def dom by simp
        obtain xs where xs: "py_list (dget_or (meta e) ''result_conflicts'' (JList [])) = Inr xs"
          using listed_conflicts [OF e(2)] by blast
        note md = conflict_meta_ok [OF e(1) nok(1,2) e(2) xs]
        obtain st' where st': "kv_rewrite (nid n) e (dset ''result_conflicts'' (JList (xs @ [conflict_record n])) (meta e)) st = Inr ((), st')"
          using kv_rewrite_total [OF inv Some md] by blast
        have "all_listed (kv_nodes st')"
          by (rule kv_rewrite_listed [OF inv Some md(1) st' conflicts_listed_dset l])
        then show ?thesis using Inr l Some xs st' by (simp add: kv_put_steady a m kv_existing_def)
      qed
    qed
  qed
qed

lemma kv_patch_answer:
  assumes inv: "kv_inv st" and l: "all_listed (kv_nodes st)" and p: "request_ok (Patch i patch)"
  shows "case s_update_meta kv_ops i patch st of Inl e \<Rightarrow> kv_nodes st i = None \<and> e = KeyError i
    | Inr st' \<Rightarrow> all_listed (kv_nodes st') \<and> kv_nodes st i \<noteq> None"
proof (cases "kv_nodes st i")
  case None
  then show ?thesis by (simp add: kv_ops_def kv_update_transaction_def kv_read_node_nodes [OF inv])
next
  case (Some n)
  have pk: "json_wf (JDict patch)" "json_serialisable (JDict patch)" "conflicts_listed patch" using p by simp_all
  have n: "json_wf (JDict (meta n))" "json_serialisable (JDict (meta n))"
    using node_ok_parts [of n] kv_inv_row [OF inv Some] by blast+
  note md = json_wf_dmerge [OF n(1) pk(1)] json_serialisable_dmerge [OF n(2) pk(2)]
  obtain st' where st': "kv_rewrite i n (dmerge (meta n) patch) st = Inr ((), st')"
    using kv_rewrite_total [OF inv Some md] by blast
  have "conflicts_listed (dmerge (meta n) patch)"
    using l Some pk by (intro conflicts_listed_dmerge) (simp_all add: all_listed_def)
  from kv_rewrite_listed [OF inv Some md(1) st' this l] show ?thesis
    using Some st' by (simp add: kv_ops_def kv_update_transaction_def kv_read_node_nodes [OF inv])
qed

interpretation kv_log: log_store kv_ops kv_inv kv_nodes
  by unfold_locales (use kv_put_answer kv_patch_answer in \<open>simp_all del: request_ok.simps\<close>)

section \<open>The stores agree\<close>


text \<open>A child before its parent is refused; after it, it is taken.\<close>

definition demo_requests :: "store_request list" where
  "demo_requests = [Put demo_note, Put demo_root, Put demo_note, Patch demo_note_id [(''pruned'', JBool True)]]"

lemma demo_requests_ok: "\<forall>r \<in> set demo_requests. request_ok r"
  using demo_nodes_ok by (simp add: demo_requests_def demo_root_def demo_note_def conflicts_listed_def)

lemma demo_answers:
  "fst (serve_all log_serve demo_requests (\<lambda>i. None)) = [Inl (KeyError demo_root_id), Inr (), Inr (), Inr ()]"
proof -
  have v: "validate_for_put demo_root = Inr ()" "validate_for_put demo_note = Inr ()"
    using demo_nodes_ok by (simp_all add: validate_for_put_iff)
  have i: "nid demo_root = demo_root_id" "nid demo_note = demo_note_id" "parent demo_root = None" "parent demo_note = Some demo_root_id"
    by (simp_all add: demo_root_def demo_note_def)
  show ?thesis by (simp add: demo_requests_def log_put_def log_patch_def v i ensure_def)
qed


end
