(* ===== verification/Dependencies.thy ===== *)
theory Dependencies
  imports Runtime Team_Context
begin

text \<open>
  Result dependencies (\<open>dependencies.py\<close>): references that commit to the result of a call, the document of
  a dependency note, the check of one reference, the walk of \<open>verify_dependencies\<close> over the notes of a run,
  and the recording of a dependency or handoff.
\<close>

section \<open>Exceptions as text\<close>

text \<open>\<open>str(exc)\<close> for the exceptions that are caught here; that of a \<open>KeyError\<close> is the repr of the key.\<close>

fun exc_text :: "exc \<Rightarrow> string" where
  "exc_text (KeyError k) = py_repr_str k"
| "exc_text (TypeError m) = m"
| "exc_text (ValueError m) = m"
| "exc_text (IntegrityError m) = m"
| "exc_text e = []"

text \<open>\<open>except (KeyError, IntegrityError, TypeError, ValueError)\<close>, and the same without \<open>KeyError\<close>.\<close>

fun bad_data :: "exc \<Rightarrow> bool" where
  "bad_data (IntegrityError m) = True"
| "bad_data (TypeError m) = True"
| "bad_data (ValueError m) = True"
| "bad_data e = False"

fun bad_read :: "exc \<Rightarrow> bool" where
  "bad_read (KeyError k) = True"
| "bad_read e = bad_data e"

fun bad_document :: "exc \<Rightarrow> bool" where
  "bad_document (TypeError m) = True"
| "bad_document (ValueError m) = True"
| "bad_document e = False"

section \<open>References\<close>

record result_reference =
  rf_node_id :: string
  rf_digest :: string

definition result_kinds :: "string list" where
  "result_kinds = [kind_value MODEL_CALL, kind_value TOOL_CALL]"

definition hex64_field :: "json \<Rightarrow> string \<Rightarrow> string res" where
  "hex64_field v name =
    (let bad = Inl (ValueError (name @ '' must be 64 lowercase hex characters'')) in
     case v of JStr s \<Rightarrow> (if length s = 64 \<and> list_all hex_digit s then Inr s else bad) | _ \<Rightarrow> bad)"

definition make_reference :: "json \<Rightarrow> json \<Rightarrow> result_reference res" where
  "make_reference i d =
    bindR (hex64_field i ''node_id'') (\<lambda>i.
    bindR (hex64_field d ''result_digest'') (\<lambda>d.
    Inr \<lparr>rf_node_id = i, rf_digest = d\<rparr>))"

definition reference_from_node :: "node \<Rightarrow> result_reference res" where
  "reference_from_node n =
    (if kind n \<notin> set result_kinds \<or> result_text n = None
     then Inl (ValueError ''result references require a completed model or tool call'')
     else bindR (expected_id n) (\<lambda>e.
       if nid n \<noteq> e then Inl (IntegrityError ''referenced node identity is invalid'')
       else if result_digest n \<noteq> Some (result_digest_from_text (the (result_text n)))
       then Inl (IntegrityError ''referenced result digest is invalid'')
       else make_reference (JStr (nid n)) (JStr (the (result_digest n)))))"

definition reference_dict :: "result_reference \<Rightarrow> jdict" where
  "reference_dict r = [(''node_id'', JStr (rf_node_id r)), (''result_digest'', JStr (rf_digest r))]"

section \<open>Reports\<close>

record dependency_finding =
  df_node_id :: string
  df_code :: string
  df_message :: string
  df_target :: "string option"

record dependency_report =
  dr_root_id :: string
  dr_notes :: nat
  dr_references :: nat
  dr_findings :: "dependency_finding list"

definition dependencies_ok :: "dependency_report \<Rightarrow> bool" where
  "dependencies_ok r \<longleftrightarrow> dr_findings r = []"

definition dependency_finding_dict :: "dependency_finding \<Rightarrow> jdict" where
  "dependency_finding_dict f = [(''node_id'', JStr (df_node_id f)), (''code'', JStr (df_code f)),
     (''message'', JStr (df_message f)), (''target_id'', case df_target f of None \<Rightarrow> JNull | Some t \<Rightarrow> JStr t)]"

definition dependency_report_dict :: "dependency_report \<Rightarrow> jdict" where
  "dependency_report_dict r = [(''ok'', JBool (dependencies_ok r)), (''root_id'', JStr (dr_root_id r)),
     (''checked_notes'', JInt (int (dr_notes r))), (''references'', JInt (int (dr_references r))),
     (''findings'', JList (map (\<lambda>f. JDict (dependency_finding_dict f)) (dr_findings r)))]"

section \<open>The document of a note\<close>

definition dependency_fields :: "string list" where
  "dependency_fields = [''version'', ''relation'', ''references'', ''recipient'', ''task_id'', ''label'']"

fun check_text_field :: "jdict \<Rightarrow> string \<Rightarrow> unit res" where
  "check_text_field d name = (case dget d name of
      None \<Rightarrow> Inr ()
    | Some (JStr s) \<Rightarrow> ensure (str_strip s \<noteq> []) (ValueError (''dependency '' @ name @ '' must be a non-empty string''))
    | Some v \<Rightarrow> Inl (ValueError (''dependency '' @ name @ '' must be a non-empty string'')))"

text \<open>One item of the references, after those already read.\<close>

definition parse_reference :: "result_reference list \<Rightarrow> json \<Rightarrow> result_reference list res" where
  "parse_reference refs v =
    (let bad = Inl (ValueError ''result reference must contain node_id and result_digest'') in
     case v of
       JDict d \<Rightarrow>
         (case (dget d ''node_id'', dget d ''result_digest'') of
            (Some i, Some r) \<Rightarrow>
              if set (map fst d) \<noteq> {''node_id'', ''result_digest''} then bad
              else bindR (make_reference i r) (\<lambda>reference.
                if rf_node_id reference \<in> set (map rf_node_id refs)
                then Inl (ValueError ''dependency contains duplicate result references'')
                else Inr (refs @ [reference]))
          | _ \<Rightarrow> bad)
     | _ \<Rightarrow> bad)"

definition parse_document :: "json \<Rightarrow> (jdict \<times> result_reference list) res" where
  "parse_document v = (case v of
      JDict d \<Rightarrow>
        bindR (ensure (set (map fst d) \<subseteq> set dependency_fields) (ValueError ''dependency document contains unsupported fields'')) (\<lambda>_.
        bindR (ensure (dget d ''version'' = Some (JInt 1)) (ValueError ''unsupported dependency version'')) (\<lambda>_.
        bindR (ensure (dget d ''relation'' \<in> {Some (JStr ''consumes''), Some (JStr ''handoff'')})
          (ValueError ''dependency relation must be consumes or handoff'')) (\<lambda>_.
        bindR (forR (check_text_field d) [''recipient'', ''task_id'', ''label'']) (\<lambda>_.
        bindR (ensure (\<not> (dget d ''relation'' = Some (JStr ''handoff'') \<and> dget d ''recipient'' = None))
          (ValueError ''handoff requires a recipient'')) (\<lambda>_.
        case dget d ''references'' of
          Some (JList (x # xs)) \<Rightarrow> bindR (foldR parse_reference [] (x # xs)) (\<lambda>refs. Inr (d, refs))
        | _ \<Rightarrow> Inl (ValueError ''dependencies require at least one result reference''))))))
    | _ \<Rightarrow> Inl (ValueError ''dependency document must be an object''))"

section \<open>Checking a reference\<close>

text \<open>The climb to the root, after the ancestry was verified.\<close>

partial_function (option) climb :: "(string \<Rightarrow> node res) \<Rightarrow> node \<Rightarrow> string res option" where
  "climb get n = (case parent n of
      None \<Rightarrow> Some (Inr (nid n))
    | Some p \<Rightarrow> (case get p of Inl e \<Rightarrow> Some (Inl e) | Inr m \<Rightarrow> climb get m))"

definition verify_or_raise :: "'st store_ops \<Rightarrow> 'st \<Rightarrow> string \<Rightarrow> unit res option" where
  "verify_or_raise ops st i =
    bindO (verify ops st i) (\<lambda>rep. Some (ensure (vr_ok rep)
      (IntegrityError (concat_sep ''; '' (map vf_message (vr_findings rep))))))"

definition verified_root :: "'st store_ops \<Rightarrow> 'st \<Rightarrow> string \<Rightarrow> string res option" where
  "verified_root ops st i =
    bindO (verify_or_raise ops st i) (\<lambda>_.
    bindO (Some (s_get ops st i)) (\<lambda>n. climb (s_get ops st) n))"

definition target_finding :: "string \<Rightarrow> string \<Rightarrow> string \<Rightarrow> string \<Rightarrow> dependency_finding" where
  "target_finding note_id code msg t = \<lparr>df_node_id = note_id, df_code = code, df_message = msg, df_target = Some t\<rparr>"

definition check_reference ::
  "'st store_ops \<Rightarrow> 'st \<Rightarrow> string \<Rightarrow> string \<Rightarrow> result_reference \<Rightarrow> dependency_finding option res option" where
  "check_reference ops st root_id note_id r =
    (let t = rf_node_id r; finding = (\<lambda>code msg. Some (Inr (Some (target_finding note_id code msg t)))) in
     case s_get ops st t of
       Inl (KeyError k) \<Rightarrow> finding ''missing_target'' ''referenced node is missing''
     | Inl e \<Rightarrow> if bad_data e then finding ''invalid_target'' (exc_text e) else Some (Inl e)
     | Inr target \<Rightarrow>
         (case verified_root ops st t of
            None \<Rightarrow> None
          | Some (Inl e) \<Rightarrow> if bad_read e then finding ''invalid_target'' (exc_text e) else Some (Inl e)
          | Some (Inr r_id) \<Rightarrow>
              if r_id \<noteq> root_id then finding ''cross_run_reference'' ''referenced result belongs to another run''
              else if kind target \<notin> set result_kinds \<or> result_text target = None
              then finding ''missing_result'' ''referenced node has no completed call result''
              else if result_digest target \<noteq> Some (rf_digest r)
              then finding ''changed_result'' ''referenced result differs from committed digest''
              else Some (Inr None)))"

section \<open>Verifying the dependencies of a run\<close>

definition plain_finding :: "string \<Rightarrow> string \<Rightarrow> string \<Rightarrow> dependency_finding" where
  "plain_finding i code msg = \<lparr>df_node_id = i, df_code = code, df_message = msg, df_target = None\<rparr>"

definition add_finding :: "dependency_finding \<Rightarrow> dependency_report \<Rightarrow> dependency_report" where
  "add_finding f rep = rep\<lparr>dr_findings := dr_findings rep @ [f]\<rparr>"

definition check_one ::
  "'st store_ops \<Rightarrow> 'st \<Rightarrow> string \<Rightarrow> string \<Rightarrow> dependency_report \<Rightarrow> result_reference \<Rightarrow> dependency_report res option" where
  "check_one ops st root_id note_id rep r =
    bindO (check_reference ops st root_id note_id r) (\<lambda>f.
    let rep1 = rep\<lparr>dr_references := Suc (dr_references rep)\<rparr> in
    Some (Inr (case f of None \<Rightarrow> rep1 | Some f \<Rightarrow> add_finding f rep1)))"

text \<open>The body of the loop over the nodes: a node without a dependency is passed over.\<close>

definition node_dependency :: "node \<Rightarrow> json option" where
  "node_dependency n = (case dget (payload n) ''_pollard'' of Some (JDict d) \<Rightarrow> dget d ''dependency'' | _ \<Rightarrow> None)"

definition note_references :: "node \<Rightarrow> json \<Rightarrow> result_reference list res" where
  "note_references n doc =
    (if kind n \<noteq> kind_value NOTE then Inl (ValueError ''dependency records must be notes'')
     else bindR (parse_document doc) (\<lambda>(d, refs). Inr refs))"

definition check_note ::
  "'st store_ops \<Rightarrow> 'st \<Rightarrow> string \<Rightarrow> dependency_report \<Rightarrow> node \<Rightarrow> dependency_report res option" where
  "check_note ops st root_id rep n = (case node_dependency n of
      None \<Rightarrow> Some (Inr rep)
    | Some doc \<Rightarrow>
        let rep1 = rep\<lparr>dr_notes := Suc (dr_notes rep)\<rparr> in
        (case note_references n doc of
           Inl e \<Rightarrow> Some (if bad_document e then Inr (add_finding (plain_finding (nid n) ''malformed_reference'' (exc_text e)) rep1)
                          else Inl e)
         | Inr refs \<Rightarrow>
             bindO (case bindO (verified_root ops st (nid n)) (\<lambda>r. Some (ensure (r = root_id)
                   (IntegrityError ''dependency note belongs to a different run''))) of
                 Some (Inl e) \<Rightarrow> Some (if bad_read e then Inr (add_finding (plain_finding (nid n) ''invalid_note'' (exc_text e)) rep1)
                                      else Inl e)
               | Some (Inr u) \<Rightarrow> Some (Inr rep1)
               | None \<Rightarrow> None) (\<lambda>rep2.
             foldO (check_one ops st root_id (nid n)) rep2 refs)))"

text \<open>
  The generator \<open>_read_tree\<close> and the loop that consumes it, as one loop: after \<open>body\<close> has handled a node its
  children are put before the ids that wait. \<open>report\<close> adds a finding to the state of the consumer.
\<close>

partial_function (option) tree_loop ::
  "(string \<Rightarrow> node res) \<Rightarrow> (string \<Rightarrow> string list res) \<Rightarrow> ('r \<Rightarrow> node \<Rightarrow> 'r res option) \<Rightarrow>
    (dependency_finding \<Rightarrow> 'r \<Rightarrow> 'r) \<Rightarrow> string list \<Rightarrow> string list \<Rightarrow> 'r \<Rightarrow> 'r res option" where
  "tree_loop get children body report seen pending rep = (case pending of
      [] \<Rightarrow> Some (Inr rep)
    | i # rest \<Rightarrow>
        if i \<in> set seen
        then tree_loop get children body report seen rest (report (plain_finding i ''invalid_tree'' ''repeated node in tree'') rep)
        else (case get i of
            Inl e \<Rightarrow> if bad_read e
              then tree_loop get children body report (i # seen) rest (report (plain_finding i ''invalid_node'' (exc_text e)) rep)
              else Some (Inl e)
          | Inr n \<Rightarrow> (case body rep n of
                None \<Rightarrow> None
              | Some r \<Rightarrow> (case r of
                  Inl e \<Rightarrow> Some (Inl e)
                | Inr rep' \<Rightarrow> (case children i of
                    Inl e \<Rightarrow> Some (Inl e)
                  | Inr cs \<Rightarrow> tree_loop get children body report (i # seen) (cs @ rest) rep')))))"

definition verify_dependencies :: "'st store_ops \<Rightarrow> 'st \<Rightarrow> string \<Rightarrow> dependency_report res option" where
  "verify_dependencies ops st root_id =
    (let rep = \<lparr>dr_root_id = root_id, dr_notes = 0, dr_references = 0, dr_findings = []\<rparr> in
     case bindO (verified_root ops st root_id) (\<lambda>r. Some (ensure (r = root_id)
         (IntegrityError ''root_id must identify a run root''))) of
       None \<Rightarrow> None
     | Some (Inl e) \<Rightarrow> Some (if bad_read e then Inr (add_finding (plain_finding root_id ''invalid_root'' (exc_text e)) rep) else Inl e)
     | Some (Inr u) \<Rightarrow> tree_loop (s_get ops st) (s_children ops st) (check_note ops st root_id) add_finding [] [root_id] rep)"

section \<open>Recording\<close>

definition add_reference :: "(string \<times> result_reference) list \<Rightarrow> result_reference \<Rightarrow> (string \<times> result_reference) list res" where
  "add_reference unique r = (case dget unique (rf_node_id r) of
      Some previous \<Rightarrow> if previous \<noteq> r then Inl (ValueError ''conflicting result references for the same node'')
        else Inr (dset (rf_node_id r) r unique)
    | None \<Rightarrow> Inr (dset (rf_node_id r) r unique))"

definition dependency_document ::
  "result_reference list \<Rightarrow> string \<Rightarrow> string option \<Rightarrow> string option \<Rightarrow> string option \<Rightarrow> jdict" where
  "dependency_document refs relation recipient task_id label =
    [(''version'', JInt 1), (''relation'', JStr relation),
     (''references'', JList (map (\<lambda>r. JDict (reference_dict r)) refs))] @
    concat (map (\<lambda>(k, v). case v of None \<Rightarrow> [] | Some s \<Rightarrow> [(k, JStr s)])
      [(''recipient'', recipient), (''task_id'', task_id), (''label'', label)])"

definition require_reference :: "'st runtime \<Rightarrow> result_reference \<Rightarrow> ('st run, unit) act" where
  "require_reference rt r =
    bindA (\<lambda>s. liftO (check_reference (rt_ops rt) (rn_store s) (rn_root s) (rn_cursor s) r) s) (\<lambda>f. case f of
      None \<Rightarrow> ret ()
    | Some f \<Rightarrow> failA (IntegrityError (df_code f @ '': '' @ df_message f)))"

definition record_dependency ::
  "'st runtime \<Rightarrow> moment \<Rightarrow> result_reference list \<Rightarrow> string \<Rightarrow> string option \<Rightarrow> string option \<Rightarrow> string option \<Rightarrow> int \<Rightarrow>
    ('st run, node) act" where
  "record_dependency rt mo references relation recipient task_id label att =
    bindA (liftR (foldR add_reference [] references)) (\<lambda>unique.
    let refs = sort_key rf_node_id (map snd unique);
        document = dependency_document refs relation recipient task_id label in
    bindA (liftR (parse_document (JDict document))) (\<lambda>_.
    bindA (\<lambda>s. liftO (verified_root (rt_ops rt) (rn_store s) (rn_cursor s)) s) (\<lambda>root.
    bindA (getA rn_root) (\<lambda>root_id.
    bindA (liftR (ensure (root = root_id) (IntegrityError ''dependency cursor does not belong to the run root''))) (\<lambda>_.
    bindA (forA (require_reference rt) refs) (\<lambda>_.
    note_call rt mo [(''_pollard'', JDict [(''dependency'', JDict document)])] att))))))"

definition record_handoff ::
  "'st runtime \<Rightarrow> moment \<Rightarrow> result_reference list \<Rightarrow> string \<Rightarrow> string option \<Rightarrow> string option \<Rightarrow> int \<Rightarrow> ('st run, node) act" where
  "record_handoff rt mo references recipient task_id label att =
    record_dependency rt mo references ''handoff'' (Some recipient) task_id label att"

end
