(* ===== verification/Approvals.thy ===== *)
theory Approvals
  imports Dependencies
begin

text \<open>
  Durable approvals (\<open>approvals.py\<close>): the request note for one exact action, the slot whose result binds the
  decision, the recording of a decision, and the policy that allows an action only under an approved request
  that was not used. Values read from notes are \<open>json\<close>; every constructor validates them.
\<close>

section \<open>Requests\<close>

record approval_request =
  aq_id :: string
  aq_root_id :: string
  aq_parent_id :: string
  aq_name :: string
  aq_tool_version :: string
  aq_args_digest :: string
  aq_spec_digest :: string
  aq_registry_digest :: string
  aq_identity :: "agent_identity option"
  aq_attempt :: int

definition identity_json :: "agent_identity option \<Rightarrow> json" where
  "identity_json a = (case a of None \<Rightarrow> JNull | Some a \<Rightarrow> JDict (identity_to_dict a))"

definition request_document :: "approval_request \<Rightarrow> jdict" where
  "request_document r =
    [(''version'', JInt 1), (''root_id'', JStr (aq_root_id r)), (''name'', JStr (aq_name r)),
     (''tool_version'', JStr (aq_tool_version r)), (''args_digest'', JStr (aq_args_digest r)),
     (''spec_digest'', JStr (aq_spec_digest r)), (''registry_digest'', JStr (aq_registry_digest r)),
     (''agent_identity'', identity_json (aq_identity r))]"

definition request_payload :: "jdict \<Rightarrow> jdict" where
  "request_payload document = [(''_pollard'', JDict [(''approval_request'', JDict document)])]"

definition request_node :: "approval_request \<Rightarrow> node res" where
  "request_node r =
    make_node (kind_value NOTE) (Some (aq_parent_id r)) (request_payload (request_document r)) (aq_attempt r) JNull []"

definition nonempty_text :: "json \<Rightarrow> string \<Rightarrow> string res" where
  "nonempty_text v name =
    (let bad = Inl (ValueError (''approval '' @ name @ '' must be a non-empty string'')) in
     case v of JStr s \<Rightarrow> (if s = [] then bad else Inr s) | _ \<Rightarrow> bad)"

definition request_attempt :: "json \<Rightarrow> int res" where
  "request_attempt v =
    (let bad = Inl (ValueError ''approval attempt must be a nonnegative integer'') in
     case v of JInt a \<Rightarrow> (if a < 0 then bad else Inr a) | _ \<Rightarrow> bad)"

definition make_request ::
  "json \<Rightarrow> json \<Rightarrow> json \<Rightarrow> json \<Rightarrow> json \<Rightarrow> json \<Rightarrow> json \<Rightarrow> json \<Rightarrow> agent_identity option \<Rightarrow> json \<Rightarrow> approval_request res" where
  "make_request i run_id p name version args spec reg identity att =
    bindR (context_node_id i ''id'') (\<lambda>i.
    bindR (context_node_id run_id ''root_id'') (\<lambda>run_id.
    bindR (context_node_id p ''parent_id'') (\<lambda>p.
    bindR (context_node_id args ''args_digest'') (\<lambda>args.
    bindR (context_node_id spec ''spec_digest'') (\<lambda>spec.
    bindR (context_node_id reg ''registry_digest'') (\<lambda>reg.
    bindR (nonempty_text name ''name'') (\<lambda>name.
    bindR (nonempty_text version ''tool_version'') (\<lambda>version.
    bindR (request_attempt att) (\<lambda>att.
    let r = \<lparr>aq_id = i, aq_root_id = run_id, aq_parent_id = p, aq_name = name, aq_tool_version = version,
             aq_args_digest = args, aq_spec_digest = spec, aq_registry_digest = reg, aq_identity = identity,
             aq_attempt = att\<rparr> in
    bindR (request_node r) (\<lambda>n.
    bindR (ensure (nid n = i) (IntegrityError ''approval request ID does not match its contents'')) (\<lambda>_.
    Inr r)))))))))))"

definition request_to_dict :: "approval_request \<Rightarrow> jdict" where
  "request_to_dict r = dmerge (request_document r)
    [(''id'', JStr (aq_id r)), (''parent_id'', JStr (aq_parent_id r)), (''attempt'', JInt (aq_attempt r))]"

definition request_fields :: "string list" where
  "request_fields = [''version'', ''id'', ''root_id'', ''parent_id'', ''attempt'', ''name'', ''tool_version'',
     ''args_digest'', ''spec_digest'', ''registry_digest'', ''agent_identity'']"

definition request_from_dict :: "json \<Rightarrow> approval_request res" where
  "request_from_dict v =
    bindR (context_fields v request_fields ''approval request'') (\<lambda>d.
    bindR (ensure (dget_or d ''version'' JNull = JInt 1) (ValueError ''unsupported approval request version'')) (\<lambda>_.
    bindR (case dget_or d ''agent_identity'' JNull of
        JNull \<Rightarrow> Inr None
      | w \<Rightarrow> bindR (identity_from_dict w) (\<lambda>a. Inr (Some a))) (\<lambda>identity.
    make_request (dget_or d ''id'' JNull) (dget_or d ''root_id'' JNull) (dget_or d ''parent_id'' JNull)
      (dget_or d ''name'' JNull) (dget_or d ''tool_version'' JNull) (dget_or d ''args_digest'' JNull)
      (dget_or d ''spec_digest'' JNull) (dget_or d ''registry_digest'' JNull) identity (dget_or d ''attempt'' JNull))))"

section \<open>Notes\<close>

definition is_dispatch :: "node \<Rightarrow> bool" where
  "is_dispatch n \<longleftrightarrow> kind n \<in> {kind_value MODEL_CALL, kind_value TOOL_CALL} \<or>
    (kind n = kind_value NOTE \<and>
     dget_or (payload n) ''event'' JNull \<in> {JStr ''call_outcome_unknown'', JStr ''call_recording_failed''})"

definition event_document :: "node \<Rightarrow> string \<Rightarrow> json option" where
  "event_document n name = (case dget (payload n) ''_pollard'' of Some (JDict w) \<Rightarrow> dget w name | _ \<Rightarrow> None)"

definition event_of :: "node \<Rightarrow> string \<Rightarrow> jdict res" where
  "event_of n name = (case event_document n name of
      Some (JDict d) \<Rightarrow>
        if kind n \<noteq> kind_value NOTE then Inl (IntegrityError (''invalid '' @ name @ '' note''))
        else if dget d ''version'' \<noteq> Some (JInt 1) then Inl (IntegrityError (''unsupported '' @ name @ '' version''))
        else Inr d
    | _ \<Rightarrow> Inl (IntegrityError (''invalid '' @ name @ '' note'')))"

definition request_from_node :: "node \<Rightarrow> approval_request res" where
  "request_from_node n =
    bindR (event_of n ''approval_request'') (\<lambda>document.
    bindR (request_from_dict (JDict (dmerge document [(''id'', JStr (nid n)),
        (''parent_id'', case parent n of None \<Rightarrow> JNull | Some p \<Rightarrow> JStr p), (''attempt'', JInt (attempt n))]))) (\<lambda>request.
    bindR (request_node request) (\<lambda>expected.
    if \<not> identity_eq n expected \<or> result_text n \<noteq> None then Inl (IntegrityError ''invalid approval request note'')
    else Inr request)))"

definition load_request :: "'st store_ops \<Rightarrow> 'st \<Rightarrow> approval_request \<Rightarrow> node res option" where
  "load_request ops st r =
    bindO (verified_root ops st (aq_id r)) (\<lambda>run_id.
    Some (bindR (ensure (run_id = aq_root_id r) (IntegrityError ''approval request belongs to a different root'')) (\<lambda>_.
      bindR (s_get ops st (aq_id r)) (\<lambda>n.
      bindR (request_from_node n) (\<lambda>recorded.
      bindR (ensure (recorded = r) (IntegrityError ''approval request differs from its recording'')) (\<lambda>_. Inr n))))))"

definition decision_slot :: "approval_request \<Rightarrow> node res" where
  "decision_slot r = make_node (kind_value NOTE) (Some (aq_id r))
    [(''_pollard'', JDict [(''approval_decision_slot'', JDict [(''version'', JInt 1), (''request_id'', JStr (aq_id r))])])]
    0 JNull []"

definition validate_binding :: "'st store_ops \<Rightarrow> 'st \<Rightarrow> node \<Rightarrow> node res option" where
  "validate_binding ops st expected =
    bindO (verify_or_raise ops st (nid expected)) (\<lambda>_.
    Some (bindR (s_get ops st (nid expected)) (\<lambda>n.
      if \<not> identity_eq n expected \<or> \<not> py_eq (result n) (result expected)
      then Inl (IntegrityError ''conflicting approval decision'') else Inr n)))"

text \<open>The id that the slot's result binds.\<close>

definition bound_decision :: "node \<Rightarrow> string res" where
  "bound_decision slot = (case result slot of
      JDict d \<Rightarrow> if set (map fst d) = {''decision_id''} then context_node_id (dget_or d ''decision_id'' JNull) ''decision_id''
        else Inl (IntegrityError ''invalid approval decision binding'')
    | _ \<Rightarrow> Inl (IntegrityError ''invalid approval decision binding''))"

definition decision_fields :: "string list" where
  "decision_fields = [''version'', ''request_id'', ''root_id'', ''approved'', ''reviewer'']"

definition decision_document_ok :: "approval_request \<Rightarrow> node \<Rightarrow> node \<Rightarrow> jdict \<Rightarrow> bool" where
  "decision_document_ok r slot n d \<longleftrightarrow> set (map fst d) = set decision_fields \<and>
    dget d ''request_id'' = Some (JStr (aq_id r)) \<and> dget d ''root_id'' = Some (JStr (aq_root_id r)) \<and>
    parent n = Some (nid slot) \<and> (\<exists>b \<in> {True, False}. dget d ''approved'' = Some (JBool b))"

definition check_decision :: "approval_request \<Rightarrow> node \<Rightarrow> node \<Rightarrow> node option res" where
  "check_decision r slot n =
    bindR (event_of n ''approval_decision'') (\<lambda>d.
    bindR (ensure (decision_document_ok r slot n d) (IntegrityError ''invalid approval decision'')) (\<lambda>_.
    bindR (validate_name (dget_or d ''reviewer'' JNull) ''reviewer'') (\<lambda>_. Inr (Some n))))"

definition read_decision :: "'st store_ops \<Rightarrow> 'st \<Rightarrow> approval_request \<Rightarrow> node option res option" where
  "read_decision ops st r =
    bindO (Some (decision_slot r)) (\<lambda>expected.
    if \<not> s_exists ops st (nid expected) then Some (Inr None)
    else bindO (verify_or_raise ops st (nid expected)) (\<lambda>_.
      bindO (Some (s_get ops st (nid expected))) (\<lambda>slot.
      if \<not> identity_eq slot expected then Some (Inl (IntegrityError ''invalid approval decision slot''))
      else bindO (Some (bound_decision slot)) (\<lambda>i.
        if \<not> s_exists ops st i then Some (Inr None)
        else bindO (verify_or_raise ops st i) (\<lambda>_.
          bindO (Some (s_get ops st i)) (\<lambda>n. Some (check_decision r slot n)))))))"

section \<open>Asking and deciding\<close>

definition request_approval ::
  "'st runtime \<Rightarrow> moment \<Rightarrow> string \<Rightarrow> jdict \<Rightarrow> string option \<Rightarrow> int \<Rightarrow> ('st run, approval_request) act" where
  "request_approval rt mo name args version att = (case rt_registry rt of
      None \<Rightarrow> failA (ValueError ''approval requests require a registry'')
    | Some reg \<Rightarrow>
        bindA (liftR (registry_get reg name version)) (\<lambda>spec.
        bindA (liftR (validate_args spec args)) (\<lambda>err. case err of
          Some e \<Rightarrow> failA (ValueError (''invalid approval arguments: '' @ e))
        | None \<Rightarrow>
            bindA (\<lambda>s. liftO (verified_root (rt_ops rt) (rn_store s) (rn_cursor s)) s) (\<lambda>run_id.
            bindA (getA rn_root) (\<lambda>own_root.
            bindA (liftR (ensure (run_id = own_root) (IntegrityError ''approval cursor does not belong to the run root''))) (\<lambda>_.
            bindA (liftR (redact_args spec args)) (\<lambda>audit.
            bindA (liftR (digest_payload (JDict audit))) (\<lambda>args_digest.
            bindA (getA rn_identity) (\<lambda>identity.
            bindA (getA rn_cursor) (\<lambda>cursor.
            let document = [(''version'', JInt 1), (''root_id'', JStr own_root), (''name'', JStr (sp_name spec)),
                  (''tool_version'', JStr (sp_version spec)), (''args_digest'', JStr args_digest),
                  (''spec_digest'', JStr (sp_digest spec)), (''registry_digest'', JStr (rg_digest reg)),
                  (''agent_identity'', identity_json identity)] in
            bindA (liftR (bindR (make_node (kind_value NOTE) (Some cursor) (request_payload document) att JNull []) request_from_node)) (\<lambda>_.
            bindA (note_call rt mo (request_payload document) att) (\<lambda>n.
            liftR (request_from_node n)))))))))))))"

definition decision_payload :: "approval_request \<Rightarrow> bool \<Rightarrow> string \<Rightarrow> jdict" where
  "decision_payload r approved reviewer =
    [(''_pollard'', JDict [(''approval_decision'', JDict [(''version'', JInt 1), (''request_id'', JStr (aq_id r)),
      (''root_id'', JStr (aq_root_id r)), (''approved'', JBool approved), (''reviewer'', JStr reviewer)])])]"

definition recorded_decision :: "'st store_ops \<Rightarrow> approval_request \<Rightarrow> ('st, node) act" where
  "recorded_decision ops r =
    bindA (\<lambda>st. liftO (read_decision ops st r) st) (\<lambda>found. case found of None \<Rightarrow> failA AssertionError | Some n \<Rightarrow> ret n)"

definition put_act :: "'st store_ops \<Rightarrow> node \<Rightarrow> ('st, unit) act" where
  "put_act ops n st = (case s_put ops n st of Inl e \<Rightarrow> Some (Inl e, st) | Inr st' \<Rightarrow> Some (Inr (), st'))"

text \<open>The writes of a decision: the slot that binds it, then the decision.\<close>

definition write_decision ::
  "'st store_ops \<Rightarrow> bool \<Rightarrow> approval_request \<Rightarrow> node \<Rightarrow> node \<Rightarrow> ('st, node) act" where
  "write_decision ops read_only r binding decision =
    (if read_only then failA (RuntimeErr ''cannot record an approval decision in a read-only store'')
     else bindA (put_act ops binding) (\<lambda>_.
       bindA (\<lambda>st. liftO (validate_binding ops st binding) st) (\<lambda>_.
       bindA (put_act ops decision) (\<lambda>_. recorded_decision ops r))))"

definition decide_approval ::
  "'st store_ops \<Rightarrow> bool \<Rightarrow> approval_request \<Rightarrow> json \<Rightarrow> json \<Rightarrow> ('st, node) act" where
  "decide_approval ops read_only r approved reviewer =
    bindA (\<lambda>st. liftO (load_request ops st r) st) (\<lambda>_. case approved of
      JBool b \<Rightarrow>
        bindA (liftR (validate_name reviewer ''reviewer'')) (\<lambda>name.
        bindA (liftR (decision_slot r)) (\<lambda>slot.
        bindA (liftR (make_node (kind_value NOTE) (Some (nid slot)) (decision_payload r b name) 0 JNull [])) (\<lambda>decision.
        bindA (liftR (make_node (kind slot) (parent slot) (payload slot) 0 (JDict [(''decision_id'', JStr (nid decision))]) [])) (\<lambda>binding.
        bindA (getA (\<lambda>st. s_exists ops st (nid slot))) (\<lambda>present.
        if present then
          bindA (\<lambda>st. liftO (validate_binding ops st binding) st) (\<lambda>_.
          bindA (getA (\<lambda>st. s_exists ops st (nid decision))) (\<lambda>done_before.
          if done_before then recorded_decision ops r else write_decision ops read_only r binding decision))
        else write_decision ops read_only r binding decision)))))
    | _ \<Rightarrow> failA (TypeError ''approved must be a boolean''))"

section \<open>The policy\<close>

text \<open>The climb from the cursor to the request that governs it: none after a dispatch or above a root.\<close>

partial_function (option) find_request :: "(string \<Rightarrow> node res) \<Rightarrow> node \<Rightarrow> approval_request option res option" where
  "find_request get n =
    (if is_dispatch n then Some (Inr None)
     else if event_document n ''approval_request'' \<noteq> None
     then Some (bindR (request_from_node n) (\<lambda>r. Inr (Some r)))
     else (case parent n of
         None \<Rightarrow> Some (Inr None)
       | Some p \<Rightarrow> (case get p of Inl e \<Rightarrow> Some (Inl e) | Inr m \<Rightarrow> find_request get m)))"

text \<open>The search of the request's subtree for a dispatch.\<close>

partial_function (option) dispatch_below ::
  "(string \<Rightarrow> unit res option) \<Rightarrow> (string \<Rightarrow> node res) \<Rightarrow> (string \<Rightarrow> string list res) \<Rightarrow> string list \<Rightarrow> string list \<Rightarrow> bool res option" where
  "dispatch_below check get children pending seen = (case pending of
      [] \<Rightarrow> Some (Inr False)
    | i # rest \<Rightarrow>
        if i \<in> set seen then Some (Inl (IntegrityError ''cycle in approval request subtree''))
        else (case check i of
            None \<Rightarrow> None
          | Some c \<Rightarrow> (case c of
              Inl e \<Rightarrow> Some (Inl e)
            | Inr u \<Rightarrow> (case get i of
                Inl e \<Rightarrow> Some (Inl e)
              | Inr n \<Rightarrow>
                  if is_dispatch n then Some (Inr True)
                  else (case children i of
                      Inl e \<Rightarrow> Some (Inl e)
                    | Inr cs \<Rightarrow> dispatch_below check get children (rev cs @ rest) (i # seen))))))"

definition request_matches :: "approval_request \<Rightarrow> string \<Rightarrow> policy_context \<Rightarrow> bool res" where
  "request_matches r run_id ctx =
    (if aq_root_id r \<noteq> run_id \<or> aq_name r \<noteq> sp_name (cx_spec ctx) \<or> aq_tool_version r \<noteq> sp_version (cx_spec ctx) \<or>
        aq_spec_digest r \<noteq> sp_digest (cx_spec ctx) \<or> Some (aq_registry_digest r) \<noteq> cx_registry_digest ctx \<or>
        aq_identity r \<noteq> cx_identity ctx
     then Inr False
     else bindR (redact_args (cx_spec ctx) (cx_args ctx)) (\<lambda>audit.
       bindR (digest_payload (JDict audit)) (\<lambda>dg. Inr (aq_args_digest r = dg))))"

definition approval_decide :: "'st store_ops \<Rightarrow> bool \<Rightarrow> 'st \<Rightarrow> policy_context \<Rightarrow> decision res option" where
  "approval_decide ops side_effects_only st ctx =
    (if side_effects_only \<and> \<not> sp_side_effects (cx_spec ctx) then Some (Inr ALLOW)
     else
       bindO (verified_root ops st (cx_cursor_id ctx)) (\<lambda>run_id.
       bindO (Some (s_get ops st (cx_cursor_id ctx))) (\<lambda>current.
       bindO (find_request (s_get ops st) current) (\<lambda>found. case found of
         None \<Rightarrow> Some (Inr DENY)
       | Some r \<Rightarrow>
           bindO (Some (request_matches r run_id ctx)) (\<lambda>ok.
           if \<not> ok then Some (Inr DENY)
           else bindO (load_request ops st r) (\<lambda>_.
             bindO (read_decision ops st r) (\<lambda>decision. case decision of
               None \<Rightarrow> Some (Inr DENY)
             | Some d \<Rightarrow>
                 bindO (Some (event_of d ''approval_decision'')) (\<lambda>document.
                 if dget document ''approved'' = Some (JBool False) then Some (Inr DENY)
                 else bindO (dispatch_below (verify_or_raise ops st) (s_get ops st) (s_children ops st) [aq_id r] []) (\<lambda>used.
                   Some (Inr (if used then DENY else ALLOW)))))))))))"

end
