(* ===== verification/Dependencies_Facts.thy ===== *)
theory Dependencies_Facts
  imports Dependencies
begin

text \<open>
  What \<open>verify_dependencies\<close> promises over a store that keeps the contract: it returns, and its report has
  no finding exactly when every dependency note of the run parses and commits to the results of completed
  calls of the same run.
\<close>

section \<open>Parsing raises only bad documents\<close>

lemma bad_document_hex64: "hex64_field v name = Inl e \<Longrightarrow> bad_document e"
  by (auto simp: hex64_field_def Let_def split: json.splits if_splits)

lemma bad_document_make_reference: "make_reference i d = Inl e \<Longrightarrow> bad_document e"
  by (auto simp: make_reference_def bindR_Inl_iff dest: bad_document_hex64)

lemma bad_document_guards:
  "(if b then Inl (ValueError m) else r) = Inl e \<Longrightarrow> (r = Inl e \<Longrightarrow> bad_document e) \<Longrightarrow> bad_document e"
  "bindR q f = Inl e \<Longrightarrow> (q = Inl e \<Longrightarrow> bad_document e) \<Longrightarrow> (\<And>x. f x = Inl e \<Longrightarrow> bad_document e) \<Longrightarrow> bad_document e"
  "ensure b (ValueError m) = Inl e \<Longrightarrow> bad_document e"
  by (auto simp: bindR_Inl_iff ensure_def split: if_splits)

lemma bad_document_parse_reference:
  assumes "parse_reference refs v = Inl e" shows "bad_document e"
proof (cases v)
  case (JDict d)
  show ?thesis
  proof (cases "\<exists>i r. dget d ''node_id'' = Some i \<and> dget d ''result_digest'' = Some r")
    case True
    then obtain i r where k: "dget d ''node_id'' = Some i" "dget d ''result_digest'' = Some r" by blast
    have "parse_reference refs v = (if set (map fst d) \<noteq> {''node_id'', ''result_digest''}
        then Inl (ValueError ''result reference must contain node_id and result_digest'')
        else bindR (make_reference i r) (\<lambda>reference. if rf_node_id reference \<in> set (map rf_node_id refs)
          then Inl (ValueError ''dependency contains duplicate result references'') else Inr (refs @ [reference])))"
      unfolding parse_reference_def JDict by (simp only: Let_def k json.case prod.case option.case)
    with assms have "\<dots> = Inl e" by simp
    then show ?thesis
      by (rule bad_document_guards(1))
        (erule bad_document_guards(2), erule bad_document_make_reference, erule bad_document_guards(1), simp)
  next
    case False
    then have "dget d ''node_id'' = None \<or> dget d ''result_digest'' = None" by (metis option.exhaust)
    then have "parse_reference refs v = Inl (ValueError ''result reference must contain node_id and result_digest'')"
      unfolding parse_reference_def JDict Let_def json.case by (elim disjE) (simp_all only: prod.case option.case split: option.split, simp_all)
    then show ?thesis using assms by auto
  qed
qed (use assms in \<open>auto simp: parse_reference_def Let_def\<close>)

lemma foldR_Inl:
  "foldR f s xs = Inl e \<Longrightarrow> (\<And>s x. f s x = Inl e \<Longrightarrow> P e) \<Longrightarrow> P e"
  by (induction xs arbitrary: s) (auto simp: bindR_Inl_iff)

lemma forR_Inl: "forR f xs = Inl e \<Longrightarrow> \<exists>x. f x = Inl e"
  by (induction xs) (auto simp: bindR_Inl_iff)

lemma bad_document_text_field: "check_text_field d name = Inl e \<Longrightarrow> bad_document e"
  by (auto simp: ensure_def split: option.splits json.splits if_splits)

lemma bad_document_references:
  "(case x of Some (JList (y # ys)) \<Rightarrow> bindR (foldR parse_reference [] (y # ys)) (\<lambda>refs. Inr (d, refs))
    | _ \<Rightarrow> Inl (ValueError m)) = Inl e \<Longrightarrow> bad_document e"
  using foldR_Inl [of parse_reference "[]" _ e bad_document] bad_document_parse_reference
  by (auto simp: bindR_Inl_iff simp del: foldR.simps split: option.splits json.splits list.splits)

lemma bad_document_texts: "forR (check_text_field d) names = Inl e \<Longrightarrow> bad_document e"
  using forR_Inl bad_document_text_field by blast

lemma bad_document_note:
  assumes "note_references n v = Inl e" shows "bad_document e"
proof -
  have "bad_document e" if "parse_document v = Inl e"
  proof (cases v)
    case (JDict d)
    show ?thesis using that unfolding parse_document_def JDict json.case
      by (elim bad_document_guards(2) bad_document_guards(3) bad_document_texts bad_document_references)
  qed (use that in \<open>auto simp: parse_document_def\<close>)
  with assms show ?thesis by (auto simp: note_references_def bindR_Inl_iff split: if_splits)
qed

section \<open>The climb\<close>

lemma climb_simps:
  "parent n = None \<Longrightarrow> climb get n = Some (Inr (nid n))"
  "parent n = Some p \<Longrightarrow> get p = Inr m \<Longrightarrow> climb get n = climb get m"
  by (subst climb.simps; simp)+

lemma climb_down:
  assumes "(r, i) \<in> (edges M)\<^sup>*" "\<And>j m. M j = Some m \<Longrightarrow> get j = Inr m" "M r = Some rn" "M i = Some n"
  shows "climb get n = climb get rn"
  using assms(1,4)
proof (induction i arbitrary: n rule: rtrancl_induct)
  case (step j i)
  then have p: "parent n = Some j" by (auto simp: edges_def)
  show ?case
  proof (cases "M j")
    case None
    then have "j = r" using step(1) edges_dom by (metis domIff rtranclE)
    then show ?thesis using None assms(3) by simp
  next
    case (Some m)
    then show ?thesis using climb_simps(2) [of n j get m, OF p assms(2) [OF Some]] step.IH [OF Some] by simp
  qed
qed (use assms(3) in simp)

lemma edges_up_wf: "forest M \<Longrightarrow> wf (edges M)"
  using edges_finite [of M] by (simp add: forest_def finite_acyclic_wf)

lemma climb_root:
  assumes "forest M" "parents_in M" "\<And>j m. M j = Some m \<Longrightarrow> get j = Inr m" "M i = Some n"
  shows "\<exists>r. climb get n = Some (Inr r) \<and> i \<in> desc M r"
  using assms(4)
proof (induction i arbitrary: n rule: wf_induct_rule [OF edges_up_wf [OF assms(1)]])
  case (1 i)
  show ?case
  proof (cases "parent n")
    case None
    then show ?thesis using climb_simps(1) assms(1) 1(2) by (auto simp: forest_def)
  next
    case (Some p)
    then obtain m where m: "M p = Some m" using parents_inD [OF assms(2) 1(2)] by blast
    have e: "(p, i) \<in> edges M" using 1(2) Some by (auto simp: edges_def)
    obtain r where r: "climb get m = Some (Inr r)" "p \<in> desc M r" using 1(1) [OF e m] by blast
    have "climb get n = Some (Inr r)" using climb_simps(2) [of n p get m, OF Some assms(3) [OF m]] r(1) by simp
    moreover have "i \<in> desc M r" using r(2) e by (auto simp: desc_def)
    ultimately show ?thesis by blast
  qed
qed

text \<open>So the climb from a node ends at a given root exactly below it.\<close>

lemma climb_iff:
  assumes "forest M" "parents_in M" "\<And>j m. M j = Some m \<Longrightarrow> get j = Inr m" "M i = Some n" "M r = Some rn" "parent rn = None"
  shows "climb get n = Some (Inr r) \<longleftrightarrow> i \<in> desc M r"
proof
  assume "climb get n = Some (Inr r)"
  then show "i \<in> desc M r" using climb_root [OF assms(1,2), of get] assms(3,4) by fastforce
next
  assume "i \<in> desc M r"
  then have "climb get n = climb get rn" using climb_down [of r i M get] assms(3-5) by (simp add: desc_def)
  then show "climb get n = Some (Inr r)" using climb_simps(1) [OF assms(6), of get] assms(1,5) by (simp add: forest_def)
qed

section \<open>The loop over the nodes\<close>

lemma walk_loop_grows:
  assumes "walk_loop get children pending acc = Some r" shows "\<exists>L. fst r = acc @ L"
proof (rule walk_loop.raw_induct [where P = "\<lambda>get children pending acc r. \<exists>L. fst r = acc @ L", OF _ assms])
  fix wl and get :: "string \<Rightarrow> node res" and children :: "string \<Rightarrow> string list res" and pending acc r
  assume IH: "\<And>get children pending acc r. wl get children pending acc = Some r \<Longrightarrow> \<exists>L. fst r = acc @ L"
    and step: "(case pending of [] \<Rightarrow> Some (acc, None) | i # rest \<Rightarrow> (case get i of Inl e \<Rightarrow> Some (acc, Some e)
      | Inr n \<Rightarrow> (case children i of Inl e \<Rightarrow> Some (acc @ [n], Some e)
        | Inr cs \<Rightarrow> wl get children (cs @ rest) (acc @ [n])))) = Some r"
  show "\<exists>L. fst r = acc @ L"
  proof (cases pending)
    case (Cons i rest)
    show ?thesis
    proof (cases "get i")
      case (Inr n)
      then show ?thesis using step Cons by (cases "children i") (auto dest: IH)
    qed (use step Cons in auto)
  qed (use step in auto)
qed

text \<open>Where the walk meets no id twice, the loop runs its body over the nodes of the walk.\<close>

lemma tree_loop_simps:
  "tree_loop get children body report seen [] rep = Some (Inr rep)"
  "i \<notin> set seen \<Longrightarrow> get i = Inr n \<Longrightarrow> children i = Inr cs \<Longrightarrow>
    tree_loop get children body report seen (i # rest) rep =
      bindO (body rep n) (\<lambda>rep'. tree_loop get children body report (i # seen) (cs @ rest) rep')"
  by (subst tree_loop.simps; simp add: bindO_def split: option.split sum.split)+

lemma walk_loop_step:
  assumes "walk_loop get children pending acc = Some (acc @ L, None)"
  shows "(pending = [] \<and> L = []) \<or> (\<exists>i rest n cs L'. pending = i # rest \<and> get i = Inr n \<and> children i = Inr cs \<and>
    L = n # L' \<and> walk_loop get children (cs @ rest) (acc @ [n]) = Some ((acc @ [n]) @ L', None))"
proof (cases pending)
  case Nil
  then show ?thesis using assms by simp
next
  case (Cons i rest)
  obtain n where n: "get i = Inr n" using assms Cons by (cases "get i") simp_all
  obtain cs where cs: "children i = Inr cs" using assms Cons n by (cases "children i") simp_all
  have w: "walk_loop get children (cs @ rest) (acc @ [n]) = Some (acc @ L, None)" using assms Cons n cs by simp
  then obtain L' where "acc @ L = (acc @ [n]) @ L'" using walk_loop_grows by fastforce
  then show ?thesis using w Cons n cs by simp
qed

lemma tree_loop_walk:
  assumes "walk_loop get children pending acc = Some (acc @ L, None)" "\<And>i n. get i = Inr n \<Longrightarrow> nid n = i"
    "distinct (map nid L)" "nid ` set L \<inter> set seen = {}"
  shows "tree_loop get children body report seen pending rep = foldO body rep L"
  using assms(1,3,4)
proof (induction L arbitrary: pending acc seen rep)
  case Nil
  then show ?case using walk_loop_step [OF Nil.prems(1)] by (simp add: tree_loop_simps(1))
next
  case (Cons n L)
  obtain i rest cs where w: "pending = i # rest" "get i = Inr n" "children i = Inr cs"
    "walk_loop get children (cs @ rest) (acc @ [n]) = Some ((acc @ [n]) @ L, None)"
    using walk_loop_step [OF Cons.prems(1)] by blast
  have i: "nid n = i" using assms(2) [OF w(2)] .
  have fresh: "i \<notin> set seen" "distinct (map nid L)" "nid ` set L \<inter> set (i # seen) = {}"
    using Cons.prems(2,3) i by auto
  have "tree_loop get children body report (i # seen) (cs @ rest) rep' = foldO body rep' L" for rep'
    by (rule Cons.IH [OF w(4) fresh(2,3)])
  then show ?case using tree_loop_simps(2) [of i seen get n children cs body report rest rep, OF fresh(1) w(2,3)] w(1) by simp
qed

section \<open>References and notes that hold\<close>

definition reference_holds :: "node_map \<Rightarrow> string \<Rightarrow> result_reference \<Rightarrow> bool" where
  "reference_holds M run_id r \<longleftrightarrow> (\<exists>t. M (rf_node_id r) = Some t \<and> rf_node_id r \<in> desc M run_id \<and>
    kind t \<in> set result_kinds \<and> result_text t \<noteq> None \<and> result_digest t = Some (rf_digest r))"

definition note_holds :: "node_map \<Rightarrow> string \<Rightarrow> node \<Rightarrow> bool" where
  "note_holds M run_id n \<longleftrightarrow> (\<forall>doc. node_dependency n = Some doc \<longrightarrow>
    (\<exists>refs. note_references n doc = Inr refs \<and> (\<forall>r \<in> set refs. reference_holds M run_id r)))"

context store_contract begin

lemma verified_root_ok:
  assumes "inv st" "nodes st i = Some n"
  shows "verified_root ops st i = climb (s_get ops st) n"
proof -
  have "i \<in> dom (nodes st)" using assms(2) by blast
  then have "verify_or_raise ops st i = Some (Inr ())"
    using verify_clean [OF assms(1)] by (simp add: verify_or_raise_def ensure_def)
  then show ?thesis using assms by (simp add: verified_root_def get_nodes)
qed

lemma get_map: "inv st \<Longrightarrow> nodes st j = Some m \<Longrightarrow> s_get ops st j = Inr m"
  by (simp add: get_nodes)

lemma root_below:
  assumes "inv st" "nodes st i = Some n" "nodes st run_id = Some rn" "parent rn = None"
  obtains r where "verified_root ops st i = Some (Inr r)" "r = run_id \<longleftrightarrow> i \<in> desc (nodes st) run_id"
proof -
  note M = nodes_forest [OF assms(1)] nodes_closed [OF assms(1)]
  obtain r where r: "climb (s_get ops st) n = Some (Inr r)"
    using climb_root [of "nodes st" "s_get ops st" i n] M get_map [OF assms(1)] assms(2) by blast
  have "climb (s_get ops st) n = Some (Inr run_id) \<longleftrightarrow> i \<in> desc (nodes st) run_id"
    using climb_iff [of "nodes st" "s_get ops st" i n run_id rn] M get_map [OF assms(1)] assms(2-4) by blast
  then show thesis using r by (intro that [of r]) (simp_all add: verified_root_ok [OF assms(1,2)])
qed

lemma check_reference_ok:
  assumes "inv st" "nodes st run_id = Some rn" "parent rn = None"
  shows "\<exists>f. check_reference ops st run_id note_id r = Some (Inr f) \<and> (f = None \<longleftrightarrow> reference_holds (nodes st) run_id r)"
proof (cases "nodes st (rf_node_id r)")
  case None
  then show ?thesis using assms(1) by (simp add: check_reference_def Let_def get_nodes reference_holds_def)
next
  case (Some t)
  obtain q where q: "verified_root ops st (rf_node_id r) = Some (Inr q)" "q = run_id \<longleftrightarrow> rf_node_id r \<in> desc (nodes st) run_id"
    using root_below [OF assms(1) Some assms(2,3)] by blast
  then show ?thesis using Some get_map [OF assms(1) Some] by (simp add: check_reference_def Let_def reference_holds_def)
qed

lemma check_references_ok:
  assumes "inv st" "nodes st run_id = Some rn" "parent rn = None"
  shows "\<exists>rep'. foldO (check_one ops st run_id note_id) rep refs = Some (Inr rep') \<and>
    (dr_findings rep' = [] \<longleftrightarrow> dr_findings rep = [] \<and> (\<forall>r \<in> set refs. reference_holds (nodes st) run_id r))"
proof (induction refs arbitrary: rep)
  case (Cons r refs)
  obtain f where f: "check_reference ops st run_id note_id r = Some (Inr f)" "f = None \<longleftrightarrow> reference_holds (nodes st) run_id r"
    using check_reference_ok [OF assms] by blast
  define rep1 where "rep1 = (case f of None \<Rightarrow> rep\<lparr>dr_references := Suc (dr_references rep)\<rparr>
    | Some f \<Rightarrow> add_finding f (rep\<lparr>dr_references := Suc (dr_references rep)\<rparr>))"
  have "check_one ops st run_id note_id rep r = Some (Inr rep1)" by (simp add: check_one_def f(1) rep1_def Let_def)
  moreover have "dr_findings rep1 = [] \<longleftrightarrow> dr_findings rep = [] \<and> f = None"
    by (simp add: rep1_def add_finding_def split: option.split)
  ultimately show ?case using Cons.IH [of rep1] f(2) by auto
qed simp

lemma check_note_ok:
  assumes "inv st" "nodes st run_id = Some rn" "parent rn = None" "nodes st (nid n) = Some n" "nid n \<in> desc (nodes st) run_id"
  shows "\<exists>rep'. check_note ops st run_id rep n = Some (Inr rep') \<and>
    (dr_findings rep' = [] \<longleftrightarrow> dr_findings rep = [] \<and> note_holds (nodes st) run_id n)"
proof (cases "node_dependency n")
  case None
  then show ?thesis by (simp add: check_note_def note_holds_def)
next
  case (Some doc)
  define rep1 where "rep1 = rep\<lparr>dr_notes := Suc (dr_notes rep)\<rparr>"
  show ?thesis
  proof (cases "note_references n doc")
    case (Inl e)
    then show ?thesis using bad_document_note [OF Inl] by (simp add: check_note_def Some note_holds_def add_finding_def Let_def)
  next
    case (Inr refs)
    obtain r where r: "verified_root ops st (nid n) = Some (Inr r)" "r = run_id"
      using root_below [OF assms(1,4,2,3)] assms(5) by blast
    then have "check_note ops st run_id rep n = foldO (check_one ops st run_id (nid n)) rep1 refs"
      by (simp add: check_note_def Some Inr ensure_def Let_def rep1_def)
    moreover have "dr_findings rep1 = dr_findings rep" by (simp add: rep1_def)
    ultimately show ?thesis using check_references_ok [OF assms(1-3), of "nid n" rep1 refs] Some Inr by (auto simp: note_holds_def)
  qed
qed

lemma check_notes_ok:
  assumes "inv st" "nodes st run_id = Some rn" "parent rn = None"
    "\<forall>n \<in> set L. nodes st (nid n) = Some n \<and> nid n \<in> desc (nodes st) run_id"
  shows "\<exists>rep'. foldO (check_note ops st run_id) rep L = Some (Inr rep') \<and>
    (dr_findings rep' = [] \<longleftrightarrow> dr_findings rep = [] \<and> (\<forall>n \<in> set L. note_holds (nodes st) run_id n))"
  using assms(4)
proof (induction L arbitrary: rep)
  case (Cons n L)
  obtain rep1 where "check_note ops st run_id rep n = Some (Inr rep1)"
    "dr_findings rep1 = [] \<longleftrightarrow> dr_findings rep = [] \<and> note_holds (nodes st) run_id n"
    using check_note_ok [OF assms(1-3), of n rep] Cons.prems by auto
  then show ?case using Cons.IH [of rep1] Cons.prems by auto
qed simp

lemma verify_dependencies_returns:
  assumes "inv st" "nodes st run_id = Some rn" "parent rn = None"
  shows "\<exists>rep. verify_dependencies ops st run_id = Some (Inr rep) \<and>
    (dependencies_ok rep \<longleftrightarrow> (\<forall>i \<in> desc (nodes st) run_id. \<forall>n. nodes st i = Some n \<longrightarrow> note_holds (nodes st) run_id n))"
proof -
  have dom: "run_id \<in> dom (nodes st)" using assms(2) by blast
  obtain L where L: "walk_loop (s_get ops st) (s_children ops st) [run_id] [] = Some (L, None)" "preorder (nodes st) run_id L"
    using walk_yields_subtree [OF assms(1) dom] walk_nodes [OF assms(1) dom] by auto
  obtain r where r: "verified_root ops st run_id = Some (Inr r)" "r = run_id"
    using root_below [OF assms(1,2,2,3)] by (metis desc_self)
  define rep where "rep = \<lparr>dr_root_id = run_id, dr_notes = 0, dr_references = 0, dr_findings = []\<rparr>"
  have "verify_dependencies ops st run_id =
      tree_loop (s_get ops st) (s_children ops st) (check_note ops st run_id) add_finding [] [run_id] rep"
    by (simp add: verify_dependencies_def r ensure_def rep_def)
  also have "\<dots> = foldO (check_note ops st run_id) rep L"
    using L get_valid [OF assms(1)] by (intro tree_loop_walk [where acc = "[]"]) (auto simp: preorder_def)
  finally have v: "verify_dependencies ops st run_id = foldO (check_note ops st run_id) rep L" .
  have ids: "nid ` set L = desc (nodes st) run_id" "\<forall>n \<in> set L. nodes st (nid n) = Some n" using L(2) by (auto simp: preorder_def)
  then have "\<forall>n \<in> set L. nodes st (nid n) = Some n \<and> nid n \<in> desc (nodes st) run_id" by blast
  from check_notes_ok [OF assms this, of rep] obtain rep' where rep': "verify_dependencies ops st run_id = Some (Inr rep')"
    "dr_findings rep' = [] \<longleftrightarrow> (\<forall>n \<in> set L. note_holds (nodes st) run_id n)" unfolding v by (auto simp: rep_def)
  have "(\<forall>n \<in> set L. note_holds (nodes st) run_id n) \<longleftrightarrow>
      (\<forall>i \<in> desc (nodes st) run_id. \<forall>n. nodes st i = Some n \<longrightarrow> note_holds (nodes st) run_id n)"
    using ids by (metis (no_types, lifting) image_iff option.inject)
  then show ?thesis using rep' by (auto simp: dependencies_ok_def)
qed

end

section \<open>Properties\<close>

text \<open>
  C14. \<open>verify_dependencies\<close> of a run returns, and its report is clean exactly when every node of the run that
  carries a dependency is a note whose document parses and whose references all name a completed model or tool
  call of the same run with the committed result digest.
\<close>

theorem verify_dependencies_exact:
  assumes "mem_inv s" "mem_nodes s run_id = Some rn" "parent rn = None"
  shows "\<exists>rep. verify_dependencies mem_ops s run_id = Some (Inr rep) \<and>
    (dependencies_ok rep \<longleftrightarrow> (\<forall>i \<in> desc (mem_nodes s) run_id. \<forall>n. mem_nodes s i = Some n \<longrightarrow> note_holds (mem_nodes s) run_id n))"
  by (rule mem.verify_dependencies_returns [OF assms])

lemma verify_dependencies_exact_witness:
  "\<exists>rep. verify_dependencies mem_ops demo_store demo_root_id = Some (Inr rep) \<and> dependencies_ok rep"
proof -
  have r: "mem_nodes demo_store demo_root_id = Some demo_root" "parent demo_root = None"
    by (simp_all add: mem_nodes_def demo_store_def demo_root_def)
  have "note_holds (mem_nodes demo_store) demo_root_id n" if "mem_nodes demo_store i = Some n" for i n
    using that by (auto simp: mem_nodes_def demo_store_def note_holds_def node_dependency_def demo_root_def demo_note_def split: if_splits)
  then show ?thesis using verify_dependencies_exact [OF demo_inv r] by blast
qed

end
