(* ===== verification/Approvals_Facts.thy ===== *)
theory Approvals_Facts
  imports Approvals Dependencies_Facts
begin

text \<open>
  What the approval policy promises over a store that keeps the contract: it always answers, and it answers
  ALLOW to an action it governs exactly when the nearest request above the cursor is for that action, its
  recorded decision approves it, and nothing was dispatched below it yet.
\<close>

section \<open>The governing request\<close>

text \<open>The request that decides about a node: the nearest one above it, with no dispatch in between.\<close>

inductive governs :: "node_map \<Rightarrow> string \<Rightarrow> approval_request \<Rightarrow> bool" for M where
  governs_here: "M i = Some n \<Longrightarrow> \<not> is_dispatch n \<Longrightarrow> event_document n ''approval_request'' \<noteq> None \<Longrightarrow>
    request_from_node n = Inr r \<Longrightarrow> governs M i r"
| governs_up: "M i = Some n \<Longrightarrow> \<not> is_dispatch n \<Longrightarrow> event_document n ''approval_request'' = None \<Longrightarrow>
    parent n = Some p \<Longrightarrow> governs M p r \<Longrightarrow> governs M i r"

lemma node_id_value: "context_node_id v field = Inr s \<Longrightarrow> v = JStr s"
  by (cases v) (simp_all add: context_node_id_def Let_def split: if_splits)

lemma make_request_id:
  assumes "make_request i run_id p name version args spec reg identity att = Inr r" shows "i = JStr (aq_id r)"
proof -
  obtain s where s: "context_node_id i ''id'' = Inr s" using assms unfolding make_request_def bindR_Inr_iff by blast
  have "aq_id r = s" using assms unfolding make_request_def s bindR_simps
    by (simp only: Let_def bindR_Inr_iff) auto
  with node_id_value [OF s] show ?thesis by simp
qed

lemma request_from_dict_id:
  assumes "request_from_dict (JDict d) = Inr r" shows "dget_or d ''id'' JNull = JStr (aq_id r)"
proof -
  obtain e where "context_fields (JDict d) request_fields ''approval request'' = Inr e"
    using assms unfolding request_from_dict_def bindR_Inr_iff by blast
  then have "e = d" and e: "context_fields (JDict d) request_fields ''approval request'' = Inr d"
    by (auto simp: context_fields_def Let_def split: if_splits)
  then show ?thesis using assms unfolding request_from_dict_def e bindR_simps
    by (simp only: bindR_Inr_iff) (elim exE conjE, erule make_request_id)
qed

lemma request_id:
  assumes "request_from_node n = Inr r" shows "aq_id r = nid n"
proof -
  define upd where "upd = [(''id'', JStr (nid n)),
    (''parent_id'', case parent n of None \<Rightarrow> JNull | Some p \<Rightarrow> JStr p), (''attempt'', JInt (attempt n))]"
  obtain d where d: "bindR (request_from_dict (JDict (dmerge d upd))) (\<lambda>request. bindR (request_node request) (\<lambda>expected.
      if \<not> identity_eq n expected \<or> result_text n \<noteq> None then Inl (IntegrityError ''invalid approval request note'')
      else Inr request)) = Inr r"
    using assms unfolding request_from_node_def upd_def [symmetric] bindR_Inr_iff [of "event_of n ''approval_request''"] by blast
  then obtain q where q: "request_from_dict (JDict (dmerge d upd)) = Inr q" "bindR (request_node q) (\<lambda>expected.
      if \<not> identity_eq n expected \<or> result_text n \<noteq> None then Inl (IntegrityError ''invalid approval request note'')
      else Inr q) = Inr r"
    unfolding bindR_Inr_iff [of "request_from_dict (JDict (dmerge d upd))"] by blast
  have "q = r" using q(2) by (auto simp: bindR_Inr_iff split: if_splits)
  then show ?thesis using request_from_dict_id [OF q(1)] by (simp add: dmerge_def dget_or_def upd_def)
qed

lemma governs_above: "governs M i r \<Longrightarrow> forest M \<Longrightarrow> i \<in> desc M (aq_id r) \<and> aq_id r \<in> dom M"
proof (induction rule: governs.induct)
  case (governs_here i n r)
  then have "aq_id r = i" using request_id by (auto simp: forest_def)
  then show ?case using governs_here by auto
next
  case (governs_up i n p r)
  then have "(p, i) \<in> edges M" by (auto simp: edges_def)
  then show ?case using governs_up by (auto simp: desc_def)
qed

lemma find_request_governs:
  assumes "find_request get n = Some q" "\<And>i n. get i = Inr n \<longleftrightarrow> M i = Some n" "M i = Some n" "q = Inr (Some r)"
  shows "governs M i r"
proof -
  have "q = Inr (Some r) \<longrightarrow> (\<forall>i n. get i = Inr n \<longleftrightarrow> M i = Some n) \<longrightarrow> (\<forall>i. M i = Some n \<longrightarrow> governs M i r)"
  proof (rule find_request.raw_induct [where P = "\<lambda>get n q. q = Inr (Some r) \<longrightarrow>
      (\<forall>i n. get i = Inr n \<longleftrightarrow> M i = Some n) \<longrightarrow> (\<forall>i. M i = Some n \<longrightarrow> governs M i r)", OF _ assms(1)])
    fix fr and get :: "string \<Rightarrow> node res" and n q
    assume IH: "\<And>get n q. fr get n = Some q \<Longrightarrow> q = Inr (Some r) \<longrightarrow>
        (\<forall>i n. get i = Inr n \<longleftrightarrow> M i = Some n) \<longrightarrow> (\<forall>i. M i = Some n \<longrightarrow> governs M i r)"
      and step: "(if is_dispatch n then Some (Inr None)
        else if event_document n ''approval_request'' \<noteq> None then Some (bindR (request_from_node n) (\<lambda>r. Inr (Some r)))
        else (case parent n of None \<Rightarrow> Some (Inr None)
          | Some p \<Rightarrow> (case get p of Inl e \<Rightarrow> Some (Inl e) | Inr m \<Rightarrow> fr get m))) = Some q"
    show "q = Inr (Some r) \<longrightarrow> (\<forall>i n. get i = Inr n \<longleftrightarrow> M i = Some n) \<longrightarrow> (\<forall>i. M i = Some n \<longrightarrow> governs M i r)"
    proof (intro impI allI)
      fix i assume q: "q = Inr (Some r)" and M: "\<forall>i n. get i = Inr n \<longleftrightarrow> M i = Some n" and n: "M i = Some n"
      have d: "\<not> is_dispatch n" using step q by auto
      show "governs M i r"
      proof (cases "event_document n ''approval_request'' = None")
        case True
        then obtain p where p: "parent n = Some p" using step q d by (cases "parent n") auto
        then obtain m where m: "get p = Inr m" using step q d True by (cases "get p") auto
        then have "fr get m = Some q" using step d True p by simp
        from IH [OF this] q M m have "governs M p r" by blast
        then show ?thesis using n d True p by (blast intro: governs_up)
      next
        case False
        then have "request_from_node n = Inr r" using step q d by (auto simp: bindR_Inr_iff)
        then show ?thesis using n d False by (blast intro: governs_here)
      qed
    qed
  qed
  then show ?thesis using assms by blast
qed

lemma governs_found:
  assumes "governs M i r" "\<And>i n. M i = Some n \<Longrightarrow> get i = Inr n" "M i = Some n"
  shows "find_request get n = Some (Inr (Some r))"
  using assms(1,3)
proof (induction arbitrary: n rule: governs.induct)
  case (governs_here i m r)
  then show ?case by (subst find_request.simps) auto
next
  case (governs_up i m p r)
  obtain k where k: "M p = Some k" using governs_up(5) by (auto elim: governs.cases)
  then have "find_request get n = find_request get k"
    using governs_up assms(2) [OF k] by (subst find_request.simps) auto
  then show ?case using governs_up.IH [OF k] by simp
qed

text \<open>The climb to a request ends.\<close>

lemma find_request_returns:
  assumes "forest M" "\<And>i n. M i = Some n \<Longrightarrow> get i = Inr n" "parents_in M" "M i = Some n"
  shows "\<exists>q. find_request get n = Some q"
  using assms(4)
proof (induction i arbitrary: n rule: wf_induct_rule [OF edges_up_wf [OF assms(1)]])
  case (1 i)
  show ?case
  proof (cases "parent n")
    case None
    then show ?thesis by (subst find_request.simps) simp
  next
    case (Some p)
    then obtain m where m: "M p = Some m" using parents_inD [OF assms(3) 1(2)] by blast
    have "(p, i) \<in> edges M" using 1(2) Some by (auto simp: edges_def)
    then have "\<exists>q. find_request get m = Some q" using 1(1) m by blast
    then show ?thesis using Some assms(2) [OF m] by (subst find_request.simps) simp
  qed
qed

section \<open>The search below the request\<close>

definition unused :: "node_map \<Rightarrow> string \<Rightarrow> bool" where
  "unused M i \<longleftrightarrow> (\<forall>j \<in> desc M i. \<forall>n. M j = Some n \<longrightarrow> \<not> is_dispatch n)"

lemma dispatch_below_simps:
  "dispatch_below check get children [] seen = Some (Inr False)"
  "i \<notin> set seen \<Longrightarrow> check i = Some (Inr u) \<Longrightarrow> get i = Inr n \<Longrightarrow> children i = Inr cs \<Longrightarrow>
    dispatch_below check get children (i # rest) seen =
      (if is_dispatch n then Some (Inr True) else dispatch_below check get children (rev cs @ rest) (i # seen))"
  by (subst dispatch_below.simps; simp)+

text \<open>Over the nodes of the walk with the siblings reversed, it stops at the first dispatch.\<close>

lemma dispatch_below_walk:
  assumes "walk_loop get (\<lambda>i. bindR (children i) (\<lambda>cs. Inr (rev cs))) pending acc = Some (acc @ L, None)"
    "\<And>i n. get i = Inr n \<Longrightarrow> nid n = i" "\<And>i n. get i = Inr n \<Longrightarrow> check i = Some (Inr ())"
    "distinct (map nid L)" "nid ` set L \<inter> set seen = {}"
  shows "dispatch_below check get children pending seen = Some (Inr (\<exists>n \<in> set L. is_dispatch n))"
  using assms(1,4,5)
proof (induction L arbitrary: pending acc seen)
  case Nil
  then show ?case using walk_loop_step [OF Nil.prems(1)] by (simp add: dispatch_below_simps(1))
next
  case (Cons n L)
  obtain i rest ds where w: "pending = i # rest" "get i = Inr n" "bindR (children i) (\<lambda>cs. Inr (rev cs)) = Inr ds"
    "walk_loop get (\<lambda>i. bindR (children i) (\<lambda>cs. Inr (rev cs))) (ds @ rest) (acc @ [n]) = Some ((acc @ [n]) @ L, None)"
    using walk_loop_step [OF Cons.prems(1)] by blast
  obtain cs where cs: "children i = Inr cs" "ds = rev cs" using w(3) by (auto simp: bindR_Inr_iff)
  have i: "nid n = i" using assms(2) [OF w(2)] .
  have fresh: "i \<notin> set seen" "distinct (map nid L)" "nid ` set L \<inter> set (i # seen) = {}"
    using Cons.prems(2,3) i by auto
  have "dispatch_below check get children (rev cs @ rest) (i # seen) = Some (Inr (\<exists>n \<in> set L. is_dispatch n))"
    by (rule Cons.IH [OF w(4) [unfolded cs(2)] fresh(2,3)])
  then show ?case
    using dispatch_below_simps(2) [of i seen check "()" get n children cs rest, OF fresh(1) assms(3) [OF w(2)] w(2) cs(1)] w(1)
    by simp
qed

section \<open>Decisions\<close>

definition decided :: "node_map \<Rightarrow> approval_request \<Rightarrow> node \<Rightarrow> bool" where
  "decided M r d \<longleftrightarrow> (\<exists>expected slot. decision_slot r = Inr expected \<and> M (nid expected) = Some slot \<and>
    identity_eq slot expected \<and> bound_decision slot = Inr (nid d) \<and> M (nid d) = Some d \<and> check_decision r slot d = Inr (Some d))"

text \<open>The action a context asks about is approved: by whom it is governed, that the request is for it, and unused.\<close>

definition approved :: "node_map \<Rightarrow> policy_context \<Rightarrow> approval_request \<Rightarrow> node \<Rightarrow> bool" where
  "approved M ctx r d \<longleftrightarrow> governs M (cx_cursor_id ctx) r \<and> request_matches r (aq_root_id r) ctx = Inr True \<and>
    (\<exists>tn m. M (aq_root_id r) = Some tn \<and> parent tn = None \<and> cx_cursor_id ctx \<in> desc M (aq_root_id r) \<and>
      M (aq_id r) = Some m \<and> request_from_node m = Inr r) \<and>
    decided M r d \<and> (\<exists>doc. event_of d ''approval_decision'' = Inr doc \<and> dget doc ''approved'' = Some (JBool True)) \<and>
    unused M (aq_id r)"

lemma check_decision_self: "check_decision r slot n = Inr (Some d) \<Longrightarrow> d = n"
  by (auto simp: check_decision_def bindR_Inr_iff)

lemma check_decision_answer:
  assumes "check_decision r slot d = Inr (Some d)"
  obtains doc b where "event_of d ''approval_decision'' = Inr doc" "dget doc ''approved'' = Some (JBool b)"
  using assms by (auto simp: check_decision_def bindR_Inr_iff ensure_def decision_document_ok_def split: if_splits)

lemma matches_root: "request_matches r q ctx = Inr True \<Longrightarrow> aq_root_id r = q"
  by (auto simp: request_matches_def split: if_splits)

context store_contract begin

lemma verified: "inv st \<Longrightarrow> nodes st i = Some n \<Longrightarrow> verify_or_raise ops st i = Some (Inr ())"
  using verify_clean [of st i] by (simp add: verify_or_raise_def ensure_def domIff)

lemma nid_of: "inv st \<Longrightarrow> nodes st i = Some n \<Longrightarrow> nid n = i"
  using nodes_forest [of st] by (simp add: forest_def)

lemma read_decision_iff:
  assumes inv: "inv st"
  shows "read_decision ops st r = Some (Inr (Some d)) \<longleftrightarrow> decided (nodes st) r d"
proof (cases "decision_slot r")
  case (Inr expected)
  show ?thesis
  proof (cases "nodes st (nid expected)")
    case (Some slot)
    have step: "read_decision ops st r = (if \<not> identity_eq slot expected then Some (Inl (IntegrityError ''invalid approval decision slot''))
      else bindO (Some (bound_decision slot)) (\<lambda>i. if \<not> s_exists ops st i then Some (Inr None)
        else bindO (verify_or_raise ops st i) (\<lambda>_. bindO (Some (s_get ops st i)) (\<lambda>n. Some (check_decision r slot n)))))"
      using Some by (simp add: read_decision_def Inr exists_nodes [OF inv] verified [OF inv Some] get_nodes [OF inv])
    have goal: "decided (nodes st) r d \<longleftrightarrow> identity_eq slot expected \<and> bound_decision slot = Inr (nid d) \<and>
        nodes st (nid d) = Some d \<and> check_decision r slot d = Inr (Some d)"
      by (simp add: decided_def Inr Some)
    show ?thesis
    proof (cases "bound_decision slot")
      case (Inl e)
      then show ?thesis by (simp add: step goal)
    next
      case b: (Inr i)
      show ?thesis
      proof (cases "nodes st i")
        case None
        then show ?thesis by (auto simp: step goal b exists_nodes [OF inv])
      next
        case n: (Some n)
        have "read_decision ops st r = (if \<not> identity_eq slot expected then Some (Inl (IntegrityError ''invalid approval decision slot''))
            else Some (check_decision r slot n))"
          using n by (simp add: step b exists_nodes [OF inv] verified [OF inv n] get_nodes [OF inv])
        moreover have "check_decision r slot n = Inr (Some d) \<longleftrightarrow> i = nid d \<and> nodes st (nid d) = Some d \<and> check_decision r slot d = Inr (Some d)"
        proof
          assume "check_decision r slot n = Inr (Some d)"
          then show "i = nid d \<and> nodes st (nid d) = Some d \<and> check_decision r slot d = Inr (Some d)"
            using check_decision_self [of r slot n d] n nid_of [OF inv n] by simp
        next
          assume "i = nid d \<and> nodes st (nid d) = Some d \<and> check_decision r slot d = Inr (Some d)"
          then show "check_decision r slot n = Inr (Some d)" using n by simp
        qed
        ultimately show ?thesis by (simp add: goal b)
      qed
    qed
  qed (auto simp: read_decision_def Inr exists_nodes [OF inv] decided_def)
qed (simp add: read_decision_def decided_def)

lemma read_decision_returns:
  assumes inv: "inv st"
  shows "\<exists>q. read_decision ops st r = Some q"
proof (cases "decision_slot r")
  case (Inr expected)
  show ?thesis
  proof (cases "nodes st (nid expected)")
    case (Some slot)
    have "\<exists>q. (if \<not> s_exists ops st i then Some (Inr None)
        else bindO (verify_or_raise ops st i) (\<lambda>_. bindO (Some (s_get ops st i)) (\<lambda>n. Some (check_decision r slot n)))) = Some q" for i
      by (cases "nodes st i") (simp_all add: exists_nodes [OF inv] verified [OF inv] get_nodes [OF inv])
    then show ?thesis using Some
      by (cases "bound_decision slot")
        (simp_all add: read_decision_def Inr exists_nodes [OF inv] verified [OF inv Some] get_nodes [OF inv])
  qed (simp add: read_decision_def Inr exists_nodes [OF inv])
qed (simp add: read_decision_def)

lemma dispatch_below_exact:
  assumes inv: "inv st" and i: "i \<in> dom (nodes st)"
  shows "dispatch_below (verify_or_raise ops st) (s_get ops st) (s_children ops st) [i] [] = Some (Inr (\<not> unused (nodes st) i))"
proof -
  have ch: "\<exists>cs. bindR (s_children ops st j) (\<lambda>cs. Inr (rev cs)) = Inr cs \<and> distinct cs \<and> set cs = kids (nodes st) j" for j
    using children_nodes [OF inv, of j] by force
  obtain L where L: "walk_loop (s_get ops st) (\<lambda>j. bindR (s_children ops st j) (\<lambda>cs. Inr (rev cs))) [i] [] = Some (L, None)"
    "preorder (nodes st) i L"
    using walk_preorder [of "nodes st" "s_get ops st" "\<lambda>j. bindR (s_children ops st j) (\<lambda>cs. Inr (rev cs))" i]
      nodes_forest [OF inv] get_map [OF inv] ch i by blast
  have "dispatch_below (verify_or_raise ops st) (s_get ops st) (s_children ops st) [i] [] = Some (Inr (\<exists>n \<in> set L. is_dispatch n))"
  proof (rule dispatch_below_walk [where acc = "[]"])
    show "verify_or_raise ops st j = Some (Inr ())" if "s_get ops st j = Inr n" for j n
      using verified [OF inv] that get_Inr_iff [OF inv] by blast
  qed (use L get_valid [OF inv] in \<open>auto simp: preorder_def\<close>)
  moreover have "(\<exists>n \<in> set L. is_dispatch n) \<longleftrightarrow> \<not> unused (nodes st) i"
  proof -
    have ids: "nid ` set L = desc (nodes st) i" "\<forall>n \<in> set L. nodes st (nid n) = Some n" using L(2) by (auto simp: preorder_def)
    then show ?thesis unfolding unused_def by (metis (no_types, lifting) image_iff option.inject)
  qed
  ultimately show ?thesis by simp
qed

lemma top_above:
  assumes "inv st" "nodes st i = Some n"
  shows "\<exists>q tn. verified_root ops st i = Some (Inr q) \<and> nodes st q = Some tn \<and> parent tn = None \<and> i \<in> desc (nodes st) q"
proof -
  have "\<exists>q tn. climb (s_get ops st) n = Some (Inr q) \<and> nodes st q = Some tn \<and> parent tn = None \<and> i \<in> desc (nodes st) q"
    using assms(2)
  proof (induction i arbitrary: n rule: wf_induct_rule [OF edges_up_wf [OF nodes_forest [OF assms(1)]]])
    case (1 i)
    show ?case
    proof (cases "parent n")
      case None
      then show ?thesis using climb_simps(1) [OF None] nid_of [OF assms(1) 1(2)] 1(2) by auto
    next
      case (Some p)
      then obtain m where m: "nodes st p = Some m" using parents_inD [OF nodes_closed [OF assms(1)] 1(2)] by blast
      have e: "(p, i) \<in> edges (nodes st)" using 1(2) Some by (auto simp: edges_def)
      obtain q tn where q: "climb (s_get ops st) m = Some (Inr q)" "nodes st q = Some tn" "parent tn = None" "p \<in> desc (nodes st) q"
        using 1(1) [OF e m] by blast
      have "climb (s_get ops st) n = Some (Inr q)"
        using climb_simps(2) [of n p "s_get ops st" m, OF Some get_map [OF assms(1) m]] q(1) by simp
      moreover have "i \<in> desc (nodes st) q" using q(4) e by (auto simp: desc_def)
      ultimately show ?thesis using q by blast
    qed
  qed
  then show ?thesis by (simp add: verified_root_ok [OF assms])
qed

text \<open>The top of a node is the one root above it.\<close>

lemma top_unique:
  assumes "inv st" "nodes st i = Some n" "nodes st q = Some tn" "parent tn = None" "i \<in> desc (nodes st) q"
  shows "verified_root ops st i = Some (Inr q)"
  using root_below [OF assms(1-4)] assms(5) by metis

lemma load_request_iff:
  assumes "inv st" "nodes st (aq_id r) = Some m" "nodes st q = Some tn" "parent tn = None" "aq_id r \<in> desc (nodes st) q" "aq_root_id r = q"
  shows "load_request ops st r = Some (if request_from_node m = Inr r then Inr m
    else case request_from_node m of Inl e \<Rightarrow> Inl e | Inr k \<Rightarrow> Inl (IntegrityError ''approval request differs from its recording''))"
  using top_unique [OF assms(1-5)] assms(6) get_map [OF assms(1,2)]
  by (cases "request_from_node m") (auto simp: load_request_def ensure_def)

lemma above_governed:
  assumes "inv st" "governs (nodes st) i r" "nodes st q = Some tn" "parent tn = None" "i \<in> desc (nodes st) q"
  shows "aq_id r \<in> desc (nodes st) q"
proof -
  have g: "i \<in> desc (nodes st) (aq_id r)" "aq_id r \<in> dom (nodes st)" using governs_above [OF assms(2) nodes_forest [OF assms(1)]] by simp_all
  have up: "\<not> (\<exists>j. (j, q) \<in> edges (nodes st))" using assms(3,4) by (auto simp: edges_def)
  have "(q, aq_id r) \<in> (edges (nodes st))\<^sup>* \<or> (aq_id r, q) \<in> (edges (nodes st))\<^sup>*"
    using desc_comparable [of q i "nodes st" "aq_id r"] g(1) assms(5) by (auto simp: desc_def)
  then have "(q, aq_id r) \<in> (edges (nodes st))\<^sup>*" using up by (metis rtrancl.cases rtrancl_refl)
  then show ?thesis by (simp add: desc_def)
qed

text \<open>What the policy answers once the request that governs the cursor is found.\<close>

definition answer_for :: "'st \<Rightarrow> policy_context \<Rightarrow> approval_request \<Rightarrow> string \<Rightarrow> decision res option" where
  "answer_for st ctx r q =
    bindO (Some (request_matches r q ctx)) (\<lambda>ok.
    if \<not> ok then Some (Inr DENY)
    else bindO (load_request ops st r) (\<lambda>_.
      bindO (read_decision ops st r) (\<lambda>decision. case decision of
        None \<Rightarrow> Some (Inr DENY)
      | Some d \<Rightarrow>
          bindO (Some (event_of d ''approval_decision'')) (\<lambda>document.
          if dget document ''approved'' = Some (JBool False) then Some (Inr DENY)
          else bindO (dispatch_below (verify_or_raise ops st) (s_get ops st) (s_children ops st) [aq_id r] []) (\<lambda>used.
            Some (Inr (if used then DENY else ALLOW)))))))"

lemma approval_decide_unfold:
  assumes "inv st" "nodes st (cx_cursor_id ctx) = Some c" "\<not> (only \<and> \<not> sp_side_effects (cx_spec ctx))"
    "verified_root ops st (cx_cursor_id ctx) = Some (Inr q)"
  shows "approval_decide ops only st ctx = bindO (find_request (s_get ops st) c)
    (\<lambda>found. case found of None \<Rightarrow> Some (Inr DENY) | Some r \<Rightarrow> answer_for st ctx r q)"
  unfolding approval_decide_def if_not_P [OF assms(3)] answer_for_def by (simp add: assms(4) get_map [OF assms(1,2)])

lemma answer_for_ALLOW:
  assumes "inv st" "nodes st (cx_cursor_id ctx) = Some c" "governs (nodes st) (cx_cursor_id ctx) r"
    "nodes st q = Some tn" "parent tn = None" "cx_cursor_id ctx \<in> desc (nodes st) q"
  shows "answer_for st ctx r q = Some (Inr ALLOW) \<longleftrightarrow> (\<exists>d. approved (nodes st) ctx r d)"
proof (cases "request_matches r q ctx = Inr True")
  case False
  have "answer_for st ctx r q \<noteq> Some (Inr ALLOW)"
    using False by (cases "request_matches r q ctx") (simp_all add: answer_for_def)
  moreover have "\<not> approved (nodes st) ctx r d" for d
  proof
    assume a: "approved (nodes st) ctx r d"
    then obtain t where "nodes st (aq_root_id r) = Some t" "parent t = None" "cx_cursor_id ctx \<in> desc (nodes st) (aq_root_id r)"
      unfolding approved_def by blast
    then have "aq_root_id r = q" using top_unique [OF assms(1,2)] assms(4-6) by (metis option.inject sum.inject(2))
    with a False show False by (auto simp: approved_def)
  qed
  ultimately show ?thesis by blast
next
  case True
  have rq: "aq_root_id r = q" by (rule matches_root [OF True])
  obtain m where m: "nodes st (aq_id r) = Some m" using governs_above [OF assms(3) nodes_forest [OF assms(1)]] by blast
  have load: "load_request ops st r = Some (if request_from_node m = Inr r then Inr m
      else case request_from_node m of Inl e \<Rightarrow> Inl e | Inr k \<Rightarrow> Inl (IntegrityError ''approval request differs from its recording''))"
    by (rule load_request_iff [OF assms(1) m assms(4,5) above_governed [OF assms(1,3-6)] rq])
  have dis: "dispatch_below (verify_or_raise ops st) (s_get ops st) (s_children ops st) [aq_id r] [] = Some (Inr (\<not> unused (nodes st) (aq_id r)))"
    using dispatch_below_exact [OF assms(1), of "aq_id r"] m by blast
  have ap: "approved (nodes st) ctx r d \<longleftrightarrow> request_from_node m = Inr r \<and> decided (nodes st) r d \<and>
      (\<exists>doc. event_of d ''approval_decision'' = Inr doc \<and> dget doc ''approved'' = Some (JBool True)) \<and> unused (nodes st) (aq_id r)" for d
    using assms(3-6) True m rq by (auto simp: approved_def)
  show ?thesis
  proof (cases "request_from_node m = Inr r")
    case False
    then have "answer_for st ctx r q \<noteq> Some (Inr ALLOW)"
      by (cases "request_from_node m") (simp_all add: answer_for_def True load)
    then show ?thesis using False by (simp add: ap)
  next
    case rec: True
    obtain x where x: "read_decision ops st r = Some x" using read_decision_returns [OF assms(1)] by blast
    show ?thesis
    proof (cases "\<exists>d. x = Inr (Some d)")
      case False
      then have "\<not> decided (nodes st) r d" for d using read_decision_iff [OF assms(1), of r d] x by simp
      moreover have "answer_for st ctx r q \<noteq> Some (Inr ALLOW)"
        using False by (cases x) (auto simp: answer_for_def True load rec x split: option.split)
      ultimately show ?thesis by (simp add: ap)
    next
      case d: True
      then obtain d where d: "x = Inr (Some d)" by blast
      have dec: "decided (nodes st) r e \<longleftrightarrow> e = d" for e
        using read_decision_iff [OF assms(1), of r e] x d by auto
      obtain slot where "check_decision r slot d = Inr (Some d)" using dec [of d] unfolding decided_def by blast
      then obtain doc b where doc: "event_of d ''approval_decision'' = Inr doc" "dget doc ''approved'' = Some (JBool b)"
        by (rule check_decision_answer)
      have "answer_for st ctx r q = Some (Inr (if b \<and> unused (nodes st) (aq_id r) then ALLOW else DENY))"
        using doc by (simp add: answer_for_def True load rec x d dis)
      then show ?thesis using dec doc rec by (auto simp: ap)
    qed
  qed
qed

lemma approval_decide_iff:
  assumes "inv st" "nodes st (cx_cursor_id ctx) = Some c" "\<not> (only \<and> \<not> sp_side_effects (cx_spec ctx))"
  shows "approval_decide ops only st ctx = Some (Inr ALLOW) \<longleftrightarrow> (\<exists>r d. approved (nodes st) ctx r d)"
proof -
  obtain q tn where q: "verified_root ops st (cx_cursor_id ctx) = Some (Inr q)" "nodes st q = Some tn" "parent tn = None"
    "cx_cursor_id ctx \<in> desc (nodes st) q" using top_above [OF assms(1,2)] by blast
  note u = approval_decide_unfold [OF assms q(1)]
  obtain f where f: "find_request (s_get ops st) c = Some f"
    using find_request_returns [of "nodes st" "s_get ops st"] nodes_forest [OF assms(1)] nodes_closed [OF assms(1)] get_map [OF assms(1)] assms(2)
    by blast
  have found: "f = Inr (Some r)" if "governs (nodes st) (cx_cursor_id ctx) r" for r
    using governs_found [OF that, of "s_get ops st" c] get_map [OF assms(1)] assms(2) f by simp
  show ?thesis
  proof (cases "\<exists>r. f = Inr (Some r)")
    case True
    then obtain r where r: "f = Inr (Some r)" by blast
    then have g: "governs (nodes st) (cx_cursor_id ctx) r"
      using find_request_governs [OF f, of "nodes st" "cx_cursor_id ctx" r] get_Inr_iff [OF assms(1)] assms(2) by blast
    have "\<And>s d. approved (nodes st) ctx s d \<Longrightarrow> s = r" using found r by (auto simp: approved_def)
    moreover have "approval_decide ops only st ctx = answer_for st ctx r q" by (simp add: u f r)
    ultimately show ?thesis using answer_for_ALLOW [OF assms(1,2) g q(2-4)] by metis
  next
    case False
    then have "\<not> approved (nodes st) ctx r d" for r d using found by (auto simp: approved_def)
    moreover have "approval_decide ops only st ctx \<noteq> Some (Inr ALLOW)"
      using False by (cases f) (auto simp: u f split: option.split)
    ultimately show ?thesis by blast
  qed
qed

end

section \<open>Property\<close>

text \<open>
  C13. The approval policy allows an action it governs exactly when the request nearest above the cursor is a
  recorded request for this very action (name, version, arguments, registry, agent and run), the decision bound
  to it approves it, and no call was dispatched below the request, on any branch.
\<close>

theorem approval_policy_exact:
  assumes "mem_inv s" "mem_nodes s (cx_cursor_id ctx) = Some c" "sp_side_effects (cx_spec ctx) \<or> \<not> only"
  shows "approval_decide mem_ops only s ctx = Some (Inr ALLOW) \<longleftrightarrow> (\<exists>r d. approved (mem_nodes s) ctx r d)"
  using mem.approval_decide_iff [OF assms(1,2)] assms(3) by blast

definition demo_context :: policy_context where
  "demo_context = \<lparr>cx_spec = \<lparr>sp_name = ''pay'', sp_version = ''1'', sp_description = [], sp_schema = [], sp_side_effects = True, sp_digest = []\<rparr>,
     cx_args = [], cx_cursor_id = demo_note_id, cx_run_label = ''run'', cx_counters = [], cx_identity = None, cx_registry_digest = None\<rparr>"

lemma approval_policy_exact_witness:
  "approval_decide mem_ops True demo_store demo_context \<noteq> Some (Inr ALLOW)"
proof -
  have n: "mem_nodes demo_store (cx_cursor_id demo_context) = Some demo_note" "sp_side_effects (cx_spec demo_context) \<or> \<not> True"
    by (simp_all add: demo_context_def mem_nodes_def demo_store_def)
  have "\<not> governs (mem_nodes demo_store) i r" for i r
  proof
    assume "governs (mem_nodes demo_store) i r"
    then show False
      by (induction rule: governs.induct)
        (auto simp: mem_nodes_def demo_store_def event_document_def demo_root_def demo_note_def split: if_splits)
  qed
  then have "\<not> approved (mem_nodes demo_store) demo_context r d" for r d by (simp add: approved_def)
  then show ?thesis using approval_policy_exact [OF demo_inv n] by blast
qed

end
