(* ===== verification/Teams.thy ===== *)
theory Teams
  imports Approvals
begin

text \<open>
  Governed teams (\<open>teams.py\<close>): the configuration a team binds, its immutable manifest, the delegation of
  an agent, the attachment of a transported context and the restoring of a checkpoint. A run holds the store, so
  every operation acts on the run it works for; \<open>objects\<close> are the meters and the policies of the runtime as
  Python objects, which the configuration describes.
\<close>

section \<open>Configuration\<close>

text \<open>
  A Python value as \<open>_configuration_value\<close> sees it: a hook is \<open>pollard_team_config()\<close> with what it returns
  or raises, a safe object has the fields that may be read, a number that is not finite is \<open>None\<close>, and so is
  a key that is not a string.
\<close>

datatype config =
    Cf_none
  | Cf_bool bool
  | Cf_int int
  | Cf_str string
  | Cf_float "decimal option"
  | Cf_decimal "decimal option"
  | Cf_list "config list"
  | Cf_dict "(string option \<times> config) list"
  | Cf_hook string "exc + config"
  | Cf_callable
  | Cf_object string "(string \<times> config) list"
  | Cf_other string

definition config_class :: "string \<Rightarrow> json \<Rightarrow> json" where
  "config_class k v = JDict [(''class'', JStr k), (''config'', v)]"

function configuration_value :: "nat \<Rightarrow> config \<Rightarrow> json res" where
  "configuration_value depth v =
    (if 16 < depth then Inl (TypeError ''cyclic or excessively nested team configuration'')
     else case v of
       Cf_none \<Rightarrow> Inr JNull
     | Cf_bool b \<Rightarrow> Inr (JBool b)
     | Cf_int i \<Rightarrow> Inr (JInt i)
     | Cf_str s \<Rightarrow> Inr (JStr s)
     | Cf_float None \<Rightarrow> Inl (ValueError ''team configuration numbers must be finite'')
     | Cf_float (Some d) \<Rightarrow> Inr (JDict [(''number'', JStr (float_text d))])
     | Cf_decimal None \<Rightarrow> Inl (ValueError ''team configuration numbers must be finite'')
     | Cf_decimal (Some d) \<Rightarrow> Inr (JDict [(''number'', JStr (dec_str d))])
     | Cf_list xs \<Rightarrow> bindR (mapR (configuration_value (Suc depth)) xs) (\<lambda>ys. Inr (JList ys))
     | Cf_dict items \<Rightarrow>
         if None \<in> set (map fst items) then Inl (TypeError ''team configuration keys must be strings'')
         else bindR (mapR (\<lambda>p. bindR (configuration_value (Suc depth) (snd p)) (\<lambda>w. Inr (fst p, w)))
             (sort_key fst (map (\<lambda>(k, v). (the k, v)) items))) (\<lambda>d. Inr (JDict d))
     | Cf_hook k (Inl e) \<Rightarrow> Inl e
     | Cf_hook k (Inr c) \<Rightarrow> bindR (configuration_value (Suc depth) c) (\<lambda>w. Inr (config_class k w))
     | Cf_callable \<Rightarrow> Inl (TypeError ''callable team configuration requires pollard_team_config()'')
     | Cf_object k fs \<Rightarrow>
         bindR (configuration_value (Suc depth) (Cf_dict (map (\<lambda>(n, v). (Some n, v)) fs))) (\<lambda>w. Inr (config_class k w))
     | Cf_other k \<Rightarrow> Inl (TypeError (k @ '' requires pollard_team_config() for team attachment'')))"
  by pat_completeness auto
termination by (relation "measure (\<lambda>(depth, v). 17 - depth)") auto

declare configuration_value.simps [simp del]

type_synonym objects = "config list \<times> config list"

definition registry_digest_json :: "'st runtime \<Rightarrow> json" where
  "registry_digest_json rt = (case rt_registry rt of None \<Rightarrow> JNull | Some reg \<Rightarrow> JStr (rg_digest reg))"

definition runtime_configuration :: "'st runtime \<Rightarrow> objects \<Rightarrow> jdict res" where
  "runtime_configuration rt obs =
    bindR (mapR (configuration_value 0) (fst obs)) (\<lambda>meters.
    bindR (mapR (configuration_value 0) (snd obs)) (\<lambda>policies.
    Inr [(''registry_digest'', registry_digest_json rt), (''meters'', JList meters), (''policies'', JList policies),
         (''dry_run'', JBool (rt_dry_run rt))]))"

section \<open>Budgets and authority\<close>

definition team_limits :: "budget option \<Rightarrow> jdict option res" where
  "team_limits b = (case b of None \<Rightarrow> Inr None
    | Some bud \<Rightarrow> bindR (budget_limits bud) (\<lambda>ls. Inr (Some (map (\<lambda>(n, v). (n, JStr (limit_text v))) (sort_key fst ls)))))"

definition limits_json :: "jdict option \<Rightarrow> json" where
  "limits_json l = (case l of None \<Rightarrow> JNull | Some d \<Rightarrow> JDict d)"

definition context_of_scope :: "string \<Rightarrow> budget \<Rightarrow> budget_context res" where
  "context_of_scope anchor b =
    bindR (budget_limits b) (\<lambda>ls. make_budget_context (JStr anchor) (map (\<lambda>(n, v). (n, JStr (dec_str v))) (sort_key fst ls)))"

definition scope_contexts :: "budget_scope list \<Rightarrow> budget_context list res" where
  "scope_contexts scopes = mapR (\<lambda>sc. context_of_scope (sc_anchor sc) (sc_budget sc)) scopes"

definition scopes_of :: "budget_context list \<Rightarrow> budget_scope list res" where
  "scopes_of records = mapR (\<lambda>b.
    bindR (mapR (\<lambda>(n, v). case parse_decimal v of
        None \<Rightarrow> Inl (Foreign ''InvalidOperation'' False) | Some d \<Rightarrow> Inr (n, A_decimal d)) (bx_limits b)) (\<lambda>ls.
    Inr \<lparr>sc_budget = no_budget\<lparr>b_extra := Some ls\<rparr>, sc_anchor = bx_anchor_id b, sc_exhausted = []\<rparr>)) records"

definition scopes_json :: "budget_context list \<Rightarrow> json" where
  "scopes_json cs = JList (map (\<lambda>c. JDict (budget_context_to_dict c)) cs)"

definition attenuate :: "string list option \<Rightarrow> json list option \<Rightarrow> string list option res" where
  "attenuate limit_to requested =
    bindR (validate_tools requested) (\<lambda>tools. case tools of
      None \<Rightarrow> Inr limit_to
    | Some ts \<Rightarrow> (case limit_to of
        Some c \<Rightarrow> if set ts \<subseteq> set c then Inr (Some ts) else Inl (ValueError ''delegation cannot widen allowed_tools'')
      | None \<Rightarrow> Inr (Some ts)))"

definition require_registry :: "'st runtime \<Rightarrow> string list option \<Rightarrow> unit res" where
  "require_registry rt tools = (case tools of
      None \<Rightarrow> Inr ()
    | Some ts \<Rightarrow> (case rt_registry rt of
        None \<Rightarrow> Inl (ValueError ''restricted team actors require a registry'')
      | Some reg \<Rightarrow> forR (\<lambda>n. ensure (registry_contains reg n)
          (ValueError (''allowed tool is absent from registry: '' @ n))) ts))"

section \<open>Recorded events and bindings\<close>

text \<open>The comparison \<open>event.get("version") != 1\<close> is Python's.\<close>

definition recorded_event :: "node \<Rightarrow> string \<Rightarrow> jdict res" where
  "recorded_event n name = (case (kind n = kind_value NOTE, dget (payload n) ''_pollard'') of
      (True, Some (JDict w)) \<Rightarrow> (case dget w name of
          Some (JDict event) \<Rightarrow>
            if py_eq (dget_or event ''version'' JNull) (JInt 1) then Inr event
            else Inl (IntegrityError (''invalid recorded '' @ name @ '' note''))
        | _ \<Rightarrow> Inl (IntegrityError (''invalid recorded '' @ name @ '' note'')))
    | _ \<Rightarrow> Inl (IntegrityError (''expected a recorded '' @ name @ '' note'')))"

definition verified_ok :: "'st store_ops \<Rightarrow> 'st \<Rightarrow> string \<Rightarrow> exc \<Rightarrow> unit res option" where
  "verified_ok ops st i e = bindO (verify ops st i) (\<lambda>rep. Some (ensure (vr_ok rep) e))"

definition bound_json :: "string \<Rightarrow> json" where
  "bound_json i = JDict [(''bound_node_id'', JStr i)]"

definition validate_team_binding :: "'st store_ops \<Rightarrow> 'st \<Rightarrow> node \<Rightarrow> unit res" where
  "validate_team_binding ops st n = (case parent n of
      None \<Rightarrow> Inl (IntegrityError ''delegation binding is missing'')
    | Some p \<Rightarrow> bindR (s_get ops st p) (\<lambda>binding.
        ensure (py_eq (result binding) (bound_json (nid n)))
          (IntegrityError ''delegation binding does not match recorded authority'')))"

definition note_at :: "string \<Rightarrow> jdict \<Rightarrow> json \<Rightarrow> node res" where
  "note_at p w res = make_node (kind_value NOTE) (Some p) [(''_pollard'', JDict w)] 0 res []"

definition verify_run :: "'st runtime \<Rightarrow> string \<Rightarrow> exc \<Rightarrow> ('st run, unit) act" where
  "verify_run rt i e = (\<lambda>s. liftO (verified_ok (rt_ops rt) (rn_store s) i e) s)"

definition bind_note ::
  "'st runtime \<Rightarrow> string \<Rightarrow> jdict \<Rightarrow> string \<Rightarrow> jdict \<Rightarrow> ('st run, node) act" where
  "bind_note rt p slot_payload event_name event_payload =
    (let conflict = IntegrityError (''conflicting reuse of '' @ event_name @ '' identity'') in
     bindA (liftR (note_at p slot_payload JNull)) (\<lambda>slot.
     bindA (liftR (note_at (nid slot) [(event_name, JDict event_payload)] JNull)) (\<lambda>note.
     bindA (liftR (make_node (kind_value NOTE) (Some p) (payload slot) 0 (bound_json (nid note)) [])) (\<lambda>binding.
     bindA (put_node rt binding) (\<lambda>stored.
     bindA (verify_run rt (nid stored) conflict) (\<lambda>_.
     bindA (liftR (ensure (py_eq (result stored) (result binding)) conflict)) (\<lambda>_.
     bindA (put_node rt note) (\<lambda>recorded.
     bindA (verify_run rt (nid recorded) (IntegrityError (''recorded '' @ event_name @ '' failed integrity verification''))) (\<lambda>_.
     ret recorded)))))))))"

section \<open>The team\<close>

record team =
  te_label :: string
  te_allowed :: "string list option"
  te_root_id :: string
  te_scopes :: "budget_scope list"
  te_initial :: "budget_context list"
  te_manifest_id :: string
  te_manifest_payload :: jdict
  te_configuration :: jdict
  te_config_digest :: string

definition declared_scopes :: "'st runtime \<Rightarrow> budget_context list res" where
  "declared_scopes rt = mapR (\<lambda>sb. bindR (scope_id sb) (\<lambda>i. context_of_scope i (sb_budget sb))) (rt_shared rt)"

definition check_configuration :: "'st runtime \<Rightarrow> objects \<Rightarrow> team \<Rightarrow> ('st run, unit) act" where
  "check_configuration rt obs t =
    bindA (liftR (runtime_configuration rt obs)) (\<lambda>configuration.
    bindA (liftR (ensure (py_eq (JDict configuration) (JDict (te_configuration t)))
      (IntegrityError ''runtime configuration differs from the team manifest''))) (\<lambda>_.
    bindA (liftR (scope_contexts (te_scopes t))) (\<lambda>contexts.
    bindA (liftR (ensure (contexts = te_initial t) (IntegrityError ''team budget scope configuration has changed''))) (\<lambda>_.
    bindA (liftR (declared_scopes rt)) (\<lambda>declared.
    bindA (liftR (ensure (declared = filter (\<lambda>c. bx_anchor_id c \<noteq> te_root_id t) (te_initial t))
      (IntegrityError ''runtime shared budgets differ from the team manifest''))) (\<lambda>_.
    bindA (validate_shared rt) (\<lambda>_.
    bindA (store_get rt (te_manifest_id t)) (\<lambda>manifest.
    let bad = IntegrityError ''team manifest failed integrity validation'' in
    bindA (liftR (ensure (py_eq (JDict (payload manifest)) (JDict (te_manifest_payload t))) bad)) (\<lambda>_.
    bindA (verify_run rt (te_manifest_id t) bad) (\<lambda>_.
    (\<lambda>s. liftR (validate_team_binding (rt_ops rt) (rn_store s) manifest) s)))))))))))"

text \<open>The check a run of the team makes before each step: on the store it is given, keeping the rest of the run.\<close>

definition team_validator :: "'st runtime \<Rightarrow> objects \<Rightarrow> team \<Rightarrow> 'st run \<Rightarrow> 'st \<Rightarrow> unit res" where
  "team_validator rt obs t s st = (case check_configuration rt obs t (s\<lparr>rn_store := st\<rparr>) of
      None \<Rightarrow> Inl AssertionError | Some (r, _) \<Rightarrow> r)"

definition tools_json :: "string list option \<Rightarrow> json" where
  "tools_json ts = (case ts of None \<Rightarrow> JNull | Some xs \<Rightarrow> JList (map JStr xs))"

definition team_manifest ::
  "string \<Rightarrow> string \<Rightarrow> jdict option \<Rightarrow> string list option \<Rightarrow> jdict \<Rightarrow> budget_context list \<Rightarrow> jdict" where
  "team_manifest root_id label limits tools configuration contexts =
    [(''version'', JInt 1), (''team_id'', JStr root_id), (''label'', JStr label), (''budget'', limits_json limits),
     (''allowed_tools'', tools_json tools), (''configuration'', JDict configuration), (''scopes'', scopes_json contexts)]"

definition make_team ::
  "'st runtime \<Rightarrow> objects \<Rightarrow> json \<Rightarrow> budget option \<Rightarrow> json list option \<Rightarrow> int \<Rightarrow> ('st run, team) act" where
  "make_team rt obs label_v b tools_v att =
    bindA (liftR (validate_name label_v ''team label'')) (\<lambda>label.
    bindA (liftR (validate_tools tools_v)) (\<lambda>tools.
    bindA (liftR (require_registry rt tools)) (\<lambda>_.
    bindA (liftR (team_limits b)) (\<lambda>limits.
    bindA (liftR (runtime_configuration rt obs)) (\<lambda>configuration.
    bindA (liftR (root_node label att)) (\<lambda>candidate.
    bindA (put_node rt candidate) (\<lambda>root_n.
    let existing = dget_or (meta root_n) ''registry_digest'' JNull; root_id = nid root_n in
    bindA (liftR (ensure (existing = JNull \<or> py_eq existing (registry_digest_json rt))
      (IntegrityError ''team root is already bound to a different registry''))) (\<lambda>_.
    bindA (run_scopes rt root_id b) (\<lambda>scopes.
    bindA (new_run root_id root_id label scopes) (\<lambda>_.
    bindA (liftR (scope_contexts scopes)) (\<lambda>contexts.
    bindA (liftR (scopes_of contexts)) (\<lambda>own_scopes.
    bindA (bind_note rt root_id [(''team_manifest_slot'', JDict [(''version'', JInt 1)])] ''team_manifest''
      (team_manifest root_id label limits tools configuration contexts)) (\<lambda>manifest.
    bindA (bind_registry rt root_id) (\<lambda>_.
    bindA (liftR (digest_payload (JDict configuration))) (\<lambda>digest.
    let t = \<lparr>te_label = label, te_allowed = tools, te_root_id = root_id, te_scopes = own_scopes, te_initial = contexts,
             te_manifest_id = nid manifest, te_manifest_payload = payload manifest, te_configuration = configuration,
             te_config_digest = digest\<rparr> in
    bindA (modA (\<lambda>s. s\<lparr>rn_cursor := nid manifest, rn_anchor := Some (nid manifest), rn_scopes := own_scopes,
      rn_ceiling := tools, rn_validator := team_validator rt obs t s\<rparr>)) (\<lambda>_.
    ret t))))))))))))))))"

section \<open>Delegation\<close>

record 'st team_agent =
  ta_run :: "'st run"
  ta_delegation_id :: string
  ta_identity :: agent_identity

text \<open>The run of a worker: its own cursor and scopes on the store of the run it is made from.\<close>

definition worker_run ::
  "'st runtime \<Rightarrow> objects \<Rightarrow> team \<Rightarrow> string \<Rightarrow> string \<Rightarrow> budget_scope list \<Rightarrow> agent_identity \<Rightarrow> 'st run \<Rightarrow> 'st run" where
  "worker_run rt obs t cursor anchor scopes identity s =
    s\<lparr>rn_root := te_root_id t, rn_cursor := cursor, rn_label := te_label t, rn_scopes := scopes, rn_avoided := [],
      rn_pending := [], rn_identity := Some identity, rn_anchor := Some anchor,
      rn_validator := team_validator rt obs t s, rn_ceiling := te_allowed t, rn_deltas := []\<rparr>"

definition make_agent ::
  "'st runtime \<Rightarrow> objects \<Rightarrow> team \<Rightarrow> string \<Rightarrow> string \<Rightarrow> budget_scope list \<Rightarrow> agent_identity \<Rightarrow> ('st run, 'st team_agent) act" where
  "make_agent rt obs t cursor anchor scopes identity = getA (\<lambda>s.
    \<lparr>ta_run = worker_run rt obs t cursor anchor scopes identity s, ta_delegation_id = anchor, ta_identity = identity\<rparr>)"

partial_function (option) coordinator_loop :: "(string \<Rightarrow> node res) \<Rightarrow> string \<Rightarrow> string option \<Rightarrow> unit res option" where
  "coordinator_loop get manifest current = (case current of
      None \<Rightarrow> Some (Inl (IntegrityError ''coordinator cursor is outside the team manifest''))
    | Some i \<Rightarrow>
        if i = manifest then Some (Inr ())
        else (case get i of
            Inl e \<Rightarrow> Some (Inl e)
          | Inr n \<Rightarrow>
              if team_event n \<noteq> None then Some (Inl (IntegrityError ''coordinator cursor cannot impersonate a delegated actor''))
              else coordinator_loop get manifest (parent n)))"

definition validate_coordinator_cursor :: "'st runtime \<Rightarrow> team \<Rightarrow> ('st run, unit) act" where
  "validate_coordinator_cursor rt t =
    bindA (getA rn_cursor) (\<lambda>cursor.
    bindA (verify_run rt cursor (IntegrityError ''coordinator cursor failed ancestry verification'')) (\<lambda>_.
    (\<lambda>s. liftO (coordinator_loop (s_get (rt_ops rt) (rn_store s)) (te_manifest_id t) (Some cursor)) s)))"

definition agent_document ::
  "team \<Rightarrow> agent_identity \<Rightarrow> agent_identity option \<Rightarrow> jdict option \<Rightarrow> budget_context list \<Rightarrow> jdict" where
  "agent_document t identity up limits inherited =
    [(''version'', JInt 1), (''identity'', JDict (identity_to_dict identity)),
     (''parent_agent_id'', case up of None \<Rightarrow> JNull | Some a \<Rightarrow> JStr (ai_agent_id a)),
     (''budget'', limits_json limits), (''inherited_scopes'', scopes_json inherited),
     (''manifest_id'', JStr (te_manifest_id t))]"

definition ceiling_of :: "team \<Rightarrow> agent_identity option \<Rightarrow> string list option" where
  "ceiling_of t up = (case up of None \<Rightarrow> te_allowed t | Some a \<Rightarrow> ai_allowed_tools a)"

definition local_scopes :: "string \<Rightarrow> jdict option \<Rightarrow> budget_scope list res" where
  "local_scopes anchor limits = (case limits of None \<Rightarrow> Inr []
    | Some d \<Rightarrow> bindR (budget_context_from_dict (JDict [(''anchor_id'', JStr anchor), (''limits'', JDict d)])) (\<lambda>c. scopes_of [c]))"

definition delegate ::
  "'st runtime \<Rightarrow> moment \<Rightarrow> objects \<Rightarrow> team \<Rightarrow> string \<Rightarrow> string \<Rightarrow> string option \<Rightarrow> budget option \<Rightarrow> json list option \<Rightarrow>
    agent_identity option \<Rightarrow> ('st run, 'st team_agent) act" where
  "delegate rt mo obs t agent_id task_id role b tools_v up =
    bindA (check_configuration rt obs t) (\<lambda>_.
    bindA (whenA (up = None) (validate_coordinator_cursor rt t)) (\<lambda>_.
    bindA (liftR (attenuate (ceiling_of t up) tools_v)) (\<lambda>tools.
    bindA (liftR (require_registry rt tools)) (\<lambda>_.
    bindA (liftR (make_identity (JStr (te_root_id t)) (JStr agent_id) (JStr task_id) (role_json role)
      (map_option (map JStr) tools))) (\<lambda>identity.
    bindA (liftR (team_limits b)) (\<lambda>limits.
    bindA (getA rn_scopes) (\<lambda>scopes.
    bindA (liftR (scope_contexts scopes)) (\<lambda>inherited.
    let document = agent_document t identity up limits inherited in
    bindA (whenA (rt_mode rt \<noteq> REPLAY) (bindA (precheck rt mo (kind_value NOTE)
      [(''_pollard'', JDict [(''team_agent'', JDict document)])]) (\<lambda>_. ret ()))) (\<lambda>_.
    bindA (getA rn_cursor) (\<lambda>cursor.
    bindA (bind_note rt cursor [(''team_agent_slot'', JDict [(''version'', JInt 1), (''agent_id'', JStr agent_id),
      (''task_id'', JStr task_id)])] ''team_agent'' document) (\<lambda>anchor.
    bindA (liftR (local_scopes (nid anchor) limits)) (\<lambda>own.
    make_agent rt obs t (nid anchor) (nid anchor) (scopes @ own) identity))))))))))))"

definition team_agent_for ::
  "'st runtime \<Rightarrow> moment \<Rightarrow> objects \<Rightarrow> team \<Rightarrow> string \<Rightarrow> string \<Rightarrow> string option \<Rightarrow> budget option \<Rightarrow> json list option \<Rightarrow>
    ('st run, 'st team_agent) act" where
  "team_agent_for rt mo obs t agent_id task_id role b tools_v = delegate rt mo obs t agent_id task_id role b tools_v None"

section \<open>Attachment\<close>

text \<open>The nodes from a cursor up to the root.\<close>

partial_function (option) ancestry :: "(string \<Rightarrow> node res) \<Rightarrow> string option \<Rightarrow> node list \<Rightarrow> node list res option" where
  "ancestry get current acc = (case current of
      None \<Rightarrow> Some (Inr acc)
    | Some i \<Rightarrow> (case get i of Inl e \<Rightarrow> Some (Inl e) | Inr n \<Rightarrow> ancestry get (parent n) (acc @ [n])))"

text \<open>What the delegations read so far grant: the budget scopes, the actor and the latest delegation.\<close>

record authority =
  au_scopes :: "budget_context list"
  au_identity :: "agent_identity option"
  au_latest :: "string option"

definition attach_event :: "'st store_ops \<Rightarrow> 'st \<Rightarrow> team \<Rightarrow> authority \<Rightarrow> node \<Rightarrow> authority res" where
  "attach_event ops st t au n =
    bindR (recorded_event n ''team_agent'') (\<lambda>event.
    bindR (ensure (dget_or event ''manifest_id'' JNull = JStr (te_manifest_id t))
      (IntegrityError ''delegation references another team manifest'')) (\<lambda>_.
    bindR (identity_from_dict (dget_or event ''identity'' JNull)) (\<lambda>identity.
    bindR (ensure (ai_team_id identity = te_root_id t) (IntegrityError ''delegation actor belongs to another team'')) (\<lambda>_.
    bindR (ensure (dget_or event ''parent_agent_id'' JNull =
        (case au_identity au of None \<Rightarrow> JNull | Some a \<Rightarrow> JStr (ai_agent_id a)))
      (IntegrityError ''delegation parent identity is inconsistent'')) (\<lambda>_.
    bindR (attenuate (ceiling_of t (au_identity au)) (map_option (map JStr) (ai_allowed_tools identity))) (\<lambda>tools.
    bindR (ensure (tools = ai_allowed_tools identity) (IntegrityError ''delegation widens inherited tool authority'')) (\<lambda>_.
    bindR (ensure (py_eq (dget_or event ''inherited_scopes'' JNull) (scopes_json (au_scopes au)))
      (IntegrityError ''delegation changed inherited budget scopes'')) (\<lambda>_.
    bindR (if dget_or event ''budget'' JNull = JNull then Inr (au_scopes au)
           else bindR (budget_context_from_dict (JDict [(''anchor_id'', JStr (nid n)), (''limits'', dget_or event ''budget'' JNull)]))
             (\<lambda>c. Inr (au_scopes au @ [c]))) (\<lambda>scopes.
    bindR (validate_team_binding ops st n) (\<lambda>_.
    Inr \<lparr>au_scopes = scopes, au_identity = Some identity, au_latest = Some (nid n)\<rparr>))))))))))"

definition attach_step :: "'st store_ops \<Rightarrow> 'st \<Rightarrow> team \<Rightarrow> authority \<Rightarrow> node \<Rightarrow> authority res" where
  "attach_step ops st t au n = (if team_event n = None then Inr au else attach_event ops st t au n)"

definition attach_chain :: "'st store_ops \<Rightarrow> 'st \<Rightarrow> team \<Rightarrow> node list \<Rightarrow> authority res" where
  "attach_chain ops st t chain =
    foldR (attach_step ops st t) \<lparr>au_scopes = te_initial t, au_identity = None, au_latest = None\<rparr> (rev chain)"

definition attach :: "'st runtime \<Rightarrow> objects \<Rightarrow> team \<Rightarrow> delegation_context \<Rightarrow> ('st run, 'st team_agent) act" where
  "attach rt obs t cx =
    bindA (check_configuration rt obs t) (\<lambda>_.
    bindA (liftR (ensure (dx_root_id cx = te_root_id t \<and> dx_manifest_id cx = te_manifest_id t \<and> dx_config_digest cx = te_config_digest t)
      (IntegrityError ''delegation context belongs to another team configuration''))) (\<lambda>_.
    bindA (verify_run rt (dx_cursor_id cx) (IntegrityError ''delegation context ancestry failed verification'')) (\<lambda>_.
    bindA (\<lambda>s. liftO (ancestry (s_get (rt_ops rt) (rn_store s)) (Some (dx_cursor_id cx)) []) s) (\<lambda>chain.
    bindA (liftR (ensure ({te_root_id t, te_manifest_id t, dx_delegation_id cx} \<subseteq> set (map nid chain))
      (IntegrityError ''cursor is outside the delegated ancestry''))) (\<lambda>_.
    bindA (\<lambda>s. liftR (attach_chain (rt_ops rt) (rn_store s) t chain) s) (\<lambda>au.
    bindA (liftR (ensure (au_latest au = Some (dx_delegation_id cx) \<and> au_identity au = Some (dx_identity cx) \<and> au_scopes au = dx_scopes cx)
      (IntegrityError ''transported identity or budget authority differs from the recording''))) (\<lambda>_.
    bindA (liftR (require_registry rt (ai_allowed_tools (dx_identity cx)))) (\<lambda>_.
    bindA (liftR (scopes_of (dx_scopes cx))) (\<lambda>scopes.
    make_agent rt obs t (dx_cursor_id cx) (dx_delegation_id cx) scopes (dx_identity cx))))))))))"

definition attach_transported :: "'st runtime \<Rightarrow> objects \<Rightarrow> team \<Rightarrow> json \<Rightarrow> ('st run, 'st team_agent) act" where
  "attach_transported rt obs t v = bindA (liftR (delegation_from_dict v)) (attach rt obs t)"

definition restore :: "'st runtime \<Rightarrow> objects \<Rightarrow> team \<Rightarrow> agent_checkpoint \<Rightarrow> ('st run, 'st team_agent) act" where
  "restore rt obs t ck =
    bindA (verify_run rt (ck_checkpoint_id ck) (IntegrityError ''checkpoint ancestry failed verification'')) (\<lambda>_.
    bindA (store_get rt (ck_checkpoint_id ck)) (\<lambda>n.
    bindA (liftR (recorded_event n ''team_checkpoint'')) (\<lambda>event.
    bindA (liftR (ensure (py_eq (dget_or event ''context'' JNull) (JDict (delegation_to_dict (ck_context ck))) \<and>
        parent n = Some (dx_cursor_id (ck_context ck)))
      (IntegrityError ''checkpoint context differs from its immutable recording''))) (\<lambda>_.
    attach rt obs t (ck_context ck)))))"

definition restore_transported :: "'st runtime \<Rightarrow> objects \<Rightarrow> team \<Rightarrow> json \<Rightarrow> ('st run, 'st team_agent) act" where
  "restore_transported rt obs t v = bindA (liftR (checkpoint_from_dict v)) (restore rt obs t)"

section \<open>Agents\<close>

text \<open>These act on the agent's run.\<close>

definition agent_context :: "'st runtime \<Rightarrow> objects \<Rightarrow> team \<Rightarrow> string \<Rightarrow> agent_identity \<Rightarrow> ('st run, delegation_context) act" where
  "agent_context rt obs t delegation_id identity =
    bindA (check_configuration rt obs t) (\<lambda>_.
    bindA (\<lambda>s. liftR (scope_contexts (rn_scopes s)) s) (\<lambda>contexts.
    bindA (getA rn_cursor) (\<lambda>cursor.
    bindA (liftR (make_delegation_context (JStr (te_root_id t)) (JStr (te_manifest_id t)) (JStr delegation_id) (JStr cursor)
      identity contexts (JStr (te_config_digest t)))) (\<lambda>cx.
    bindA (attach rt obs t cx) (\<lambda>_. ret cx)))))"

definition agent_delegate ::
  "'st runtime \<Rightarrow> moment \<Rightarrow> objects \<Rightarrow> team \<Rightarrow> string \<Rightarrow> agent_identity \<Rightarrow> string \<Rightarrow> string \<Rightarrow> string option \<Rightarrow> budget option \<Rightarrow>
    json list option \<Rightarrow> ('st run, 'st team_agent) act" where
  "agent_delegate rt mo obs t delegation_id identity agent_id task_id role b tools_v =
    bindA (agent_context rt obs t delegation_id identity) (\<lambda>_.
    delegate rt mo obs t agent_id task_id role b tools_v (Some identity))"

definition agent_checkpoint_note :: "'st runtime \<Rightarrow> objects \<Rightarrow> team \<Rightarrow> string \<Rightarrow> agent_identity \<Rightarrow> ('st run, agent_checkpoint) act" where
  "agent_checkpoint_note rt obs t delegation_id identity =
    bindA (agent_context rt obs t delegation_id identity) (\<lambda>cx.
    bindA (liftR (note_at (dx_cursor_id cx) [(''team_checkpoint'', JDict [(''version'', JInt 1),
      (''context'', JDict (delegation_to_dict cx))])] JNull)) (\<lambda>n.
    bindA (put_node rt n) (\<lambda>stored.
    liftR (make_checkpoint (JStr (nid stored)) cx))))"

end
