(* ===== verification/Teams_Facts.thy ===== *)
theory Teams_Facts
  imports Teams
begin

text \<open>
  Delegation only narrows: whatever chain of recorded delegations an attachment accepts, the actor it ends
  with may use no tool that the team or a delegation above it does not allow, and every budget scope of the
  team is still in force.
\<close>

section \<open>Narrower authority\<close>

text \<open>The tools \<open>u\<close> are within the limit \<open>c\<close>, where \<open>None\<close> limits nothing.\<close>

definition narrows :: "string list option \<Rightarrow> string list option \<Rightarrow> bool" where
  "narrows c u \<longleftrightarrow> (case c of None \<Rightarrow> True | Some cs \<Rightarrow> (case u of None \<Rightarrow> False | Some us \<Rightarrow> set us \<subseteq> set cs))"

lemma narrows_refl [simp]: "narrows c c"
  by (simp add: narrows_def split: option.split)

lemma narrows_trans: "narrows c u \<Longrightarrow> narrows u v \<Longrightarrow> narrows c v"
  by (auto simp: narrows_def split: option.splits)

lemma attenuate_narrows: "attenuate c r = Inr u \<Longrightarrow> narrows c u"
  by (auto simp: attenuate_def narrows_def bindR_Inr_iff split: option.splits if_splits)

section \<open>The chain of delegations\<close>

text \<open>The actor a delegation note declares.\<close>

definition delegated :: "node \<Rightarrow> agent_identity res" where
  "delegated n = bindR (recorded_event n ''team_agent'') (\<lambda>event. identity_from_dict (dget_or event ''identity'' JNull))"

lemma attach_event_parts:
  assumes "attach_event ops st t au n = Inr au'"
  shows "\<exists>a own. delegated n = Inr a \<and> ai_team_id a = te_root_id t \<and> au_identity au' = Some a \<and> au_latest au' = Some (nid n) \<and>
    narrows (ceiling_of t (au_identity au)) (ai_allowed_tools a) \<and> au_scopes au' = au_scopes au @ own \<and>
    validate_team_binding ops st n = Inr ()"
proof -
  obtain event where ev: "recorded_event n ''team_agent'' = Inr event"
    using assms unfolding attach_event_def bindR_Inr_iff by blast
  obtain a where a: "identity_from_dict (dget_or event ''identity'' JNull) = Inr a"
    using assms unfolding attach_event_def ev bindR_simps bindR_Inr_iff by blast
  have d: "delegated n = Inr a" by (simp add: delegated_def ev a)
  from assms show ?thesis unfolding attach_event_def ev a bindR_simps d
    by (auto simp: bindR_Inr_iff ensure_def dest: attenuate_narrows split: if_splits)
qed

text \<open>What holds of the authority after a list of nodes, root first.\<close>

definition in_bounds :: "'st store_ops \<Rightarrow> 'st \<Rightarrow> team \<Rightarrow> node list \<Rightarrow> authority \<Rightarrow> bool" where
  "in_bounds ops st t ns au \<longleftrightarrow> narrows (te_allowed t) (ceiling_of t (au_identity au)) \<and> (\<exists>own. au_scopes au = te_initial t @ own) \<and>
    (\<forall>n \<in> set ns. team_event n \<noteq> None \<longrightarrow> (\<exists>a. delegated n = Inr a \<and> ai_team_id a = te_root_id t \<and>
      narrows (ai_allowed_tools a) (ceiling_of t (au_identity au)) \<and> validate_team_binding ops st n = Inr ()))"

lemma attach_step_within:
  assumes "in_bounds ops st t ns au" "attach_step ops st t au n = Inr au'" shows "in_bounds ops st t (ns @ [n]) au'"
proof (cases "team_event n = None")
  case True
  then show ?thesis using assms by (auto simp: attach_step_def in_bounds_def)
next
  case False
  then have ev: "attach_event ops st t au n = Inr au'" using assms(2) by (simp only: attach_step_def if_False)
  obtain a own where a: "delegated n = Inr a" "ai_team_id a = te_root_id t" "au_identity au' = Some a"
    "narrows (ceiling_of t (au_identity au)) (ai_allowed_tools a)" "au_scopes au' = au_scopes au @ own"
    "validate_team_binding ops st n = Inr ()" using attach_event_parts [OF ev] by blast
  have c: "ceiling_of t (au_identity au') = ai_allowed_tools a" by (simp add: ceiling_of_def a(3))
  show ?thesis unfolding in_bounds_def c
  proof (intro conjI)
    show "narrows (te_allowed t) (ai_allowed_tools a)" using assms(1) a(4) narrows_trans unfolding in_bounds_def by blast
    show "\<exists>own. au_scopes au' = te_initial t @ own" using assms(1) a(5) unfolding in_bounds_def by auto
    show "\<forall>m \<in> set (ns @ [n]). team_event m \<noteq> None \<longrightarrow> (\<exists>b. delegated m = Inr b \<and> ai_team_id b = te_root_id t \<and>
        narrows (ai_allowed_tools b) (ai_allowed_tools a) \<and> validate_team_binding ops st m = Inr ())"
    proof (intro ballI impI)
      fix m assume m: "m \<in> set (ns @ [n])" "team_event m \<noteq> None"
      show "\<exists>b. delegated m = Inr b \<and> ai_team_id b = te_root_id t \<and>
          narrows (ai_allowed_tools b) (ai_allowed_tools a) \<and> validate_team_binding ops st m = Inr ()"
      proof (cases "m = n")
        case True
        then show ?thesis using a by simp
      next
        case other: False
        then obtain b where "delegated m = Inr b" "ai_team_id b = te_root_id t" "validate_team_binding ops st m = Inr ()"
          "narrows (ai_allowed_tools b) (ceiling_of t (au_identity au))" using assms(1) m unfolding in_bounds_def by auto
        then show ?thesis using narrows_trans a(4) by blast
      qed
    qed
  qed
qed

lemma attach_fold_within:
  "foldR (attach_step ops st t) au ns = Inr au' \<Longrightarrow> in_bounds ops st t ms au \<Longrightarrow> in_bounds ops st t (ms @ ns) au'"
proof (induction ns arbitrary: au ms)
  case (Cons n ns)
  obtain au1 where "attach_step ops st t au n = Inr au1" "foldR (attach_step ops st t) au1 ns = Inr au'"
    using Cons.prems(1) by (auto simp: bindR_Inr_iff)
  then show ?case using Cons.IH [of au1 "ms @ [n]"] attach_step_within [OF Cons.prems(2)] by simp
qed simp

lemma attach_chain_within:
  assumes "attach_chain ops st t chain = Inr au" shows "in_bounds ops st t (rev chain) au"
  using attach_fold_within [OF assms [unfolded attach_chain_def], of "[]"] by (simp add: in_bounds_def ceiling_of_def)

lemma attach_within:
  assumes "attach rt obs t cx s = Some (Inr ag, s')"
  shows "\<exists>chain st au. ancestry (s_get (rt_ops rt) st) (Some (dx_cursor_id cx)) [] = Some (Inr chain) \<and>
    attach_chain (rt_ops rt) st t chain = Inr au \<and> au_identity au = Some (dx_identity cx) \<and> au_scopes au = dx_scopes cx \<and>
    ta_identity ag = dx_identity cx \<and> rn_ceiling (ta_run ag) = te_allowed t"
  using assms unfolding attach_def bindA_Inr_iff
  by (clarsimp simp: liftR_def liftO_def make_agent_def getA_def worker_run_def ensure_def split: if_splits) blast

section \<open>Property\<close>

text \<open>
  C12. Attachment cannot widen authority: when a chain of recorded delegations is accepted and ends with an actor,
  the tools of that actor are within the team's and within those of every delegation of the chain, each of which
  belongs to the team and is the one its slot binds, and the budget scopes begin with all those of the team.
\<close>

theorem attach_only_narrows:
  assumes "attach_chain ops st t chain = Inr au" "au_identity au = Some a"
  shows "narrows (te_allowed t) (ai_allowed_tools a) \<and> (\<exists>own. au_scopes au = te_initial t @ own) \<and>
    (\<forall>n \<in> set chain. team_event n \<noteq> None \<longrightarrow> (\<exists>b. delegated n = Inr b \<and> ai_team_id b = te_root_id t \<and>
      narrows (ai_allowed_tools b) (ai_allowed_tools a) \<and> validate_team_binding ops st n = Inr ()))"
  using attach_chain_within [OF assms(1)] assms(2) by (simp add: in_bounds_def ceiling_of_def)

definition demo_actor :: "string \<Rightarrow> string list \<Rightarrow> agent_identity" where
  "demo_actor i ts = \<lparr>ai_team_id = ''team'', ai_agent_id = i, ai_task_id = ''task'', ai_role = None, ai_allowed_tools = Some ts\<rparr>"

definition demo_team :: team where
  "demo_team = \<lparr>te_label = ''crew'', te_allowed = None, te_root_id = ''team'', te_scopes = [], te_initial = [],
     te_manifest_id = ''manifest'', te_manifest_payload = [], te_configuration = [], te_config_digest = []\<rparr>"

definition demo_delegation :: "string \<Rightarrow> string \<Rightarrow> agent_identity \<Rightarrow> agent_identity option \<Rightarrow> node" where
  "demo_delegation i slot a up = \<lparr>nid = i, parent = Some slot, kind = ''note'', attempt = 0,
     payload = [(''_pollard'', JDict [(''team_agent'', JDict (agent_document demo_team a up None []))])],
     result = JNull, result_digest = None, meta = [], result_text = None\<rparr>"

definition demo_slot :: "string \<Rightarrow> node" where
  "demo_slot i = \<lparr>nid = ''slot'', parent = None, kind = ''note'', attempt = 0, payload = [], result = bound_json i,
     result_digest = None, meta = [], result_text = None\<rparr>"

definition demo_slots :: mem_store where
  "demo_slots = \<lparr>ms_nodes = [(''slot1'', demo_slot ''lead''), (''slot2'', demo_slot ''worker'')], ms_children = []\<rparr>"

definition demo_chain :: "node list" where
  "demo_chain = [demo_delegation ''worker'' ''slot2'' (demo_actor ''b'' [''read'']) (Some (demo_actor ''a'' [''read'', ''write''])),
     demo_delegation ''lead'' ''slot1'' (demo_actor ''a'' [''read'', ''write'']) None]"

lemma demo_identities:
  "identity_from_dict (JDict (identity_to_dict (demo_actor ''a'' [''read'', ''write'']))) = Inr (demo_actor ''a'' [''read'', ''write''])"
  "identity_from_dict (JDict (identity_to_dict (demo_actor ''b'' [''read'']))) = Inr (demo_actor ''b'' [''read''])"
  by (simp_all add: identity_from_dict_def context_fields_def identity_to_dict_def demo_actor_def make_identity_def
      role_json_def validate_tools_def validate_name_def str_strip_def is_space_def dget_or_def Let_def)

lemma demo_attached:
  "attach_chain mem_ops demo_slots demo_team demo_chain =
    Inr \<lparr>au_scopes = [], au_identity = Some (demo_actor ''b'' [''read'']), au_latest = Some ''worker''\<rparr>"
proof -
  have n: "team_event (demo_delegation i slot a up) = Some (JDict (agent_document demo_team a up None []))"
    "recorded_event (demo_delegation i slot a up) ''team_agent'' = Inr (agent_document demo_team a up None [])" for i slot a up
    by (simp_all add: team_event_def recorded_event_def demo_delegation_def agent_document_def kind_value_def dget_or_def json_num_def dec_less_iff)
  have d: "dget_or (agent_document demo_team a up None []) ''identity'' JNull = JDict (identity_to_dict a)"
    "dget_or (agent_document demo_team a up None []) ''manifest_id'' JNull = JStr ''manifest''"
    "dget_or (agent_document demo_team a up None []) ''parent_agent_id'' JNull = (case up of None \<Rightarrow> JNull | Some a \<Rightarrow> JStr (ai_agent_id a))"
    "dget_or (agent_document demo_team a up None []) ''inherited_scopes'' JNull = scopes_json []"
    "dget_or (agent_document demo_team a up None []) ''budget'' JNull = JNull" for a up
    by (simp_all add: agent_document_def dget_or_def limits_json_def demo_team_def)
  have b: "validate_team_binding mem_ops demo_slots (demo_delegation ''lead'' ''slot1'' a up) = Inr ()"
    "validate_team_binding mem_ops demo_slots (demo_delegation ''worker'' ''slot2'' a up) = Inr ()" for a up
    by (simp_all add: validate_team_binding_def demo_delegation_def mem_ops_def mem_get_def mem_lookup_def demo_slots_def
        demo_slot_def bound_json_def ensure_def)
  have t: "attenuate None (Some (map JStr [''read'', ''write''])) = Inr (Some [''read'', ''write''])"
    "attenuate (Some [''read'', ''write'']) (Some (map JStr [''read''])) = Inr (Some [''read''])"
    by (simp_all add: attenuate_def validate_tools_def validate_name_def str_strip_def is_space_def)
  show ?thesis
    by (simp add: attach_chain_def demo_chain_def attach_step_def attach_event_def n d b t demo_identities ensure_def scopes_json_def
        ceiling_of_def)
      (simp add: demo_team_def demo_actor_def demo_delegation_def t [simplified])
qed

lemma attach_only_narrows_witness: "narrows (Some [''read'', ''write'']) (Some [''read''])"
proof -
  have lead: "demo_delegation ''lead'' ''slot1'' (demo_actor ''a'' [''read'', ''write'']) None \<in> set demo_chain"
    by (simp add: demo_chain_def)
  have "team_event (demo_delegation ''lead'' ''slot1'' (demo_actor ''a'' [''read'', ''write'']) None) \<noteq> None"
    "delegated (demo_delegation ''lead'' ''slot1'' (demo_actor ''a'' [''read'', ''write'']) None) = Inr (demo_actor ''a'' [''read'', ''write''])"
    using demo_identities by (simp_all add: team_event_def delegated_def recorded_event_def demo_delegation_def agent_document_def
        kind_value_def dget_or_def json_num_def dec_less_iff)
  then show ?thesis using attach_only_narrows [OF demo_attached] lead by (fastforce simp: demo_actor_def)
qed

end
