(* ===== verification/Team_Reports.thy ===== *)
theory Team_Reports
  imports Dependencies
begin

text \<open>
  Offline accounting of a team's run (\<open>team_reports.py\<close>): what one node adds to the metrics, the actor
  anchors declared in notes, and the loop that attributes every node to the nearest declared actor above it.
\<close>

section \<open>Metrics\<close>

record team_metrics =
  tm_governed_calls :: nat
  tm_model_calls :: nat
  tm_tool_calls :: nat
  tm_refusals :: nat
  tm_dry_runs :: nat
  tm_failed_outcomes :: nat
  tm_charges :: jdict
  tm_usage :: jdict
  tm_duration :: json
  tm_dependency_notes :: nat
  tm_dependency_references :: nat
  tm_handoffs :: nat

record metrics_builder =
  mb_model_calls :: nat
  mb_tool_calls :: nat
  mb_refusals :: nat
  mb_dry_runs :: nat
  mb_failed_outcomes :: nat
  mb_charges :: decimals
  mb_usage :: decimals
  mb_duration :: decimal
  mb_dependency_notes :: nat
  mb_dependency_references :: nat
  mb_handoffs :: nat

definition new_builder :: metrics_builder where
  "new_builder = \<lparr>mb_model_calls = 0, mb_tool_calls = 0, mb_refusals = 0, mb_dry_runs = 0, mb_failed_outcomes = 0,
    mb_charges = [], mb_usage = [], mb_duration = 0, mb_dependency_notes = 0, mb_dependency_references = 0, mb_handoffs = 0\<rparr>"

text \<open>A bool is no number here, and the floats of the model are finite.\<close>

definition number_of_value :: "json \<Rightarrow> decimal option" where
  "number_of_value v = (case v of
      JInt i \<Rightarrow> if 0 \<le> i then Some (dec_of_int i) else None
    | JFloat f \<Rightarrow> if dec_less f 0 then None else Some (decimal_of_float f)
    | _ \<Rightarrow> None)"

fun add_numbers :: "bool \<Rightarrow> string \<Rightarrow> decimals \<Rightarrow> json \<Rightarrow> decimals"
  and add_number_items :: "bool \<Rightarrow> string \<Rightarrow> decimals \<Rightarrow> jdict \<Rightarrow> decimals" where
  "add_numbers nested pre totals (JDict d) = add_number_items nested pre totals d"
| "add_numbers nested pre totals v = totals"
| "add_number_items nested pre totals [] = totals"
| "add_number_items nested pre totals ((name, amount) # d) =
    (let key = (if pre = [] then name else pre @ ''.'' @ name) in
     add_number_items nested pre
       (case number_of_value amount of
          Some q \<Rightarrow> dset key (dget_or totals key 0 + q) totals
        | None \<Rightarrow> if nested then add_numbers nested key totals amount else totals) d)"

section \<open>What a node counts as\<close>

definition call_kind :: "node \<Rightarrow> string option" where
  "call_kind n =
    (if kind n \<in> set result_kinds then Some (kind n)
     else if kind n = kind_value NOTE \<and>
       dget (payload n) ''event'' \<in> {Some (JStr ''call_outcome_unknown''), Some (JStr ''call_recording_failed'')}
     then (case dget (payload n) ''blocked_kind'' of
         Some (JStr k) \<Rightarrow> if k \<in> set result_kinds then Some k else None
       | _ \<Rightarrow> None)
     else None)"

definition reserved_entry :: "node \<Rightarrow> string \<Rightarrow> json option" where
  "reserved_entry n name = (case dget (payload n) ''_pollard'' of Some (JDict d) \<Rightarrow> dget d name | _ \<Rightarrow> None)"

definition is_work :: "node \<Rightarrow> bool" where
  "is_work n \<longleftrightarrow> call_kind n \<noteq> None \<or> kind n = kind_value REFUSAL \<or> reserved_entry n ''dependency'' \<noteq> None"

definition usage_of :: "node \<Rightarrow> json" where
  "usage_of n =
    (let usage = dget_or (meta n) ''usage'' JNull in
     if \<not> is_dict usage \<and> is_dict (result n) then dget_or (dict_items (result n)) ''usage'' JNull else usage)"

definition add_call :: "node \<Rightarrow> string \<Rightarrow> metrics_builder \<Rightarrow> metrics_builder" where
  "add_call n k b = b\<lparr>
    mb_model_calls := mb_model_calls b + of_bool (k = kind_value MODEL_CALL),
    mb_tool_calls := mb_tool_calls b + of_bool (k = kind_value TOOL_CALL),
    mb_dry_runs := mb_dry_runs b + of_bool (dget (meta n) ''dry_run'' = Some (JBool True)),
    mb_failed_outcomes := mb_failed_outcomes b + of_bool (kind n = kind_value NOTE),
    mb_duration := (case number_of_value (dget_or (meta n) ''duration_s'' JNull) of
        None \<Rightarrow> mb_duration b | Some d \<Rightarrow> mb_duration b + d),
    mb_usage := add_numbers True [] (mb_usage b) (usage_of n)\<rparr>"

definition add_dependency :: "json \<Rightarrow> metrics_builder \<Rightarrow> metrics_builder" where
  "add_dependency v b =
    (let b1 = b\<lparr>mb_dependency_notes := Suc (mb_dependency_notes b)\<rparr> in
     case v of
       JDict d \<Rightarrow> b1\<lparr>
         mb_handoffs := mb_handoffs b1 + of_bool (dget d ''relation'' = Some (JStr ''handoff'')),
         mb_dependency_references := mb_dependency_references b1 +
           (case dget d ''references'' of Some (JList rs) \<Rightarrow> length rs | _ \<Rightarrow> 0)\<rparr>
     | _ \<Rightarrow> b1)"

definition add_node :: "metrics_builder \<Rightarrow> node \<Rightarrow> metrics_builder" where
  "add_node b n =
    (let b1 = (case call_kind n of None \<Rightarrow> b | Some k \<Rightarrow> add_call n k b);
         b2 = b1\<lparr>mb_refusals := mb_refusals b1 + of_bool (kind n = kind_value REFUSAL),
                 mb_charges := add_numbers False [] (mb_charges b1) (dget_or (meta n) ''charges'' JNull)\<rparr> in
     case reserved_entry n ''dependency'' of None \<Rightarrow> b2 | Some v \<Rightarrow> add_dependency v b2)"

definition totals_json :: "decimals \<Rightarrow> jdict" where
  "totals_json ts = map (\<lambda>(k, v). (k, charge_to_json v)) (sort_key fst ts)"

definition finish_metrics :: "metrics_builder \<Rightarrow> team_metrics" where
  "finish_metrics b = \<lparr>tm_governed_calls = mb_model_calls b + mb_tool_calls b, tm_model_calls = mb_model_calls b,
    tm_tool_calls = mb_tool_calls b, tm_refusals = mb_refusals b, tm_dry_runs = mb_dry_runs b,
    tm_failed_outcomes = mb_failed_outcomes b, tm_charges = totals_json (mb_charges b), tm_usage = totals_json (mb_usage b),
    tm_duration = charge_to_json (mb_duration b), tm_dependency_notes = mb_dependency_notes b,
    tm_dependency_references = mb_dependency_references b, tm_handoffs = mb_handoffs b\<rparr>"

section \<open>Actors\<close>

type_synonym actor_key = "string \<times> string \<times> string \<times> string option"

definition agent_key :: "agent_identity \<Rightarrow> actor_key" where
  "agent_key a = (ai_team_id a, ai_agent_id a, ai_task_id a, ai_role a)"

definition declared_actor :: "string \<Rightarrow> node \<Rightarrow> json \<Rightarrow> agent_identity res" where
  "declared_actor root_id n anchor =
    bindR (ensure (kind n = kind_value NOTE \<and> is_dict anchor)
      (ValueError ''team actor anchor must be a note containing an object'')) (\<lambda>_.
    bindR (ensure (dget (dict_items anchor) ''version'' = Some (JInt 1))
      (ValueError ''unsupported team actor anchor version'')) (\<lambda>_.
    bindR (identity_from_dict (dget_or (dict_items anchor) ''identity'' JNull)) (\<lambda>declared.
    bindR (ensure (ai_team_id declared = root_id)
      (ValueError ''team actor anchor belongs to a different run'')) (\<lambda>_.
    Inr declared))))"

section \<open>The report\<close>

record report_finding =
  tf_node_id :: string
  tf_code :: string
  tf_message :: string

record agent_report =
  ar_key :: actor_key
  ar_metrics :: team_metrics

record team_report =
  tr_root_id :: string
  tr_totals :: team_metrics
  tr_agents :: "agent_report list"
  tr_unattributed :: team_metrics
  tr_unattributed_ids :: "string list"
  tr_orphaned_ids :: "string list"
  tr_dependencies :: dependency_report
  tr_findings :: "report_finding list"

record report_state =
  rs_totals :: metrics_builder
  rs_unattributed :: metrics_builder
  rs_groups :: "(actor_key \<times> metrics_builder) list"
  rs_actors :: "(string \<times> agent_identity option) list"
  rs_orphans :: "(string \<times> bool) list"
  rs_invalid :: "string list"
  rs_findings :: "report_finding list"
  rs_traversal :: "dependency_finding list"
  rs_unattributed_ids :: "string list"
  rs_orphaned_ids :: "string list"

definition report_start :: report_state where
  "report_start = \<lparr>rs_totals = new_builder, rs_unattributed = new_builder, rs_groups = [], rs_actors = [], rs_orphans = [],
    rs_invalid = [], rs_findings = [], rs_traversal = [], rs_unattributed_ids = [], rs_orphaned_ids = []\<rparr>"

text \<open>A node whose identity, result or ancestry does not hold; recomputing the id may raise.\<close>

definition node_broken :: "string \<Rightarrow> report_state \<Rightarrow> node \<Rightarrow> bool res" where
  "node_broken root_id s n =
    bindR (expected_id n) (\<lambda>e.
    Inr (nid n \<noteq> e \<or>
      (case result_text n of None \<Rightarrow> False | Some t \<Rightarrow> result_digest n \<noteq> Some (result_digest_from_text t)) \<or>
      (case parent n of None \<Rightarrow> False | Some p \<Rightarrow> p \<in> set (rs_invalid s)) \<or>
      (nid n = root_id \<and> parent n \<noteq> None) \<or>
      (nid n \<noteq> root_id \<and> (case parent n of None \<Rightarrow> True | Some p \<Rightarrow> p \<notin> fst ` set (rs_actors s)))))"

definition report_error :: "string \<Rightarrow> string \<Rightarrow> string \<Rightarrow> report_state \<Rightarrow> report_state" where
  "report_error i code msg s = s\<lparr>rs_findings := rs_findings s @ [\<lparr>tf_node_id = i, tf_code = code, tf_message = msg\<rparr>]\<rparr>"

text \<open>The actor of a node and whether it is an orphan: those of its parent, unless the node says otherwise.\<close>

definition inherited_actor :: "report_state \<Rightarrow> node \<Rightarrow> agent_identity option \<times> bool" where
  "inherited_actor s n = (case parent n of
      None \<Rightarrow> (None, False)
    | Some p \<Rightarrow> (dget_or (rs_actors s) p None, dget_or (rs_orphans s) p False))"

definition node_actor ::
  "string \<Rightarrow> report_state \<Rightarrow> node \<Rightarrow> ((agent_identity option \<times> bool) \<times> report_state) res" where
  "node_actor root_id s n =
    bindR (node_broken root_id s n) (\<lambda>broken.
    let s1 = (if broken then report_error (nid n) ''invalid_node'' ''invalid node or ancestry''
                (s\<lparr>rs_invalid := nid n # rs_invalid s\<rparr>) else s);
        a = (if broken then (None, True) else inherited_actor s n) in
    case reserved_entry n ''team_agent'' of
      None \<Rightarrow> Inr (a, s1)
    | Some anchor \<Rightarrow> (case declared_actor root_id n anchor of
          Inr declared \<Rightarrow> Inr (if broken then a else (Some declared, False), s1)
        | Inl e \<Rightarrow> if bad_document e then Inr ((None, True), report_error (nid n) ''invalid_actor'' (exc_text e) s1)
                   else Inl e))"

definition attribute_node :: "node \<Rightarrow> agent_identity option \<Rightarrow> bool \<Rightarrow> report_state \<Rightarrow> report_state" where
  "attribute_node n actor orphan s = (case actor of
      None \<Rightarrow> s\<lparr>rs_unattributed := add_node (rs_unattributed s) n,
        rs_unattributed_ids := rs_unattributed_ids s @ (if is_work n then [nid n] else []),
        rs_orphaned_ids := rs_orphaned_ids s @ (if is_work n \<and> orphan then [nid n] else [])\<rparr>
    | Some a \<Rightarrow>
        (let key = agent_key a;
             b = (case map_of (rs_groups s) key of None \<Rightarrow> new_builder | Some b \<Rightarrow> b) in
         s\<lparr>rs_groups := AList.update key (add_node b n) (rs_groups s)\<rparr>))"

definition report_node :: "string \<Rightarrow> report_state \<Rightarrow> node \<Rightarrow> report_state res option" where
  "report_node root_id s n =
    Some (bindR (node_actor root_id s n) (\<lambda>((actor, orphan), s1).
    Inr (attribute_node n actor orphan
      (s1\<lparr>rs_actors := dset (nid n) actor (rs_actors s1), rs_orphans := dset (nid n) orphan (rs_orphans s1),
         rs_totals := add_node (rs_totals s1) n\<rparr>))))"

definition add_traversal :: "dependency_finding \<Rightarrow> report_state \<Rightarrow> report_state" where
  "add_traversal f s = s\<lparr>rs_traversal := rs_traversal s @ [f]\<rparr>"

fun key_order :: "actor_key \<times> metrics_builder \<Rightarrow> string list" where
  "key_order ((team, agent, task, role), b) = [team, agent, task, case role of None \<Rightarrow> [] | Some r \<Rightarrow> r]"

definition report_of :: "string \<Rightarrow> dependency_report \<Rightarrow> report_state \<Rightarrow> team_report" where
  "report_of root_id deps s = \<lparr>tr_root_id = root_id, tr_totals = finish_metrics (rs_totals s),
    tr_agents = map (\<lambda>(key, b). \<lparr>ar_key = key, ar_metrics = finish_metrics b\<rparr>) (sort_key key_order (rs_groups s)),
    tr_unattributed = finish_metrics (rs_unattributed s),
    tr_unattributed_ids = sort (rs_unattributed_ids s), tr_orphaned_ids = sort (rs_orphaned_ids s),
    tr_dependencies = deps,
    tr_findings = rs_findings s @
      map (\<lambda>f. \<lparr>tf_node_id = df_node_id f, tf_code = df_code f, tf_message = df_message f\<rparr>) (rs_traversal s)\<rparr>"

definition team_report_run :: "'st store_ops \<Rightarrow> 'st \<Rightarrow> string \<Rightarrow> team_report res option" where
  "team_report_run ops st root_id =
    bindO (verify_dependencies ops st root_id) (\<lambda>deps.
    bindO (tree_loop (s_get ops st) (s_children ops st) (report_node root_id) add_traversal [] [root_id] report_start) (\<lambda>s.
    Some (Inr (report_of root_id deps s))))"

section \<open>Views\<close>

definition report_ok :: "team_report \<Rightarrow> bool" where
  "report_ok r \<longleftrightarrow> tr_findings r = [] \<and> dependencies_ok (tr_dependencies r)"

definition metrics_dict :: "team_metrics \<Rightarrow> jdict" where
  "metrics_dict m = [(''governed_calls'', JInt (int (tm_governed_calls m))), (''model_calls'', JInt (int (tm_model_calls m))),
    (''tool_calls'', JInt (int (tm_tool_calls m))), (''refusals'', JInt (int (tm_refusals m))),
    (''dry_runs'', JInt (int (tm_dry_runs m))), (''failed_outcomes'', JInt (int (tm_failed_outcomes m))),
    (''charges'', JDict (tm_charges m)), (''usage'', JDict (tm_usage m)), (''summed_call_duration_seconds'', tm_duration m),
    (''dependency_notes'', JInt (int (tm_dependency_notes m))),
    (''dependency_references'', JInt (int (tm_dependency_references m))), (''handoffs'', JInt (int (tm_handoffs m)))]"

definition agent_report_dict :: "agent_report \<Rightarrow> jdict" where
  "agent_report_dict r = (case ar_key r of (team, agent, task, role) \<Rightarrow>
    [(''team_id'', JStr team), (''agent_id'', JStr agent), (''task_id'', JStr task), (''role'', role_json role),
     (''metrics'', JDict (metrics_dict (ar_metrics r)))])"

definition team_report_dict :: "team_report \<Rightarrow> jdict" where
  "team_report_dict r = [(''root_id'', JStr (tr_root_id r)), (''totals'', JDict (metrics_dict (tr_totals r))),
    (''agents'', JList (map (\<lambda>a. JDict (agent_report_dict a)) (tr_agents r))),
    (''unattributed'', JDict (metrics_dict (tr_unattributed r))),
    (''unattributed_node_ids'', JList (map JStr (tr_unattributed_ids r))),
    (''orphaned_node_ids'', JList (map JStr (tr_orphaned_ids r))),
    (''dependencies'', JDict (dependency_report_dict (tr_dependencies r))),
    (''findings'', JList (map (\<lambda>f. JDict [(''node_id'', JStr (tf_node_id f)), (''code'', JStr (tf_code f)),
       (''message'', JStr (tf_message f))]) (tr_findings r))),
    (''ok'', JBool (report_ok r)),
    (''interpretation'', JDict
       [(''identity'', JStr ''caller-declared, not authenticated''),
        (''accounting'', JStr ''recorded mutable metadata, not seal-protected''),
        (''duration'', JStr ''sum of recorded call durations, not elapsed time or critical path''),
        (''calls'', JStr ''recorded governed calls including dry runs and post-dispatch failures''),
        (''usage'', JStr ''each usage field is summed independently; overlapping fields are not added'')])]"

end
