(* ===== verification/Team_Reports_Facts.thy ===== *)
theory Team_Reports_Facts
  imports Team_Reports Dependencies_Facts
begin

text \<open>
  What a team report says: every node of the run is counted once in the totals, and once more either for the
  nearest actor declared above it or as unattributed. \<open>acts_for\<close> is that nearest actor, by the shape of the
  tree alone; the loop of the code finds it because a parent is read before its children.
\<close>

section \<open>The nearest declared actor\<close>

inductive acts_for :: "node_map \<Rightarrow> string \<Rightarrow> string \<Rightarrow> agent_identity option \<Rightarrow> bool" for M run_id where
  acts_declared: "M i = Some n \<Longrightarrow> reserved_entry n ''team_agent'' = Some v \<Longrightarrow> declared_actor run_id n v = Inr a \<Longrightarrow>
    acts_for M run_id i (Some a)"
| acts_malformed: "M i = Some n \<Longrightarrow> reserved_entry n ''team_agent'' = Some v \<Longrightarrow> declared_actor run_id n v = Inl e \<Longrightarrow>
    acts_for M run_id i None"
| acts_root: "M i = Some n \<Longrightarrow> reserved_entry n ''team_agent'' = None \<Longrightarrow> parent n = None \<Longrightarrow> acts_for M run_id i None"
| acts_inherited: "M i = Some n \<Longrightarrow> reserved_entry n ''team_agent'' = None \<Longrightarrow> parent n = Some p \<Longrightarrow>
    acts_for M run_id p a \<Longrightarrow> acts_for M run_id i a"

inductive_cases acts_forE: "acts_for M run_id i a"

lemma acts_for_unique: "acts_for M run_id i a \<Longrightarrow> acts_for M run_id i b \<Longrightarrow> b = a"
proof (induction i a arbitrary: b rule: acts_for.induct)
  case (acts_declared i n v a)
  from acts_declared(4) show ?case by (rule acts_forE) (use acts_declared(1-3) in auto)
next
  case (acts_malformed i n v e)
  from acts_malformed(4) show ?case by (rule acts_forE) (use acts_malformed(1-3) in auto)
next
  case (acts_root i n)
  from acts_root(4) show ?case by (rule acts_forE) (use acts_root(1-3) in auto)
next
  case (acts_inherited i n p a)
  from acts_inherited(6) show ?case by (rule acts_forE) (use acts_inherited(1-3,5) in auto)
qed

definition metrics_of :: "node list \<Rightarrow> metrics_builder" where
  "metrics_of ns = foldl add_node new_builder ns"

lemma metrics_of_simps [simp]:
  "metrics_of [] = new_builder" "metrics_of (ns @ [n]) = add_node (metrics_of ns) n"
  by (simp_all add: metrics_of_def)

definition for_actor :: "node_map \<Rightarrow> string \<Rightarrow> actor_key \<Rightarrow> node list \<Rightarrow> node list" where
  "for_actor M run_id k ns = filter (\<lambda>n. \<exists>a. acts_for M run_id (nid n) (Some a) \<and> agent_key a = k) ns"

definition for_nobody :: "node_map \<Rightarrow> string \<Rightarrow> node list \<Rightarrow> node list" where
  "for_nobody M run_id ns = filter (\<lambda>n. acts_for M run_id (nid n) None) ns"

text \<open>An anchor that declares an actor, or none.\<close>

definition anchor_ok :: "string \<Rightarrow> node \<Rightarrow> bool" where
  "anchor_ok run_id n \<longleftrightarrow> (\<forall>v. reserved_entry n ''team_agent'' = Some v \<longrightarrow> (\<exists>a. declared_actor run_id n v = Inr a))"

section \<open>A malformed anchor is a finding, never an exception\<close>

lemma bad_document_name: "validate_name v field = Inl e \<Longrightarrow> bad_document e"
  by (auto simp: validate_name_def split: json.splits if_splits)

lemma mapR_Inl: "mapR f xs = Inl e \<Longrightarrow> \<exists>x. f x = Inl e"
  by (induction xs) (auto simp: bindR_Inl_iff)

lemma bad_document_tools: "validate_tools v = Inl e \<Longrightarrow> bad_document e"
  using mapR_Inl bad_document_name by (fastforce simp: validate_tools_def bindR_Inl_iff split: option.splits if_splits)

lemma bad_document_make_identity: "make_identity t g k r tools = Inl e \<Longrightarrow> bad_document e"
  unfolding make_identity_def
  by (elim bad_document_guards(2) bad_document_name bad_document_tools)
    (auto simp: bindR_Inl_iff dest: bad_document_name split: if_splits)

lemma bad_document_identity: "identity_from_dict v = Inl e \<Longrightarrow> bad_document e"
  unfolding identity_from_dict_def
  by (elim bad_document_guards(2) bad_document_make_identity)
    (auto simp: context_fields_def Let_def split: json.splits if_splits)

lemma bad_document_actor: "declared_actor run_id n v = Inl e \<Longrightarrow> bad_document e"
  unfolding declared_actor_def
  by (elim bad_document_guards(2) bad_document_guards(3) bad_document_identity) simp

section \<open>One node\<close>

definition actors_inv :: "node_map \<Rightarrow> string \<Rightarrow> node list \<Rightarrow> report_state \<Rightarrow> bool" where
  "actors_inv M run_id K s \<longleftrightarrow>
    dom (map_of (rs_actors s)) = nid ` set K \<and>
    (\<forall>i a. map_of (rs_actors s) i = Some a \<longrightarrow> acts_for M run_id i a) \<and>
    rs_invalid s = [] \<and> rs_traversal s = [] \<and>
    (rs_findings s = [] \<longleftrightarrow> (\<forall>n \<in> set K. anchor_ok run_id n))"

definition group_of :: "node_map \<Rightarrow> string \<Rightarrow> node list \<Rightarrow> actor_key \<Rightarrow> metrics_builder option" where
  "group_of M run_id K k = (if for_actor M run_id k K = [] then None else Some (metrics_of (for_actor M run_id k K)))"

definition groups_inv :: "node_map \<Rightarrow> string \<Rightarrow> node list \<Rightarrow> (actor_key \<times> metrics_builder) list \<Rightarrow> bool" where
  "groups_inv M run_id K g \<longleftrightarrow> distinct (map fst g) \<and> map_of g = group_of M run_id K"

definition counts_inv :: "node_map \<Rightarrow> string \<Rightarrow> node list \<Rightarrow> report_state \<Rightarrow> bool" where
  "counts_inv M run_id K s \<longleftrightarrow>
    rs_totals s = metrics_of K \<and> rs_unattributed s = metrics_of (for_nobody M run_id K) \<and>
    rs_unattributed_ids s = map nid (filter is_work (for_nobody M run_id K)) \<and>
    groups_inv M run_id K (rs_groups s)"

lemma actors_inv_start: "actors_inv M run_id [] report_start"
  by (simp add: actors_inv_def report_start_def)

lemma counts_inv_start: "counts_inv M run_id [] report_start"
  by (simp add: counts_inv_def groups_inv_def group_of_def report_start_def for_nobody_def for_actor_def fun_eq_iff)

lemma actors_invD:
  assumes "actors_inv M run_id K s"
  shows "fst ` set (rs_actors s) = nid ` set K" "map_of (rs_actors s) i = Some a \<Longrightarrow> acts_for M run_id i a"
    "rs_invalid s = []"
  using assms by (auto simp: actors_inv_def dom_map_of_conv_image_fst)

definition placed :: "node_map \<Rightarrow> string \<Rightarrow> node list \<Rightarrow> node \<Rightarrow> bool" where
  "placed M run_id K n \<longleftrightarrow> M (nid n) = Some n \<and> node_valid n \<and>
    (if nid n = run_id then parent n = None else \<exists>p. parent n = Some p \<and> p \<in> nid ` set K)"

lemma placed_not_broken: "actors_inv M run_id K s \<Longrightarrow> placed M run_id K n \<Longrightarrow> node_broken run_id s n = Inr False"
  by (auto simp: placed_def node_broken_def node_valid_def actors_invD(1,3) split: option.split if_splits)

lemma placed_inherited:
  assumes "actors_inv M run_id K s" "placed M run_id K n" "reserved_entry n ''team_agent'' = None"
  shows "acts_for M run_id (nid n) (fst (inherited_actor s n))"
proof (cases "parent n")
  case None
  then show ?thesis using assms(2,3) by (auto simp: inherited_actor_def placed_def intro: acts_root)
next
  case (Some p)
  then have "p \<in> fst ` set (rs_actors s)" using assms(1,2) actors_invD(1) by (auto simp: placed_def split: if_splits)
  then obtain a where a: "map_of (rs_actors s) p = Some a" by (metis map_of_eq_None_iff not_None_eq)
  then have "acts_for M run_id p a" using actors_invD(2) [OF assms(1)] by blast
  then have "acts_for M run_id (nid n) a" using assms(2,3) Some by (auto simp: placed_def intro: acts_inherited)
  then show ?thesis using Some a by (simp add: inherited_actor_def dget_or_def)
qed

lemma placed_actor:
  assumes "actors_inv M run_id K s" "placed M run_id K n"
  obtains a orphan s1 where "node_actor run_id s n = Inr ((a, orphan), s1)" "acts_for M run_id (nid n) a"
    "s1 = s\<lparr>rs_findings := rs_findings s1\<rparr>" "rs_findings s1 = [] \<longleftrightarrow> rs_findings s = [] \<and> anchor_ok run_id n"
proof (cases "reserved_entry n ''team_agent''")
  case None
  have i: "acts_for M run_id (nid n) (fst (inherited_actor s n))" by (rule placed_inherited [OF assms None])
  have "node_actor run_id s n = Inr (inherited_actor s n, s)"
    using placed_not_broken [OF assms] None by (simp add: node_actor_def)
  then show thesis using i None
    by (intro that [of "fst (inherited_actor s n)" "snd (inherited_actor s n)" s]) (simp_all add: anchor_ok_def)
next
  case (Some v)
  have M: "M (nid n) = Some n" using assms(2) by (simp add: placed_def)
  show thesis
  proof (cases "declared_actor run_id n v")
    case (Inl e)
    have "node_actor run_id s n = Inr ((None, True), report_error (nid n) ''invalid_actor'' (exc_text e) s)"
      using placed_not_broken [OF assms] Some Inl bad_document_actor [OF Inl] by (simp add: node_actor_def)
    then show thesis using acts_malformed [of M, OF M Some Inl]
      by (rule that) (simp_all add: report_error_def anchor_ok_def Some Inl)
  next
    case (Inr a)
    have "node_actor run_id s n = Inr ((Some a, False), s)"
      using placed_not_broken [OF assms] Some Inr by (simp add: node_actor_def)
    then show thesis using acts_declared [of M, OF M Some Inr] by (rule that) (simp_all add: anchor_ok_def Some Inr)
  qed
qed

lemma for_actor_snoc:
  assumes "acts_for M run_id (nid n) a"
  shows "for_actor M run_id k (K @ [n]) =
    for_actor M run_id k K @ (case a of None \<Rightarrow> [] | Some b \<Rightarrow> if agent_key b = k then [n] else [])"
proof -
  have "acts_for M run_id (nid n) c \<longleftrightarrow> c = a" for c using assms acts_for_unique by blast
  then show ?thesis by (cases a) (auto simp: for_actor_def)
qed

lemma for_nobody_snoc:
  assumes "acts_for M run_id (nid n) a"
  shows "for_nobody M run_id (K @ [n]) = for_nobody M run_id K @ (if a = None then [n] else [])"
proof -
  have "acts_for M run_id (nid n) c \<longleftrightarrow> c = a" for c using assms acts_for_unique by blast
  then show ?thesis by (auto simp: for_nobody_def)
qed

lemma group_of_snoc:
  assumes "acts_for M run_id (nid n) (Some b)"
  shows "group_of M run_id (K @ [n]) = (group_of M run_id K)
    (agent_key b \<mapsto> add_node (case group_of M run_id K (agent_key b) of None \<Rightarrow> new_builder | Some q \<Rightarrow> q) n)"
  by (rule ext) (simp add: group_of_def for_actor_snoc [OF assms])

lemma groups_step:
  "acts_for M run_id (nid n) (Some b) \<Longrightarrow> groups_inv M run_id K g \<Longrightarrow> groups_inv M run_id (K @ [n])
    (AList.update (agent_key b) (add_node (case map_of g (agent_key b) of None \<Rightarrow> new_builder | Some q \<Rightarrow> q) n) g)"
  by (simp add: groups_inv_def distinct_update update_conv' group_of_snoc)

lemma groups_same: "acts_for M run_id (nid n) None \<Longrightarrow> groups_inv M run_id K g \<Longrightarrow> groups_inv M run_id (K @ [n]) g"
  by (simp add: groups_inv_def group_of_def for_actor_snoc fun_eq_iff)

lemma counts_step:
  assumes "acts_for M run_id (nid n) a" "counts_inv M run_id K s"
  shows "counts_inv M run_id (K @ [n]) (attribute_node n a orphan (s\<lparr>rs_totals := add_node (rs_totals s) n\<rparr>))"
proof (cases a)
  case None
  then show ?thesis using assms groups_same
    by (simp add: counts_inv_def attribute_node_def for_nobody_snoc [OF assms(1)])
next
  case (Some b)
  then show ?thesis using assms groups_step
    by (simp add: counts_inv_def attribute_node_def for_nobody_snoc [OF assms(1)] Let_def)
qed

lemma actors_step:
  assumes "actors_inv M run_id K s" "acts_for M run_id (nid n) a" "fs = [] \<longleftrightarrow> rs_findings s = [] \<and> anchor_ok run_id n"
  shows "actors_inv M run_id (K @ [n]) (s\<lparr>rs_findings := fs, rs_actors := dset (nid n) a (rs_actors s)\<rparr>)"
  using assms unfolding actors_inv_def by (simp add: conj_commute)

lemma report_keeps:
  "actors_inv M run_id K (attribute_node n a orphan s) \<longleftrightarrow> actors_inv M run_id K s"
  "actors_inv M run_id K (s\<lparr>rs_orphans := os, rs_totals := ts\<rparr>) \<longleftrightarrow> actors_inv M run_id K s"
  "counts_inv M run_id K (s\<lparr>rs_findings := fs, rs_actors := acs, rs_orphans := os\<rparr>) \<longleftrightarrow> counts_inv M run_id K s"
  by (simp_all add: actors_inv_def counts_inv_def attribute_node_def Let_def split: option.split)

lemma report_step:
  assumes A: "actors_inv M run_id K s" and C: "counts_inv M run_id K s" and P: "placed M run_id K n"
  shows "\<exists>s'. report_node run_id s n = Some (Inr s') \<and> actors_inv M run_id (K @ [n]) s' \<and> counts_inv M run_id (K @ [n]) s'"
proof -
  obtain a orphan s1 where s1: "node_actor run_id s n = Inr ((a, orphan), s1)" "acts_for M run_id (nid n) a"
    "s1 = s\<lparr>rs_findings := rs_findings s1\<rparr>" "rs_findings s1 = [] \<longleftrightarrow> rs_findings s = [] \<and> anchor_ok run_id n"
    using placed_actor [OF A P] by blast
  obtain fs where fs: "s1 = s\<lparr>rs_findings := fs\<rparr>" "fs = [] \<longleftrightarrow> rs_findings s = [] \<and> anchor_ok run_id n"
    using s1(3,4) by blast
  define s2 where "s2 = s\<lparr>rs_findings := fs, rs_actors := dset (nid n) a (rs_actors s), rs_orphans := dset (nid n) orphan (rs_orphans s)\<rparr>"
  define s3 where "s3 = attribute_node n a orphan (s2\<lparr>rs_totals := add_node (rs_totals s2) n\<rparr>)"
  have "report_node run_id s n = Some (Inr s3)" by (simp add: report_node_def s1(1) s3_def s2_def fs(1))
  moreover have "actors_inv M run_id (K @ [n]) s3"
    using actors_step [OF A s1(2) fs(2)] unfolding s3_def report_keeps(1) by (simp add: s2_def actors_inv_def)
  moreover have "counts_inv M run_id (K @ [n]) s3"
    unfolding s3_def using C by (intro counts_step [OF s1(2)]) (simp add: s2_def report_keeps(3))
  ultimately show ?thesis by blast
qed


section \<open>The loop\<close>

lemma report_loop:
  assumes "actors_inv M run_id K s" "counts_inv M run_id K s"
    "\<And>k. k < length xs \<Longrightarrow> placed M run_id (K @ take k xs) (xs ! k)"
  shows "\<exists>s'. foldO (report_node run_id) s xs = Some (Inr s') \<and> actors_inv M run_id (K @ xs) s' \<and> counts_inv M run_id (K @ xs) s'"
  using assms
proof (induction xs arbitrary: K s)
  case (Cons n xs)
  have "placed M run_id K n" using Cons.prems(3) [of 0] by simp
  then obtain s' where s': "report_node run_id s n = Some (Inr s')" "actors_inv M run_id (K @ [n]) s'" "counts_inv M run_id (K @ [n]) s'"
    using report_step [OF Cons.prems(1,2)] by blast
  have "placed M run_id ((K @ [n]) @ take k xs) (xs ! k)" if "k < length xs" for k
    using Cons.prems(3) [of "Suc k"] that by simp
  from Cons.IH [OF s'(2,3) this] show ?case using s'(1) by simp
qed simp

lemma preorder_placed:
  assumes "preorder M run_id L" "forest M" "M run_id = Some rn" "parent rn = None" "\<forall>n \<in> set L. node_valid n" "k < length L"
  shows "placed M run_id (take k L) (L ! k)"
proof -
  have L: "M (nid n) = Some n" "node_valid n" if "n \<in> set L" for n using that assms(1,5) by (auto simp: preorder_def)
  have k: "L ! k \<in> set L" using assms(6) by simp
  have h: "nid (hd L) = run_id" "hd L = L ! 0" using assms(1,2) by (auto simp: preorder_def forest_def hd_conv_nth)
  show ?thesis
  proof (cases k)
    case 0
    then show ?thesis using L [OF k] h assms(3,4) by (simp add: placed_def)
  next
    case (Suc m)
    have "nid (L ! k) \<noteq> run_id"
      using nth_eq_iff_index_eq [of "map nid L" k 0] assms(1,6) h Suc by (auto simp: preorder_def)
    moreover have "\<exists>p. parent (L ! k) = Some p \<and> p \<in> nid ` set (take k L)"
      using assms(1,6) Suc by (simp add: preorder_def)
    ultimately show ?thesis using L [OF k] by (simp add: placed_def)
  qed
qed

lemma report_agents:
  assumes "groups_inv M run_id L (rs_groups s)"
  shows "distinct (map ar_key (tr_agents (report_of i d s))) \<and>
    ar_key ` set (tr_agents (report_of i d s)) = {k. for_actor M run_id k L \<noteq> []} \<and>
    (\<forall>r \<in> set (tr_agents (report_of i d s)). ar_metrics r = finish_metrics (metrics_of (for_actor M run_id (ar_key r) L)))"
proof -
  have g: "distinct (map fst (rs_groups s))" "map_of (rs_groups s) = group_of M run_id L" using assms by (simp_all add: groups_inv_def)
  have "fst ` set (rs_groups s) = dom (group_of M run_id L)" using g(2) by (metis dom_map_of_conv_image_fst)
  then have keys: "fst ` set (rs_groups s) = {k. for_actor M run_id k L \<noteq> []}" by (simp add: group_of_def dom_def)
  have ar: "map ar_key (tr_agents (report_of i d s)) = map fst (sort_key key_order (rs_groups s))"
    by (simp add: report_of_def case_prod_beta comp_def)
  have "distinct (map fst (sort_key key_order (rs_groups s)))"
    using g(1) by (simp add: distinct_map) 
  moreover have "b = metrics_of (for_actor M run_id k L)" if "(k, b) \<in> set (rs_groups s)" for k b
    using map_of_is_SomeI [OF g(1) that] by (simp add: g(2) group_of_def split: if_splits)
  then have "\<forall>r \<in> set (tr_agents (report_of i d s)). ar_metrics r = finish_metrics (metrics_of (for_actor M run_id (ar_key r) L))"
    by (fastforce simp: report_of_def)
  moreover have "ar_key ` set (tr_agents (report_of i d s)) = {k. for_actor M run_id k L \<noteq> []}"
    using keys ar by (metis list.set_map set_sort)
  ultimately show ?thesis using ar by simp
qed

definition report_exact :: "node_map \<Rightarrow> string \<Rightarrow> node list \<Rightarrow> team_report \<Rightarrow> bool" where
  "report_exact M run_id L rep \<longleftrightarrow>
    tr_totals rep = finish_metrics (metrics_of L) \<and>
    tr_unattributed rep = finish_metrics (metrics_of (for_nobody M run_id L)) \<and>
    tr_unattributed_ids rep = sort (map nid (filter is_work (for_nobody M run_id L))) \<and>
    distinct (map ar_key (tr_agents rep)) \<and>
    ar_key ` set (tr_agents rep) = {k. for_actor M run_id k L \<noteq> []} \<and>
    (\<forall>r \<in> set (tr_agents rep). ar_metrics r = finish_metrics (metrics_of (for_actor M run_id (ar_key r) L))) \<and>
    (\<forall>n \<in> set L. \<exists>!a. acts_for M run_id (nid n) a) \<and>
    (tr_findings rep = [] \<longleftrightarrow> (\<forall>n \<in> set L. anchor_ok run_id n))"

lemma report_of_exact:
  assumes "actors_inv M run_id L s" "counts_inv M run_id L s"
  shows "report_exact M run_id L (report_of run_id d s)"
proof -
  have uniq: "\<exists>!a. acts_for M run_id (nid n) a" if "n \<in> set L" for n
  proof -
    have "nid n \<in> dom (map_of (rs_actors s))" using assms(1) that by (auto simp: actors_inv_def)
    then obtain a where "acts_for M run_id (nid n) a" using actors_invD(2) [OF assms(1)] by blast
    then show ?thesis using acts_for_unique by blast
  qed
  have sums: "tr_totals (report_of run_id d s) = finish_metrics (metrics_of L)"
    "tr_unattributed (report_of run_id d s) = finish_metrics (metrics_of (for_nobody M run_id L))"
    "tr_unattributed_ids (report_of run_id d s) = sort (map nid (filter is_work (for_nobody M run_id L)))"
    using assms(2) by (simp_all add: counts_inv_def report_of_def)
  have found: "tr_findings (report_of run_id d s) = [] \<longleftrightarrow> (\<forall>n \<in> set L. anchor_ok run_id n)"
    using assms(1) by (simp add: actors_inv_def report_of_def)
  have "groups_inv M run_id L (rs_groups s)" using assms(2) by (simp add: counts_inv_def)
  from report_agents [OF this, of run_id d] show ?thesis
    unfolding report_exact_def using uniq by (intro conjI ballI sums found) (simp_all only: simp_thms)
qed

context store_contract begin

lemma team_report_exact:
  assumes "inv st" "nodes st run_id = Some rn" "parent rn = None"
  shows "\<exists>rep L. team_report_run ops st run_id = Some (Inr rep) \<and> preorder (nodes st) run_id L \<and> report_exact (nodes st) run_id L rep"
proof -
  have dom: "run_id \<in> dom (nodes st)" using assms(2) by blast
  obtain L where L: "walk_loop (s_get ops st) (s_children ops st) [run_id] [] = Some (L, None)" "preorder (nodes st) run_id L"
    using walk_yields_subtree [OF assms(1) dom] walk_nodes [OF assms(1) dom] by auto
  obtain d where d: "verify_dependencies ops st run_id = Some (Inr d)" using verify_dependencies_returns [OF assms] by blast
  have "\<forall>n \<in> set L. node_valid n" using L(2) nodes_valid [OF assms(1)] by (auto simp: preorder_def)
  then have "placed (nodes st) run_id ([] @ take k L) (L ! k)" if "k < length L" for k
    using preorder_placed [OF L(2) nodes_forest [OF assms(1)] assms(2,3) _ that] by simp
  from report_loop [OF actors_inv_start counts_inv_start this]
  obtain s where s: "foldO (report_node run_id) report_start L = Some (Inr s)" "actors_inv (nodes st) run_id L s" "counts_inv (nodes st) run_id L s"
    by auto
  have "tree_loop (s_get ops st) (s_children ops st) (report_node run_id) add_traversal [] [run_id] report_start =
      foldO (report_node run_id) report_start L"
    using L get_valid [OF assms(1)] by (intro tree_loop_walk [where acc = "[]"]) (auto simp: preorder_def)
  then have "team_report_run ops st run_id = Some (Inr (report_of run_id d s))" by (simp add: team_report_run_def d s(1))
  then show ?thesis using L(2) report_of_exact [OF s(2,3)] by blast
qed

end

section \<open>Properties\<close>

text \<open>
  C15. A team report of a run counts every node of the run exactly once: the totals are the metrics of all nodes,
  the nodes with no declared actor at or above them are the unattributed ones, every other node counts for
  exactly the nearest declared actor, and each actor has one entry. There is no finding exactly when every
  anchor declares an actor of the run.
\<close>

theorem report_counts_once:
  assumes "mem_inv s" "mem_nodes s run_id = Some rn" "parent rn = None"
  shows "\<exists>rep L. team_report_run mem_ops s run_id = Some (Inr rep) \<and> preorder (mem_nodes s) run_id L \<and>
    report_exact (mem_nodes s) run_id L rep"
  by (rule mem.team_report_exact [OF assms])

lemma report_counts_once_witness:
  "\<exists>rep. team_report_run mem_ops demo_store demo_root_id = Some (Inr rep) \<and> tr_findings rep = [] \<and> tr_agents rep = []"
proof -
  have r: "mem_nodes demo_store demo_root_id = Some demo_root" "parent demo_root = None"
    by (simp_all add: mem_nodes_def demo_store_def demo_root_def)
  have no: "reserved_entry n ''team_agent'' = None" if "mem_nodes demo_store i = Some n" for i n
    using that by (auto simp: mem_nodes_def demo_store_def reserved_entry_def demo_root_def demo_note_def split: if_splits)
  have nobody: "\<not> acts_for (mem_nodes demo_store) demo_root_id i (Some a)" for i a
  proof
    assume "acts_for (mem_nodes demo_store) demo_root_id i (Some a)"
    then show False by (induction i "Some a" rule: acts_for.induct) (use no in auto)
  qed
  obtain rep L where rep: "team_report_run mem_ops demo_store demo_root_id = Some (Inr rep)"
    "preorder (mem_nodes demo_store) demo_root_id L" "report_exact (mem_nodes demo_store) demo_root_id L rep"
    using report_counts_once [OF demo_inv r] by blast
  have "anchor_ok demo_root_id n" if "n \<in> set L" for n using that rep(2) no by (force simp: preorder_def anchor_ok_def)
  moreover have "ar_key ` set (tr_agents rep) = {}" using rep(3) nobody by (simp add: report_exact_def for_actor_def)
  ultimately show ?thesis using rep(1,3) by (auto simp: report_exact_def)
qed

end
