(* ===== verification/Custody.thy ===== *)
theory Custody
  imports Seal
begin

text \<open>
  The custody log of seals (\<open>seal_custody.py\<close>): a database of its own, whose table of records only grows.
  \<open>custody_db\<close> is what the queries of the sink see of the database: whether it has the table of a Pollard
  store, the version row, the rows of the records and the largest sequence ever given out, which SQLite
  keeps for an \<open>AUTOINCREMENT\<close> column. The result: records are never changed and never reordered.
\<close>

record custody_record =
  cu_sequence :: int
  cu_store_id :: string
  cu_root_id :: string
  cu_algorithm :: string
  cu_digest :: string
  cu_sealed_at :: string
  cu_signer :: string

definition custody_record_dict :: "custody_record \<Rightarrow> jdict" where
  "custody_record_dict r = [(''sequence'', JInt (cu_sequence r)), (''store_id'', JStr (cu_store_id r)),
    (''root_id'', JStr (cu_root_id r)), (''algorithm'', JStr (cu_algorithm r)), (''digest'', JStr (cu_digest r)),
    (''sealed_at'', JStr (cu_sealed_at r)), (''signer_identity'', JStr (cu_signer r))]"

record custody_db =
  cd_has_nodes :: bool
  cd_version :: "int option"
  cd_rows :: "custody_record list"
  cd_sequence :: int

text \<open>A file that does not exist yet.\<close>

definition empty_custody :: custody_db where
  "empty_custody = \<lparr>cd_has_nodes = False, cd_version = None, cd_rows = [], cd_sequence = 0\<rparr>"

definition open_sink :: "custody_db \<Rightarrow> unit res \<times> custody_db" where
  "open_sink db =
    (if cd_has_nodes db then (Inl (ValueError ''seal custody sink must not use a Pollard store database''), db)
     else let db1 = (if cd_version db = None then db\<lparr>cd_version := Some 1\<rparr> else db) in
       if cd_version db1 \<noteq> Some 1
       then (Inl (ValueError (''unsupported seal custody schema version: '' @ int_str (the (cd_version db1)))), db1)
       else (Inr (), db1))"

text \<open>The largest rowid; an insert beyond it is \<open>SQLITE_FULL\<close>.\<close>

definition max_sequence :: int where
  "max_sequence = 2 ^ 63 - 1"

definition publish ::
  "seal_report \<Rightarrow> string \<Rightarrow> string \<Rightarrow> string option \<Rightarrow> string \<Rightarrow> custody_db \<Rightarrow> custody_record res \<times> custody_db" where
  "publish report store_id signer sealed_at now db =
    (if store_id = [] then (Inl (ValueError ''store_id must be a non-empty string''), db)
     else if signer = [] then (Inl (ValueError ''signer_identity must be a non-empty string''), db)
     else if max_sequence \<le> cd_sequence db then (Inl (Foreign ''OperationalError'' False), db)
     else
       (let timestamp = (case sealed_at of None \<Rightarrow> now | Some t \<Rightarrow> if t = [] then now else t);
            r = \<lparr>cu_sequence = cd_sequence db + 1, cu_store_id = store_id, cu_root_id = sr_root_id report,
                 cu_algorithm = sr_algorithm report, cu_digest = sr_digest report, cu_sealed_at = timestamp,
                 cu_signer = signer\<rparr> in
        (Inr r, db\<lparr>cd_rows := cd_rows db @ [r], cd_sequence := cd_sequence db + 1\<rparr>)))"

definition custody_records :: "custody_db \<Rightarrow> custody_record list" where
  "custody_records db = sort_key cu_sequence (cd_rows db)"

section \<open>The log only grows\<close>

datatype custody_request =
    Open_sink
  | Publish seal_report string string "string option" string

text \<open>The records that requests to the sink published, in order, and the database they leave.\<close>

fun custody_serve :: "custody_request \<Rightarrow> custody_db \<Rightarrow> custody_record list \<times> custody_db" where
  "custody_serve Open_sink db = ([], snd (open_sink db))"
| "custody_serve (Publish report store_id signer sealed_at now) db = (case publish report store_id signer sealed_at now db of
      (Inl e, db') \<Rightarrow> ([], db')
    | (Inr r, db') \<Rightarrow> ([r], db'))"

fun custody_run :: "custody_request list \<Rightarrow> custody_db \<Rightarrow> custody_record list \<times> custody_db" where
  "custody_run [] db = ([], db)"
| "custody_run (q # qs) db = (case custody_serve q db of (rs, db1) \<Rightarrow>
     case custody_run qs db1 of (rs', db2) \<Rightarrow> (rs @ rs', db2))"

definition custody_inv :: "custody_db \<Rightarrow> bool" where
  "custody_inv db \<longleftrightarrow> sorted_wrt (<) (map cu_sequence (cd_rows db)) \<and> (\<forall>r \<in> set (cd_rows db). cu_sequence r \<le> cd_sequence db) \<and>
    cd_sequence db \<le> max_sequence"

lemma custody_records_eq: "custody_inv db \<Longrightarrow> custody_records db = cd_rows db"
  unfolding custody_inv_def custody_records_def
  by (metis sort_key_id_if_sorted strict_sorted_iff)

lemma publish_cases:
  assumes "publish report store_id signer sealed_at now db = (out, db')"
  obtains e where "out = Inl e" "db' = db"
  | r where "out = Inr r" "cu_sequence r = cd_sequence db + 1" "cd_sequence db < max_sequence"
    "db' = db\<lparr>cd_rows := cd_rows db @ [r], cd_sequence := cd_sequence db + 1\<rparr>"
proof (cases "store_id = [] \<or> signer = [] \<or> max_sequence \<le> cd_sequence db")
  case True
  then have "\<exists>e. out = Inl e \<and> db' = db" using assms by (auto simp: publish_def split: if_splits)
  then show thesis using that(1) by blast
next
  case False
  then have "\<exists>r. out = Inr r \<and> cu_sequence r = cd_sequence db + 1 \<and>
      db' = db\<lparr>cd_rows := cd_rows db @ [r], cd_sequence := cd_sequence db + 1\<rparr>"
    using assms by (auto simp: publish_def Let_def)
  then show thesis using that(2) False by auto
qed

lemma custody_serve_step:
  assumes "custody_inv db" "custody_serve q db = (rs, db')"
  shows "custody_inv db' \<and> cd_rows db' = cd_rows db @ rs"
proof (cases q)
  case Open_sink
  then show ?thesis using assms by (auto simp: open_sink_def custody_inv_def Let_def split: if_splits)
next
  case (Publish report store_id signer sealed_at now)
  obtain out db1 where p: "publish report store_id signer sealed_at now db = (out, db1)"
    by (cases "publish report store_id signer sealed_at now db")
  from p show ?thesis
  proof (cases rule: publish_cases)
    case (1 e)
    then show ?thesis using assms Publish p by simp
  next
    case (2 r)
    then show ?thesis using assms Publish p by (force simp: custody_inv_def sorted_wrt_append)
  qed
qed

lemma custody_run_steps:
  "custody_inv db \<Longrightarrow> custody_run qs db = (rs, db') \<Longrightarrow> custody_inv db' \<and> cd_rows db' = cd_rows db @ rs"
proof (induction qs arbitrary: db rs)
  case (Cons q qs)
  obtain rs1 db1 where q: "custody_serve q db = (rs1, db1)" by (cases "custody_serve q db")
  obtain rs2 db2 where qs: "custody_run qs db1 = (rs2, db2)" by (cases "custody_run qs db1")
  show ?case using custody_serve_step [OF Cons.prems(1) q] Cons.IH [of db1 rs2] Cons.prems(2) q qs by auto
qed simp

text \<open>
  The custody log is append-only: whatever the requests, the records read afterwards are those that were
  there before followed by the ones just published, in the order of publication, with increasing sequences.
\<close>

theorem custody_append_only:
  assumes "custody_inv db" "custody_run qs db = (published, db')"
  shows "custody_inv db' \<and> custody_records db' = custody_records db @ published \<and>
    sorted_wrt (<) (map cu_sequence (custody_records db'))"
proof -
  have s: "custody_inv db'" "cd_rows db' = cd_rows db @ published" using custody_run_steps [OF assms] by simp_all
  have "sorted_wrt (<) (map cu_sequence (cd_rows db'))" using s(1) by (simp add: custody_inv_def)
  then show ?thesis using s by (simp add: custody_records_eq [OF s(1)] custody_records_eq [OF assms(1)])
qed

lemma custody_append_only_witness:
  "\<exists>a b db'. custody_run [Open_sink, Publish \<lparr>sr_root_id = ''r'', sr_algorithm = ''sha256'', sr_digest = ''d'', sr_entries = []\<rparr> ''s'' ''me'' None ''t1'',
      Publish \<lparr>sr_root_id = ''r'', sr_algorithm = ''sha256'', sr_digest = ''e'', sr_entries = []\<rparr> ''s'' ''me'' (Some ''t2'') ''t3'']
      empty_custody = ([a, b], db') \<and> custody_records db' = [a, b] \<and> cu_sequence a = 1 \<and> cu_sealed_at b = ''t2''"
proof -
  define a where "a = \<lparr>cu_sequence = 1, cu_store_id = ''s'', cu_root_id = ''r'', cu_algorithm = ''sha256'', cu_digest = ''d'',
    cu_sealed_at = ''t1'', cu_signer = ''me''\<rparr>"
  define b where "b = \<lparr>cu_sequence = 2, cu_store_id = ''s'', cu_root_id = ''r'', cu_algorithm = ''sha256'', cu_digest = ''e'',
    cu_sealed_at = ''t2'', cu_signer = ''me''\<rparr>"
  have i: "custody_inv empty_custody" by (simp add: custody_inv_def empty_custody_def max_sequence_def)
  obtain db' where r: "custody_run [Open_sink, Publish \<lparr>sr_root_id = ''r'', sr_algorithm = ''sha256'', sr_digest = ''d'', sr_entries = []\<rparr> ''s'' ''me'' None ''t1'',
      Publish \<lparr>sr_root_id = ''r'', sr_algorithm = ''sha256'', sr_digest = ''e'', sr_entries = []\<rparr> ''s'' ''me'' (Some ''t2'') ''t3'']
      empty_custody = ([a, b], db')"
    by (simp add: empty_custody_def open_sink_def publish_def max_sequence_def a_def b_def Let_def)
  have "custody_records empty_custody = []" by (simp add: custody_records_def empty_custody_def)
  then show ?thesis using r custody_append_only [OF i r] by (intro exI conjI) (auto simp: a_def b_def)
qed

end
