(* ===== verification/Spool.thy ===== *)
theory Spool
  imports Merge
begin

text \<open>
  The disk-backed plan of a merge (\<open>_MergeSpool\<close> of \<open>merge.py\<close>): the record a node is written as, the SQLite
  file that holds the records, its validation and the merge that reads it twice. The file is what its queries
  return (\<open>spool_db\<close>); the columns of a damaged file may hold any value.
\<close>

section \<open>JSON values that are the same\<close>

definition json_class :: "json \<Rightarrow> string" where
  "json_class v = (case v of JNull \<Rightarrow> ''NoneType'' | JBool b \<Rightarrow> ''bool'' | JInt i \<Rightarrow> ''int'' | JFloat f \<Rightarrow> ''float''
    | JStr s \<Rightarrow> ''str'' | JBytes s \<Rightarrow> ''bytes'' | JList xs \<Rightarrow> ''list'' | JDict d \<Rightarrow> ''dict'' | JOther c \<Rightarrow> c)"

definition same_scalar :: "json \<Rightarrow> json \<Rightarrow> bool res" where
  "same_scalar v w = (if json_class v \<noteq> json_class w then Inr False
    else bindR (json_key v) (\<lambda>k. bindR (json_key w) (\<lambda>l. Inr (k = l))))"

fun same_json :: "json \<Rightarrow> json \<Rightarrow> bool res"
  and same_members :: "jdict \<Rightarrow> jdict \<Rightarrow> bool res"
  and same_items :: "json list \<Rightarrow> json list \<Rightarrow> bool res" where
  "same_json (JDict d) w = (case w of
      JDict e \<Rightarrow> if fst ` set d = fst ` set e then same_members d e else Inr False
    | _ \<Rightarrow> Inr False)"
| "same_json (JList xs) w = (case w of
      JList ys \<Rightarrow> if length xs = length ys then same_items xs ys else Inr False
    | _ \<Rightarrow> Inr False)"
| "same_json v w = same_scalar v w"
| "same_members [] e = Inr True"
| "same_members ((k, v) # d) e = bindR (same_json v (dget_or e k JNull)) (\<lambda>b. if b then same_members d e else Inr False)"
| "same_items (x # xs) (y # ys) = bindR (same_json x y) (\<lambda>b. if b then same_items xs ys else Inr False)"
| "same_items xs ys = Inr True"

section \<open>The record of a node\<close>

text \<open>\<open>except\<close> clauses: the exceptions of \<open>caught\<close> become another one.\<close>

definition reraise :: "(exc \<Rightarrow> bool) \<Rightarrow> exc \<Rightarrow> 'a res \<Rightarrow> 'a res" where
  "reraise caught e m = (case m of Inl x \<Rightarrow> Inl (if caught x then e else x) | Inr v \<Rightarrow> Inr v)"

fun value_error :: "exc \<Rightarrow> bool" where
  "value_error (TypeError m) = True"
| "value_error (ValueError m) = True"
| "value_error e = False"

fun data_error :: "exc \<Rightarrow> bool" where
  "data_error (IntegrityError m) = True"
| "data_error e = value_error e"

definition payload_text :: "node \<Rightarrow> string res" where
  "payload_text n = bindR (canonical_bytes (JDict (payload n))) (\<lambda>b.
    case utf8_decode b of Some t \<Rightarrow> Inr t | None \<Rightarrow> Inl (ValueError ''UnicodeDecodeError''))"

definition reread_node :: "node \<Rightarrow> (json \<times> json \<times> json) res" where
  "reread_node n =
    bindR (bindR (canonical_bytes (JDict (payload n))) json_loads_bytes) (\<lambda>p.
    bindR (bindR (json_dumps_ordered (JDict (meta n))) json_loads) (\<lambda>m.
    bindR (case result_text n of None \<Rightarrow> Inr JNull | Some t \<Rightarrow> json_loads t) (\<lambda>r. Inr (p, m, r))))"

definition validate_round_trip :: "node \<Rightarrow> unit res" where
  "validate_round_trip n =
    (let changed = IntegrityError ''merge source node cannot be serialized without changing it'' in
     bindR (reraise value_error changed (reread_node n)) (\<lambda>(p, m, r).
     bindR (same_json p (JDict (payload n))) (\<lambda>a. bindR (ensure a changed) (\<lambda>_.
     bindR (same_json m (JDict (meta n))) (\<lambda>b. bindR (ensure b changed) (\<lambda>_.
     bindR (same_json r (result n)) (\<lambda>c. ensure c changed)))))))"

definition node_document :: "node \<Rightarrow> string \<Rightarrow> string \<Rightarrow> jdict" where
  "node_document n mt pt = [(''attempt'', JInt (attempt n)), (''id'', JStr (nid n)), (''kind'', JStr (kind n)),
    (''meta'', JStr mt), (''parent'', opt_str (parent n)), (''payload'', JStr pt),
    (''result'', opt_str (result_text n)), (''result_digest'', opt_str (result_digest n)), (''version'', JInt 1)]"

definition encode_node_record :: "node \<Rightarrow> string res" where
  "encode_node_record n =
    bindR (json_dumps_ordered (JDict (meta n))) (\<lambda>mt.
    bindR (payload_text n) (\<lambda>pt.
    bindR (json_key (JDict (node_document n mt pt))) (\<lambda>t. Inr (utf8_encode t))))"

definition node_record :: "node \<Rightarrow> string res" where
  "node_record n =
    bindR (validate_for_put n) (\<lambda>_. bindR (validate_round_trip n) (\<lambda>_. encode_node_record n))"

section \<open>Reading a record\<close>

definition record_fields :: "string list" where
  "record_fields = [''attempt'', ''id'', ''kind'', ''meta'', ''parent'', ''payload'', ''result'', ''result_digest'', ''version'']"

definition record_string :: "jdict \<Rightarrow> string \<Rightarrow> string res" where
  "record_string d name = (case dget_or d name JNull of JStr s \<Rightarrow> Inr s | _ \<Rightarrow> Inl (TypeError (name @ '' must be a string'')))"

definition record_integer :: "jdict \<Rightarrow> string \<Rightarrow> int res" where
  "record_integer d name = (case dget_or d name JNull of JInt i \<Rightarrow> Inr i | _ \<Rightarrow> Inl (TypeError (name @ '' must be an integer'')))"

definition optional_string :: "jdict \<Rightarrow> string \<Rightarrow> string \<Rightarrow> string option res" where
  "optional_string d name msg = (case dget_or d name JNull of
      JNull \<Rightarrow> Inr None | JStr s \<Rightarrow> Inr (Some s) | _ \<Rightarrow> Inl (TypeError msg))"

fun is_bool_value :: "json \<Rightarrow> bool" where
  "is_bool_value (JBool b) = True" | "is_bool_value v = False"

definition document_node :: "json \<Rightarrow> node res" where
  "document_node v = (case v of
      JDict d \<Rightarrow>
        bindR (ensure (set (map fst d) = set record_fields) (TypeError ''invalid fields'')) (\<lambda>_.
        bindR (ensure (py_eq (dget_or d ''version'' JNull) (JInt 1) \<and> \<not> is_bool_value (dget_or d ''version'' JNull))
          (TypeError ''invalid version'')) (\<lambda>_.
        bindR (optional_string d ''parent'' ''invalid parent'') (\<lambda>p.
        bindR (optional_string d ''result'' ''invalid result'') (\<lambda>rt.
        bindR (optional_string d ''result_digest'' ''invalid result digest'') (\<lambda>rd.
        bindR (record_string d ''id'') (\<lambda>i.
        bindR (record_string d ''kind'') (\<lambda>k.
        bindR (record_integer d ''attempt'') (\<lambda>a.
        bindR (record_string d ''payload'') (\<lambda>pt.
        bindR (record_string d ''meta'') (\<lambda>mt.
        from_storage i p k a pt rt rd mt))))))))))
    | _ \<Rightarrow> Inl (TypeError ''invalid fields''))"

definition node_from_record :: "string \<Rightarrow> node res" where
  "node_from_record r = reraise data_error (IntegrityError ''prepared merge spool contains an invalid node'')
    (bindR (json_loads_bytes r) (\<lambda>v.
     bindR (document_node v) (\<lambda>n.
     bindR (validate_for_put n) (\<lambda>_.
     bindR (validate_round_trip n) (\<lambda>_.
     bindR (encode_node_record n) (\<lambda>r'.
     bindR (ensure (r' = r) (TypeError ''non-canonical record'')) (\<lambda>_. Inr n)))))))"

section \<open>The file\<close>

text \<open>
  \<open>sd_integrity\<close>: the rows of \<open>PRAGMA integrity_check\<close>, or \<open>None\<close> when the queries raise \<open>sqlite3.Error\<close>;
  \<open>sd_sized\<close>: the file has exactly the bytes of its pages.
\<close>

record spool_row =
  sw_position :: int
  sw_node_id :: json
  sw_record :: json
  sw_digest :: json

record spool_db =
  sd_integrity :: "string list option"
  sd_sized :: bool
  sd_objects :: "(string \<times> string) list"
  sd_metadata :: "(json \<times> json) list"
  sd_rows :: "spool_row list"

datatype spool_file = No_file | Unopenable | Database spool_db

record merge_spool =
  ms_count :: nat
  ms_digest :: string

definition spool_rows :: "spool_db \<Rightarrow> spool_row list" where
  "spool_rows db = sort_key sw_position (sd_rows db)"

text \<open>What \<open>_update_spool_digest\<close> feeds to the hash: the length in 8 bytes, then the record.\<close>

definition frame :: "string \<Rightarrow> string res" where
  "frame r = (if length r < 2 ^ 64 then Inr (map (\<lambda>b. char_of (nat b)) (be_bytes 8 (length r)) @ r)
    else Inl (Foreign ''OverflowError'' False))"

definition record_bytes :: "json \<Rightarrow> string res" where
  "record_bytes v = (case v of JBytes b \<Rightarrow> Inr b | _ \<Rightarrow> Inl (IntegrityError ''prepared merge spool record must be bytes''))"

definition spool_count :: "json \<Rightarrow> nat res" where
  "spool_count v = (case v of
      JStr s \<Rightarrow> if s \<noteq> [] \<and> list_all is_digit s
        then (if int_str (int (digits_val s)) = s then Inr (digits_val s)
              else Inl (IntegrityError ''prepared merge spool has a non-canonical node count''))
        else Inl (IntegrityError ''prepared merge spool has an invalid node count'')
    | _ \<Rightarrow> Inl (IntegrityError ''prepared merge spool has an invalid node count''))"

definition is_digest :: "json \<Rightarrow> bool" where
  "is_digest v = (case v of JStr s \<Rightarrow> length s = 64 \<and> list_all is_hex s | _ \<Rightarrow> False)"

section \<open>Preparing\<close>

record spool_writer =
  pw_rows :: "spool_row list"
  pw_hashed :: string

definition new_row :: "nat \<Rightarrow> node \<Rightarrow> string \<Rightarrow> spool_row" where
  "new_row cnt n r = \<lparr>sw_position = int cnt, sw_node_id = JStr (nid n), sw_record = JBytes r, sw_digest = JStr (sha256_hex r)\<rparr>"

definition spool_step :: "string \<Rightarrow> bool \<times> spool_writer \<Rightarrow> node \<Rightarrow> (bool \<times> spool_writer) res" where
  "spool_step root_id s n = (case s of (yielded, w) \<Rightarrow>
    bindR (ensure (yielded \<or> nid n = root_id \<and> parent n = None)
      (IntegrityError ''merge source traversal did not begin with its declared root'')) (\<lambda>_.
    bindR (node_record n) (\<lambda>r.
    bindR (ensure (case parent n of None \<Rightarrow> True | Some p \<Rightarrow> JStr p \<in> sw_node_id ` set (pw_rows w))
      (IntegrityError ''merge source traversal yielded a node before its parent'')) (\<lambda>_.
    if JStr (nid n) \<in> sw_node_id ` set (pw_rows w) then Inr (True, w)
    else bindR (frame r) (\<lambda>f.
      Inr (True, \<lparr>pw_rows = pw_rows w @ [new_row (length (pw_rows w)) n r], pw_hashed = pw_hashed w @ f\<rparr>))))))"

definition spool_root :: "'st store_ops \<Rightarrow> 'st \<Rightarrow> spool_writer \<Rightarrow> string \<Rightarrow> spool_writer res option" where
  "spool_root ops st w root_id = map_option (\<lambda>(ns, e).
    bindR (foldR (spool_step root_id) (False, w) ns) (\<lambda>(yielded, w').
    case e of Some x \<Rightarrow> Inl x
    | None \<Rightarrow> bindR (ensure yielded (IntegrityError ''merge source traversal yielded no declared root'')) (\<lambda>_. Inr w')))
    (s_walk ops st root_id)"

definition spool_database :: "spool_writer \<Rightarrow> spool_db" where
  "spool_database w = \<lparr>sd_integrity = Some [''ok''], sd_sized = True,
    sd_objects = [(''table'', ''metadata''), (''table'', ''nodes'')],
    sd_metadata = [(JStr ''version'', JStr ''1''), (JStr ''state'', JStr ''complete''),
      (JStr ''count'', JStr (int_str (int (length (pw_rows w))))), (JStr ''digest'', JStr (sha256_hex (pw_hashed w)))],
    sd_rows = pw_rows w\<rparr>"

section \<open>Validating and reading\<close>

definition open_spool :: "spool_file \<Rightarrow> spool_db res" where
  "open_spool f = (case f of
      No_file \<Rightarrow> Inl (IntegrityError ''prepared merge spool is missing'')
    | Unopenable \<Rightarrow> Inl (IntegrityError ''prepared merge spool cannot be opened'')
    | Database db \<Rightarrow> Inr db)"

text \<open>One row of the checking loop, after \<open>count\<close> rows whose frames are \<open>hashed\<close>.\<close>

definition check_row :: "nat \<times> string \<Rightarrow> spool_row \<Rightarrow> (nat \<times> string) res" where
  "check_row s row = (case s of (cnt, hashed) \<Rightarrow>
    bindR (ensure (sw_position row = int cnt) (IntegrityError ''prepared merge spool ordering is invalid'')) (\<lambda>_.
    bindR (record_bytes (sw_record row)) (\<lambda>r.
    bindR (ensure (json_class (sw_node_id row) = ''str'' \<and> json_class (sw_digest row) = ''str'')
      (IntegrityError ''prepared merge spool has invalid node fields'')) (\<lambda>_.
    bindR (ensure (sw_digest row = JStr (sha256_hex r)) (IntegrityError ''prepared merge spool record digest mismatch'')) (\<lambda>_.
    bindR (node_from_record r) (\<lambda>n.
    bindR (ensure (sw_node_id row = JStr (nid n)) (IntegrityError ''prepared merge spool node id mismatch'')) (\<lambda>_.
    bindR (frame r) (\<lambda>f. Inr (Suc cnt, hashed @ f)))))))))"

definition spool_value :: "spool_db \<Rightarrow> string \<Rightarrow> json" where
  "spool_value db name = (case map_of (sd_metadata db) (JStr name) of Some v \<Rightarrow> v | None \<Rightarrow> JNull)"

definition validate_database :: "merge_spool \<Rightarrow> spool_db \<Rightarrow> unit res" where
  "validate_database sp db =
    (let corrupt = IntegrityError ''prepared merge spool is corrupt or truncated'' in
     reraise value_error corrupt
      (case sd_integrity db of None \<Rightarrow> Inl corrupt | Some rows \<Rightarrow>
        bindR (ensure (rows = [''ok'']) (IntegrityError ''prepared merge spool failed integrity validation'')) (\<lambda>_.
        bindR (ensure (sd_sized db) (IntegrityError ''prepared merge spool has trailing or missing data'')) (\<lambda>_.
        bindR (ensure (sd_objects db = [(''table'', ''metadata''), (''table'', ''nodes'')])
          (IntegrityError ''prepared merge spool has an invalid schema'')) (\<lambda>_.
        bindR (ensure (fst ` set (sd_metadata db) = {JStr ''version'', JStr ''state'', JStr ''count'', JStr ''digest''})
          (IntegrityError ''prepared merge spool has invalid metadata'')) (\<lambda>_.
        bindR (ensure (spool_value db ''version'' = JStr ''1'')
          (IntegrityError ''prepared merge spool has an unsupported version'')) (\<lambda>_.
        bindR (ensure (spool_value db ''state'' = JStr ''complete'')
          (IntegrityError ''prepared merge spool is not finalized'')) (\<lambda>_.
        bindR (spool_count (spool_value db ''count'')) (\<lambda>expected.
        bindR (ensure (is_digest (spool_value db ''digest'')) (IntegrityError ''prepared merge spool has an invalid digest'')) (\<lambda>_.
        bindR (ensure (expected = ms_count sp \<and> spool_value db ''digest'' = JStr (ms_digest sp))
          (IntegrityError ''prepared merge spool manifest mismatch'')) (\<lambda>_.
        bindR (foldR check_row (0, []) (spool_rows db)) (\<lambda>(cnt, hashed).
        ensure (cnt = expected \<and> spool_value db ''digest'' = JStr (sha256_hex hashed)) corrupt))))))))))))"

definition validate_spool :: "merge_spool \<Rightarrow> spool_file \<Rightarrow> unit res" where
  "validate_spool sp f = bindR (open_spool f) (validate_database sp)"

definition prepare_spool :: "'st store_ops \<Rightarrow> 'st \<Rightarrow> (merge_spool \<times> spool_file) res option" where
  "prepare_spool ops st =
    bindO (bindO (Some (s_roots ops st)) (foldO (spool_root ops st) \<lparr>pw_rows = [], pw_hashed = []\<rparr>)) (\<lambda>w.
    let sp = \<lparr>ms_count = length (pw_rows w), ms_digest = sha256_hex (pw_hashed w)\<rparr>;
        f = Database (spool_database w) in
    Some (bindR (validate_spool sp f) (\<lambda>_. Inr (sp, f))))"

text \<open>The generator: the nodes it yields, and the exception that ends it.\<close>

fun decode_rows :: "spool_row list \<Rightarrow> node list \<times> exc option" where
  "decode_rows [] = ([], None)"
| "decode_rows (row # rows) = (case bindR (record_bytes (sw_record row)) node_from_record of
      Inl e \<Rightarrow> ([], Some e)
    | Inr n \<Rightarrow> (case decode_rows rows of (ns, e) \<Rightarrow> (n # ns, e)))"

definition iter_spool :: "merge_spool \<Rightarrow> spool_file \<Rightarrow> node list \<times> exc option" where
  "iter_spool sp f = (case open_spool f of
      Inl e \<Rightarrow> ([], Some e)
    | Inr db \<Rightarrow> (case validate_database sp db of Inl e \<Rightarrow> ([], Some e) | Inr u \<Rightarrow> decode_rows (spool_rows db)))"

text \<open>\<open>_merge_prepared\<close> of a spool; \<open>f\<close> and \<open>g\<close> are the file as the two passes find it.\<close>

definition merge_spooled ::
  "'st store_ops \<Rightarrow> merge_spool \<Rightarrow> spool_file \<Rightarrow> spool_file \<Rightarrow> bool \<Rightarrow> 'st \<Rightarrow> merge_report res \<times> 'st" where
  "merge_spooled ops sp f g replay st = (case iter_spool sp f of (ns, e) \<Rightarrow>
    case merge_check ops replay st ns of
      Inl x \<Rightarrow> (Inl x, st)
    | Inr u \<Rightarrow> (case e of Some x \<Rightarrow> (Inl x, st)
      | None \<Rightarrow> (case iter_spool sp g of (ms, e') \<Rightarrow>
          case merge_write ops (\<lparr>mg_copied = 0, mg_existing = 0, mg_result_conflicts = 0, mg_meta_conflicts = 0\<rparr>, st) ms of
            (Inl x, st') \<Rightarrow> (Inl x, st')
          | (Inr rep, st') \<Rightarrow> (case e' of Some x \<Rightarrow> (Inl x, st') | None \<Rightarrow> (Inr rep, st')))))"

end
