(* ===== verification/Spool_Facts.thy ===== *)
theory Spool_Facts
  imports Spool Merge_Facts
begin

text \<open>
  What the spool of a merge guarantees: files that validate against the same spool hold the same nodes, or a
  collision of SHA-256, so that the two passes of a merge read one plan; and a spool prepared from a store holds
  the plan of the merge in memory, each node with the keys of its payload sorted.
\<close>

section \<open>Frames\<close>

definition frame_text :: "string \<Rightarrow> string" where
  "frame_text r = map (\<lambda>b. char_of (nat b)) (be_bytes 8 (length r)) @ r"

lemma frame_iff: "frame r = Inr f \<longleftrightarrow> length r < 2 ^ 64 \<and> f = frame_text r"
  by (auto simp: frame_def frame_text_def)

lemma be_bytes_mod: "be_bytes k n = be_bytes k m \<Longrightarrow> n mod 256 ^ k = m mod 256 ^ k"
proof (induction k)
  case (Suc k)
  have e: "n div 256 ^ k mod 256 = m div 256 ^ k mod 256" "be_bytes k n = be_bytes k m"
    using Suc.prems by (simp_all add: be_bytes_def zmod_int [symmetric] zdiv_int [symmetric])
  have "x mod 256 ^ Suc k = 256 ^ k * (x div 256 ^ k mod 256) + x mod 256 ^ k" for x :: nat
    using mod_mult2_eq [of x "256 ^ k" 256] by (simp add: mult.commute)
  then show ?case using Suc.IH [OF e(2)] e(1) by simp
qed simp

lemma map_byte_inject:
  "set xs \<subseteq> {0..255} \<Longrightarrow> set ys \<subseteq> {0..255} \<Longrightarrow> map (\<lambda>b. char_of (nat b)) xs = map (\<lambda>b. char_of (nat b)) ys \<Longrightarrow> xs = ys"
proof (induction xs arbitrary: ys)
  case (Cons x xs)
  then obtain y zs where ys: "ys = y # zs" by (cases ys) auto
  have "(char_of (nat x) :: char) = char_of (nat y)" using Cons.prems(3) ys by simp
  then have "(of_char (char_of (nat x) :: char) :: nat) = of_char (char_of (nat y) :: char)" by simp
  then have "nat x mod 256 = nat y mod 256" by simp
  then have "x = y" using Cons.prems(1,2) ys by auto
  then show ?case using Cons ys by auto
qed simp

lemma be_bytes_range: "set (be_bytes k n) \<subseteq> {0..255}"
  by (auto simp: be_bytes_def)

lemma frame_prefix:
  assumes "frame r = Inr f" "frame r' = Inr f'" "f @ x = f' @ y"
  shows "r = r' \<and> x = y"
proof -
  have l: "length r < 2 ^ 64" "length r' < 2 ^ 64" "f = frame_text r" "f' = frame_text r'" using assms(1,2) by (simp_all add: frame_iff)
  have len: "length (be_bytes 8 n) = 8" for n by (simp add: be_bytes_def)
  have e: "map (\<lambda>b. char_of (nat b)) (be_bytes 8 (length r)) @ (r @ x) = map (\<lambda>b. char_of (nat b)) (be_bytes 8 (length r')) @ (r' @ y)"
    using assms(3) by (simp add: l frame_text_def)
  then have h: "map (\<lambda>b. char_of (nat b)) (be_bytes 8 (length r)) = (map (\<lambda>b. char_of (nat b)) (be_bytes 8 (length r')) :: string)" "r @ x = r' @ y"
    by (simp_all add: append_eq_append_conv len)
  have "be_bytes 8 (length r) = be_bytes 8 (length r')" using map_byte_inject [OF be_bytes_range be_bytes_range h(1)] .
  then have "length r = length r'" using be_bytes_mod [of 8 "length r" "length r'"] l(1,2) by simp
  then show ?thesis using h(2) by simp
qed

lemma frame_nonempty: "frame_text r \<noteq> []"
  by (simp add: frame_text_def be_bytes_def)

lemma frames_inject:
  "\<forall>r \<in> set rs \<union> set qs. \<exists>f. frame r = Inr f \<Longrightarrow> concat (map frame_text rs) = concat (map frame_text qs) \<Longrightarrow> rs = qs"
proof (induction rs arbitrary: qs)
  case Nil
  then show ?case using frame_nonempty by (cases qs) simp_all
next
  case (Cons r rs)
  have "concat (map frame_text qs) \<noteq> []" using Cons.prems(2) frame_nonempty [of r] by (metis append_is_Nil_conv concat.simps(2) list.simps(9))
  then obtain q qs' where qs: "qs = q # qs'" by (cases qs) simp_all
  have f: "frame r = Inr (frame_text r)" "frame q = Inr (frame_text q)" using Cons.prems(1) qs by (auto simp: frame_iff)
  have "frame_text r @ concat (map frame_text rs) = frame_text q @ concat (map frame_text qs')"
    using Cons.prems(2) unfolding qs by (simp only: list.map concat.simps)
  then have e: "r = q \<and> concat (map frame_text rs) = concat (map frame_text qs')" by (rule frame_prefix [OF f])
  have "rs = qs'" using Cons.prems(1) e by (intro Cons.IH) (auto simp: qs)
  then show ?case using e qs by simp
qed

section \<open>Validated files\<close>

text \<open>The bytes whose digest the manifest of a file commits to.\<close>

definition row_bytes :: "spool_row \<Rightarrow> string" where
  "row_bytes row = (case sw_record row of JBytes b \<Rightarrow> b | _ \<Rightarrow> [])"

definition hashed_bytes :: "spool_db \<Rightarrow> string" where
  "hashed_bytes db = concat (map (\<lambda>row. frame_text (row_bytes row)) (spool_rows db))"

lemma check_row_Inr:
  assumes "check_row (c, h) row = Inr s"
  shows "\<exists>r n. sw_record row = JBytes r \<and> node_from_record r = Inr n \<and> length r < 2 ^ 64 \<and> s = (Suc c, h @ frame_text r)"
  using assms by (auto simp: check_row_def bindR_Inr_iff record_bytes_def frame_iff split: json.splits)

lemma check_rows:
  assumes "foldR check_row (c, h) rows = Inr (c', h')"
  shows "(\<forall>row \<in> set rows. length (row_bytes row) < 2 ^ 64 \<and> sw_record row = JBytes (row_bytes row)) \<and>
    h' = h @ concat (map (\<lambda>row. frame_text (row_bytes row)) rows) \<and> (\<exists>ns. decode_rows rows = (ns, None))"
  using assms
proof (induction rows arbitrary: c h)
  case (Cons row rows)
  obtain s where s: "check_row (c, h) row = Inr s" "foldR check_row s rows = Inr (c', h')"
    using Cons.prems by (auto simp: bindR_Inr_iff)
  obtain r n where r: "sw_record row = JBytes r" "node_from_record r = Inr n" "length r < 2 ^ 64" "s = (Suc c, h @ frame_text r)"
    using check_row_Inr [OF s(1)] by blast
  from Cons.IH [OF s(2) [unfolded r(4)]] obtain ns where "decode_rows rows = (ns, None)" by blast
  then have "decode_rows (row # rows) = (n # ns, None)" using r by (simp add: record_bytes_def)
  then show ?case using Cons.IH [OF s(2) [unfolded r(4)]] r by (auto simp: row_bytes_def)
qed simp

lemma decode_rows_cong: "map sw_record rows = map sw_record rows' \<Longrightarrow> decode_rows rows = decode_rows rows'"
proof (induction rows arbitrary: rows')
  case (Cons row rows)
  then obtain row' rest where r: "rows' = row' # rest" "sw_record row = sw_record row'" "map sw_record rows = map sw_record rest"
    by (cases rows') auto
  show ?case unfolding r(1) decode_rows.simps r(2) Cons.IH [OF r(3)] ..
qed simp

lemma reraise_Inr [simp]: "reraise c e m = Inr v \<longleftrightarrow> m = Inr v"
  by (cases m) (auto simp: reraise_def)

lemma validate_database_Inr:
  assumes "validate_database sp db = Inr u"
  obtains c where "foldR check_row (0, []) (spool_rows db) = Inr (c, hashed_bytes db)" "ms_digest sp = sha256_hex (hashed_bytes db)"
proof -
  let ?corrupt = "IntegrityError ''prepared merge spool is corrupt or truncated''"
  obtain rows where rows: "sd_integrity db = Some rows" using assms by (cases "sd_integrity db") (simp_all add: validate_database_def Let_def)
  obtain expected where e: "spool_value db ''digest'' = JStr (ms_digest sp)"
    "bindR (foldR check_row (0, []) (spool_rows db)) (\<lambda>(c, h).
      ensure (c = expected \<and> spool_value db ''digest'' = JStr (sha256_hex h)) ?corrupt) = Inr u"
    using assms unfolding validate_database_def Let_def reraise_Inr rows option.case bindR_Inr_iff [of "ensure _ _"] ensure_simps
      bindR_Inr_iff [of "spool_count _"]
    by blast
  then obtain c h where c: "foldR check_row (0, []) (spool_rows db) = Inr (c, h)" "ms_digest sp = sha256_hex h"
    unfolding bindR_Inr_iff by auto
  then show thesis using that check_rows [OF c(1)] by (simp add: hashed_bytes_def)
qed

lemma validated_same:
  assumes "validate_database sp db = Inr u" "validate_database sp db' = Inr v"
  shows "(\<exists>ns. decode_rows (spool_rows db) = (ns, None) \<and> decode_rows (spool_rows db') = (ns, None)) \<or>
    collision (hashed_bytes db) (hashed_bytes db')"
proof (cases "hashed_bytes db = hashed_bytes db'")
  case True
  obtain c c' where c: "foldR check_row (0, []) (spool_rows db) = Inr (c, hashed_bytes db)"
      "foldR check_row (0, []) (spool_rows db') = Inr (c', hashed_bytes db')"
    using validate_database_Inr [OF assms(1)] validate_database_Inr [OF assms(2)] by metis
  have "map row_bytes (spool_rows db) = map row_bytes (spool_rows db')"
    using True check_rows [OF c(1)] check_rows [OF c(2)]
    by (intro frames_inject) (auto simp: hashed_bytes_def comp_def frame_iff)
  then have "map (JBytes \<circ> row_bytes) (spool_rows db) = map (JBytes \<circ> row_bytes) (spool_rows db')" by (metis list.map_comp)
  moreover have "map sw_record (spool_rows db) = map (JBytes \<circ> row_bytes) (spool_rows db)"
    "map sw_record (spool_rows db') = map (JBytes \<circ> row_bytes) (spool_rows db')"
    using check_rows [OF c(1)] check_rows [OF c(2)] by auto
  ultimately have "decode_rows (spool_rows db) = decode_rows (spool_rows db')" by (intro decode_rows_cong) simp
  then show ?thesis using check_rows [OF c(1)] by auto
next
  case False
  then show ?thesis using validate_database_Inr [OF assms(1)] validate_database_Inr [OF assms(2)] by (metis collision_def)
qed

lemma merge_spooled_passes:
  assumes "iter_spool sp f = (ns, None)" "iter_spool sp g = (ns, None)"
  shows "merge_spooled ops sp f g replay st = merge_prepared ops ns replay st"
proof (cases "merge_check ops replay st ns")
  case (Inr u)
  show ?thesis
    unfolding merge_spooled_def merge_prepared_def assms Inr prod.case sum.case option.case
    by (simp split: prod.split sum.split)
qed (simp add: merge_spooled_def merge_prepared_def assms)

lemma spool_passes_agree:
  assumes "validate_spool sp (Database db) = Inr u" "validate_spool sp (Database db') = Inr v"
  shows "(\<exists>ns. iter_spool sp (Database db) = (ns, None) \<and>
      merge_spooled ops sp (Database db) (Database db') replay st = merge_prepared ops ns replay st) \<or>
    collision (hashed_bytes db) (hashed_bytes db')"
proof -
  have v: "validate_database sp db = Inr u" "validate_database sp db' = Inr v" using assms by (simp_all add: validate_spool_def open_spool_def)
  have "iter_spool sp (Database db) = decode_rows (spool_rows db)" "iter_spool sp (Database db') = decode_rows (spool_rows db')"
    using v by (simp_all add: iter_spool_def open_spool_def)
  then show ?thesis using validated_same [OF v] merge_spooled_passes by metis
qed


section \<open>A record reads back\<close>

lemma same_members_refl:
  "(\<And>k v. (k, v) \<in> set xs \<Longrightarrow> dget d k = Some v \<and> same_json v v = Inr True) \<Longrightarrow> same_members xs d = Inr True"
proof (induction xs)
  case (Cons p xs)
  obtain k v where p: "p = (k, v)" by (cases p)
  have kv: "dget d k = Some v" "same_json v v = Inr True" using Cons.prems [of k v] p by simp_all
  have "same_members xs d = Inr True" by (rule Cons.IH, rule Cons.prems) simp
  then show ?case using kv p by (simp add: dget_or_def)
qed simp

lemma same_items_refl: "(\<And>x. x \<in> set xs \<Longrightarrow> same_json x x = Inr True) \<Longrightarrow> same_items xs xs = Inr True"
  by (induction xs) simp_all

lemma same_json_refl: "json_plain v \<Longrightarrow> same_json v v = Inr True"
proof (induction v)
  case (JDict d)
  have "same_members d d = Inr True"
  proof (rule same_members_refl)
    fix k v assume kv: "(k, v) \<in> set d"
    have "json_plain v" using JDict.prems kv by auto
    then show "dget d k = Some v \<and> same_json v v = Inr True" using JDict kv by auto
  qed
  then show ?case by simp
next
  case (JList xs)
  then show ?case using same_items_refl [of xs] by simp
qed (simp_all add: same_scalar_def json_key_def json_dumps_def)

text \<open>What reading a record gives: the payload with sorted keys, and the result as its text says.\<close>

definition text_value :: "string option \<Rightarrow> json" where
  "text_value t = (case t of None \<Rightarrow> JNull | Some t \<Rightarrow> (case json_loads t of Inr v \<Rightarrow> v | Inl e \<Rightarrow> JNull))"

definition as_stored :: "node \<Rightarrow> node" where
  "as_stored n = n\<lparr>payload := norm_dict (payload n), result := text_value (result_text n)\<rparr>"

lemma as_stored_simps [simp]:
  "nid (as_stored n) = nid n" "parent (as_stored n) = parent n" "kind (as_stored n) = kind n" "attempt (as_stored n) = attempt n"
  "payload (as_stored n) = norm_dict (payload n)" "result (as_stored n) = text_value (result_text n)"
  "result_digest (as_stored n) = result_digest n" "meta (as_stored n) = meta n" "result_text (as_stored n) = result_text n"
  by (simp_all add: as_stored_def)

lemma node_okD:
  assumes "node_ok n"
  shows "identity_ok (JDict (payload n))" "json_wf (JDict (payload n))" "json_serialisable (JDict (meta n))" "json_wf (JDict (meta n))"
    "result_text n = Some t \<Longrightarrow> json_loads t = Inr (text_value (result_text n))"
  using assms by (auto simp: node_ok_def node_wf_iff core_ok_def text_value_def simp del: identity_ok.simps json_wf.simps json_serialisable.simps)

lemma as_stored_ok:
  assumes "node_ok n" "node_valid n"
  shows "node_wf (as_stored n)" "node_valid (as_stored n)"
proof -
  have "expected_id (as_stored n) = expected_id n"
    using node_okD(1) [OF assms(1)] identity_ok_norm [of "JDict (payload n)"]
    by (simp add: expected_id_def canonical_text_JDict del: identity_ok.simps)
  then show "node_valid (as_stored n)" using assms(2) by (simp add: node_valid_def)
  show "node_wf (as_stored n)" using assms(1) identity_ok_norm [of "JDict (payload n)"]
    by (auto simp: node_ok_def node_wf_iff core_ok_def text_value_def simp del: identity_ok.simps json_serialisable.simps)
qed

definition record_text :: "node \<Rightarrow> string" where
  "record_text n = json_text (JDict (node_document n (ordered_text (JDict (meta n))) (json_text (JDict (payload n)))))"

lemma document_plain: "json_plain (JDict (node_document n a b))"
  by (simp add: node_document_def opt_str_def split: option.split)

lemma encode_ok: "node_ok n \<Longrightarrow> encode_node_record n = Inr (utf8_encode (record_text n))"
  using node_okD(1,3) [of n] json_plain_wf [OF document_plain]
  by (simp add: encode_node_record_def json_dumps_ordered_def payload_text_def record_text_def json_key_def
      json_dumps_def del: identity_ok.simps json_serialisable.simps)

lemma encode_stored:
  assumes "node_ok n" shows "encode_node_record (as_stored n) = encode_node_record n"
proof -
  have "canonical_bytes (JDict (norm_dict (payload n))) = canonical_bytes (JDict (payload n))"
    using node_okD(1) [OF assms] identity_ok_norm [of "JDict (payload n)"] json_text_norm [of "JDict (payload n)"]
    by (simp del: identity_ok.simps)
  then show ?thesis by (simp add: encode_node_record_def payload_text_def node_document_def)
qed

lemma reread_ok:
  assumes "node_ok n"
  shows "reread_node n = Inr (JDict (norm_dict (payload n)), JDict (meta n), text_value (result_text n))"
proof -
  have "json_loads_bytes (utf8_encode (json_text (JDict (payload n)))) = Inr (JDict (norm_dict (payload n)))"
    using node_okD(1,2) [OF assms] json_loads_text [of "JDict (payload n)"] by (simp add: json_loads_bytes_def del: identity_ok.simps json_wf.simps)
  moreover have "json_loads (ordered_text (JDict (meta n))) = Inr (JDict (meta n))"
    using node_okD(3,4) [OF assms] by (rule json_loads_ordered)
  moreover have "(case result_text n of None \<Rightarrow> Inr JNull | Some t \<Rightarrow> json_loads t) = Inr (text_value (result_text n))"
    using node_okD(5) [OF assms] by (simp add: text_value_def split: option.split)
  ultimately show ?thesis using node_okD(1,3) [OF assms]
    by (simp add: reread_node_def json_dumps_ordered_def del: identity_ok.simps json_serialisable.simps)
qed

lemma text_value_plain: "node_ok n \<Longrightarrow> json_plain (text_value (result_text n))"
proof (cases "result_text n")
  case (Some t)
  assume "node_ok n"
  from node_okD(5) [OF this Some] show ?thesis by (rule json_loads_plain)
qed (simp add: text_value_def)

lemma as_stored_node_ok:
  assumes "node_ok n" "node_valid n" shows "node_ok (as_stored n)"
proof -
  have "json_wf (JDict (norm_dict (payload n)))" using json_wf_norm [OF node_okD(2) [OF assms(1)]] by (simp del: json_wf.simps)
  moreover have "json_wf (text_value (result_text n))" using json_plain_wf [OF text_value_plain [OF assms(1)]] ..
  ultimately show ?thesis using as_stored_ok(1) [OF assms] node_okD(4) [OF assms(1)] by (simp add: node_ok_def del: json_wf.simps)
qed

lemma round_trip_values:
  assumes "reread_node m = Inr (JDict (payload m), JDict (meta m), result m)"
    "json_plain (JDict (payload m))" "json_plain (JDict (meta m))" "json_plain (result m)"
  shows "validate_round_trip m = Inr ()"
  unfolding validate_round_trip_def Let_def assms(1) reraise_def sum.case bindR_simps prod.case
    same_json_refl [OF assms(2)] same_json_refl [OF assms(3)] same_json_refl [OF assms(4)] ensure_simps ..

lemma norm_dict_twice: "node_ok n \<Longrightarrow> norm_dict (norm_dict (payload n)) = norm_dict (payload n)"
proof -
  assume n: "node_ok n"
  let ?p = "JDict (payload n)"
  have "Inr (json_norm ?p) = json_loads (json_text (json_norm ?p))" using node_okD(1,2) [OF n] json_loads_text [of ?p] json_text_norm [of ?p] by metis
  also have "\<dots> = Inr (json_norm (json_norm ?p))"
    using node_okD(1,2) [OF n] by (intro json_loads_text) (simp_all only: identity_ok_norm json_wf_norm)
  finally show ?thesis by simp
qed

lemma round_trip_stored:
  assumes "node_ok n" "node_valid n"
  shows "validate_round_trip (as_stored n) = Inr ()"
proof (rule round_trip_values)
  have ok: "node_ok (as_stored n)" using as_stored_node_ok [OF assms] .
  show "reread_node (as_stored n) = Inr (JDict (payload (as_stored n)), JDict (meta (as_stored n)), result (as_stored n))"
    using reread_ok [OF ok] norm_dict_twice [OF assms(1)] by simp
  show "json_plain (JDict (payload (as_stored n)))" "json_plain (JDict (meta (as_stored n)))"
    unfolding json_plain_iff using node_okD(1-4) [OF ok] identity_ok_serialisable by blast+
  show "json_plain (result (as_stored n))" using text_value_plain [OF assms(1)] by simp
qed

lemma record_reads:
  assumes "node_ok n" "node_valid n"
  shows "node_from_record (utf8_encode (record_text n)) = Inr (as_stored n)"
proof -
  define pt mt where "pt = json_text (JDict (payload n))" and "mt = ordered_text (JDict (meta n))"
  define d where "d = norm_dict (node_document n mt pt)"
  have plain: "json_plain (JDict (node_document n mt pt))" by (rule document_plain)
  have "json_loads (record_text n) = Inr (JDict d)"
    using json_loads_dumped [of "JDict (node_document n mt pt)"] json_plain_wf [OF plain]
    by (simp add: record_text_def mt_def pt_def d_def del: json_serialisable.simps json_wf.simps)
  then have l: "json_loads_bytes (utf8_encode (record_text n)) = Inr (JDict d)" by (simp add: json_loads_bytes_def)
  have keys: "set (map fst d) = set record_fields" by (simp add: d_def node_document_def record_fields_def insert_commute)
  have get: "dget d k = map_option json_norm (dget (node_document n mt pt) k)" for k
    unfolding d_def using plain by (intro dget_norm_dict) simp
  have "document_node (JDict d) = from_storage (nid n) (parent n) (kind n) (attempt n) pt (result_text n) (result_digest n) mt"
    unfolding document_node_def json.case keys
    using py_eq_refl [of "JInt 1"] by (simp add: dget_or_def get node_document_def optional_string_def record_string_def record_integer_def opt_str_def json_num_def
        split: option.split)
  also have "\<dots> = post_init (as_stored n)"
  proof -
    have "json_loads pt = Inr (JDict (norm_dict (payload n)))"
      using node_okD(1,2) [OF assms(1)] json_loads_text [of "JDict (payload n)"] by (simp add: pt_def del: identity_ok.simps json_wf.simps)
    moreover have "json_loads mt = Inr (JDict (meta n))" unfolding mt_def using node_okD(3,4) [OF assms(1)] by (rule json_loads_ordered)
    moreover have "(case result_text n of None \<Rightarrow> Inr JNull | Some t \<Rightarrow> json_loads t) = Inr (text_value (result_text n))"
      using node_okD(5) [OF assms(1)] by (simp add: text_value_def split: option.split)
    moreover have "as_stored n = \<lparr>nid = nid n, parent = parent n, kind = kind n, attempt = attempt n, payload = norm_dict (payload n),
        result = text_value (result_text n), result_digest = result_digest n, meta = meta n, result_text = result_text n\<rparr>"
      by (cases n) (simp add: as_stored_def)
    ultimately show ?thesis by (simp only: from_storage_def bindR_simps json.case)
  qed
  also have "\<dots> = Inr (as_stored n)" using as_stored_ok(1) [OF assms] by (simp add: node_wf_def)
  finally have dn: "document_node (JDict d) = Inr (as_stored n)" .
  have "validate_for_put (as_stored n) = Inr ()" using as_stored_ok(2) [OF assms] by (simp add: validate_for_put_iff)
  then show ?thesis
    using l dn round_trip_stored [OF assms] encode_stored [OF assms(1)] encode_ok [OF assms(1)]
    by (simp add: node_from_record_def)
qed

section \<open>Preparing a spool\<close>

text \<open>A node the code can write: reading it back changes nothing, and its record has less than $2^{64}$ bytes.\<close>

definition spoolable :: "node \<Rightarrow> bool" where
  "spoolable n \<longleftrightarrow> validate_round_trip n = Inr () \<and> length (utf8_encode (record_text n)) < 2 ^ 64"

definition writable :: "node \<Rightarrow> bool" where
  "writable n \<longleftrightarrow> node_ok n \<and> node_valid n \<and> spoolable n"

definition record_of :: "node \<Rightarrow> string" where
  "record_of n = utf8_encode (record_text n)"

lemma writable_record:
  assumes "writable n"
  shows "node_record n = Inr (record_of n)" "frame (record_of n) = Inr (frame_text (record_of n))"
    "node_from_record (record_of n) = Inr (as_stored n)"
proof -
  have n: "node_ok n" "node_valid n" "validate_round_trip n = Inr ()" "length (record_of n) < 2 ^ 64"
    using assms by (simp_all add: writable_def spoolable_def record_of_def)
  have "validate_for_put n = Inr ()" using n(2) by (simp add: validate_for_put_iff)
  then show "node_record n = Inr (record_of n)" using n(3) encode_ok [OF n(1)] by (simp add: node_record_def record_of_def)
  show "frame (record_of n) = Inr (frame_text (record_of n))" using n(4) by (simp add: frame_iff)
  show "node_from_record (record_of n) = Inr (as_stored n)" using record_reads [OF n(1,2)] by (simp add: record_of_def)
qed

text \<open>The writer after the nodes of a plan.\<close>

definition rows_of :: "nat \<Rightarrow> node list \<Rightarrow> spool_row list" where
  "rows_of k ns = map (\<lambda>(i, n). new_row i n (record_of n)) (enumerate k ns)"

lemma rows_of_simps [simp]:
  "rows_of k [] = []" "rows_of k (n # ns) = new_row k n (record_of n) # rows_of (Suc k) ns"
  "rows_of k (ns @ [n]) = rows_of k ns @ [new_row (k + length ns) n (record_of n)]" "length (rows_of k ns) = length ns"
  by (simp_all add: rows_of_def enumerate_append_eq)

lemma rows_of_ids: "sw_node_id ` set (rows_of k ns) = JStr ` nid ` set ns"
  by (induction ns arbitrary: k) (simp_all add: new_row_def)

definition writer_of :: "node list \<Rightarrow> spool_writer" where
  "writer_of ns = \<lparr>pw_rows = rows_of 0 ns, pw_hashed = concat (map (\<lambda>n. frame_text (record_of n)) ns)\<rparr>"

lemma spool_step_ok:
  assumes "writable n" "yielded \<or> nid n = r \<and> parent n = None" "\<forall>p. parent n = Some p \<longrightarrow> p \<in> nid ` set acc"
  shows "\<exists>acc'. plan_step acc n = Inr acc' \<and> spool_step r (yielded, writer_of acc) n = Inr (True, writer_of acc') \<and>
    nid ` set acc' = insert (nid n) (nid ` set acc)"
proof -
  have ids: "JStr i \<in> sw_node_id ` set (pw_rows (writer_of acc)) \<longleftrightarrow> i \<in> nid ` set acc" for i
    by (auto simp: writer_of_def rows_of_ids)
  have "validate_for_put n = Inr ()" using assms(1) by (simp add: writable_def validate_for_put_iff)
  then have p: "plan_step acc n = Inr (if nid n \<in> nid ` set acc then acc else acc @ [n])" by (simp add: plan_step_def)
  have e: "case parent n of None \<Rightarrow> True | Some p \<Rightarrow> p \<in> nid ` set acc" using assms(3) by (simp split: option.split)
  have "spool_step r (yielded, writer_of acc) n =
      (if nid n \<in> nid ` set acc then Inr (True, writer_of acc)
       else Inr (True, \<lparr>pw_rows = pw_rows (writer_of acc) @ [new_row (length (pw_rows (writer_of acc))) n (record_of n)],
         pw_hashed = pw_hashed (writer_of acc) @ frame_text (record_of n)\<rparr>))"
    using assms(2) unfolding spool_step_def prod.case writable_record(1) [OF assms(1)] bindR_simps ids writable_record(2) [OF assms(1)]
    by (simp only: e ensure_simps bindR_simps ensure_def [of "_ \<or> _"] if_True)
  then show ?thesis using p by (intro exI [of _ "if nid n \<in> nid ` set acc then acc else acc @ [n]"]) (auto simp: writer_of_def)
qed

lemma spool_walk_ok:
  assumes "\<forall>n \<in> set L. writable n" "parents_known (nid ` set acc) L" "L \<noteq> [] \<longrightarrow> yielded \<or> nid (hd L) = r \<and> parent (hd L) = None"
  shows "\<exists>acc'. foldR plan_step acc L = Inr acc' \<and>
    foldR (spool_step r) (yielded, writer_of acc) L = Inr (yielded \<or> L \<noteq> [], writer_of acc')"
  using assms
proof (induction L arbitrary: acc yielded)
  case (Cons n L)
  obtain acc1 where acc1: "plan_step acc n = Inr acc1" "spool_step r (yielded, writer_of acc) n = Inr (True, writer_of acc1)"
    "nid ` set acc1 = insert (nid n) (nid ` set acc)"
    using spool_step_ok [of n yielded r acc] Cons.prems by auto
  have "\<exists>acc'. foldR plan_step acc1 L = Inr acc' \<and> foldR (spool_step r) (True, writer_of acc1) L = Inr (True \<or> L \<noteq> [], writer_of acc')"
    using Cons.prems acc1(3) by (intro Cons.IH) auto
  then show ?case using acc1 by simp
qed simp

section \<open>A prepared spool is valid and holds the plan\<close>

lemma check_rows_of:
  "\<forall>n \<in> set ns. writable n \<Longrightarrow> foldR check_row (k, h) (rows_of k ns) = Inr (k + length ns, h @ concat (map (\<lambda>n. frame_text (record_of n)) ns))"
proof (induction ns arbitrary: k h)
  case (Cons n ns)
  have "check_row (k, h) (new_row k n (record_of n)) = Inr (Suc k, h @ frame_text (record_of n))"
    using Cons.prems writable_record [of n] by (simp add: check_row_def new_row_def record_bytes_def json_class_def ensure_def)
  then show ?case using Cons by simp
qed simp

lemma decode_rows_of: "\<forall>n \<in> set ns. writable n \<Longrightarrow> decode_rows (rows_of k ns) = (map as_stored ns, None)"
  using writable_record(3) by (induction ns arbitrary: k) (simp_all add: new_row_def record_bytes_def)

lemma rows_of_positions: "map sw_position (rows_of k ns) = map int [k..<k + length ns]"
proof (induction ns arbitrary: k)
  case (Cons n ns)
  have "[k..<k + length (n # ns)] = k # [Suc k..<Suc k + length ns]" by (simp add: upt_conv_Cons del: upt_Suc)
  then show ?case using Cons by (simp add: new_row_def del: upt_Suc)
qed simp

lemma rows_of_sorted: "sort_key sw_position (rows_of k ns) = rows_of k ns"
  by (rule sort_key_sorted) (simp add: rows_of_positions sorted_map)

lemma spool_count_int: "spool_count (JStr (int_str (int n))) = Inr n"
  by (simp add: spool_count_def int_str_def list_all_iff nat_digits_digits)

lemma is_digest_sha256: "is_digest (JStr (sha256_hex x))"
  using sha256_hex_is_hex by (auto simp: is_digest_def list_all_iff)

definition spool_of :: "node list \<Rightarrow> merge_spool" where
  "spool_of ns = \<lparr>ms_count = length ns, ms_digest = sha256_hex (concat (map (\<lambda>n. frame_text (record_of n)) ns))\<rparr>"

lemma database_valid:
  assumes "\<forall>n \<in> set ns. writable n"
  shows "validate_database (spool_of ns) (spool_database (writer_of ns)) = Inr ()"
proof -
  have rows: "spool_rows (spool_database (writer_of ns)) = rows_of 0 ns"
    by (simp add: spool_rows_def spool_database_def writer_of_def rows_of_sorted)
  have vals: "spool_value (spool_database (writer_of ns)) ''version'' = JStr ''1''"
    "spool_value (spool_database (writer_of ns)) ''state'' = JStr ''complete''"
    "spool_value (spool_database (writer_of ns)) ''count'' = JStr (int_str (int (length ns)))"
    "spool_value (spool_database (writer_of ns)) ''digest'' = JStr (ms_digest (spool_of ns))"
    by (simp_all add: spool_value_def spool_database_def writer_of_def spool_of_def)
  have mfields: "fst ` set (sd_metadata (spool_database (writer_of ns))) = {JStr ''version'', JStr ''state'', JStr ''count'', JStr ''digest''}"
    by (simp add: spool_database_def)
  have parts: "sd_integrity (spool_database (writer_of ns)) = Some [''ok'']" "sd_sized (spool_database (writer_of ns))"
    "sd_objects (spool_database (writer_of ns)) = [(''table'', ''metadata''), (''table'', ''nodes'')]"
    by (simp_all add: spool_database_def)
  have digest: "is_digest (JStr (ms_digest (spool_of ns)))" by (simp add: spool_of_def is_digest_sha256)
  show ?thesis
    unfolding validate_database_def Let_def reraise_Inr rows vals mfields parts option.case spool_count_int check_rows_of [OF assms] bindR_simps
    by (simp add: digest parts) (simp add: spool_of_def ensure_def)
qed

lemma spool_holds_plan:
  assumes "\<forall>n \<in> set ns. writable n"
  shows "iter_spool (spool_of ns) (Database (spool_database (writer_of ns))) = (map as_stored ns, None)"
proof -
  have "spool_rows (spool_database (writer_of ns)) = rows_of 0 ns"
    by (simp add: spool_rows_def spool_database_def writer_of_def rows_of_sorted)
  then show ?thesis using decode_rows_of [OF assms] database_valid [OF assms] by (simp add: iter_spool_def open_spool_def)
qed


context store_contract
begin

lemma spool_root_ok:
  assumes inv: "inv st" and w: "\<forall>i n. nodes st i = Some n \<longrightarrow> spoolable n"
    and r: "nodes st r = Some rn" "parent rn = None" and acc: "plan_ok (nodes st) acc V"
  shows "\<exists>acc'. map_option (\<lambda>(ns, e). bindR (foldR plan_step acc ns) (\<lambda>a. case e of None \<Rightarrow> Inr a | Some x \<Rightarrow> Inl x)) (s_walk ops st r) =
      Some (Inr acc') \<and> spool_root ops st (writer_of acc) r = Some (Inr (writer_of acc')) \<and> plan_ok (nodes st) acc' (V \<union> desc (nodes st) r)"
proof -
  obtain L where L: "s_walk ops st r = Some (L, None)" "preorder (nodes st) r L"
    using walk_yields_subtree [OF inv, of r] r(1) by blast
  have n: "\<forall>n \<in> set L. nodes st (nid n) = Some n" using L(2) by (simp add: preorder_def)
  have wr: "\<forall>n \<in> set L. writable n" using n nodes_valid [OF inv] w unfolding writable_def by blast
  have h: "nid (hd L) = r \<and> parent (hd L) = None" "L \<noteq> []"
    using L(2) r nodes_forest [OF inv] by (auto simp: preorder_def forest_def)
  have pk: "parents_known X L" for X using r by (intro preorder_parents_known [OF L(2)]) simp
  obtain acc' where acc': "foldR plan_step acc L = Inr acc'"
    "foldR (spool_step r) (False, writer_of acc) L = Inr (True, writer_of acc')"
    using spool_walk_ok [OF wr pk, of False r] h by auto
  have "\<forall>n \<in> set L. nodes st (nid n) = Some n \<and> node_valid n" using n nodes_valid [OF inv] by blast
  then have "plan_ok (nodes st) acc' (V \<union> nid ` set L)" using plan_fold [OF acc pk] acc'(1) by auto
  then show ?thesis using acc' L(1) preorder_ids [OF L(2)] by (simp add: spool_root_def)
qed

lemma prepare_spool_plan:
  assumes inv: "inv st" and w: "\<forall>i n. nodes st i = Some n \<longrightarrow> spoolable n"
  shows "\<exists>plan. prepare_merge ops st = Some (Inr plan) \<and>
    prepare_spool ops st = Some (Inr (spool_of plan, Database (spool_database (writer_of plan)))) \<and> (\<forall>n \<in> set plan. writable n)"
proof -
  define f where "f = (\<lambda>acc r. map_option (\<lambda>(ns, e). bindR (foldR plan_step acc ns) (\<lambda>a. case e of None \<Rightarrow> Inr a | Some x \<Rightarrow> Inl x))
    (s_walk ops st r))"
  obtain rs where rs: "s_roots ops st = Inr rs" "set rs = {i. \<exists>n. nodes st i = Some n \<and> parent n = None}"
    using roots_nodes [OF inv] by blast
  have fold: "\<exists>plan V'. foldO f acc qs = Some (Inr plan) \<and> foldO (spool_root ops st) (writer_of acc) qs = Some (Inr (writer_of plan)) \<and>
      plan_ok (nodes st) plan V'" if "set qs \<subseteq> set rs" "plan_ok (nodes st) acc V" for qs acc V
    using that
  proof (induction qs arbitrary: acc V)
    case (Cons q qs)
    obtain rn where rn: "nodes st q = Some rn" "parent rn = None" using Cons.prems(1) rs(2) by auto
    obtain acc1 where acc1: "f acc q = Some (Inr acc1)" "spool_root ops st (writer_of acc) q = Some (Inr (writer_of acc1))"
      "plan_ok (nodes st) acc1 (V \<union> desc (nodes st) q)"
      using spool_root_ok [OF inv w rn Cons.prems(2)] unfolding f_def by blast
    then show ?case using Cons.IH [OF _ acc1(3)] Cons.prems(1) by simp
  qed auto
  have "plan_ok (nodes st) [] {}" by (simp add: plan_ok_def)
  then obtain plan V' where p: "foldO f [] rs = Some (Inr plan)" "foldO (spool_root ops st) (writer_of []) rs = Some (Inr (writer_of plan))"
    "plan_ok (nodes st) plan V'" using fold [OF order.refl] by blast
  have wr: "\<forall>n \<in> set plan. writable n" using p(3) nodes_valid [OF inv] w unfolding plan_ok_def writable_def by blast
  have "prepare_merge ops st = Some (Inr plan)" using p(1) by (simp add: prepare_merge_def rs(1) f_def)
  moreover have "prepare_spool ops st = Some (Inr (spool_of plan, Database (spool_database (writer_of plan))))"
    using p(2) database_valid [OF wr]
    by (simp add: prepare_spool_def rs(1) writer_of_def spool_of_def validate_spool_def open_spool_def Let_def)
  ultimately show ?thesis using wr by blast
qed

end

section \<open>The concrete nodes can be written\<close>

lemma demo_writable: "writable demo_root" "writable demo_note"
proof -
  have v: "validate_round_trip demo_root = Inr ()" "validate_round_trip demo_note = Inr ()"
    using reread_ok [OF demo_nodes_ok(1)] reread_ok [OF demo_nodes_ok(3)]
    by (auto intro!: round_trip_values simp: demo_root_def demo_note_def norm_dict_def text_value_def)
  have "length (utf8_encode (record_text demo_root)) \<le> 1000" "length (utf8_encode (record_text demo_note)) \<le> 1000"
    by code_simp+
  then show "writable demo_root" "writable demo_note" using v demo_nodes_ok by (auto simp: writable_def spoolable_def)
qed

lemma demo_spoolable: "mem_nodes demo_store i = Some n \<Longrightarrow> spoolable n"
  using demo_writable by (auto simp: mem_nodes_def demo_store_def writable_def split: if_splits)

section \<open>Properties\<close>

text \<open>
  C20. The two passes of a merge read one plan: if the file validates against the spool before each pass, even
  if it was replaced in between, then both passes read the same nodes and the merge is the merge of that plan,
  or the two files exhibit a collision of SHA-256.
\<close>

theorem spool_passes_read_one_plan:
  assumes "validate_spool sp (Database db) = Inr u" "validate_spool sp (Database db') = Inr v"
  shows "(\<exists>ns. iter_spool sp (Database db) = (ns, None) \<and>
      merge_spooled mem_ops sp (Database db) (Database db') replay st = merge_prepared mem_ops ns replay st) \<or>
    collision (hashed_bytes db) (hashed_bytes db')"
  by (rule spool_passes_agree [OF assms])

lemma spool_passes_read_one_plan_witness:
  "\<exists>ns. iter_spool (spool_of [demo_root, demo_note]) (Database (spool_database (writer_of [demo_root, demo_note]))) = (ns, None) \<and>
    merge_spooled mem_ops (spool_of [demo_root, demo_note]) (Database (spool_database (writer_of [demo_root, demo_note])))
      (Database (spool_database (writer_of [demo_root, demo_note]))) False mem_empty = merge_prepared mem_ops ns False mem_empty"
proof -
  have "\<forall>n \<in> set [demo_root, demo_note]. writable n" using demo_writable by simp
  then have v: "validate_spool (spool_of [demo_root, demo_note]) (Database (spool_database (writer_of [demo_root, demo_note]))) = Inr ()"
    using database_valid by (simp add: validate_spool_def open_spool_def)
  show ?thesis using spool_passes_read_one_plan [OF v v, of False mem_empty] by (simp add: collision_def)
qed

text \<open>
  C21. A spool prepared from a \<open>MemoryStore\<close> whose nodes can be written holds exactly the plan of a merge in
  memory: reading it gives the nodes of the plan in order, with the keys of their payloads sorted and nothing
  else changed.
\<close>

theorem spool_round_trip:
  assumes "mem_inv s" "\<And>i n. mem_nodes s i = Some n \<Longrightarrow> spoolable n"
  shows "\<exists>plan sp f. prepare_merge mem_ops s = Some (Inr plan) \<and> prepare_spool mem_ops s = Some (Inr (sp, f)) \<and>
    iter_spool sp f = (map as_stored plan, None)"
  using mem.prepare_spool_plan [OF assms(1)] assms(2) spool_holds_plan by metis

lemma spool_round_trip_witness:
  "\<exists>plan sp f. prepare_merge mem_ops demo_store = Some (Inr plan) \<and> prepare_spool mem_ops demo_store = Some (Inr (sp, f)) \<and>
    iter_spool sp f = (map as_stored plan, None)"
  by (rule spool_round_trip [OF demo_inv demo_spoolable])

end
