(* ===== verification/Async.thy ===== *)
theory Async
  imports Runtime
begin

text \<open>
  The asynchronous runtime (\<open>aio.py\<close>). A call starts (replay lookup, precheck, reservation), is suspended while
  its handler is awaited, and is finished afterwards: an asynchronous method is a \<open>task\<close> whose two halves are
  actions on the run, and whatever other tasks do to the run happens between them. What the code shares with
  \<open>runtime.py\<close> (opening runs, branches, notes, the settlement of a call) are the definitions of \<open>Runtime\<close>.
\<close>

section \<open>Reading an awaited step result\<close>

text \<open>A complete result replaces the contents of the result object, in place.\<close>

definition aconsume_chunk :: "nat \<Rightarrow> stream_state \<Rightarrow> unit res \<times> stream_state" where
  "aconsume_chunk a s =
    (let h = ss_heap s; complete = dget (h ! a) ''result''; delta = dget (h ! a) ''delta'' in
     if complete \<noteq> None \<and> complete \<noteq> Some (HVal JNull)
     then (case the complete of
         HObj c \<Rightarrow> (Inr (), s\<lparr>ss_heap := h[ss_result s := h ! c]\<rparr>)
       | HVal v \<Rightarrow> (Inl (TypeError ''a stream chunk result must be a dict''), s))
     else if delta \<noteq> None \<and> delta \<noteq> Some (HVal JNull)
     then (case the delta of
         HObj d \<Rightarrow> (Inr (), s\<lparr>ss_heap := merge_stream_value (length h) (ss_result s) d h\<rparr>)
       | HVal v \<Rightarrow> (Inl (TypeError ''a stream chunk delta must be a dict''), s))
     else (Inr (), s\<lparr>ss_heap := merge_stream_value (length h) (ss_result s) a h\<rparr>))"

definition atake_chunk :: "delta_callback \<Rightarrow> json \<Rightarrow> stream_state \<Rightarrow> unit res \<times> stream_state" where
  "atake_chunk on_delta item s =
    (if \<not> is_dict item then (Inl (TypeError ''stream chunks must be dicts''), s)
     else case alloc item (ss_heap s) of
       (HObj a, h) \<Rightarrow>
         (let s1 = s\<lparr>ss_heap := h, ss_chunks := ss_chunks s @ [a]\<rparr> in
          case on_delta of
            None \<Rightarrow> aconsume_chunk a s1
          | Some f \<Rightarrow>
              (let s2 = s1\<lparr>ss_deltas := ss_deltas s @ [item]\<rparr> in
               case f item of Some e \<Rightarrow> (Inl e, s2) | None \<Rightarrow> aconsume_chunk a s2))
     | (HVal v, h) \<Rightarrow> (Inr (), s))"

fun atake_events :: "delta_callback \<Rightarrow> bool \<Rightarrow> stream_event list \<Rightarrow> stream_state \<Rightarrow> unit res \<times> stream_state" where
  "atake_events on_delta received [] s = (Inr (), s)"
| "atake_events on_delta received (Raises e # es) s = (Inl (if \<not> received \<or> is_unknown e then e else mark_unknown e), s)"
| "atake_events on_delta received (Item item # es) s = (case atake_chunk on_delta item s of
      (Inl e, s') \<Rightarrow> (Inl (if is_unknown e then e else mark_unknown e), s')
    | (Inr u, s') \<Rightarrow> atake_events on_delta True es s')"

definition aconsume_step_result :: "delta_callback \<Rightarrow> bool \<Rightarrow> step_value \<Rightarrow> jdict res \<times> json list" where
  "aconsume_step_result on_delta keep_chunks v = (case v of
      Whole d \<Rightarrow> (Inr d, [])
    | Not_a_result \<Rightarrow> (Inl (TypeError ''async step function must return a dict or a chunk iterator''), [])
    | Stream es \<Rightarrow> (case atake_events on_delta False es stream_start of
        (Inl e, s) \<Rightarrow> (Inl e, ss_deltas s)
      | (Inr u, s) \<Rightarrow> (Inr (stream_result keep_chunks s), ss_deltas s)))"

section \<open>A call in two halves\<close>

text \<open>
  A suspended call: what it was asked for and what its precheck reserved. \<open>fn\<close> is what calling the step
  function and awaiting its result gives.
\<close>

record suspended_call =
  su_kind :: node_kind
  su_payload :: jdict
  su_identity :: jdict
  su_meter_payload :: jdict
  su_attempt :: int
  su_reservation :: "reservation option"
  su_fn :: step_fn
  su_on_delta :: delta_callback
  su_keep_chunks :: bool

datatype task = Done node | Reemit node delta_callback | Awaiting suspended_call

definition acall_start ::
  "'st runtime \<Rightarrow> moment \<Rightarrow> node_kind \<Rightarrow> jdict \<Rightarrow> step_fn \<Rightarrow> int \<Rightarrow> delta_callback \<Rightarrow> bool \<Rightarrow> jdict option \<Rightarrow> ('st run, task) act" where
  "acall_start rt mo k pl fn att on_delta keep_chunks meter_payload =
    bindA (liftR (snapshot_payload pl)) (\<lambda>identity.
    bindA (liftR (case meter_payload of None \<Rightarrow> Inr identity | Some p \<Rightarrow> snapshot_payload p)) (\<lambda>meter_pl.
    bindA (recorded_node rt k identity att None) (\<lambda>recorded. case recorded of
      Some n \<Rightarrow> ret (Reemit n on_delta)
    | None \<Rightarrow>
        bindA (precheck rt mo (kind_value k) meter_pl) (\<lambda>resv.
        ret (Awaiting \<lparr>su_kind = k, su_payload = pl, su_identity = identity, su_meter_payload = meter_pl, su_attempt = att,
          su_reservation = resv, su_fn = fn, su_on_delta = on_delta, su_keep_chunks = keep_chunks\<rparr>)))))"

definition adispatch :: "moment \<Rightarrow> suspended_call \<Rightarrow> ('st run, exc option \<times> jdict option) act" where
  "adispatch mo p = (case mo_start mo of
      Some e \<Rightarrow> ret (Some e, None)
    | None \<Rightarrow> (case (case su_fn p (su_payload p) of Inl e \<Rightarrow> (Inl e, [])
        | Inr v \<Rightarrow> aconsume_step_result (su_on_delta p) (su_keep_chunks p) v) of
        (r, deltas) \<Rightarrow>
          bindA (modA (\<lambda>s. s\<lparr>rn_deltas := rn_deltas s @ deltas\<rparr>)) (\<lambda>_. ret (case r of
              Inl e \<Rightarrow> (Some e, None)
            | Inr res \<Rightarrow> (mo_stop mo, Some res)))))"

definition acall_finish :: "'st runtime \<Rightarrow> moment \<Rightarrow> suspended_call \<Rightarrow> ('st run, node) act" where
  "acall_finish rt mo p =
    bindA (adispatch mo p) (\<lambda>(primary, res). case (primary, res) of
        (None, Some r) \<Rightarrow> call_completed rt mo (su_kind p) (su_identity p) (su_meter_payload p) (su_attempt p) (su_reservation p) r
      | (Some e, _) \<Rightarrow> call_failed rt mo (su_kind p) (su_identity p) (su_attempt p) (su_reservation p) e res
      | (None, None) \<Rightarrow> failA AssertionError)"

definition task_finish :: "'st runtime \<Rightarrow> moment \<Rightarrow> task \<Rightarrow> ('st run, node) act" where
  "task_finish rt mo t = (case t of
      Done n \<Rightarrow> ret n
    | Reemit n on_delta \<Rightarrow> bindA (deliver (reemit_chunks on_delta n)) (\<lambda>_. ret n)
    | Awaiting p \<Rightarrow> acall_finish rt mo p)"

text \<open>An asynchronous method, with what the other tasks do to the run while it is suspended.\<close>

definition await_task :: "'st runtime \<Rightarrow> moment \<Rightarrow> ('st run \<Rightarrow> 'st run) \<Rightarrow> ('st run, task) act \<Rightarrow> ('st run, node) act" where
  "await_task rt mo others start = bindA start (\<lambda>t. bindA (modA others) (\<lambda>_. task_finish rt mo t))"

definition amodel_call ::
  "'st runtime \<Rightarrow> moment \<Rightarrow> ('st run \<Rightarrow> 'st run) \<Rightarrow> jdict \<Rightarrow> step_fn \<Rightarrow> int \<Rightarrow> delta_callback \<Rightarrow> bool \<Rightarrow> ('st run, node) act" where
  "amodel_call rt mo others pl fn att on_delta keep_chunks =
    await_task rt mo others (acall_start rt mo MODEL_CALL pl fn att on_delta keep_chunks None)"

section \<open>Tools\<close>

text \<open>\<open>await_handler\<close>: what awaiting the awaitable of a registered handler gives.\<close>

type_synonym await_handler = "string \<Rightarrow> jdict \<Rightarrow> step_value res"

definition async_registered_handler :: "await_handler \<Rightarrow> string \<Rightarrow> (jdict \<Rightarrow> handler_value res) \<Rightarrow> jdict \<Rightarrow> step_fn" where
  "async_registered_handler aw name h args pl = bindR (h args) (\<lambda>v. case v of Returned x \<Rightarrow> Inr x | Awaitable \<Rightarrow> aw name args)"

definition acall_handler ::
  "'st runtime \<Rightarrow> moment \<Rightarrow> await_handler \<Rightarrow> action_spec \<Rightarrow> jdict \<Rightarrow> jdict \<Rightarrow> int \<Rightarrow> ('st run, task) act" where
  "acall_handler rt mo aw spec pl args att = (case dget (rt_handlers rt) (sp_name spec) of
      None \<Rightarrow> refuse_policy rt mo ''registered action has no handler'' pl
    | Some h \<Rightarrow> acall_start rt mo TOOL_CALL pl (async_registered_handler aw (sp_name spec) h args) att None False None)"

definition done_task :: "('st run, node) act \<Rightarrow> ('st run, task) act" where
  "done_task m = bindA m (\<lambda>n. ret (Done n))"

definition aallowed_tool_call ::
  "'st runtime \<Rightarrow> moment \<Rightarrow> await_handler \<Rightarrow> action_spec \<Rightarrow> jdict \<Rightarrow> jdict \<Rightarrow> int \<Rightarrow> ('st run, task) act" where
  "aallowed_tool_call rt mo aw spec args pl att =
    (if rt_mode rt = REPLAY then done_task (bindA (recorded_node rt TOOL_CALL pl att None) must_be_recorded)
     else bindA (if rt_mode rt = RECORD \<and> rt_refuse_duplicates rt
         then bindA (recorded_node rt TOOL_CALL pl att None) (\<lambda>found. if found = None then ret () else failA AssertionError)
         else ret ()) (\<lambda>_.
       bindA (check_durable_approvals rt mo spec args) (\<lambda>_.
       bindA (ask_other_policies rt mo spec args pl att) (\<lambda>_.
       bindA (recorded_node rt TOOL_CALL pl att None) (\<lambda>found. case found of
           Some n \<Rightarrow> ret (Done n)
         | None \<Rightarrow>
             if rt_dry_run rt \<and> sp_side_effects spec then done_task (dry_run_call rt mo pl att)
             else acall_handler rt mo aw spec pl args att)))))"

definition avalidated_tool_call ::
  "'st runtime \<Rightarrow> moment \<Rightarrow> await_handler \<Rightarrow> registry \<Rightarrow> action_spec \<Rightarrow> jdict \<Rightarrow> jdict \<Rightarrow> jdict \<Rightarrow> int \<Rightarrow> ('st run, task) act" where
  "avalidated_tool_call rt mo aw reg spec args audit_args blocked att =
    bindA (liftR (validate_args spec args)) (\<lambda>found. case found of
        Some m \<Rightarrow> refuse_policy rt mo (''schema validation failed: '' @ m) blocked
      | None \<Rightarrow> aallowed_tool_call rt mo aw spec args (tool_payload reg spec audit_args) att)"

definition aregistered_tool_call ::
  "'st runtime \<Rightarrow> moment \<Rightarrow> await_handler \<Rightarrow> registry \<Rightarrow> string \<Rightarrow> jdict \<Rightarrow> string option \<Rightarrow> int \<Rightarrow> ('st run, task) act" where
  "aregistered_tool_call rt mo aw reg name args version att = (case registry_get reg name None of
      Inl e \<Rightarrow> refuse_policy rt mo
        (''unknown registered action: '' @ (case version of None \<Rightarrow> name | Some v \<Rightarrow> name @ ''@'' @ v))
        [(''tool'', JStr name), (''args'', JDict args)]
    | Inr spec \<Rightarrow>
        bindA (liftR (redact_args spec args)) (\<lambda>audit_args.
        let blocked = [(''tool'', JStr name), (''args'', JDict audit_args)] in
        case version of
          Some v \<Rightarrow>
            if v \<noteq> sp_version spec then refuse_policy rt mo (''unknown registered action: '' @ name @ ''@'' @ v) blocked
            else avalidated_tool_call rt mo aw reg spec args audit_args blocked att
        | None \<Rightarrow> avalidated_tool_call rt mo aw reg spec args audit_args blocked att))"

definition atool_start ::
  "'st runtime \<Rightarrow> moment \<Rightarrow> await_handler \<Rightarrow> string \<Rightarrow> jdict \<Rightarrow> step_fn option \<Rightarrow> string option \<Rightarrow> int \<Rightarrow> ('st run, task) act" where
  "atool_start rt mo aw name args fn version att =
    bindA (check_tool_authority rt mo name) (\<lambda>_. case rt_registry rt of
      Some reg \<Rightarrow> aregistered_tool_call rt mo aw reg name args version att
    | None \<Rightarrow> (case fn of
        None \<Rightarrow> failA (TypeError ''unfenced atool_call requires fn'')
      | Some f \<Rightarrow> acall_start rt mo TOOL_CALL [(''tool'', JStr name), (''args'', JDict args)] f att None False None))"

definition aconfirm_start :: "'st runtime \<Rightarrow> moment \<Rightarrow> await_handler \<Rightarrow> string \<Rightarrow> ('st run, task) act" where
  "aconfirm_start rt mo aw token s = (case dget (rn_pending s) token of
      None \<Rightarrow> failA (KeyError token) s
    | Some p \<Rightarrow>
        bindA (modA (\<lambda>s. s\<lparr>rn_pending := AList.delete token (rn_pending s)\<rparr>)) (\<lambda>_.
        bindA (check_tool_authority rt mo (sp_name (pc_spec p))) (\<lambda>_.
        bindA (\<lambda>s. liftR (ensure (rn_cursor s = pc_parent p) (ValueError ''cannot confirm after cursor moved'')) s) (\<lambda>_.
        bindA (check_durable_approvals rt mo (pc_spec p) (pc_args p)) (\<lambda>_.
        acall_handler rt mo aw (pc_spec p) (pc_payload p) (pc_args p) (pc_attempt p))))) s)"

definition atool_call ::
  "'st runtime \<Rightarrow> moment \<Rightarrow> ('st run \<Rightarrow> 'st run) \<Rightarrow> await_handler \<Rightarrow> string \<Rightarrow> jdict \<Rightarrow> step_fn option \<Rightarrow> string option \<Rightarrow> int \<Rightarrow>
    ('st run, node) act" where
  "atool_call rt mo others aw name args fn version att = await_task rt mo others (atool_start rt mo aw name args fn version att)"

definition aconfirm :: "'st runtime \<Rightarrow> moment \<Rightarrow> ('st run \<Rightarrow> 'st run) \<Rightarrow> await_handler \<Rightarrow> string \<Rightarrow> ('st run, node) act" where
  "aconfirm rt mo others aw token = await_task rt mo others (aconfirm_start rt mo aw token)"

definition arevalidate_model_call ::
  "'st runtime \<Rightarrow> moment \<Rightarrow> moment \<Rightarrow> ('st run \<Rightarrow> 'st run) \<Rightarrow> jdict \<Rightarrow> step_fn \<Rightarrow> replay_contract \<Rightarrow> comparator option \<Rightarrow>
    jdict option \<Rightarrow> int \<Rightarrow> string option \<Rightarrow> delta_callback \<Rightarrow> bool \<Rightarrow> ('st run, revalidation_report) act" where
  "arevalidate_model_call rt mo mo' others pl fn contract cmp live_payload att observation_id on_delta keep_chunks =
    bindA (prepare_revalidation rt mo' pl contract cmp live_payload att observation_id) (\<lambda>p.
    bindA (await_task rt mo others (acall_start rt mo MODEL_CALL (pv_observation_payload p) (\<lambda>_. fn (pv_live_payload p)) 0
      on_delta keep_chunks (Some (pv_live_payload p)))) (\<lambda>live.
    finish_revalidation rt mo' p live))"

section \<open>Tasks that overlap\<close>

datatype async_request =
    A_model_call jdict step_fn int delta_callback bool
  | A_tool_call string jdict "step_fn option" "string option" int
  | A_confirm string

definition astart :: "'st runtime \<Rightarrow> moment \<Rightarrow> await_handler \<Rightarrow> async_request \<Rightarrow> ('st run, task) act" where
  "astart rt mo aw q = (case q of
      A_model_call pl fn att f keep_chunks \<Rightarrow> acall_start rt mo MODEL_CALL pl fn att f keep_chunks None
    | A_tool_call name args fn version att \<Rightarrow> atool_start rt mo aw name args fn version att
    | A_confirm token \<Rightarrow> aconfirm_start rt mo aw token)"

end
