(* ===== verification/Async_Facts.thy ===== *)
theory Async_Facts
  imports Precheck_Facts Async
begin

text \<open>
  What holds of asynchronous calls however their two halves interleave, when an awaited call is the synchronous
  one, and what calls that overlap are admitted against.
\<close>

section \<open>Reading an awaited result\<close>

lemma aconsume_chunk_wf:
  assumes "stream_wf s" "a < length (ss_heap s)" "aconsume_chunk a s = (r, s')" shows "stream_wf s'"
proof -
  have get: "hval_wf (length (ss_heap s)) v" if "dget (ss_heap s ! a) k = Some v" for k v
    using assms(1,2) that by (auto simp: stream_wf_def intro: heap_wf_get)
  have over: "stream_wf (s\<lparr>ss_heap := (ss_heap s)[ss_result s := ss_heap s ! c]\<rparr>)" if "c < length (ss_heap s)" for c
    using assms(1) that by (auto simp: stream_wf_def intro!: heap_wf_update heap_wf_nth)
  have merge: "stream_wf (s\<lparr>ss_heap := merge_stream_value n (ss_result s) c (ss_heap s)\<rparr>)" if "c < length (ss_heap s)" for c n
    using assms(1) that merge_stream_value_wf [of "ss_heap s" "ss_result s" c n] by (simp add: stream_wf_def)
  show ?thesis
  proof (cases "dget (ss_heap s ! a) ''result'' \<noteq> None \<and> dget (ss_heap s ! a) ''result'' \<noteq> Some (HVal JNull)")
    case True
    then obtain v where v: "dget (ss_heap s ! a) ''result'' = Some v" by blast
    show ?thesis
    proof (cases v)
      case (HObj c)
      then show ?thesis using assms(3) True v over [of c] get [OF v] by (auto simp: aconsume_chunk_def Let_def)
    qed (use assms(1,3) True v in \<open>auto simp: aconsume_chunk_def Let_def\<close>)
  next
    case F: False
    show ?thesis
    proof (cases "dget (ss_heap s ! a) ''delta'' \<noteq> None \<and> dget (ss_heap s ! a) ''delta'' \<noteq> Some (HVal JNull)")
      case True
      then obtain v where v: "dget (ss_heap s ! a) ''delta'' = Some v" by blast
      show ?thesis
      proof (cases v)
        case (HObj c)
        then show ?thesis using assms(3) F True v merge [of c] get [OF v] by (auto simp: aconsume_chunk_def Let_def)
      qed (use assms(1,3) F True v in \<open>auto simp: aconsume_chunk_def Let_def\<close>)
    next
      case False
      then show ?thesis using assms(3) F merge [OF assms(2)] by (auto simp: aconsume_chunk_def Let_def)
    qed
  qed
qed

lemma atake_chunk_wf:
  assumes "stream_wf s" "json_wf item" "atake_chunk f item s = (r, s')" shows "stream_wf s'"
proof (cases "is_dict item")
  case True
  then obtain d where d: "item = JDict d" by (cases item) auto
  obtain x h where a: "alloc item (ss_heap s) = (x, h)" by (cases "alloc item (ss_heap s)")
  have h: "hval_wf (length h) x" "heap_wf h" "length (ss_heap s) \<le> length h"
    using alloc_wf(1) [OF a assms(2)] assms(1) by (simp_all add: stream_wf_def)
  obtain i where x: "x = HObj i" using a d by (auto split: prod.splits)
  then have s1: "stream_wf (s\<lparr>ss_heap := h, ss_chunks := ss_chunks s @ [i]\<rparr>)" "i < length h"
    using h assms(1) by (auto simp: stream_wf_def)
  then have s2: "stream_wf (s\<lparr>ss_heap := h, ss_chunks := ss_chunks s @ [i], ss_deltas := ds\<rparr>)" for ds
    by (simp add: stream_wf_def)
  show ?thesis using assms(3) True a x s1 s2 aconsume_chunk_wf [OF s1(1)] aconsume_chunk_wf [OF s2]
    by (auto simp: atake_chunk_def Let_def split: option.splits)
qed (use assms in \<open>simp add: atake_chunk_def\<close>)

lemma atake_events_wf:
  "stream_wf s \<Longrightarrow> \<forall>j. Item j \<in> set es \<longrightarrow> json_wf j \<Longrightarrow> atake_events f b es s = (r, s') \<Longrightarrow> stream_wf s'"
proof (induction f b es s rule: atake_events.induct)
  case (3 f b item es s)
  obtain q t where t: "atake_chunk f item s = (q, t)" by (cases "atake_chunk f item s")
  have "stream_wf t" using atake_chunk_wf [OF 3(2) _ t] 3(3) by simp
  then show ?case using 3 t by (cases q) auto
qed auto

lemma aconsume_wf:
  assumes "step_wf v" "aconsume_step_result f keep v = (Inr res, ds)" shows "jd_wf res"
proof (cases v)
  case (Stream es)
  obtain r s where s: "atake_events f False es stream_start = (r, s)" by (cases "atake_events f False es stream_start")
  have "stream_wf s" using atake_events_wf [OF stream_start_wf _ s] assms(1) Stream by (simp add: step_wf_def)
  from stream_result_wf [OF this, of keep] show ?thesis using assms(2) Stream s
    by (cases r) (auto simp: aconsume_step_result_def)
qed (use assms in \<open>auto simp: aconsume_step_result_def step_wf_def\<close>)

section \<open>Calls that are started and finished\<close>

text \<open>What is known of a task between its halves.\<close>

definition task_ok :: "'st runtime \<Rightarrow> task \<Rightarrow> bool" where
  "task_ok rt t = (case t of
      Awaiting p \<Rightarrow> rt_mode rt \<noteq> REPLAY \<and> jd_wf (su_identity p) \<and> resv_ok (su_reservation p) \<and> fn_ok (su_fn p)
    | _ \<Rightarrow> True)"

lemma task_ok_simps [simp]:
  "task_ok rt (Done n)" "task_ok rt (Reemit n f)"
  "task_ok rt (Awaiting p) \<longleftrightarrow> rt_mode rt \<noteq> REPLAY \<and> jd_wf (su_identity p) \<and> resv_ok (su_reservation p) \<and> fn_ok (su_fn p)"
  by (simp_all add: task_ok_def)

definition awaits_ok :: "await_handler \<Rightarrow> bool" where
  "awaits_ok aw \<longleftrightarrow> (\<forall>name args v. aw name args = Inr v \<longrightarrow> step_wf v)"

lemma adispatchQ: "fn_ok (su_fn p) \<Longrightarrow> yields (\<lambda>q. \<forall>res. snd q = Some res \<longrightarrow> jd_wf res) (adispatch mo p)"
proof -
  assume fn: "fn_ok (su_fn p)"
  let ?c = "case su_fn p (su_payload p) of Inl e \<Rightarrow> (Inl e, []) | Inr v \<Rightarrow> aconsume_step_result (su_on_delta p) (su_keep_chunks p) v"
  have c: "jd_wf res" if "su_fn p (su_payload p) = Inr v" "aconsume_step_result (su_on_delta p) (su_keep_chunks p) v = (Inr res, ds)" for v res ds
    using aconsume_wf [OF _ that(2)] fn that(1) by (auto simp: fn_ok_def)
  show ?thesis
  proof (cases "mo_start mo")
    case None
    obtain r ds where r: "?c = (r, ds)" by (cases ?c)
    have "jd_wf res" if "r = Inr res" for res using r that c by (cases "su_fn p (su_payload p)") auto
    then show ?thesis unfolding adispatch_def None option.case r prod.case
      by (intro yields_bindA [where P = "\<lambda>_. True"]) (auto split: sum.split)
  qed (simp add: adispatch_def)
qed

lemma async_handler_ok:
  assumes "hooks_ok rt" "awaits_ok aw" "dget (rt_handlers rt) action = Some h" shows "fn_ok (async_registered_handler aw action h args)"
proof -
  have "step_wf v" if v: "async_registered_handler aw action h args pl = Inr v" for pl v
  proof -
    obtain x where x: "h args = Inr x" "(case x of Returned y \<Rightarrow> Inr y | Awaitable \<Rightarrow> aw action args) = Inr v"
      using v unfolding async_registered_handler_def bindR_Inr_iff by blast
    then show ?thesis using hooks_okD(3) [OF assms(1,3)] assms(2) by (cases x) (auto simp: awaits_ok_def)
  qed
  then show ?thesis by (simp add: fn_ok_def)
qed

definition async_request_ok :: "async_request \<Rightarrow> bool" where
  "async_request_ok q = (case q of
      A_model_call pl fn att f keep_chunks \<Rightarrow> fn_ok fn
    | A_tool_call name args fn version att \<Rightarrow> jd_wf args \<and> (\<forall>f. fn = Some f \<longrightarrow> fn_ok f)
    | A_confirm token \<Rightarrow> True)"

context runtime_steps
begin

lemma acall_startQ: "fn_ok fn \<Longrightarrow> yields (task_ok rt) (acall_start rt mo k pl fn att f keep mpl)"
proof (cases "rt_mode rt = REPLAY")
  case True
  show ?thesis unfolding acall_start_def
    by (rule yields_bindA [where P = "\<lambda>_. True"], simp, rule yields_bindA [where P = "\<lambda>_. True"], simp,
        rule yields_bindA [OF recorded_node_replay [OF True]]) auto
next
  case False
  assume "fn_ok fn"
  have q: "yields jd_wf (liftR (snapshot_payload pl))" using snapshot_payload_wf by simp
  show ?thesis unfolding acall_start_def
    by (rule yields_bindA [OF q], rule yields_bindA [where P = "\<lambda>_. True"], simp, rule yields_bindA [where P = "\<lambda>_. True"], simp)
      (auto intro!: yields_bindA [OF precheckQ] simp: False \<open>fn_ok fn\<close> split: option.split)
qed

lemma refuse_policyQ: "yields Q (refuse_policy rt mo detail blocked)"
  by (auto simp: yields_def refuse_policy_def bindA_Inr_iff refuse_node_raises)

lemma done_taskQ: "yields (task_ok rt) (done_task m)"
  unfolding done_task_def by (rule yields_bindA [where P = "\<lambda>_. True"]) simp_all

lemmas yields_then = yields_bindA [where P = "\<lambda>_. True", OF yields_any]

lemma acall_handlerQ: "hooks_ok rt \<Longrightarrow> awaits_ok aw \<Longrightarrow> yields (task_ok rt) (acall_handler rt mo aw spec pl args att)"
  unfolding acall_handler_def
  by (cases "dget (rt_handlers rt) (sp_name spec)") (auto intro!: refuse_policyQ acall_startQ async_handler_ok)

lemma yields_if: "(b \<Longrightarrow> yields Q m) \<Longrightarrow> (\<not> b \<Longrightarrow> yields Q m') \<Longrightarrow> yields Q (if b then m else m')"
  by simp

lemma aallowed_tool_callQ:
  "hooks_ok rt \<Longrightarrow> awaits_ok aw \<Longrightarrow> yields (task_ok rt) (aallowed_tool_call rt mo aw spec args pl att)"
  unfolding aallowed_tool_call_def
  by (intro yields_if done_taskQ yields_then) (auto intro!: done_taskQ acall_handlerQ split: option.split)

lemma avalidated_tool_callQ:
  "hooks_ok rt \<Longrightarrow> awaits_ok aw \<Longrightarrow> yields (task_ok rt) (avalidated_tool_call rt mo aw reg spec args audit blocked att)"
  unfolding avalidated_tool_call_def
  by (intro yields_then) (auto intro!: refuse_policyQ aallowed_tool_callQ split: option.split)

lemma atool_startQ:
  assumes "hooks_ok rt" "awaits_ok aw" "\<And>f. fn = Some f \<Longrightarrow> fn_ok f"
  shows "yields (task_ok rt) (atool_start rt mo aw name args fn version att)"
proof -
  have r: "yields (task_ok rt) (aregistered_tool_call rt mo aw reg name args version att)" for reg
    unfolding aregistered_tool_call_def Let_def
    by (cases "registry_get reg name None")
      (auto intro!: refuse_policyQ yields_then avalidated_tool_callQ assms(1,2) split: option.split)
  show ?thesis unfolding atool_start_def
    by (intro yields_then) (auto intro!: r acall_startQ assms(3) split: option.split)
qed

lemma aconfirm_startQ: "hooks_ok rt \<Longrightarrow> awaits_ok aw \<Longrightarrow> yields (task_ok rt) (aconfirm_start rt mo aw token)"
proof -
  assume "hooks_ok rt" "awaits_ok aw"
  then have "yields (task_ok rt) (bindA (modA (\<lambda>s. s\<lparr>rn_pending := AList.delete token (rn_pending s)\<rparr>)) (\<lambda>_.
        bindA (check_tool_authority rt mo (sp_name (pc_spec p))) (\<lambda>_.
        bindA (\<lambda>s. liftR (ensure (rn_cursor s = pc_parent p) (ValueError ''cannot confirm after cursor moved'')) s) (\<lambda>_.
        bindA (check_durable_approvals rt mo (pc_spec p) (pc_args p)) (\<lambda>_.
        acall_handler rt mo aw (pc_spec p) (pc_payload p) (pc_args p) (pc_attempt p))))))" for p
    by (intro yields_then acall_handlerQ)
  then show ?thesis unfolding yields_def aconfirm_start_def by (auto simp: failA_def split: option.splits)
qed

lemma astartQ: "hooks_ok rt \<Longrightarrow> awaits_ok aw \<Longrightarrow> async_request_ok q \<Longrightarrow> yields (task_ok rt) (astart rt mo aw q)"
  by (cases q) (auto simp: astart_def async_request_ok_def intro!: acall_startQ atool_startQ aconfirm_startQ)

lemma acall_startK: "hooks_ok rt \<Longrightarrow> keeps RR (acall_start rt mo k pl fn att f keep mpl)"
proof (cases "rt_mode rt = REPLAY")
  case True
  show ?thesis unfolding acall_start_def
    by (rule bind [OF pure(3)], rule bind [OF pure(3)], rule bindQ [OF recorded_nodeK recorded_node_replay [OF True]])
      (auto intro: keep)
next
  case False
  assume "hooks_ok rt"
  then show ?thesis unfolding acall_start_def by (intro keep bind recorded_nodeK precheckK False)
qed

lemma acall_handlerK: "hooks_ok rt \<Longrightarrow> keeps RR (acall_handler rt mo aw spec pl args att)"
  unfolding acall_handler_def by (intro keep refuse_policyK acall_startK)

lemma aallowed_tool_callK: "hooks_ok rt \<Longrightarrow> jd_wf pl \<Longrightarrow> keeps RR (aallowed_tool_call rt mo aw spec args pl att)"
  unfolding aallowed_tool_call_def must_be_recorded_def done_task_def
  by (intro keep bind recorded_nodeK check_durable_approvalsK ask_other_policiesK dry_run_callK acall_handlerK)

lemma avalidated_tool_callK:
  "hooks_ok rt \<Longrightarrow> jd_wf audit \<Longrightarrow> keeps RR (avalidated_tool_call rt mo aw reg spec args audit blocked att)"
  unfolding avalidated_tool_call_def by (intro keep bind refuse_policyK aallowed_tool_callK) (simp_all add: tool_payload_def)

lemma aregistered_tool_callK:
  assumes hooks: "hooks_ok rt" and "jd_wf args" shows "keeps RR (aregistered_tool_call rt mo aw reg name args version att)"
proof -
  have q: "yields jd_wf (liftR (redact_args spec args))" for spec using redact_args_wf assms(2) by auto
  have "keeps RR (bindA (liftR (redact_args spec args)) (\<lambda>audit_args.
        let blocked = [(''tool'', JStr name), (''args'', JDict audit_args)] in
        case version of
          Some v \<Rightarrow>
            if v \<noteq> sp_version spec then refuse_policy rt mo (''unknown registered action: '' @ name @ ''@'' @ v) blocked
            else avalidated_tool_call rt mo aw reg spec args audit_args blocked att
        | None \<Rightarrow> avalidated_tool_call rt mo aw reg spec args audit_args blocked att))" for spec
    by (rule bindQ [OF pure(3) q]) (auto simp: Let_def intro!: refuse_policyK avalidated_tool_callK assms split: option.split)
  then show ?thesis unfolding aregistered_tool_call_def by (intro keeps_sum refuse_policyK)
qed

lemma aconfirm_startK: "hooks_ok rt \<Longrightarrow> keeps RR (aconfirm_start rt mo aw token)"
proof -
  assume "hooks_ok rt"
  then have "keeps RR (bindA (modA (\<lambda>s. s\<lparr>rn_pending := AList.delete token (rn_pending s)\<rparr>)) (\<lambda>_.
        bindA (check_tool_authority rt mo (sp_name (pc_spec p))) (\<lambda>_.
        bindA (\<lambda>s. liftR (ensure (rn_cursor s = pc_parent p) (ValueError ''cannot confirm after cursor moved'')) s) (\<lambda>_.
        bindA (check_durable_approvals rt mo (pc_spec p) (pc_args p)) (\<lambda>_.
        acall_handler rt mo aw (pc_spec p) (pc_payload p) (pc_args p) (pc_attempt p))))))" for p
    by (intro bind modK reader check_tool_authorityK check_durable_approvalsK acall_handlerK) simp_all
  then show ?thesis unfolding keeps_def aconfirm_start_def by (auto simp: failA_def frame split: option.splits)
qed

lemma astartK: "hooks_ok rt \<Longrightarrow> async_request_ok q \<Longrightarrow> keeps RR (astart rt mo aw q)"
  by (cases q) (auto simp: astart_def atool_start_def async_request_ok_def
      intro!: keep bind check_tool_authorityK aregistered_tool_callK acall_startK aconfirm_startK)

lemma adispatchK: "keeps RR (adispatch mo p)"
  unfolding adispatch_def by (intro keep bind modK) simp

lemma task_finishK: "moment_ok mo \<Longrightarrow> task_ok rt t \<Longrightarrow> keeps RR (task_finish rt mo t)"
proof (cases t)
  case (Awaiting p)
  assume "moment_ok mo" "task_ok rt t"
  then show ?thesis unfolding task_finish_def Awaiting task.case acall_finish_def
    by (intro bindQ [OF adispatchK adispatchQ])
      (auto simp: Awaiting intro!: keep call_completedK call_failedK split: option.split)
qed (auto simp: task_finish_def intro!: keep bind deliverK)

end

section \<open>Tasks that overlap\<close>

text \<open>
  A run and the tasks that are suspended on it. A request starts a task or raises; any suspended task may be
  the next to finish, and between two halves of one the caller may use the run synchronously.
\<close>

inductive task_step ::
  "'st runtime \<Rightarrow> await_handler \<Rightarrow> 'st run \<times> (moment \<times> task) list \<Rightarrow> 'st run \<times> (moment \<times> task) list \<Rightarrow> bool"
  for rt aw where
  started: "moment_ok mo \<Longrightarrow> async_request_ok q \<Longrightarrow> astart rt mo aw q s = Some (Inr t, s') \<Longrightarrow>
    task_step rt aw (s, ts) (s', ts @ [(mo, t)])"
| refused: "moment_ok mo \<Longrightarrow> async_request_ok q \<Longrightarrow> astart rt mo aw q s = Some (Inl e, s') \<Longrightarrow>
    task_step rt aw (s, ts) (s', ts)"
| finished: "task_finish rt mo t s = Some (r, s') \<Longrightarrow> task_step rt aw (s, ts @ (mo, t) # us) (s', ts @ us)"
| other: "run_step rt s s' \<Longrightarrow> task_step rt aw (s, ts) (s', ts)"

context runtime_steps
begin

definition tasks_ok :: "(moment \<times> task) list \<Rightarrow> bool" where
  "tasks_ok ts \<longleftrightarrow> (\<forall>(mo, t) \<in> set ts. moment_ok mo \<and> task_ok rt t)"

lemma task_stepR:
  assumes "task_step rt aw (s, ts) (s', ts')" "hooks_ok rt" "awaits_ok aw" "tasks_ok ts"
  shows "RR s s' \<and> tasks_ok ts'"
  using assms(1)
proof (cases rule: task_step.cases)
  case (started mo q t)
  then show ?thesis using yieldsD [OF astartQ started(4)] keepsD [OF astartK started(4)] assms(2-4)
    by (simp add: tasks_ok_def)
next
  case (refused mo q e)
  then show ?thesis using keepsD [OF astartK refused(4)] assms(2,4) by simp
next
  case (finished mo t r us vs)
  then show ?thesis using keepsD [OF task_finishK finished(3)] assms(4) by (simp add: tasks_ok_def)
next
  case other
  then show ?thesis using run_stepR assms(2,4) by simp
qed

lemma task_stepsR:
  assumes "(task_step rt aw)\<^sup>*\<^sup>* (s, []) (s', ts')" "hooks_ok rt" "awaits_ok aw" shows "R (rn_store s) (rn_store s')"
proof -
  have "R (rn_store s) (rn_store (fst c)) \<and> tasks_ok (snd c)" if "(task_step rt aw)\<^sup>*\<^sup>* (s, []) c" for c
    using that
  proof (induction rule: rtranclp_induct)
    case (step b c)
    then show ?case using task_stepR [of aw "fst b" "snd b" "fst c" "snd c"] assms(2,3) R_trans by (auto simp: RR_def)
  qed (simp add: tasks_ok_def R_refl)
  from this [OF assms(1)] show ?thesis by simp
qed

end

text \<open>
  C9. However asynchronous calls overlap, a run only ever adds to a valid tree: after any interleaving of
  starts, refusals, completions in any order and synchronous requests in between, the store keeps its invariant and every
  node that was in it is still there with the same identity, result and digest.
\<close>

theorem interleaved_calls_grow_tree:
  assumes "hooks_ok rt" "awaits_ok aw" "(task_step (on_memory rt) aw)\<^sup>*\<^sup>* (s, []) (s', ts)" "mem_inv (rn_store s)"
  shows "mem_inv (rn_store s') \<and> grows (mem_nodes (rn_store s)) (mem_nodes (rn_store s'))"
  using memory.task_stepsR [OF assms(3)] assms(1,2,4) by (simp add: tree_grows_def)

section \<open>Equivalence with the synchronous call\<close>

lemma alloc_length:
  "alloc v h = (x, h') \<Longrightarrow> length h \<le> length h'"
  "alloc_items d h = (es, h') \<Longrightarrow> length h \<le> length h'"
proof (induction v h and d h arbitrary: x h' and es h' rule: alloc_alloc_items.induct)
  case (4 k v d h)
  obtain y h1 es1 h2 where a: "alloc v h = (y, h1)" "alloc_items d h1 = (es1, h2)"
    by (cases "alloc v h", cases "alloc_items d (snd (alloc v h))") auto
  have "length h \<le> length h1" "length h1 \<le> length h2" using 4(1) [OF a(1)] 4(2) [OF a(1) [symmetric] a(2)] .
  then show ?case using 4(3) a by simp
qed (auto split: prod.splits)

lemma alloc_items_get:
  "alloc_items d h = (es, h') \<Longrightarrow> dget_or d k JNull = JNull \<Longrightarrow> dget es k = None \<or> dget es k = Some (HVal JNull)"
proof (induction d arbitrary: h es)
  case (Cons p d)
  obtain j v where p: "p = (j, v)" by (cases p)
  obtain y h1 where a: "alloc v h = (y, h1)" by (cases "alloc v h")
  obtain es1 h2 where b: "alloc_items d h1 = (es1, h2)" by (cases "alloc_items d h1")
  have es: "es = (j, y) # es1" "h' = h2" using Cons.prems(1) p a b by simp_all
  show ?case
  proof (cases "j = k")
    case True
    then have "v = JNull" using Cons.prems(2) p by (simp add: dget_or_def)
    then show ?thesis using a es True by auto
  next
    case False
    then have "dget_or d k JNull = JNull" using Cons.prems(2) p by (simp add: dget_or_def)
    then show ?thesis using Cons.IH [of h1 es1] b es False by simp
  qed
qed (simp add: dget_or_def)

text \<open>A stream without a complete result: no chunk has a \<open>result\<close> entry other than \<open>None\<close>.\<close>

definition only_deltas :: "step_value \<Rightarrow> bool" where
  "only_deltas v = (case v of
      Whole d \<Rightarrow> True
    | Stream es \<Rightarrow> \<forall>d. Item (JDict d) \<in> set es \<longrightarrow> dget_or d ''result'' JNull = JNull
    | Not_a_result \<Rightarrow> False)"

lemma atake_chunk_same:
  assumes "\<And>d. item = JDict d \<Longrightarrow> dget_or d ''result'' JNull = JNull"
  shows "atake_chunk f item s = take_chunk f item s"
proof (cases "is_dict item")
  case True
  then obtain d where d: "item = JDict d" by (cases item) auto
  obtain es h where a: "alloc_items d (ss_heap s @ [[]]) = (es, h)" by (cases "alloc_items d (ss_heap s @ [[]])")
  have l: "length (ss_heap s) < length h" using alloc_length(2) [OF a] by simp
  have "dget es ''result'' = None \<or> dget es ''result'' = Some (HVal JNull)"
    using alloc_items_get [OF a] assms d by simp
  then have "aconsume_chunk (length (ss_heap s)) t = merge_chunk (length (ss_heap s)) t"
    if "ss_heap t = h[length (ss_heap s) := es]" for t
    using l that unfolding aconsume_chunk_def merge_chunk_def Let_def by auto
  then show ?thesis using d a by (simp add: atake_chunk_def take_chunk_def Let_def split: option.split)
qed (simp add: atake_chunk_def take_chunk_def)

lemma atake_events_same:
  "\<forall>d. Item (JDict d) \<in> set es \<longrightarrow> dget_or d ''result'' JNull = JNull \<Longrightarrow> atake_events f b es s = take_events f b es s"
proof (induction f b es s rule: take_events.induct)
  case (3 f b item es s)
  have c: "atake_chunk f item s = take_chunk f item s" using 3(2) by (intro atake_chunk_same) auto
  show ?case
  proof (cases "take_chunk f item s")
    case (Pair r t)
    show ?thesis using 3 c Pair by (cases r) auto
  qed
qed auto

lemma aconsume_same: "only_deltas v \<Longrightarrow> aconsume_step_result f keep v = consume_step_result f keep v"
  by (cases v) (auto simp: only_deltas_def aconsume_step_result_def consume_step_result_def atake_events_same)

lemma adispatch_same:
  assumes "\<And>v. su_fn p (su_payload p) = Inr v \<Longrightarrow> only_deltas v"
  shows "adispatch mo p = dispatch mo (su_fn p) (su_payload p) (su_on_delta p) (su_keep_chunks p)"
proof -
  have "(case su_fn p (su_payload p) of Inl e \<Rightarrow> (Inl e, []) | Inr v \<Rightarrow> aconsume_step_result (su_on_delta p) (su_keep_chunks p) v) =
    (case su_fn p (su_payload p) of Inl e \<Rightarrow> (Inl e, []) | Inr v \<Rightarrow> consume_step_result (su_on_delta p) (su_keep_chunks p) v)"
    using assms aconsume_same by (cases "su_fn p (su_payload p)") auto
  then show ?thesis unfolding adispatch_def dispatch_def by (simp only:)
qed

lemma bindA_assoc_fun: "bindA (bindA m f) g = bindA m (\<lambda>x. bindA (f x) g)"
  by (rule ext) (rule bindA_assoc)

lemma bindA_ret: "bindA (ret x) f = f x"
  unfolding bindA_def ret_def by simp

lemma modA_same: "modA (\<lambda>s. s) = ret ()"
  by (rule ext) (simp add: modA_def ret_def)

lemma deliver_nothing: "deliver (reemit_chunks None n) = ret ()"
  by (rule ext) (simp add: deliver_def reemit_chunks_def liftR_def ret_def)

text \<open>Replaying a recorded node, and handing out its chunks afterwards.\<close>

lemma recorded_node_split:
  "recorded_node rt k pl att f = bindA (recorded_node rt k pl att None) (\<lambda>r. case r of
      None \<Rightarrow> ret None
    | Some n \<Rightarrow> bindA (deliver (reemit_chunks f n)) (\<lambda>_. ret (Some n)))"
proof -
  have opt: "bindA (case r of None \<Rightarrow> ret None | Some n \<Rightarrow> g n) h = (case r of None \<Rightarrow> h None | Some n \<Rightarrow> bindA (g n) h)"
    for r :: "node option" and g and h :: "node option \<Rightarrow> ('a run, node option) act"
    by (cases r) (simp_all add: bindA_ret)
  have pair: "bindA (case p of (a, b) \<Rightarrow> g a b) h = (case p of (a, b) \<Rightarrow> bindA (g a b) h)"
    for p and g :: "jdict \<Rightarrow> meter list \<Rightarrow> ('a run, node option) act" and h :: "node option \<Rightarrow> ('a run, node option) act"
    by (cases p) simp
  show ?thesis
    unfolding recorded_node_def bindA_assoc_fun opt pair deliver_nothing bindA_ret option.case ..
qed

lemma task_finish_simps:
  "task_finish rt mo (Reemit n f) = bindA (deliver (reemit_chunks f n)) (\<lambda>_. ret n)"
  "task_finish rt mo (Awaiting p) = acall_finish rt mo p"
  by (simp_all add: task_finish_def)

lemma await_undisturbed:
  assumes "\<And>v. fn pl = Inr v \<Longrightarrow> only_deltas v"
  shows "await_task rt mo (\<lambda>s. s) (acall_start rt mo k pl fn att f keep mpl) = run_call rt mo k pl fn att f keep mpl"
proof -
  have opt: "bindA (case r of None \<Rightarrow> a | Some n \<Rightarrow> g n) h = (case r of None \<Rightarrow> bindA a h | Some n \<Rightarrow> bindA (g n) h)"
    for r :: "node option" and a and g :: "node \<Rightarrow> ('a run, 'c) act" and h :: "'c \<Rightarrow> ('a run, node) act"
    by (cases r) simp_all
  have same: "adispatch mo \<lparr>su_kind = k, su_payload = pl, su_identity = i, su_meter_payload = m, su_attempt = att,
      su_reservation = r, su_fn = fn, su_on_delta = f, su_keep_chunks = keep\<rparr> = dispatch mo fn pl f keep" for i m r
    by (subst adispatch_same) (simp_all add: assms)
  show ?thesis
    unfolding run_call_def await_task_def acall_start_def modA_same bindA_assoc_fun bindA_ret
      option.case opt task_finish_simps acall_finish_def recorded_node_split [of rt k _ att f] same suspended_call.simps ..
qed

text \<open>
  C8. An awaited call that nothing disturbs is the synchronous call: when no other task touches the run while it is
  suspended, and the step function gives a whole result or a stream of deltas, an asynchronous model call or live
  revalidation has the result, the error and the effect on the run that the synchronous one has.
\<close>

theorem undisturbed_call_is_sync:
  assumes "\<And>d v. fn d = Inr v \<Longrightarrow> only_deltas v"
  shows "amodel_call rt mo (\<lambda>s. s) pl fn att f keep = model_call rt mo pl fn att f keep \<and>
    arevalidate_model_call rt mo mo' (\<lambda>s. s) pl fn contract cmp live_payload att oid f keep =
      revalidate_model_call rt mo mo' pl fn contract cmp live_payload att oid f keep"
  unfolding amodel_call_def model_call_def arevalidate_model_call_def revalidate_model_call_def
  by (simp only: await_undisturbed [OF assms] simp_thms)

section \<open>What overlapping calls are admitted against\<close>

lemma recorded_node_missed: "recorded_node rt k pl att f s = Some (Inr None, s') \<Longrightarrow> s' = s"
proof -
  assume r: "recorded_node rt k pl att f s = Some (Inr None, s')"
  have raise: "bindA m (\<lambda>_. ret (Some n)) t \<noteq> Some (Inr None, u)" for m :: "('a run, unit) act" and n :: node and t u
    by (auto simp: bindA_Inr_iff ret_def)
  obtain t found u where t: "validate_agent_cursor rt s = Some (Inr (), t)"
    and q: "(case found of None \<Rightarrow> ret None | Some n \<Rightarrow>
        bindA (\<lambda>s. liftR (avoided_charges (rn_meters s) (kind_value k) pl n) s) (\<lambda>(charges, ms).
        bindA (modA (\<lambda>s. s\<lparr>rn_meters := ms\<rparr>)) (\<lambda>_.
        bindA (add_run_avoided charges) (\<lambda>_.
        bindA (whenA (rt_mode rt = HYBRID) (on_store (\<lambda>st. case record_avoided_charges (rt_ops rt) (nid n) charges st of
            Inl e \<Rightarrow> Some (Inl e, st) | Inr st' \<Rightarrow> Some (Inr (), st')))) (\<lambda>_.
        bindA (set_cursor (nid n)) (\<lambda>_.
        bindA (deliver (reemit_chunks f n)) (\<lambda>_.
        ret (Some n))))))) ) u = Some (Inr None, s')"
    and u: "u = t"
    using r unfolding recorded_node_def by (auto simp: bindA_Inr_iff liftO_def)
  have "s' = u"
  proof (cases found)
    case (Some n)
    then show ?thesis using q by (auto simp: bindA_Inr_iff ret_def split: prod.splits)
  qed (use q in \<open>simp add: ret_def\<close>)
  moreover have "t = s" using returnsD [OF validate_agent_cursor_silent t] by simp
  ultimately show ?thesis using u by simp
qed

text \<open>A runtime that reserves nothing: its store is no arbiter and its meters and budgets are its own.\<close>

definition unreserved :: "'st runtime \<Rightarrow> 'st run \<Rightarrow> bool" where
  "unreserved rt s \<longleftrightarrow> rt_arbiter rt = None \<and> rt_shared rt = [] \<and> scoped_windows (rn_meters s) = []"

lemma precheck_unreserved:
  assumes "precheck rt mo kd pl s = Some (Inr r, s')" "unreserved rt s" shows "s' = s"
proof -
  have ar: "rt_arbiter rt = None" using assms(2) by (simp add: unreserved_def)
  let ?rest = "\<lambda>est. if \<not> is_call kd then ret None else ret (Some \<lparr>re_id = None, re_estimates = est\<rparr>)"
  obtain t0 t1 est ap t2 t3 where st: "validate_agent_cursor rt s = Some (Inr (), t0)" "validate_shared rt t0 = Some (Inr (), t1)"
      "estimates rt mo kd pl t1 = Some (Inr (est, ap), t2)"
      "forA (check_scope rt mo kd pl est ap) (rn_scopes t2) t2 = Some (Inr (), t3)" "?rest est t3 = Some (Inr r, s')"
    using assms(1) unfolding precheck_def ar option.case by (auto simp: bindA_Inr_iff getA_def)
  have "t0 = s" using returnsD [OF validate_agent_cursor_silent st(1)] by simp
  moreover have "t1 = t0" using st(2) assms(2) \<open>t0 = s\<close> by (simp add: validate_shared_def Let_def ret_def unreserved_def)
  moreover have "t2 = t1" using returnsD [OF estimates_silent st(3)] by simp
  moreover have "t3 = t2" by (rule sym, rule returnsD [OF returns_forA [OF eq_preorder check_scope_silent] st(4)])
  moreover have "s' = t3" using st(5) by (auto simp: ret_def split: if_splits)
  ultimately show ?thesis by simp
qed

lemma acall_start_awaiting:
  assumes "acall_start rt mo k pl fn att f keep mpl s = Some (Inr (Awaiting p), s')" "unreserved rt s"
  shows "s' = s \<and> precheck rt mo (kind_value k) (su_meter_payload p) s = Some (Inr (su_reservation p), s)"
proof -
  obtain i m r t where r: "recorded_node rt k i att None s = Some (Inr r, t)"
    and q: "(case r of Some n \<Rightarrow> ret (Reemit n f) | None \<Rightarrow>
        bindA (precheck rt mo (kind_value k) m) (\<lambda>resv.
        ret (Awaiting \<lparr>su_kind = k, su_payload = pl, su_identity = i, su_meter_payload = m, su_attempt = att,
          su_reservation = resv, su_fn = fn, su_on_delta = f, su_keep_chunks = keep\<rparr>))) t = Some (Inr (Awaiting p), s')"
    using assms(1) unfolding acall_start_def by (auto simp: bindA_Inr_iff liftR_def)
  have "r = None" using q by (cases r) (auto simp: ret_def)
  then have "t = s" using r recorded_node_missed by blast
  then have c: "precheck rt mo (kind_value k) (su_meter_payload p) s = Some (Inr (su_reservation p), s')"
    using q \<open>r = None\<close> by (auto simp: bindA_Inr_iff ret_def)
  then show ?thesis using precheck_unreserved [OF c assms(2)] by simp
qed

lemma starts_leave_run:
  assumes "mapA (\<lambda>(mo, pl, fn). acall_start rt mo MODEL_CALL pl fn att f keep None) qs s = Some (Inr (map Awaiting ps), s')"
    "unreserved rt s"
  shows "s' = s \<and> (\<forall>p \<in> set ps. \<exists>mo. precheck rt mo ''model_call'' (su_meter_payload p) s = Some (Inr (su_reservation p), s))"
  using assms(1)
proof (induction qs arbitrary: ps)
  case (Cons q qs)
  obtain mo pl fn where q: "q = (mo, pl, fn)" by (cases q)
  let ?start = "\<lambda>(mo, pl, fn). acall_start rt mo MODEL_CALL pl fn att f keep None"
  obtain x t xs u where x: "acall_start rt mo MODEL_CALL pl fn att f keep None s = Some (Inr x, t)"
    "mapA ?start qs t = Some (Inr xs, u)" "ret (x # xs) u = Some (Inr (map Awaiting ps), s')"
    using Cons.prems unfolding q mapA.simps prod.case bindA_Inr_iff by blast
  then have "x # xs = map Awaiting ps" "u = s'" by (simp_all add: ret_def)
  then obtain p ps' where p: "ps = p # ps'" "acall_start rt mo MODEL_CALL pl fn att f keep None s = Some (Inr (Awaiting p), t)"
    "mapA ?start qs t = Some (Inr (map Awaiting ps'), s')"
    using x(1,2) by (cases ps) simp_all
  have "t = s \<and> precheck rt mo (kind_value MODEL_CALL) (su_meter_payload p) s = Some (Inr (su_reservation p), s)"
    by (rule acall_start_awaiting [OF p(2) assms(2)])
  then show ?case using Cons.IH [of ps'] p by (auto simp: kind_value_def)
qed (simp add: ret_def)

lemma precheck_reserves:
  assumes "precheck rt mo ''model_call'' pl s = Some (Inr r, s')" "unreserved rt s" shows "r \<noteq> None"
proof -
  have ar: "rt_arbiter rt = None" "\<not> \<not> is_call ''model_call''" using assms(2) by (simp_all add: unreserved_def is_call_def)
  obtain est t where "ret (Some \<lparr>re_id = None, re_estimates = est\<rparr>) t = Some (Inr r, s')"
    using assms(1) unfolding precheck_def ar(1) option.case if_not_P [OF ar(2)] bindA_Inr_iff by (auto simp: bindA_Inr_iff)
  then show ?thesis by (auto simp: ret_def)
qed

text \<open>
  C10. Calls that overlap are admitted one by one: without a reserving store, starting any number of asynchronous
  model calls leaves the run as it was, so each of them fits every budget in force together with what the subtree
  had spent before any of them started, and nothing of the other calls in flight is counted.
\<close>

theorem overlapping_calls_admitted_alone:
  assumes "mapA (\<lambda>(mo, pl, fn). acall_start rt mo MODEL_CALL pl fn att f keep None) qs s = Some (Inr (map Awaiting ps), s')"
    "unreserved rt s" "sc \<in> set (rn_scopes s)" "budget_limits (sc_budget sc) = Inr L" "p \<in> set ps"
  shows "s' = s \<and> (\<exists>r spent. su_reservation p = Some r \<and>
    spent_decimal (rt_ops rt) (rn_store s) (sc_anchor sc) = Some (Inr spent) \<and>
    (\<forall>(m, a) \<in> set (re_estimates r). \<forall>l. dget L m = Some l \<longrightarrow> dec_val (dget_or spent m 0) + dec_val a \<le> dec_val l))"
proof -
  obtain mo where s: "s' = s" and c: "precheck rt mo ''model_call'' (su_meter_payload p) s = Some (Inr (su_reservation p), s)"
    using starts_leave_run [OF assms(1,2)] assms(5) by blast
  obtain r where r: "su_reservation p = Some r" using precheck_reserves [OF c assms(2)] by blast
  have u: "rt_shared rt = []" "scoped_windows (rn_meters s) = []" using assms(2) by (simp_all add: unreserved_def)
  from precheck_passed [OF c [unfolded r] u assms(3,4)] show ?thesis using s r by blast
qed

section \<open>Concrete tasks\<close>

definition budgeted_run :: "mem_store run" where
  "budgeted_run = demo_run\<lparr>rn_scopes := [ten_more_steps]\<rparr>"

text \<open>A call to a provider that is down, suspended.\<close>

definition down :: step_fn where
  "down = (\<lambda>_. Inl (RuntimeErr ''provider is down''))"

definition call_to_down :: suspended_call where
  "call_to_down = \<lparr>su_kind = MODEL_CALL, su_payload = [], su_identity = [], su_meter_payload = [], su_attempt = 0,
     su_reservation = Some \<lparr>re_id = None, re_estimates = [(''steps'', Dec 1 0), (''depth'', Dec 2 0)]\<rparr>, su_fn = down,
     su_on_delta = None, su_keep_chunks = False\<rparr>"

lemma snapshot_nothing: "snapshot_payload [] = Inr []"
  by code_simp

lemma demo_start:
  "acall_start demo_runtime demo_moment MODEL_CALL [] down 0 None False None budgeted_run = Some (Inr (Awaiting call_to_down), budgeted_run)"
proof -
  have k: "kind_value MODEL_CALL = ''model_call''" by (simp add: kind_value_def)
  have "recorded_node demo_runtime MODEL_CALL [] 0 None budgeted_run = Some (Inr None, budgeted_run)"
    by (simp add: recorded_node_def validate_agent_cursor_def budgeted_run_def demo_run_def demo_runtime_def bindA_def liftR_def ret_def liftO_def
        recorded_node_or_missing_def)
  then show ?thesis
    unfolding acall_start_def snapshot_nothing option.case k budgeted_run_def
    by (simp add: bindA_def liftR_def ret_def demo_precheck call_to_down_def)
qed

lemma demo_finish:
  "task_finish demo_runtime demo_moment (Awaiting call_to_down) budgeted_run = Some (Inl (RuntimeErr ''provider is down''), budgeted_run)"
  by (simp add: task_finish_def acall_finish_def adispatch_def demo_moment_def call_to_down_def down_def bindA_def modA_def ret_def
      budgeted_run_def demo_run_def call_failed_def is_unknown_def tryA_def release_reservation_def reservation_id_def Let_def failA_def)


lemma demo_memory: "on_memory demo_runtime = demo_runtime"
  by (simp add: on_memory_def demo_runtime_def)

lemma down_ok: "fn_ok down" "awaits_ok (\<lambda>_ _. Inl (RuntimeErr ''provider is down''))" "only_deltas (Stream [Item (fragment ''a'')])"
  by (simp_all add: fn_ok_def down_def awaits_ok_def only_deltas_def fragment_def dget_or_def)

lemma demo_interleaving:
  "(task_step (on_memory demo_runtime) aw)\<^sup>*\<^sup>* (budgeted_run, []) (budgeted_run, [(demo_moment, Awaiting call_to_down)])"
proof -
  let ?t = "(demo_moment, Awaiting call_to_down)" and ?q = "A_model_call [] down 0 None False"
  have q: "async_request_ok ?q" by (simp add: async_request_ok_def down_ok)
  have start: "astart (on_memory demo_runtime) demo_moment aw ?q budgeted_run = Some (Inr (Awaiting call_to_down), budgeted_run)"
    unfolding demo_memory astart_def async_request.case by (rule demo_start)
  have "task_step (on_memory demo_runtime) aw (budgeted_run, ts) (budgeted_run, ts @ [?t])" for ts
    by (rule task_step.started [OF demo_inputs_ok(2) q start])
  from this [of "[]"] this [of "[?t]"]
  have two: "task_step (on_memory demo_runtime) aw (budgeted_run, []) (budgeted_run, [?t])"
    "task_step (on_memory demo_runtime) aw (budgeted_run, [?t]) (budgeted_run, [?t, ?t])" by simp_all
  have "task_step (on_memory demo_runtime) aw (budgeted_run, [?t] @ ?t # []) (budgeted_run, [?t] @ [])"
    by (rule task_step.finished) (simp only: demo_memory demo_finish)
  then have "task_step (on_memory demo_runtime) aw (budgeted_run, [?t, ?t]) (budgeted_run, [?t])" by simp
  then show ?thesis using two by (meson rtranclp.rtrancl_into_rtrancl rtranclp.rtrancl_refl)
qed

lemma demo_overlap:
  "mapA (\<lambda>(mo, pl, fn). acall_start demo_runtime mo MODEL_CALL pl fn 0 None False None)
     [(demo_moment, [], down), (demo_moment, [], down)] budgeted_run =
   Some (Inr (map Awaiting [call_to_down, call_to_down]), budgeted_run)"
  by (simp add: bindA_def demo_start ret_def)

lemma interleaved_calls_grow_tree_witness:
  "\<exists>aw. (task_step (on_memory demo_runtime) aw)\<^sup>*\<^sup>* (budgeted_run, []) (budgeted_run, [(demo_moment, Awaiting call_to_down)]) \<and>
    mem_inv (rn_store budgeted_run) \<and> grows (mem_nodes (rn_store budgeted_run)) (mem_nodes (rn_store budgeted_run))"
proof -
  have "mem_inv (rn_store budgeted_run)" by (simp add: budgeted_run_def demo_run_def demo_inv)
  from interleaved_calls_grow_tree [OF demo_inputs_ok(1) down_ok(2) demo_interleaving this] demo_interleaving
  show ?thesis by blast
qed

lemma undisturbed_call_is_sync_witness:
  "amodel_call demo_runtime demo_moment (\<lambda>s. s) [] (\<lambda>_. Inr (Stream [Item (fragment ''a'')])) 0 None True =
    model_call demo_runtime demo_moment [] (\<lambda>_. Inr (Stream [Item (fragment ''a'')])) 0 None True"
proof -
  have "only_deltas v" if "Inr (Stream [Item (fragment ''a'')]) = Inr v" for v using that down_ok(3) by auto
  from undisturbed_call_is_sync [of "\<lambda>_. Inr (Stream [Item (fragment ''a'')])", OF this] show ?thesis by blast
qed

lemma overlapping_calls_admitted_alone_witness:
  "\<exists>spent. spent_decimal mem_ops demo_store demo_note_id = Some (Inr spent) \<and> dec_val (dget_or spent ''steps'' 0) + 1 \<le> 10"
proof -
  have sc: "ten_more_steps \<in> set (rn_scopes budgeted_run)" by (simp add: budgeted_run_def)
  have u: "unreserved demo_runtime budgeted_run"
    by (simp add: unreserved_def demo_runtime_def budgeted_run_def demo_run_def default_meters_def default_token_meter_def scoped_windows_def)
  have p: "call_to_down \<in> set [call_to_down, call_to_down]" by simp
  from overlapping_calls_admitted_alone [OF demo_overlap u sc ten_limits p] show ?thesis
    by (auto simp: call_to_down_def ten_more_steps_def demo_runtime_def budgeted_run_def demo_run_def)
qed

end
