(* ===== verification/Spec2Isabelle.thy ===== *)
theory Spec2Isabelle
  imports Governance_Facts Governor Kv_Ledger Merge_Facts Precheck_Facts Store_Refinement Approvals_Facts Teams_Facts Team_Reports_Facts Custody Spool_Facts Async_Facts
begin

text \<open>
  Pollard keeps the calls of an agent program as a tree of immutable, content-addressed nodes in a store,
  and refuses a call that a policy, a schema or a budget forbids. This development models the library
  (\<open>src/pollard/\<close>): identity and digests, the stores, verification and seals, the exact accounting,
  shared reservations, governance and merging, the action registry, the runtime with replay, and the
  contracts of agent teams built on it.

  Reading order, from the bottom: a store is written through the digests of its nodes; the runtime appends
  nodes to a store, after the registry, the policies and the budgets admitted the call; approvals,
  dependencies and teams are notes the runtime records and loops that read them back.
\<close>

section \<open>How the program is represented\<close>

text \<open>
  \<^item> A \<open>str\<close> is a \<^typ>\<open>string\<close> whose characters are the code points below 256, and so is a
    \<open>bytes\<close>, of its bytes (\<open>utf8_encode\<close> and \<open>utf8_decode\<close> between them). An \<open>int\<close> is an \<^typ>\<open>int\<close>, a \<open>dict\<close> is an association list in
    insertion order (\<open>dget\<close>, \<open>dset\<close>), because the code depends on that order when it prints and walks.
  \<^item> A JSON value is the datatype \<open>json\<close>; a finite \<open>float\<close> is the decimal its shortest \<open>repr\<close> names,
    and \<open>decimal.Decimal\<close> is a coefficient and an exponent (\<open>Numbers\<close>).
  \<^item> An exception is a constructor of \<open>exc\<close>, and an operation that can raise returns \<open>exc + 'a\<close>
    (\<open>'a res\<close>), with \<open>bindR\<close> for the sequence of statements.
  \<^item> A loop that may not end returns an option (\<open>partial_function (option)\<close>): \<open>None\<close> is a loop
    that never returns, and that the loops do return is proved, never assumed.
  \<^item> An operation on the state of a run is an action of \<open>Actions\<close>: it does not return, or gives its
    outcome and the state it leaves, also when it raises.
  \<^item> Handlers, policies, callbacks, comparators and meters of the caller are functions passed to the
    definitions. The clock and the measurements around a call are the record \<open>moment\<close>, an input of
    every operation that reads them. A backend of the key/value store is its buckets; a lost connection is
    a parameter of the retry.
  \<^item> SHA-256 is computed (\<open>Sha256\<close>, with the published vector in \<open>Vectors\<close>), so that a statement
    about digests says "or a collision" and exhibits it, and never assumes there is none.
\<close>

section \<open>The theories\<close>

text \<open>
  \<^bold>\<open>Identity.\<close> \<open>Json\<close>, \<open>Json_Literals\<close>, \<open>Json_Round_Trip\<close>, \<open>Json_Reads\<close>: \<open>json.dumps\<close> with
  sorted keys and \<open>json.loads\<close>, and that reading undoes writing up to the order of keys. \<open>Canon\<close>:
  \<open>_canon.py\<close>, \<open>hashing.py\<close> and \<open>redaction.py\<close>. \<open>Nodes\<close>: \<open>tree.py\<close>; \<open>node\<close> is the dataclass and
  \<open>post_init\<close>, \<open>from_storage\<close> its constructors. \<open>Vectors\<close>: digests computed in the logic.

  \<^bold>\<open>Stores.\<close> \<open>Walk\<close>: the depth-first generator. \<open>Store\<close>: the protocol \<open>store_ops\<close> of
  \<open>store.py\<close>, its contract as the locale \<open>store_contract\<close>, and \<open>MemoryStore\<close> (\<open>mem_ops\<close>,
  state \<open>mem\<close>: the nodes, the children and the results in conflict), which interprets it.
  \<open>Store_Facts\<close>: append-only writes, walks, collisions and conflicts. \<open>Kv\<close>, \<open>Kv_Facts\<close>:
  the rows of \<open>stores/_transactional.py\<close> (\<open>kv_ops\<close>), a second interpretation. \<open>Kv_Retry\<close>: writes sent
  twice after a lost connection. \<open>Store_Refinement\<close>: one abstract log, refined by both stores (the locale
  \<open>log_store\<close> extends the contract).

  \<^bold>\<open>Evidence.\<close> \<open>Verify\<close>: \<open>verify.py\<close>, its termination, what it accepts (\<open>lineage\<close>) and what a tampered
  store needs. \<open>Seal\<close>: the hash chain of \<open>seal.py\<close>. \<open>Governance\<close>, \<open>Governance_Facts\<close>:
  garbage collection, export and import (\<open>governance.py\<close>). \<open>Merge\<close>, \<open>Merge_Facts\<close>: \<open>merge.py\<close>
  with the plan in memory; \<open>Spool\<close>, \<open>Spool_Facts\<close>: its disk-backed plan (\<open>_MergeSpool\<close>).

  \<^bold>\<open>Budgets.\<close> \<open>Numbers\<close>, \<open>Decimal_Text\<close>: exact decimals. \<open>Governor\<close>: \<open>governor.py\<close>. \<open>Meters\<close>:
  \<open>meters/__init__.py\<close>. \<open>Arbiter\<close>, \<open>Kv_Arbiter\<close>, \<open>Kv_Ledger\<close>: reserve, settle, release and renew, with
  what an admitted reservation guarantees. \<open>Scopes\<close>: \<open>scopes.py\<close>.

  \<^bold>\<open>The runtime.\<close> \<open>Schema\<close>, \<open>Registry\<close>, \<open>Registry_Facts\<close>: \<open>schema.py\<close> and \<open>registry.py\<close>. \<open>Replay\<close>:
  \<open>replay.py\<close>. \<open>Revalidation\<close>: \<open>revalidation.py\<close>. \<open>Streams\<close>, \<open>Stream_Facts\<close>: what a step returns, with
  the objects a stream shares on an explicit heap. \<open>Run_State\<close>, \<open>Precheck\<close>, \<open>Runtime\<close>: \<open>runtime.py\<close>, in
  the order of the file; \<open>run\<close> is the object \<open>Run\<close> and \<open>runtime\<close> its \<open>Runtime\<close>. \<open>Runtime_Facts\<close>:
  the requests to a run as a step relation \<open>run_step\<close>, and the locale \<open>runtime_steps\<close>, in which every
  operation of the runtime is walked through once; it is interpreted for replay (nothing is written) and
  for \<open>MemoryStore\<close> (the tree grows). \<open>Precheck_Facts\<close>: an admitted call fits its budgets.
  \<open>Async\<close>: \<open>aio.py\<close>, a call as two halves with the other tasks between them (\<open>task\<close>). \<open>Async_Facts\<close>:
  the interleavings as a step relation \<open>task_step\<close>, and the call that nothing disturbs.

  \<^bold>\<open>Teams.\<close> \<open>Team_Context\<close>: \<open>team_context.py\<close>. \<open>Dependencies\<close>, \<open>Dependencies_Facts\<close>:
  \<open>dependencies.py\<close>. \<open>Approvals\<close>, \<open>Approvals_Facts\<close>: \<open>approvals.py\<close>. \<open>Teams\<close>, \<open>Teams_Facts\<close>: \<open>teams.py\<close>.
  \<open>Team_Reports\<close>, \<open>Team_Reports_Facts\<close>: \<open>team_reports.py\<close>. \<open>Custody\<close>: \<open>seal_custody.py\<close>.

  \<open>Prelude\<close> and \<open>Actions\<close> hold the result types, the dictionaries, the sequencing of statements and the
  rules the other theories share.
\<close>

section \<open>What is shown\<close>

text \<open>
  \<^item> Identity: equal ids mean equal identity fields; a redaction marker binds what it hides; a node read
    back from storage is the node written; each up to a collision of SHA-256 that the statement exhibits.
  \<^item> Stores: \<open>put\<close> only adds, \<open>walk\<close> yields the subtree once with parents first, and \<open>MemoryStore\<close> and the
    key/value store answer the same to every sequence of writes, as an abstract log does. A write or a
    reservation sent twice has the effect of one.
  \<^item> Evidence: verification ends on every store, and two stores that verify at one id hold one lineage;
    equal seals mean equal subtrees. Import and merge change nothing when they raise, and the
    two passes of a merge read one plan even if the spool file is replaced between them.
  \<^item> Budgets: a call is admitted exactly within every limit; a reservation fits what is settled and reserved
    by others; charges are exact sums.
  \<^item> Runtime: whatever the requests, a replay writes nothing, and a run on a \<open>MemoryStore\<close> keeps the
    invariant and every stored node, also when asynchronous calls overlap. An awaited call that nothing
    disturbs is the synchronous call. Without a reserving store, calls that overlap are each admitted against
    what was spent before any of them started.
  \<^item> Teams: an approval is consumed by one dispatch and only for the action requested; a clean dependency
    report means every reference commits to a recorded result of the run; attachment never widens
    authority; a team report counts every node once.

  Some properties record behaviour that a caller should know: verification accepts a store that answers
  with another consistent node, and a reservation under a budget that limits only depth cannot be settled.
\<close>

section \<open>Termination, bounds and fuel\<close>

text \<open>
  \<^item> \<open>verify_loop\<close> keeps the ids it has seen, so it ends on any store, cyclic ones included. The loops
    to the root without such a set (\<open>climb\<close>, \<open>depth_loop\<close>, \<open>ancestor_loop\<close>, \<open>find_request\<close>,
    \<open>ancestry\<close>) end where parents exist, which the contract of a store gives by the length of the
    path to the root; \<open>walk_loop\<close> and \<open>tree_loop\<close> end because a tree has finitely many nodes.
  \<^item> \<open>json.loads\<close> descends with fuel, the length of the text plus one: each call consumes a character
    (the round trip shows that the fuel is enough for every text that was written).
  \<^item> \<open>resolve\<close> of \<open>Schema\<close> uses the number of references in the document as fuel: a chain
    of active references has no repetition, so a longer one cannot occur (\<open>enough\<close>).
  \<^item> \<open>configuration_value\<close> of \<open>Teams\<close> recurses at most 16 levels, the bound of the code, and its measure is
    that bound less the depth.
  \<^item> The objects of a stream are read, and merged, to a depth of the number of objects on the heap: they
    are trees that share no cycle, so a path through them is no longer than that.
\<close>

section \<open>Not modelled\<close>

text \<open>
  \<^item> In \<open>Async\<close> other tasks run where a call is suspended at the await of its step function; the awaits
    between the chunks of one stream are not interleaved. The heartbeat thread that renews a lease, and the
    \<open>on_node\<close> callback, are left out of \<open>Runtime\<close>; the renewal itself is in \<open>Kv_Arbiter\<close>.
  \<^item> \<open>revalidate_model_call\<close> is a definition of \<open>Runtime\<close> but no request of \<open>run_step\<close>: it calls the
    comparator of the caller between its writes.
  \<^item> The SQLite files of the merge spool and of the custody log are what their queries return; an I/O error
    while one is written is left out.
  \<^item> \<open>cli.py\<close>, \<open>codex_cli.py\<close>: parsing of arguments and printing over the modelled operations.
  \<^item> \<open>stores/sqlite.py\<close> and the drivers beside it send statements to databases; \<open>adapters/\<close>,
    \<open>estimators/\<close>, \<open>mcp.py\<close>, \<open>mcp_server.py\<close>, \<open>otel.py\<close> and \<open>pytest_plugin.py\<close> translate to packages that are
    not part of the repository; \<open>meters/energy.py\<close> reads hardware counters and \<open>meters/tokenmaster.py\<close>
    wraps an external package. What depends on them takes a function in their place.
  \<^item> Opening a store from a path, reading and writing files: the text is passed to, or built by, the
    modelled functions.
\<close>

end
